(* ===== verification/Termpane_Prelude.thy ===== *)
theory Termpane_Prelude
  imports Main "HOL-Library.Word" "HOL-Library.Monad_Syntax"
begin

text \<open>
  Shared vocabulary of the development.

  \<^item> Machine integers. \<open>u8\<close> is an 8-bit word. \<open>u16\<close> and \<open>usize\<close> are natural numbers with the
    width written out: saturating subtraction is subtraction on \<open>nat\<close>, saturating addition is
    \<open>u16_sat_add\<close>, a cast is \<open>as_u16\<close>, and the plain Rust operators are the checked
    \<open>u16_add\<close>, \<open>u16_sub\<close>, \<open>u16_mul\<close> and \<open>usize_sub\<close>, which fail where the Rust operator panics.
  \<^item> Panics. A function that can panic returns an \<open>option\<close>, with \<open>None\<close> for the panic (an index or
    slice out of range, or arithmetic overflow in a checked build). \<open>ok r P\<close> is total
    correctness: \<open>r\<close> does not panic and its value satisfies \<open>P\<close>. Its rules are collected in
    \<open>ok_rules\<close>; they compute the precondition of a \<open>do\<close> block.
  \<^item> The parts of the Rust standard library the code uses: indexing, slices, \<open>fill\<close>,
    \<open>copy_within\<close>, \<open>binary_search_by_key\<close>, \<open>VecDeque\<close> insertion and removal, \<open>position\<close> and
    \<open>rposition\<close>, decimal formatting and UTF-8.
\<close>

unbundle bit_operations_syntax

section \<open>Integers\<close>

type_synonym u8 = "8 word"
type_synonym u16 = nat
type_synonym usize = nat

definition u16_max :: u16 where
  "u16_max = 65535"

definition u16_add :: "u16 \<Rightarrow> u16 \<Rightarrow> u16 option" where
  "u16_add a b = (if a + b \<le> u16_max then Some (a + b) else None)"

definition u16_sub :: "u16 \<Rightarrow> u16 \<Rightarrow> u16 option" where
  "u16_sub a b = (if b \<le> a then Some (a - b) else None)"

definition u16_mul :: "u16 \<Rightarrow> u16 \<Rightarrow> u16 option" where
  "u16_mul a b = (if a * b \<le> u16_max then Some (a * b) else None)"

definition u16_sat_add :: "u16 \<Rightarrow> u16 \<Rightarrow> u16" where
  "u16_sat_add a b = min (a + b) u16_max"

definition as_u16 :: "usize \<Rightarrow> u16" where
  "as_u16 n = n mod 65536"

definition usize_sub :: "usize \<Rightarrow> usize \<Rightarrow> usize option" where
  "usize_sub a b = (if b \<le> a then Some (a - b) else None)"

lemma as_u16_id [simp]: "n < 65536 \<Longrightarrow> as_u16 n = n"
  by (simp add: as_u16_def)

section \<open>Computations that can panic\<close>

named_theorems ok_rules \<open>total-correctness rules for computations that can panic\<close>

definition ok :: "'a option \<Rightarrow> ('a \<Rightarrow> bool) \<Rightarrow> bool" where
  "ok r P \<longleftrightarrow> (case r of None \<Rightarrow> False | Some x \<Rightarrow> P x)"

lemma ok_Some [simp, ok_rules]: "ok (Some x) P \<longleftrightarrow> P x"
  by (simp add: ok_def)

lemma ok_None [simp, ok_rules]: "\<not> ok None P"
  by (simp add: ok_def)

lemma ok_bind [simp, ok_rules]: "ok (Option.bind r f) P \<longleftrightarrow> ok r (\<lambda>x. ok (f x) P)"
  by (cases r) simp_all

lemma ok_if [ok_rules]: "ok (if b then r else s) P \<longleftrightarrow> (b \<longrightarrow> ok r P) \<and> (\<not> b \<longrightarrow> ok s P)"
  by simp

lemma ok_mono: "ok r P \<Longrightarrow> (\<And>x. r = Some x \<Longrightarrow> P x \<Longrightarrow> Q x) \<Longrightarrow> ok r Q"
  by (cases r) simp_all

lemma ok_mono_all: "ok r P \<Longrightarrow> (\<And>x. P x \<Longrightarrow> Q x) \<Longrightarrow> ok r Q"
  by (cases r) simp_all

lemma ok_conj: "ok r P \<Longrightarrow> ok r Q \<Longrightarrow> ok r (\<lambda>x. P x \<and> Q x)"
  by (cases r) simp_all

lemma ok_iff_ex: "ok r P \<longleftrightarrow> (\<exists>x. r = Some x \<and> P x)"
  by (cases r) simp_all

lemma ok_SomeD: "ok r P \<Longrightarrow> r = Some x \<Longrightarrow> P x"
  by simp

lemma ok_no_panic: "ok r P \<Longrightarrow> r \<noteq> None"
  by (cases r) simp_all

lemma ok_u16_add [simp, ok_rules]: "ok (u16_add a b) P \<longleftrightarrow> a + b \<le> u16_max \<and> P (a + b)"
  by (simp add: u16_add_def)

lemma ok_u16_sub [simp, ok_rules]: "ok (u16_sub a b) P \<longleftrightarrow> b \<le> a \<and> P (a - b)"
  by (simp add: u16_sub_def)

lemma ok_u16_mul [simp, ok_rules]: "ok (u16_mul a b) P \<longleftrightarrow> a * b \<le> u16_max \<and> P (a * b)"
  by (simp add: u16_mul_def)

lemma ok_usize_sub [simp, ok_rules]: "ok (usize_sub a b) P \<longleftrightarrow> b \<le> a \<and> P (a - b)"
  by (simp add: usize_sub_def)

text \<open>\<open>for _ in 0..n\<close> and \<open>for x in xs\<close> over a state that a panic can abandon.\<close>

primrec repeat_opt :: "nat \<Rightarrow> ('s \<Rightarrow> 's option) \<Rightarrow> 's \<Rightarrow> 's option" where
  "repeat_opt 0 f s = Some s"
| "repeat_opt (Suc n) f s = Option.bind (f s) (repeat_opt n f)"

primrec fold_opt :: "('a \<Rightarrow> 's \<Rightarrow> 's option) \<Rightarrow> 'a list \<Rightarrow> 's \<Rightarrow> 's option" where
  "fold_opt f [] s = Some s"
| "fold_opt f (x # xs) s = Option.bind (f x s) (fold_opt f xs)"

lemma fold_opt_append:
  "fold_opt f (xs @ ys) s = Option.bind (fold_opt f xs s) (fold_opt f ys)"
  by (induction xs arbitrary: s) (auto simp: Option.bind_assoc fun_eq_iff intro!: Option.bind_cong)

lemma repeat_opt_inv:
  assumes step: "\<And>s. I s \<Longrightarrow> ok (f s) I" and init: "I s"
  shows "ok (repeat_opt n f s) I"
  using init
proof (induction n arbitrary: s)
  case (Suc n)
  from step [OF Suc.prems] show ?case
    by (auto simp: ok_iff_ex dest: Suc.IH)
qed simp

lemma fold_opt_inv:
  assumes step: "\<And>x s. x \<in> set xs \<Longrightarrow> I s \<Longrightarrow> ok (f x s) I" and init: "I s"
  shows "ok (fold_opt f xs s) I"
  using assms
proof (induction xs arbitrary: s)
  case (Cons x xs)
  have "ok (f x s) I" using Cons.prems by simp
  then show ?case
    using Cons.IH Cons.prems(1) by (auto simp: ok_iff_ex)
qed simp

section \<open>Vectors and slices\<close>

definition vec_get :: "'a list \<Rightarrow> usize \<Rightarrow> 'a option" where
  "vec_get xs i = (if i < length xs then Some (xs ! i) else None)"

definition vec_set :: "'a list \<Rightarrow> usize \<Rightarrow> 'a \<Rightarrow> 'a list option" where
  "vec_set xs i x = (if i < length xs then Some (xs[i := x]) else None)"

definition slice_fill :: "'a list \<Rightarrow> usize \<Rightarrow> usize \<Rightarrow> 'a \<Rightarrow> 'a list option" where
  "slice_fill xs s e x =
     (if s \<le> e \<and> e \<le> length xs then Some (take s xs @ replicate (e - s) x @ drop e xs) else None)"

definition copy_within :: "'a list \<Rightarrow> usize \<Rightarrow> usize \<Rightarrow> usize \<Rightarrow> 'a list option" where
  "copy_within xs s e d =
     (if s \<le> e \<and> e \<le> length xs \<and> d + (e - s) \<le> length xs
      then Some (take d xs @ take (e - s) (drop s xs) @ drop (d + (e - s)) xs) else None)"

lemma ok_vec_get [simp, ok_rules]: "ok (vec_get xs i) P \<longleftrightarrow> i < length xs \<and> P (xs ! i)"
  by (simp add: vec_get_def)

lemma ok_vec_set [simp, ok_rules]: "ok (vec_set xs i x) P \<longleftrightarrow> i < length xs \<and> P (xs[i := x])"
  by (simp add: vec_set_def)

lemma ok_slice_fill [ok_rules]:
  "ok (slice_fill xs s e x) P \<longleftrightarrow>
     s \<le> e \<and> e \<le> length xs \<and> P (take s xs @ replicate (e - s) x @ drop e xs)"
  by (auto simp: slice_fill_def)

lemma vec_get_eq_Some [simp]: "vec_get xs i = Some x \<longleftrightarrow> i < length xs \<and> x = xs ! i"
  by (auto simp: vec_get_def)

lemma vec_get_eq_None [simp]: "vec_get xs i = None \<longleftrightarrow> length xs \<le> i"
  by (auto simp: vec_get_def)

lemma nth_filled:
  assumes "s \<le> e" "e \<le> length xs" "i < length xs"
  shows "(take s xs @ replicate (e - s) x @ drop e xs) ! i = (if s \<le> i \<and> i < e then x else xs ! i)"
  using assms by (auto simp: nth_append)

text \<open>\<open>VecDeque::insert\<close> (the callers clamp the index) and \<open>VecDeque::remove\<close>.\<close>

definition deque_insert :: "'a list \<Rightarrow> usize \<Rightarrow> 'a \<Rightarrow> 'a list" where
  "deque_insert xs i x = take i xs @ x # drop i xs"

definition deque_remove :: "'a list \<Rightarrow> usize \<Rightarrow> ('a \<times> 'a list) option" where
  "deque_remove xs i = (if i < length xs then Some (xs ! i, take i xs @ drop (Suc i) xs) else None)"

lemma length_deque_insert [simp]: "i \<le> length xs \<Longrightarrow> length (deque_insert xs i x) = Suc (length xs)"
  by (simp add: deque_insert_def)

lemma set_deque_insert [simp]: "set (deque_insert xs i x) = insert x (set xs)"
proof -
  have "set xs = set (take i xs) \<union> set (drop i xs)"
    by (metis append_take_drop_id set_append)
  then show ?thesis by (auto simp: deque_insert_def)
qed

lemma deque_remove_SomeD:
  assumes "deque_remove xs i = Some (x, ys)"
  shows "i < length xs" "x = xs ! i" "length ys = length xs - 1" "set ys \<subseteq> set xs" "x \<in> set xs"
  using assms
  by (auto simp: deque_remove_def dest: in_set_takeD in_set_dropD split: if_splits)

text \<open>\<open>Iterator::position\<close> and \<open>rposition\<close>.\<close>

fun position :: "('a \<Rightarrow> bool) \<Rightarrow> 'a list \<Rightarrow> usize option" where
  "position p [] = None"
| "position p (x # xs) = (if p x then Some 0 else map_option Suc (position p xs))"

fun rposition :: "('a \<Rightarrow> bool) \<Rightarrow> 'a list \<Rightarrow> usize option" where
  "rposition p [] = None"
| "rposition p (x # xs) =
     (case rposition p xs of Some i \<Rightarrow> Some (Suc i) | None \<Rightarrow> if p x then Some 0 else None)"

lemma position_SomeD:
  "position p xs = Some i \<Longrightarrow> i < length xs \<and> p (xs ! i) \<and> (\<forall>j < i. \<not> p (xs ! j))"
proof (induction xs arbitrary: i)
  case (Cons x xs)
  show ?case
  proof (cases "p x")
    case False
    with Cons.prems obtain k where "position p xs = Some k" "i = Suc k" by auto
    with Cons.IH [of k] False show ?thesis by (auto simp: less_Suc_eq_0_disj)
  qed (use Cons.prems in auto)
qed simp

lemma position_NoneD: "position p xs = None \<longleftrightarrow> (\<forall>x \<in> set xs. \<not> p x)"
  by (induction xs) auto

lemma rposition_SomeD:
  "rposition p xs = Some i \<Longrightarrow> i < length xs \<and> p (xs ! i) \<and> (\<forall>j. i < j \<and> j < length xs \<longrightarrow> \<not> p (xs ! j))"
proof (induction xs arbitrary: i)
  case (Cons x xs)
  have none: "rposition p xs = None \<Longrightarrow> \<forall>y \<in> set xs. \<not> p y" for xs
    by (induction xs) (auto split: option.splits if_splits)
  show ?case
  proof (cases "rposition p xs")
    case None
    with Cons.prems none [OF None] show ?thesis
      by (auto simp: nth_Cons' split: if_splits)
  next
    case (Some k)
    with Cons.prems Cons.IH [of k] show ?thesis
      by (auto simp: nth_Cons' Suc_less_eq2)
  qed
qed simp

lemma rposition_NoneD: "rposition p xs = None \<longleftrightarrow> (\<forall>x \<in> set xs. \<not> p x)"
  by (induction xs) (auto split: option.splits)

section \<open>Binary search\<close>

text \<open>
  \<open>slice::binary_search_by_key\<close> as the standard library implements it: halve the window
  \<open>[base, base + size)\<close> while it holds more than one element, then compare once more.
  \<open>Inr i\<close> is \<open>Ok(i)\<close>, \<open>Inl i\<close> is \<open>Err(i)\<close>.
\<close>

function bs_loop :: "(usize \<Rightarrow> nat) \<Rightarrow> nat \<Rightarrow> usize \<Rightarrow> usize \<Rightarrow> usize" where
  "bs_loop key k base sz =
     (if 1 < sz
      then bs_loop key k (if k < key (base + sz div 2) then base else base + sz div 2) (sz - sz div 2)
      else base)"
  by pat_completeness auto
termination
  by (relation "measure (\<lambda>(key, k, base, sz). sz)") auto

declare bs_loop.simps [simp del]

definition binary_search_by_key :: "'a list \<Rightarrow> nat \<Rightarrow> ('a \<Rightarrow> nat) \<Rightarrow> usize + usize" where
  "binary_search_by_key xs k f =
     (if xs = [] then Inl 0
      else let base = bs_loop (\<lambda>i. f (xs ! i)) k 0 (length xs)
           in if f (xs ! base) = k then Inr base
              else Inl (base + (if f (xs ! base) < k then 1 else 0)))"

lemma bs_loop_spec:
  assumes "strict_mono_on {..<n} key" "0 < sz" "base + sz \<le> n" "\<forall>i < base. key i < k"
    and "\<forall>i < n. base + sz \<le> i \<longrightarrow> k < key i" "base = 0 \<or> key base \<le> k"
    and "b = bs_loop key k base sz"
  shows "b < n \<and> (\<forall>i < b. key i < k) \<and> (\<forall>i < n. b < i \<longrightarrow> k < key i) \<and> (b = 0 \<or> key b \<le> k)"
  using assms
proof (induction key k base sz rule: bs_loop.induct)
  case (1 key k base sz)
  show ?case
  proof (cases "1 < sz")
    case False
    with "1.prems" show ?thesis
      by (auto simp: bs_loop.simps [of key k base sz])
  next
    case True
    let ?mid = "base + sz div 2" and ?sz' = "sz - sz div 2"
    have mid: "base < ?mid" "?mid < n" "0 < ?sz'" "base + ?sz' \<le> n" "?mid + ?sz' = base + sz"
      using True "1.prems"(3) by auto
    have less: "key i < key j" if "i < j" "j < n" for i j
      using "1.prems"(1) that by (auto simp: strict_mono_on_def)
    show ?thesis
    proof (cases "k < key ?mid")
      case lt: True
      have gt: "\<forall>i < n. base + ?sz' \<le> i \<longrightarrow> k < key i"
      proof (intro allI impI)
        fix i assume i: "i < n" "base + ?sz' \<le> i"
        then have "?mid = i \<or> ?mid < i" by linarith
        then show "k < key i" using lt less [of ?mid i] i(1) by auto
      qed
      have b: "b = bs_loop key k base ?sz'"
        using "1.prems"(7) True lt by (simp add: bs_loop.simps [of key k base sz])
      show ?thesis
        by (rule "1.IH" [unfolded if_P [OF lt], OF True "1.prems"(1) mid(3,4) "1.prems"(4) gt "1.prems"(6) b])
    next
      case ge: False
      have lt: "\<forall>i < ?mid. key i < k"
        using ge less [OF _ mid(2)] by fastforce
      have b: "b = bs_loop key k ?mid ?sz'"
        using "1.prems"(7) True ge by (simp add: bs_loop.simps [of key k base sz])
      have le: "?mid + ?sz' \<le> n" "?mid = 0 \<or> key ?mid \<le> k"
        using mid(5) "1.prems"(3) ge by auto
      have gt: "\<forall>i < n. ?mid + ?sz' \<le> i \<longrightarrow> k < key i"
        using "1.prems"(5) mid(5) by simp
      show ?thesis
        by (rule "1.IH" [unfolded if_not_P [OF ge], OF True "1.prems"(1) mid(3) le(1) lt gt le(2) b])
    qed
  qed
qed

lemma binary_search_by_key_cases:
  assumes "sorted_wrt (<) (map f xs)"
  shows "case binary_search_by_key xs k f of
      Inr i \<Rightarrow> i < length xs \<and> f (xs ! i) = k
    | Inl i \<Rightarrow> i \<le> length xs \<and> (\<forall>j < i. f (xs ! j) < k) \<and> (\<forall>j < length xs. i \<le> j \<longrightarrow> k < f (xs ! j))"
proof (cases "xs = []")
  case True
  then show ?thesis by (simp add: binary_search_by_key_def)
next
  case False
  have mono: "strict_mono_on {..<length xs} (\<lambda>i. f (xs ! i))"
    using assms by (auto simp: strict_mono_on_def sorted_wrt_iff_nth_less)
  define b where "b = bs_loop (\<lambda>i. f (xs ! i)) k 0 (length xs)"
  have b: "b < length xs" "\<forall>i < b. f (xs ! i) < k" "\<forall>i < length xs. b < i \<longrightarrow> k < f (xs ! i)"
    "b = 0 \<or> f (xs ! b) \<le> k"
    using bs_loop_spec [OF mono, of "length xs" 0 k b] False
    by (simp_all add: b_def)
  consider "f (xs ! b) = k" | "f (xs ! b) < k" | "k < f (xs ! b)" by linarith
  then show ?thesis
  proof cases
    case 1
    then show ?thesis
      using b(1) False by (simp add: binary_search_by_key_def b_def [symmetric])
  next
    case 2
    then have "\<forall>j < Suc b. f (xs ! j) < k" using b(2) by (auto simp: less_Suc_eq)
    with 2 show ?thesis
      using b(1,3) False by (simp add: binary_search_by_key_def b_def [symmetric] Suc_le_eq)
  next
    case 3
    then have "b = 0" using b(4) by auto
    with 3 show ?thesis
      using b(1,3) False by (auto simp: binary_search_by_key_def b_def [symmetric] le_less)
  qed
qed

end
