(* ===== verification/Utf8.thy ===== *)
theory Utf8
  imports Termpane_Prelude
begin

text \<open>
  Characters, strings and bytes: what the code uses of \<open>char\<close>, \<open>str\<close> and
  \<open>std::str::from_utf8\<close>. A Rust \<open>char\<close> is its code point, a string the list of its code points,
  and \<open>utf8\<close> gives the bytes. \<open>valid_up_to\<close> is \<open>Utf8Error::valid_up_to\<close> (the length where every
  byte is valid), and \<open>from_utf8\<close> succeeds exactly there.
\<close>

type_synonym uchar = nat
type_synonym ustr = "uchar list"

definition byte :: "nat \<Rightarrow> u8" where
  "byte n = of_nat n"

lemma unat_byte: "n < 256 \<Longrightarrow> unat (byte n) = n"
  by (simp add: byte_def unat_of_nat take_bit_eq_mod)

definition bytes :: "string \<Rightarrow> u8 list" where
  "bytes s = map of_char s"

definition esc :: "string \<Rightarrow> u8 list" where
  "esc s = 0x1b # bytes s"

definition str :: "string \<Rightarrow> ustr" where
  "str s = map of_char s"

lemma bytes_simps [simp]: "bytes [] = []" "bytes (c # cs) = of_char c # bytes cs"
  by (simp_all add: bytes_def)

section \<open>Encoding\<close>

definition utf8_enc :: "uchar \<Rightarrow> u8 list" where
  "utf8_enc c =
     (if c < 0x80 then [byte c]
      else if c < 0x800 then [byte (0xC0 + c div 64), byte (0x80 + c mod 64)]
      else if c < 0x10000 then
        [byte (0xE0 + c div 4096), byte (0x80 + c div 64 mod 64), byte (0x80 + c mod 64)]
      else
        [byte (0xF0 + c div 262144), byte (0x80 + c div 4096 mod 64),
         byte (0x80 + c div 64 mod 64), byte (0x80 + c mod 64)])"

definition utf8 :: "ustr \<Rightarrow> u8 list" where
  "utf8 s = concat (map utf8_enc s)"

definition is_scalar :: "uchar \<Rightarrow> bool" where
  "is_scalar c \<longleftrightarrow> c < 0xD800 \<or> (0xE000 \<le> c \<and> c < 0x110000)"

lemma utf8_append [simp]: "utf8 (s @ t) = utf8 s @ utf8 t"
  by (simp add: utf8_def)

lemma utf8_Nil [simp]: "utf8 [] = []"
  by (simp add: utf8_def)

lemma utf8_enc_nonempty [simp]: "utf8_enc c \<noteq> []"
  by (simp add: utf8_enc_def)

section \<open>Decoding\<close>

definition cont :: "nat \<Rightarrow> bool" where
  "cont b \<longleftrightarrow> 0x80 \<le> b \<and> b \<le> 0xBF"

text \<open>The first character of a byte string and its length: the table of well-formed sequences.\<close>

definition utf8_step :: "u8 list \<Rightarrow> (uchar \<times> usize) option" where
  "utf8_step bs = (case map unat bs of
       [] \<Rightarrow> None
     | a # rest \<Rightarrow>
        if a < 0x80 then Some (a, 1)
        else if 0xC2 \<le> a \<and> a \<le> 0xDF then
          (case rest of b # _ \<Rightarrow> if cont b then Some ((a - 0xC0) * 64 + (b - 0x80), 2) else None | [] \<Rightarrow> None)
        else if 0xE0 \<le> a \<and> a \<le> 0xEF then
          (case rest of b # c # _ \<Rightarrow>
             if cont b \<and> cont c \<and> (a = 0xE0 \<longrightarrow> 0xA0 \<le> b) \<and> (a = 0xED \<longrightarrow> b \<le> 0x9F)
             then Some ((a - 0xE0) * 4096 + (b - 0x80) * 64 + (c - 0x80), 3) else None
           | _ \<Rightarrow> None)
        else if 0xF0 \<le> a \<and> a \<le> 0xF4 then
          (case rest of b # c # d # _ \<Rightarrow>
             if cont b \<and> cont c \<and> cont d \<and> (a = 0xF0 \<longrightarrow> 0x90 \<le> b) \<and> (a = 0xF4 \<longrightarrow> b \<le> 0x8F)
             then Some ((a - 0xF0) * 262144 + (b - 0x80) * 4096 + (c - 0x80) * 64 + (d - 0x80), 4) else None
           | _ \<Rightarrow> None)
        else None)"

lemma four_byte_cases:
  obtains "bs = []" | a where "bs = [a]" | a b where "bs = [a, b]" | a b c where "bs = [a, b, c]"
    | a b c d ds where "bs = a # b # c # d # ds"
  by (metis neq_Nil_conv)

lemma utf8_step_length: "utf8_step bs = Some (c, n) \<Longrightarrow> 0 < n \<and> n \<le> length bs"
  by (cases bs rule: four_byte_cases) (auto simp: utf8_step_def split: if_splits)

lemma utf8_step_append: "utf8_step bs = Some r \<Longrightarrow> utf8_step (bs @ cs) = Some r"
  by (cases bs rule: four_byte_cases) (auto simp: utf8_step_def split: if_splits)

function valid_up_to :: "u8 list \<Rightarrow> usize" where
  "valid_up_to bs = (case utf8_step bs of None \<Rightarrow> 0 | Some (c, n) \<Rightarrow> n + valid_up_to (drop n bs))"
  by pat_completeness auto
termination
  by (relation "measure length") (auto dest: utf8_step_length)

function decode_prefix :: "u8 list \<Rightarrow> ustr" where
  "decode_prefix bs = (case utf8_step bs of None \<Rightarrow> [] | Some (c, n) \<Rightarrow> c # decode_prefix (drop n bs))"
  by pat_completeness auto
termination
  by (relation "measure length") (auto dest: utf8_step_length)

declare valid_up_to.simps [simp del] decode_prefix.simps [simp del]

definition from_utf8 :: "u8 list \<Rightarrow> ustr option" where
  "from_utf8 bs = (if valid_up_to bs = length bs then Some (decode_prefix bs) else None)"

lemma valid_up_to_Nil [simp]: "valid_up_to [] = 0"
  by (simp add: valid_up_to.simps utf8_step_def)

lemma decode_prefix_Nil [simp]: "decode_prefix [] = []"
  by (simp add: decode_prefix.simps utf8_step_def)

lemma valid_up_to_le: "valid_up_to bs \<le> length bs"
proof (induction bs rule: valid_up_to.induct)
  case (1 bs)
  show ?case
  proof (cases "utf8_step bs")
    case None
    then show ?thesis by (simp add: valid_up_to.simps)
  next
    case (Some r)
    then obtain c n where r: "utf8_step bs = Some (c, n)" by (cases r) auto
    from "1.IH" [OF r refl] have "valid_up_to (drop n bs) \<le> length bs - n" by simp
    with utf8_step_length [OF r] have "n + valid_up_to (drop n bs) \<le> length bs" by linarith
    then show ?thesis by (simp add: valid_up_to.simps [of bs] r)
  qed
qed

text \<open>
  Decoding resumes at the first byte that was not yet valid: appending bytes never changes what
  the valid prefix was, and the rest is decoded together with what follows.
\<close>

lemma valid_up_to_append:
  "valid_up_to (xs @ ys) = valid_up_to xs + valid_up_to (drop (valid_up_to xs) xs @ ys)"
proof (induction xs rule: valid_up_to.induct)
  case (1 xs)
  show ?case
  proof (cases "utf8_step xs")
    case None
    then have "valid_up_to xs = 0" by (simp add: valid_up_to.simps)
    then show ?thesis by simp
  next
    case (Some r)
    then obtain c n where r: "utf8_step xs = Some (c, n)" by (cases r) auto
    have n: "0 < n" "n \<le> length xs" using utf8_step_length [OF r] by auto
    have step: "valid_up_to xs = n + valid_up_to (drop n xs)"
      by (simp add: valid_up_to.simps [of xs] r)
    have "valid_up_to (xs @ ys) = n + valid_up_to (drop n xs @ ys)"
      using n by (simp add: valid_up_to.simps [of "xs @ ys"] utf8_step_append [OF r])
    also have "\<dots> = n + (valid_up_to (drop n xs)
        + valid_up_to (drop (valid_up_to (drop n xs)) (drop n xs) @ ys))"
      using "1.IH" [OF r refl] by simp
    finally show ?thesis by (simp add: step add.commute)
  qed
qed

section \<open>Round trip\<close>

lemma base64_digits: "c div 4096 * 4096 + c div 64 mod 64 * 64 + c mod 64 = (c :: nat)"
proof -
  have "c div 4096 * 64 + c div 64 mod 64 = c div 64"
    using div_mult_mod_eq [of "c div 64" 64] by (simp add: div_mult2_eq [symmetric])
  moreover have "c div 64 * 64 + c mod 64 = c" by (rule div_mult_mod_eq)
  ultimately show ?thesis by linarith
qed

lemma mod64_bound: "(n :: nat) mod 64 \<le> 63"
  by (simp add: less_Suc_eq_le [symmetric])

lemma utf8_step_enc:
  assumes "is_scalar c"
  shows "utf8_step (utf8_enc c @ bs) = Some (c, length (utf8_enc c))"
proof -
  consider (one) "c < 0x80" | (two) "0x80 \<le> c" "c < 0x800" | (three) "0x800 \<le> c" "c < 0x10000"
    | (four) "0x10000 \<le> c" "c < 0x110000"
    using assms by (fastforce simp: is_scalar_def)
  then show ?thesis
  proof cases
    case one
    then show ?thesis by (simp add: utf8_enc_def utf8_step_def unat_byte)
  next
    case two
    then have "2 \<le> c div 64" "c div 64 < 32" by auto
    with two show ?thesis
      by (simp add: utf8_enc_def utf8_step_def unat_byte cont_def)
  next
    case three
    let ?a = "c div 4096" and ?b = "c div 64 mod 64" and ?d = "c mod 64"
    have ab: "?a < 16" "?b < 64" "?d < 64" using three by auto
    have eq: "?a * 4096 + ?b * 64 + ?d = c" by (rule base64_digits)
    have low: "?a = 0 \<Longrightarrow> 32 \<le> ?b" using three eq ab by linarith
    have sur: "?a = 13 \<Longrightarrow> ?b \<le> 31" using assms three eq ab unfolding is_scalar_def by linarith
    show ?thesis
      using three ab eq low sur by (simp add: utf8_enc_def utf8_step_def unat_byte cont_def mod64_bound)
  next
    case four
    let ?a = "c div 262144" and ?b = "c div 4096 mod 64" and ?d = "c div 64 mod 64" and ?e = "c mod 64"
    have ab: "?a < 5" "?b < 64" "?d < 64" "?e < 64" using four by auto
    have eq: "?a * 262144 + ?b * 4096 + ?d * 64 + ?e = c"
      using base64_digits [of c] div_mult_mod_eq [of "c div 4096" 64]
      by (simp add: div_mult2_eq [symmetric])
    have low: "?a = 0 \<Longrightarrow> 16 \<le> ?b" using four eq ab by linarith
    have high: "?a = 4 \<Longrightarrow> ?b \<le> 15" using four eq ab by linarith
    show ?thesis
      using four ab eq low high by (simp add: utf8_enc_def utf8_step_def unat_byte cont_def mod64_bound)
  qed
qed

lemma decode_utf8_append:
  "\<forall>c \<in> set s. is_scalar c \<Longrightarrow>
     decode_prefix (utf8 s @ bs) = s @ decode_prefix bs \<and>
     valid_up_to (utf8 s @ bs) = length (utf8 s) + valid_up_to bs"
proof (induction s)
  case (Cons c s)
  have u: "utf8 (c # s) @ bs = utf8_enc c @ (utf8 s @ bs)" by (simp add: utf8_def)
  have "utf8_step (utf8_enc c @ (utf8 s @ bs)) = Some (c, length (utf8_enc c))"
    using Cons.prems by (intro utf8_step_enc) simp
  with Cons show ?case
    by (simp add: u decode_prefix.simps [of "utf8_enc c @ _"] valid_up_to.simps [of "utf8_enc c @ _"])
       (simp add: utf8_def)
qed simp

lemma from_utf8_utf8: "\<forall>c \<in> set s. is_scalar c \<Longrightarrow> from_utf8 (utf8 s) = Some s"
  using decode_utf8_append [of s "[]"] by (simp add: from_utf8_def)

text \<open>Conversely a decoded character encodes to the bytes it was read from.\<close>

lemma base64_two:
  assumes "z < 64"
  shows "(x * 64 + z) div 64 = (x :: nat)" "(x * 64 + z) mod 64 = z"
  using assms by auto

lemma base64_three:
  assumes "y < 64" "z < 64"
  shows "(x * 4096 + y * 64 + z) div 4096 = (x :: nat)" "(x * 4096 + y * 64 + z) div 64 mod 64 = y"
    "(x * 4096 + y * 64 + z) mod 64 = z"
proof -
  have eq: "x * 4096 + y * 64 + z = (x * 64 + y) * 64 + z" by simp
  show "(x * 4096 + y * 64 + z) div 64 mod 64 = y" "(x * 4096 + y * 64 + z) mod 64 = z"
    unfolding eq base64_two [OF assms(2)] by (rule base64_two [OF assms(1)] refl)+
  have "(x * 4096 + y * 64 + z) div 4096 = (x * 4096 + y * 64 + z) div 64 div 64"
    by (simp add: div_mult2_eq [symmetric])
  then show "(x * 4096 + y * 64 + z) div 4096 = x"
    unfolding eq by (simp only: base64_two [OF assms(2)] base64_two [OF assms(1)])
qed

lemma base64_four:
  assumes "y < 64" "z < 64" "w < 64"
  shows "(x * 262144 + y * 4096 + z * 64 + w) div 262144 = (x :: nat)"
    "(x * 262144 + y * 4096 + z * 64 + w) div 4096 mod 64 = y"
    "(x * 262144 + y * 4096 + z * 64 + w) div 64 mod 64 = z"
    "(x * 262144 + y * 4096 + z * 64 + w) mod 64 = w"
proof -
  have eq: "x * 262144 + y * 4096 + z * 64 + w = (x * 64 + y) * 4096 + z * 64 + w" by simp
  note b = base64_three [OF assms(2,3), of "x * 64 + y"]
  show "(x * 262144 + y * 4096 + z * 64 + w) div 4096 mod 64 = y"
    "(x * 262144 + y * 4096 + z * 64 + w) div 64 mod 64 = z"
    "(x * 262144 + y * 4096 + z * 64 + w) mod 64 = w"
    unfolding eq b by (rule base64_two [OF assms(1)] refl)+
  have "(x * 262144 + y * 4096 + z * 64 + w) div 262144
      = (x * 262144 + y * 4096 + z * 64 + w) div 4096 div 64"
    by (simp add: div_mult2_eq [symmetric])
  then show "(x * 262144 + y * 4096 + z * 64 + w) div 262144 = x"
    unfolding eq b by (simp only: base64_two [OF assms(1)])
qed

lemma byte_unat [simp]: "byte (unat (b :: u8)) = b"
  by (simp add: byte_def)

lemma utf8_enc_three:
  assumes "cont (unat b)" "cont (unat c)" "0xE0 \<le> unat a" "unat a \<le> 0xEF"
    "unat a = 0xE0 \<longrightarrow> 0xA0 \<le> unat b" "unat a = 0xED \<longrightarrow> unat b \<le> 0x9F"
  shows "utf8_enc ((unat a - 0xE0) * 4096 + (unat b - 0x80) * 64 + (unat c - 0x80)) = [a, b, c]"
    "is_scalar ((unat a - 0xE0) * 4096 + (unat b - 0x80) * 64 + (unat c - 0x80))"
proof -
  define x y z where "x = unat a - 0xE0" and "y = unat b - 0x80" and "z = unat c - 0x80"
  have lt: "x < 16" "y < 64" "z < 64" "x = 0 \<longrightarrow> 32 \<le> y" "x = 13 \<longrightarrow> y < 32"
    using assms by (auto simp: x_def y_def z_def cont_def)
  have range: "\<not> x * 4096 + y * 64 + z < 0x800" "x * 4096 + y * 64 + z < 0x10000"
    using lt by (cases "x = 0"; linarith)+
  have eqs: "byte (0xE0 + x) = a" "byte (0x80 + y) = b" "byte (0x80 + z) = c"
    using assms unfolding x_def y_def z_def by (auto simp: cont_def)
  show "utf8_enc ((unat a - 0xE0) * 4096 + (unat b - 0x80) * 64 + (unat c - 0x80)) = [a, b, c]"
    unfolding x_def [symmetric] y_def [symmetric] z_def [symmetric] utf8_enc_def
      base64_three [OF lt(2,3)] eqs using range by simp
  show "is_scalar ((unat a - 0xE0) * 4096 + (unat b - 0x80) * 64 + (unat c - 0x80))"
    unfolding x_def [symmetric] y_def [symmetric] z_def [symmetric] is_scalar_def
    using lt by (cases "x < 13"; cases "x = 13") linarith+
qed

lemma utf8_enc_four:
  assumes "cont (unat b)" "cont (unat c)" "cont (unat d)" "0xF0 \<le> unat a" "unat a \<le> 0xF4"
    "unat a = 0xF0 \<longrightarrow> 0x90 \<le> unat b" "unat a = 0xF4 \<longrightarrow> unat b \<le> 0x8F"
  shows "utf8_enc ((unat a - 0xF0) * 262144 + (unat b - 0x80) * 4096 + (unat c - 0x80) * 64 + (unat d - 0x80))
      = [a, b, c, d]"
    "is_scalar ((unat a - 0xF0) * 262144 + (unat b - 0x80) * 4096 + (unat c - 0x80) * 64 + (unat d - 0x80))"
proof -
  define x y z w where "x = unat a - 0xF0" and "y = unat b - 0x80" and "z = unat c - 0x80"
    and "w = unat d - 0x80"
  have lt: "x < 5" "y < 64" "z < 64" "w < 64" "x = 0 \<longrightarrow> 16 \<le> y" "x = 4 \<longrightarrow> y < 16"
    using assms by (auto simp: x_def y_def z_def w_def cont_def)
  have range: "\<not> x * 262144 + y * 4096 + z * 64 + w < 0x10000" "x * 262144 + y * 4096 + z * 64 + w < 0x110000"
    using lt by (cases "x = 0"; linarith) (use lt in \<open>cases "x = 4"; linarith\<close>)
  have eqs: "byte (0xF0 + x) = a" "byte (0x80 + y) = b" "byte (0x80 + z) = c" "byte (0x80 + w) = d"
    using assms unfolding x_def y_def z_def w_def by (auto simp: cont_def)
  show "utf8_enc ((unat a - 0xF0) * 262144 + (unat b - 0x80) * 4096 + (unat c - 0x80) * 64 + (unat d - 0x80))
      = [a, b, c, d]"
    unfolding x_def [symmetric] y_def [symmetric] z_def [symmetric] w_def [symmetric] utf8_enc_def
      base64_four [OF lt(2-4)] eqs using range by simp
  show "is_scalar ((unat a - 0xF0) * 262144 + (unat b - 0x80) * 4096 + (unat c - 0x80) * 64 + (unat d - 0x80))"
    unfolding x_def [symmetric] y_def [symmetric] z_def [symmetric] w_def [symmetric] is_scalar_def
    using range by linarith
qed

lemma utf8_enc_two:
  assumes "cont (unat b)" "0xC2 \<le> unat a" "unat a \<le> 0xDF"
  shows "utf8_enc ((unat a - 0xC0) * 64 + (unat b - 0x80)) = [a, b]"
    "is_scalar ((unat a - 0xC0) * 64 + (unat b - 0x80))"
proof -
  define x y where "x = unat a - 0xC0" and "y = unat b - 0x80"
  have lt: "2 \<le> x" "x < 32" "y < 64" using assms by (auto simp: x_def y_def cont_def)
  have eqs: "byte (0xC0 + x) = a" "byte (0x80 + y) = b"
    using assms unfolding x_def y_def by (auto simp: cont_def)
  have range: "\<not> x * 64 + y < 0x80" "x * 64 + y < 0x800" using lt by linarith+
  show "utf8_enc ((unat a - 0xC0) * 64 + (unat b - 0x80)) = [a, b]"
    unfolding x_def [symmetric] y_def [symmetric] utf8_enc_def base64_two [OF lt(3)] eqs
    using range by simp
  show "is_scalar ((unat a - 0xC0) * 64 + (unat b - 0x80))"
    unfolding x_def [symmetric] y_def [symmetric] is_scalar_def using range by linarith
qed

lemma utf8_step_inv:
  "utf8_step bs = Some (ch, n) \<Longrightarrow> utf8_enc ch = take n bs \<and> is_scalar ch"
  by (cases bs rule: four_byte_cases)
     (auto simp: utf8_step_def utf8_enc_two utf8_enc_three utf8_enc_four split: if_splits,
       auto simp: utf8_enc_def is_scalar_def)

lemma utf8_decode_prefix:
  "utf8 (decode_prefix bs) = take (valid_up_to bs) bs \<and> (\<forall>c \<in> set (decode_prefix bs). is_scalar c)"
proof (induction bs rule: decode_prefix.induct)
  case (1 bs)
  show ?case
  proof (cases "utf8_step bs")
    case None
    then show ?thesis by (simp add: decode_prefix.simps [of bs] valid_up_to.simps [of bs])
  next
    case (Some r)
    obtain c n where r: "r = (c, n)" by (cases r)
    note IH = "1.IH" [OF Some r [symmetric]]
    have "utf8 (c # s) = utf8_enc c @ utf8 s" for s by (simp add: utf8_def)
    with IH utf8_step_inv [of bs c n] Some r show ?thesis
      by (simp add: decode_prefix.simps [of bs] valid_up_to.simps [of bs] take_add)
  qed
qed

lemma from_utf8_iff: "from_utf8 bs = Some s \<longleftrightarrow> bs = utf8 s \<and> (\<forall>c \<in> set s. is_scalar c)"
proof
  assume "from_utf8 bs = Some s"
  with utf8_decode_prefix [of bs] show "bs = utf8 s \<and> (\<forall>c \<in> set s. is_scalar c)"
    by (auto simp: from_utf8_def split: if_splits)
qed (simp add: from_utf8_utf8)

section \<open>Decimal formatting\<close>

text \<open>\<open>format!\<close> of an unsigned integer, most significant digit first.\<close>

fun decimal :: "nat \<Rightarrow> u8 list" where
  "decimal n = (if n < 10 then [byte (48 + n)] else decimal (n div 10) @ [byte (48 + n mod 10)])"

declare decimal.simps [simp del]

definition hex_digit :: "nat \<Rightarrow> u8" where
  "hex_digit n = (if n < 10 then byte (48 + n) else byte (87 + n))"

text \<open>\<open>{:04x}\<close> of a 16-bit value.\<close>

definition hex4 :: "u16 \<Rightarrow> u8 list" where
  "hex4 n = [hex_digit (n div 4096 mod 16), hex_digit (n div 256 mod 16),
             hex_digit (n div 16 mod 16), hex_digit (n mod 16)]"

end
