(* ===== verification/Cells.thy ===== *)
theory Cells
  imports Utf8
begin

text \<open>
  Cells and their attributes (\<open>src/src/cell.rs\<close>): colours, underline styles, the SGR attribute
  set, OSC 8 hyperlinks and the cell itself. \<open>Arc\<close> sharing of a hyperlink is not observable
  through equality, so a cell holds the link's value. The \<open>Default\<close> implementations of the
  enums are instances of the class \<open>default\<close>.
\<close>

datatype color = ColorDefault | Idx u8 | Rgb u8 u8 u8

datatype underline_style =
  UnderlineNone | UnderlineSingle | UnderlineDouble | UnderlineCurly | UnderlineDotted | UnderlineDashed

instantiation color :: default
begin

definition default_color :: color where
  "default_color = ColorDefault"

instance ..

end

instantiation underline_style :: default
begin

definition default_underline_style :: underline_style where
  "default_underline_style = UnderlineNone"

instance ..

end

record attrs =
  at_foreground :: color
  at_background :: color
  at_underline_color :: color
  at_underline_style :: underline_style
  at_bold :: bool
  at_italic :: bool
  at_inverse :: bool
  at_dim :: bool
  at_strikethrough :: bool
  at_slow_blink :: bool
  at_rapid_blink :: bool
  at_conceal :: bool
  at_overline :: bool

definition attrs_default :: attrs where
  "attrs_default = \<lparr>at_foreground = default, at_background = default, at_underline_color = default,
     at_underline_style = default, at_bold = False, at_italic = False, at_inverse = False,
     at_dim = False, at_strikethrough = False, at_slow_blink = False, at_rapid_blink = False,
     at_conceal = False, at_overline = False\<rparr>"

record hyperlink =
  hl_id :: ustr
  hl_uri :: ustr

record cell =
  contents :: ustr
  is_wide :: bool
  is_wide_continuation :: bool
  cell_attrs :: attrs
  cell_hyperlink :: "hyperlink option"

definition cell_default :: cell where
  "cell_default = \<lparr>contents = [], is_wide = False, is_wide_continuation = False,
     cell_attrs = attrs_default, cell_hyperlink = None\<rparr>"

definition has_contents :: "cell \<Rightarrow> bool" where
  "has_contents c \<longleftrightarrow> contents c \<noteq> []"

definition fgcolor :: "cell \<Rightarrow> color" where
  "fgcolor c = at_foreground (cell_attrs c)"

definition bgcolor :: "cell \<Rightarrow> color" where
  "bgcolor c = at_background (cell_attrs c)"

definition cell_underline :: "cell \<Rightarrow> bool" where
  "cell_underline c \<longleftrightarrow> at_underline_style (cell_attrs c) \<noteq> UnderlineNone"

definition cell_bold :: "cell \<Rightarrow> bool" where
  "cell_bold c \<longleftrightarrow> at_bold (cell_attrs c)"

definition cell_italic :: "cell \<Rightarrow> bool" where
  "cell_italic c \<longleftrightarrow> at_italic (cell_attrs c)"

definition cell_inverse :: "cell \<Rightarrow> bool" where
  "cell_inverse c \<longleftrightarrow> at_inverse (cell_attrs c)"

definition cell_dim :: "cell \<Rightarrow> bool" where
  "cell_dim c \<longleftrightarrow> at_dim (cell_attrs c)"

definition cell_strikethrough :: "cell \<Rightarrow> bool" where
  "cell_strikethrough c \<longleftrightarrow> at_strikethrough (cell_attrs c)"

definition cell_slow_blink :: "cell \<Rightarrow> bool" where
  "cell_slow_blink c \<longleftrightarrow> at_slow_blink (cell_attrs c)"

definition cell_rapid_blink :: "cell \<Rightarrow> bool" where
  "cell_rapid_blink c \<longleftrightarrow> at_rapid_blink (cell_attrs c)"

definition cell_conceal :: "cell \<Rightarrow> bool" where
  "cell_conceal c \<longleftrightarrow> at_conceal (cell_attrs c)"

definition cell_overline :: "cell \<Rightarrow> bool" where
  "cell_overline c \<longleftrightarrow> at_overline (cell_attrs c)"

lemmas accessor_defs = fgcolor_def bgcolor_def cell_underline_def cell_bold_def cell_italic_def
  cell_inverse_def cell_dim_def cell_strikethrough_def cell_slow_blink_def cell_rapid_blink_def
  cell_conceal_def cell_overline_def

lemmas default_defs = attrs_default_def cell_default_def default_color_def default_underline_style_def

lemma cell_default_simps [simp]:
  "contents cell_default = []" "\<not> is_wide cell_default" "\<not> is_wide_continuation cell_default"
  "cell_attrs cell_default = attrs_default" "cell_hyperlink cell_default = None"
  by (simp_all add: cell_default_def)

lemma attrs_default_simps [simp]:
  "at_foreground attrs_default = ColorDefault" "at_background attrs_default = ColorDefault"
  "at_underline_color attrs_default = ColorDefault" "at_underline_style attrs_default = UnderlineNone"
  "\<not> at_bold attrs_default" "\<not> at_italic attrs_default" "\<not> at_inverse attrs_default"
  "\<not> at_dim attrs_default" "\<not> at_strikethrough attrs_default" "\<not> at_slow_blink attrs_default"
  "\<not> at_rapid_blink attrs_default" "\<not> at_conceal attrs_default" "\<not> at_overline attrs_default"
  by (simp_all add: default_defs)

end
