(* ===== verification/Rows.thy ===== *)
theory Rows
  imports Cells
begin

text \<open>
  Rows, row storage and the shared row arena (\<open>src/src/grid/write.rs\<close>, and \<open>RowStore\<close>,
  \<open>RowArena\<close> and \<open>RowWrap\<close> of \<open>src/src/grid.rs\<close>).

  A row is the list of its cells. \<open>row_ok\<close> is the pair invariant: a continuation cell stands
  right of a wide lead, and a wide lead has its continuation unless it is in the last column.
  The arena's pool of recycled rows is explicit and threaded through every operation that takes
  a row from it or returns one; the locale \<open>row_allocator\<close> states what its clients rely on.
\<close>

section \<open>Row helpers\<close>

type_synonym row = "cell list"

definition cell_width :: "cell \<Rightarrow> u16" where
  "cell_width c = (if is_wide c then 2 else if is_wide_continuation c \<or> contents c = [] then 0 else 1)"

definition continuation_cell :: "attrs \<Rightarrow> hyperlink option \<Rightarrow> cell" where
  "continuation_cell a link = \<lparr>contents = [], is_wide = False, is_wide_continuation = True,
     cell_attrs = a, cell_hyperlink = link\<rparr>"

definition set_cell_width :: "row \<Rightarrow> usize \<Rightarrow> u16 \<Rightarrow> attrs \<Rightarrow> usize \<Rightarrow> row option" where
  "set_cell_width row col width a cols = do {
     c \<leftarrow> vec_get row col;
     row \<leftarrow> vec_set row col (c\<lparr>is_wide := 1 < width, is_wide_continuation := False\<rparr>);
     if col + 1 < cols \<and> col + 1 < length row then
       (if 1 < width then
          let orphan = is_wide (row ! (col + 1)) \<and> col + 2 < cols \<and> col + 2 < length row;
              row = row[col + 1 := continuation_cell a (cell_hyperlink (row ! col))]
          in Some (if orphan then row[col + 2 := cell_default] else row)
        else if is_wide_continuation (row ! (col + 1)) then Some (row[col + 1 := cell_default])
        else Some row)
     else Some row
   }"

definition complete_wide_lead :: "row \<Rightarrow> usize \<Rightarrow> row" where
  "complete_wide_lead row len =
     (if len = 0 \<or> length row \<le> len - 1 then row
      else let lead = row ! (len - 1) in
        if \<not> is_wide lead then row
        else if len < length row
        then row[len := continuation_cell (cell_attrs lead) (cell_hyperlink lead)]
        else row)"

definition erase_cells_bce :: "row \<Rightarrow> usize \<Rightarrow> usize \<Rightarrow> cell \<Rightarrow> row option" where
  "erase_cells_bce row start stop blank = do {
     let split_lead = 0 < start \<and> start < length row \<and> is_wide_continuation (row ! start);
     let split_continuation = start < stop \<and> stop < length row \<and> is_wide (row ! (stop - 1));
     row \<leftarrow> slice_fill row start stop blank;
     row \<leftarrow> (if split_lead then vec_set row (start - 1) blank else Some row);
     if split_continuation then vec_set row stop blank else Some row
   }"

definition repair_at :: "row \<Rightarrow> usize \<Rightarrow> row" where
  "repair_at row i =
     (let orphan_continuation = is_wide_continuation (row ! i) \<and> (i = 0 \<or> \<not> is_wide (row ! (i - 1)));
          orphan_lead = is_wide (row ! i)
            \<and> (length row \<le> i + 1 \<or> \<not> is_wide_continuation (row ! (i + 1)))
      in if orphan_continuation \<or> orphan_lead then row[i := cell_default] else row)"

definition repair_wide_pairs :: "row \<Rightarrow> row" where
  "repair_wide_pairs row = foldl repair_at row [0..<length row]"

definition blank_row :: "u16 \<Rightarrow> row" where
  "blank_row cols = replicate cols cell_default"

section \<open>The pair invariant\<close>

definition row_ok :: "row \<Rightarrow> bool" where
  "row_ok row \<longleftrightarrow> (\<forall>i < length row.
     (is_wide_continuation (row ! i) \<longrightarrow> 0 < i \<and> is_wide (row ! (i - 1)) \<and> \<not> is_wide (row ! i))
     \<and> (is_wide (row ! i) \<longrightarrow> Suc i < length row \<longrightarrow> is_wide_continuation (row ! Suc i)))"

lemma row_okI:
  assumes "\<And>i. i < length row \<Longrightarrow> is_wide_continuation (row ! i) \<Longrightarrow>
      0 < i \<and> is_wide (row ! (i - 1)) \<and> \<not> is_wide (row ! i)"
    and "\<And>i. Suc i < length row \<Longrightarrow> is_wide (row ! i) \<Longrightarrow> is_wide_continuation (row ! Suc i)"
  shows "row_ok row"
  using assms by (simp add: row_ok_def)

lemma row_ok_cont:
  "row_ok row \<Longrightarrow> i < length row \<Longrightarrow> is_wide_continuation (row ! i) \<Longrightarrow>
     0 < i \<and> is_wide (row ! (i - 1)) \<and> \<not> is_wide (row ! i)"
  by (simp add: row_ok_def)

lemma row_ok_lead:
  "row_ok row \<Longrightarrow> Suc i < length row \<Longrightarrow> is_wide (row ! i) \<Longrightarrow> is_wide_continuation (row ! Suc i)"
  by (simp add: row_ok_def)

lemma row_ok_not_both:
  "row_ok row \<Longrightarrow> i < length row \<Longrightarrow> is_wide (row ! i) \<Longrightarrow> \<not> is_wide_continuation (row ! i)"
  by (auto simp: row_ok_def)

lemma row_ok_Suc_cont:
  "row_ok row \<Longrightarrow> Suc i < length row \<Longrightarrow> is_wide_continuation (row ! Suc i) \<longleftrightarrow> is_wide (row ! i)"
  using row_ok_cont [of row "Suc i"] row_ok_lead [of row i] by auto

text \<open>
  An equivalent reading, used by the proofs: the first cell is no continuation, and every other
  cell is one exactly when its left neighbour is a wide lead; no cell is both.
\<close>

lemma row_ok_iff:
  "row_ok row \<longleftrightarrow> (row \<noteq> [] \<longrightarrow> \<not> is_wide_continuation (row ! 0))
     \<and> (\<forall>i. Suc i < length row \<longrightarrow> (is_wide_continuation (row ! Suc i) \<longleftrightarrow> is_wide (row ! i)))
     \<and> (\<forall>i < length row. is_wide (row ! i) \<longrightarrow> \<not> is_wide_continuation (row ! i))"
  (is "?l \<longleftrightarrow> ?r")
proof
  assume ?l
  then show ?r using row_ok_cont [of row 0] by (auto simp: row_ok_Suc_cont row_ok_not_both)
next
  assume r: ?r
  show ?l
  proof (rule row_okI)
    fix i assume "i < length row" "is_wide_continuation (row ! i)"
    with r show "0 < i \<and> is_wide (row ! (i - 1)) \<and> \<not> is_wide (row ! i)" by (cases i) auto
  qed (use r in auto)
qed

lemma row_ok_blank [simp]: "\<not> is_wide c \<Longrightarrow> \<not> is_wide_continuation c \<Longrightarrow> row_ok (replicate n c)"
  by (simp add: row_ok_def)

lemma row_ok_blank_row [simp]: "row_ok (blank_row n)"
  by (simp add: blank_row_def)

lemma length_blank_row [simp]: "length (blank_row n) = n"
  by (simp add: blank_row_def)

subsection \<open>Erasing\<close>

text \<open>The erased row, cell by cell: the range, and the halves of the pairs its ends split.\<close>

definition erased :: "row \<Rightarrow> usize \<Rightarrow> usize \<Rightarrow> nat \<Rightarrow> bool" where
  "erased row start stop i \<longleftrightarrow> (start \<le> i \<and> i < stop)
     \<or> (Suc i = start \<and> start < length row \<and> is_wide_continuation (row ! start))
     \<or> (i = stop \<and> start < stop \<and> is_wide (row ! (stop - 1)))"

lemma erase_cells_bce_ok:
  assumes "start \<le> stop" "stop \<le> length row"
  shows "ok (erase_cells_bce row start stop blank) (\<lambda>row'. length row' = length row
     \<and> (\<forall>i < length row. row' ! i = (if erased row start stop i then blank else row ! i)))"
proof -
  define f where "f = take start row @ replicate (stop - start) blank @ drop stop row"
  have f: "length f = length row"
    "\<And>i. i < length row \<Longrightarrow> f ! i = (if start \<le> i \<and> i < stop then blank else row ! i)"
    using assms unfolding f_def by (simp, intro nth_filled)
  show ?thesis
    using assms
    by (auto simp: erase_cells_bce_def ok_slice_fill Let_def f_def [symmetric] f nth_list_update erased_def)
qed

lemma erased_pair:
  assumes ok: "row_ok row" and i: "Suc i < length row" "is_wide (row ! i)"
    and "start < stop \<or> start = length row" "stop \<le> length row"
  shows "erased row start stop i \<longleftrightarrow> erased row start stop (Suc i)"
proof -
  have "is_wide_continuation (row ! Suc i)" "\<not> is_wide_continuation (row ! i)" "\<not> is_wide (row ! Suc i)"
    using ok i row_ok_Suc_cont row_ok_not_both row_ok_cont [of row "Suc i"] by auto
  moreover have "0 < i \<Longrightarrow> \<not> is_wide (row ! (i - 1))"
    using ok i \<open>\<not> is_wide_continuation (row ! i)\<close> row_ok_lead [of row "i - 1"] by auto
  moreover have "Suc (Suc i) < length row \<Longrightarrow> \<not> is_wide_continuation (row ! Suc (Suc i))"
    using ok \<open>\<not> is_wide (row ! Suc i)\<close> by (simp add: row_ok_Suc_cont)
  ultimately show ?thesis
    using assms(4,5) i
    by (cases "stop = i \<or> stop = Suc i"; cases "start = Suc i \<or> start = Suc (Suc i)")
       (auto simp: erased_def)
qed

lemma erased_row_ok:
  assumes ok: "row_ok row" and len: "length row' = length row"
    and range: "start < stop \<or> start = length row" "stop \<le> length row"
    and nth: "\<forall>i < length row. row' ! i = (if erased row start stop i then blank else row ! i)"
    and blank: "\<not> is_wide blank" "\<not> is_wide_continuation blank"
  shows "row_ok row'"
  unfolding row_ok_iff
proof (intro conjI allI impI)
  assume "row' \<noteq> []"
  then have "0 < length row" using len by (metis length_greater_0_conv)
  with ok nth blank show "\<not> is_wide_continuation (row' ! 0)"
    by (auto simp: row_ok_iff)
next
  fix i assume i: "Suc i < length row'"
  show "is_wide_continuation (row' ! Suc i) \<longleftrightarrow> is_wide (row' ! i)"
  proof (cases "is_wide (row ! i)")
    case True
    with erased_pair [OF ok _ True range] i len nth blank row_ok_Suc_cont [OF ok] show ?thesis by simp
  next
    case False
    with i len nth blank row_ok_Suc_cont [OF ok] show ?thesis by auto
  qed
next
  fix i assume "i < length row'" "is_wide (row' ! i)"
  with ok nth blank len show "\<not> is_wide_continuation (row' ! i)"
    by (auto simp: row_ok_not_both split: if_splits)
qed

subsection \<open>Writing a glyph\<close>

text \<open>
  The shape of every glyph write: the cell \<open>col\<close> gets a new lead or narrow cell, a wide one gets
  its continuation, and the halves this orphans on either side become blank.
\<close>

definition glyph_nth :: "row \<Rightarrow> usize \<Rightarrow> bool \<Rightarrow> cell \<Rightarrow> nat \<Rightarrow> cell" where
  "glyph_nth row col wide k i =
     (if Suc i = col \<and> is_wide_continuation (row ! col) then cell_default
      else if i = col + 1 \<and> wide then k
      else if i = col + 1 \<and> is_wide (row ! col) then cell_default
      else if i = col + 2 \<and> wide \<and> is_wide (row ! (col + 1)) then cell_default
      else row ! i)"

lemma glyph_row_ok:
  assumes ok: "row_ok row" and col: "col < length row" and len: "length row' = length row"
    and lead: "\<not> is_wide_continuation (row' ! col)" and k: "is_wide_continuation k" "\<not> is_wide k"
    and nth: "\<And>i. i < length row \<Longrightarrow> i \<noteq> col \<Longrightarrow> row' ! i = glyph_nth row col (is_wide (row' ! col)) k i"
  shows "row_ok row'"
  unfolding row_ok_iff
proof (intro conjI allI impI)
  assume "row' \<noteq> []"
  then have "0 < length row" using len by (metis length_greater_0_conv)
  with ok lead nth [of 0] show "\<not> is_wide_continuation (row' ! 0)"
    by (cases "col = 0") (auto simp: glyph_nth_def row_ok_iff)
next
  fix i assume i: "Suc i < length row'"
  have old: "is_wide_continuation (row ! Suc j) \<longleftrightarrow> is_wide (row ! j)" if "Suc j < length row" for j
    using ok that by (rule row_ok_Suc_cont)
  consider "Suc i < col" | "Suc i = col" | "i = col" | "i = Suc col" | "Suc col < i" by linarith
  then show "is_wide_continuation (row' ! Suc i) \<longleftrightarrow> is_wide (row' ! i)"
  proof cases
    case 1
    with i len col nth [of i] nth [of "Suc i"] old [of i] show ?thesis
      using old [of "Suc i"] row_ok_cont [OF ok, of "Suc i"] by (auto simp: glyph_nth_def)
  next
    case 2
    with i len lead nth [of i] old [of i] show ?thesis by (auto simp: glyph_nth_def)
  next
    case 3
    with i len k nth [of "Suc i"] old [of i] show ?thesis by (auto simp: glyph_nth_def)
  next
    case 4
    with i len k nth [of i] nth [of "Suc i"] old [of i] show ?thesis
      using row_ok_cont [OF ok, of "Suc col"] old [of col] by (auto simp: glyph_nth_def)
  next
    case 5
    with i len nth [of i] nth [of "Suc i"] old [of i] show ?thesis
      using old [of "Suc col"] row_ok_cont [OF ok, of i] by (auto simp: glyph_nth_def)
  qed
next
  fix i assume "i < length row'" "is_wide (row' ! i)"
  then show "\<not> is_wide_continuation (row' ! i)"
    using lead k nth [of i] len row_ok_not_both [OF ok, of i]
    by (cases "i = col") (auto simp: glyph_nth_def split: if_splits)
qed

lemma set_cell_width_ok:
  assumes ok: "row_ok row" and col: "col < length row" "length row = cols"
    and lead: "\<not> is_wide_continuation (row ! col)"
  shows "ok (set_cell_width row col width a cols) (\<lambda>row'. length row' = length row
     \<and> row' ! col = (row ! col)\<lparr>is_wide := 1 < width, is_wide_continuation := False\<rparr>
     \<and> (\<forall>i < length row. i \<noteq> col \<longrightarrow> row' ! i
          = glyph_nth row col (1 < width) (continuation_cell a (cell_hyperlink (row ! col))) i))"
  using col lead row_ok_Suc_cont [OF ok, of col]
  by (auto simp: set_cell_width_def Let_def ok_if nth_list_update glyph_nth_def)

subsection \<open>Repairing pairs after a shift\<close>

definition not_both :: "cell \<Rightarrow> bool" where
  "not_both c \<longleftrightarrow> \<not> (is_wide c \<and> is_wide_continuation c)"

text \<open>The loop invariant: everything left of \<open>i\<close> is paired.\<close>

definition repaired_to :: "row \<Rightarrow> nat \<Rightarrow> bool" where
  "repaired_to row i \<longleftrightarrow> (\<forall>j < i.
     (is_wide_continuation (row ! j) \<longrightarrow> 0 < j \<and> is_wide (row ! (j - 1)))
     \<and> (is_wide (row ! j) \<longrightarrow> Suc j < length row \<and> is_wide_continuation (row ! Suc j)))"

lemma repair_at_nth:
  "length (repair_at row i) = length row"
  "j < length row \<Longrightarrow> repair_at row i ! j = row ! j \<or> (j = i \<and> repair_at row i ! j = cell_default)"
  by (simp_all add: repair_at_def Let_def) (cases "j = i"; simp)

lemma repair_at_step:
  assumes inv: "repaired_to row i" and i: "i < length row" and nb: "list_all not_both row"
  shows "repaired_to (repair_at row i) (Suc i)"
proof -
  have both: "\<not> (is_wide (row ! i) \<and> is_wide_continuation (row ! i))"
    using nb i by (auto simp: list_all_length not_both_def)
  have left: "is_wide (row ! (i - 1)) \<longrightarrow> is_wide_continuation (row ! i)" if "0 < i"
    using inv that by (auto simp: repaired_to_def dest: spec [of _ "i - 1"])
  show ?thesis
    unfolding repaired_to_def
  proof (intro allI impI)
    fix j assume "j < Suc i"
    then consider "Suc j < i" | "Suc j = i" | "j = i" by linarith
    then show "(is_wide_continuation (repair_at row i ! j)
          \<longrightarrow> 0 < j \<and> is_wide (repair_at row i ! (j - 1)))
      \<and> (is_wide (repair_at row i ! j)
          \<longrightarrow> Suc j < length (repair_at row i) \<and> is_wide_continuation (repair_at row i ! Suc j))"
    proof cases
      case 1
      with inv i show ?thesis by (simp add: repaired_to_def repair_at_def Let_def)
    next
      case 2
      with inv i both left show ?thesis by (auto simp: repaired_to_def repair_at_def Let_def)
    next
      case 3
      with i both left show ?thesis by (auto simp: repair_at_def Let_def nth_list_update)
    qed
  qed
qed

lemma repair_wide_pairs_steps:
  assumes "list_all not_both row" "n \<le> length row"
  shows "let r = foldl repair_at row [0..<n] in length r = length row \<and> repaired_to r n
     \<and> (\<forall>j < length row. r ! j = row ! j \<or> r ! j = cell_default)"
  using assms(2)
proof (induction n)
  case 0
  then show ?case by (simp add: repaired_to_def)
next
  case (Suc n)
  define r where "r = foldl repair_at row [0..<n]"
  from Suc have IH: "length r = length row" "repaired_to r n"
    "\<forall>j < length row. r ! j = row ! j \<or> r ! j = cell_default"
    by (simp_all add: r_def Let_def)
  have "list_all not_both r"
    using assms(1) IH(1,3) by (metis cell_default_simps(2) list_all_length not_both_def)
  with repair_at_step [OF IH(2)] IH(1) Suc.prems have "repaired_to (repair_at r n) (Suc n)" by simp
  moreover have "\<forall>j < length row. repair_at r n ! j = row ! j \<or> repair_at r n ! j = cell_default"
    using IH(1,3) repair_at_nth(2) [of _ r n] by metis
  ultimately show ?case using IH(1) by (simp add: r_def [symmetric] repair_at_nth(1) Let_def)
qed

lemma repair_wide_pairs_ok:
  assumes "list_all not_both row"
  shows "length (repair_wide_pairs row) = length row" "row_ok (repair_wide_pairs row)"
    "\<And>j. j < length row \<Longrightarrow> repair_wide_pairs row ! j = row ! j \<or> repair_wide_pairs row ! j = cell_default"
    "\<And>j. j < length row \<Longrightarrow> is_wide (repair_wide_pairs row ! j) \<Longrightarrow> Suc j < length row"
proof -
  define r where "r = repair_wide_pairs row"
  have r: "length r = length row" "repaired_to r (length row)"
    "\<forall>j < length row. r ! j = row ! j \<or> r ! j = cell_default"
    using repair_wide_pairs_steps [OF assms order_refl] by (simp_all add: Let_def r_def repair_wide_pairs_def)
  have "not_both (r ! i)" if "i < length row" for i
    using that r(3) assms by (metis cell_default_simps(2) list_all_length not_both_def)
  with r show "length (repair_wide_pairs row) = length row" "row_ok (repair_wide_pairs row)"
    "\<And>j. j < length row \<Longrightarrow> repair_wide_pairs row ! j = row ! j \<or> repair_wide_pairs row ! j = cell_default"
    "\<And>j. j < length row \<Longrightarrow> is_wide (repair_wide_pairs row ! j) \<Longrightarrow> Suc j < length row"
    unfolding r_def [symmetric] by (auto simp: repaired_to_def row_ok_def not_both_def)
qed

lemma row_ok_not_both_all: "row_ok row \<Longrightarrow> list_all not_both row"
  by (auto simp: list_all_length not_both_def dest: row_ok_not_both)

text \<open>A row that is already paired, with no lone lead in the last column, is left alone.\<close>

lemma repair_wide_pairs_id:
  assumes "row_ok row" "row = [] \<or> \<not> is_wide (last row)"
  shows "repair_wide_pairs row = row"
proof -
  have "repair_at row i = row" if i: "i < length row" for i
  proof -
    have "\<not> is_wide (row ! i)" if "length row \<le> i + 1"
    proof -
      have "length row = Suc i" using i that by simp
      then have "last row = row ! i" by (metis diff_Suc_1 last_conv_nth list.size(3) nat.distinct(1))
      with assms(2) i show ?thesis by auto
    qed
    moreover have "length row \<le> i + 1 \<or> Suc i < length row" by linarith
    ultimately show ?thesis
      using assms(1) i row_ok_cont [of row i] row_ok_lead [of row i]
      by (auto simp: repair_at_def Let_def)
  qed
  then have "foldl repair_at row [0..<n] = row" if "n \<le> length row" for n
    using that by (induction n) simp_all
  then show ?thesis by (simp add: repair_wide_pairs_def)
qed

section \<open>The row arena\<close>

datatype row_wrap = Hard | Soft

instantiation row_wrap :: default
begin

definition default_row_wrap :: row_wrap where
  "default_row_wrap = Hard"

instance ..

end

text \<open>The pool of recycled rows behind \<open>RowArenaInner\<close>'s mutex.\<close>

type_synonym arena = "row list"

definition MAX_RECYCLED_ROWS :: usize where
  "MAX_RECYCLED_ROWS = 4096"

definition swap_remove :: "'a list \<Rightarrow> usize \<Rightarrow> 'a list" where
  "swap_remove xs i = butlast (xs[i := last xs])"

definition fill_default :: "row \<Rightarrow> row" where
  "fill_default row = map (\<lambda>_. cell_default) row"

definition arena_blank_row :: "arena \<Rightarrow> u16 \<Rightarrow> row \<times> arena" where
  "arena_blank_row pool cols =
     (case position (\<lambda>row. length row = cols) pool of
        Some i \<Rightarrow> (fill_default (pool ! i), swap_remove pool i)
      | None \<Rightarrow> (replicate cols cell_default, pool))"

definition arena_recycle :: "arena \<Rightarrow> row \<Rightarrow> arena" where
  "arena_recycle pool row =
     (if length pool < MAX_RECYCLED_ROWS then pool @ [fill_default row] else pool)"

text \<open>\<open>(0..n).map(|_| alloc(cols)).collect()\<close>, threading the allocator's state.\<close>

primrec alloc_rows :: "('a \<Rightarrow> u16 \<Rightarrow> row \<times> 'a) \<Rightarrow> u16 \<Rightarrow> nat \<Rightarrow> 'a \<Rightarrow> row list \<times> 'a" where
  "alloc_rows alloc cols 0 a = ([], a)"
| "alloc_rows alloc cols (Suc n) a =
     (let (r, a) = alloc a cols; (rs, a) = alloc_rows alloc cols n a in (r # rs, a))"

text \<open>
  What a client of the arena relies on: a fresh row is blank whatever the pool holds, and the
  pool stays within its invariant.
\<close>

locale row_allocator =
  fixes pool_inv :: "'a \<Rightarrow> bool"
    and alloc :: "'a \<Rightarrow> u16 \<Rightarrow> row \<times> 'a"
    and release :: "'a \<Rightarrow> row \<Rightarrow> 'a"
  assumes alloc_blank: "fst (alloc a n) = blank_row n"
    and alloc_inv: "pool_inv a \<Longrightarrow> pool_inv (snd (alloc a n))"
    and release_inv: "pool_inv a \<Longrightarrow> pool_inv (release a r)"
begin

lemma alloc_rows_blank: "fst (alloc_rows alloc cols n a) = replicate n (blank_row cols)"
  by (induction n arbitrary: a) (simp_all add: split_beta Let_def alloc_blank)

lemma alloc_rows_inv: "pool_inv a \<Longrightarrow> pool_inv (snd (alloc_rows alloc cols n a))"
  by (induction n arbitrary: a) (simp_all add: split_beta Let_def alloc_inv)

lemma release_all_inv: "pool_inv a \<Longrightarrow> pool_inv (foldl release a rs)"
  by (induction rs arbitrary: a) (simp_all add: release_inv)

end

definition arena_inv :: "arena \<Rightarrow> bool" where
  "arena_inv pool \<longleftrightarrow> length pool \<le> MAX_RECYCLED_ROWS \<and> list_all (list_all (\<lambda>c. c = cell_default)) pool"

lemma set_swap_remove: "i < length xs \<Longrightarrow> set (swap_remove xs i) \<subseteq> set xs"
  by (auto simp: swap_remove_def dest!: in_set_butlastD set_update_subset_insert [THEN subsetD])
     (metis last_in_set length_0_conv not_less_zero)

lemma fill_default_eq: "fill_default row = blank_row (length row)"
  by (simp add: fill_default_def blank_row_def map_replicate_const)

interpretation pool: row_allocator arena_inv arena_blank_row arena_recycle
proof
  fix a :: arena and n :: u16
  show "fst (arena_blank_row a n) = blank_row n"
    by (auto simp: arena_blank_row_def fill_default_eq blank_row_def split: option.split
        dest: position_SomeD)
  assume inv: "arena_inv a"
  show "arena_inv (snd (arena_blank_row a n))"
  proof (cases "position (\<lambda>row. length row = n) a")
    case None
    with inv show ?thesis by (simp add: arena_blank_row_def)
  next
    case (Some i)
    then have "i < length a" using position_SomeD by fastforce
    with inv set_swap_remove [OF this] show ?thesis
      by (auto simp: Some arena_blank_row_def arena_inv_def list_all_iff swap_remove_def)
  qed
next
  fix a :: arena and r :: row
  assume "arena_inv a"
  then show "arena_inv (arena_recycle a r)"
    by (auto simp: arena_recycle_def arena_inv_def fill_default_def list_all_iff)
qed

section \<open>Row storage\<close>

record row_store =
  rs_rows :: "row list"
  rs_wraps :: "row_wrap list"

definition rs_blank :: "u16 \<Rightarrow> u16 \<Rightarrow> arena \<Rightarrow> row_store \<times> arena" where
  "rs_blank rows cols pool =
     (let (rs, pool) = alloc_rows arena_blank_row cols rows pool
      in (\<lparr>rs_rows = rs, rs_wraps = replicate rows Hard\<rparr>, pool))"

definition make_blank_grid :: "u16 \<Rightarrow> u16 \<Rightarrow> arena \<Rightarrow> row_store \<times> arena" where
  "make_blank_grid rows cols pool = rs_blank rows cols pool"

definition rs_len :: "row_store \<Rightarrow> usize" where
  "rs_len s = length (rs_rows s)"

definition rs_is_empty :: "row_store \<Rightarrow> bool" where
  "rs_is_empty s \<longleftrightarrow> rs_rows s = []"

definition rs_clear :: "row_store \<Rightarrow> arena \<Rightarrow> row_store \<times> arena" where
  "rs_clear s pool = (\<lparr>rs_rows = [], rs_wraps = []\<rparr>, foldl arena_recycle pool (rs_rows s))"

definition rs_get :: "row_store \<Rightarrow> usize \<Rightarrow> row option" where
  "rs_get s i = vec_get (rs_rows s) i"

definition rs_wrap :: "row_store \<Rightarrow> usize \<Rightarrow> row_wrap option" where
  "rs_wrap s i = vec_get (rs_wraps s) i"

text \<open>\<open>VecDeque::insert\<close> panics past the end; the row index is clamped, the wrap index is not.\<close>

definition rs_insert_with_wrap :: "row_store \<Rightarrow> usize \<Rightarrow> row \<Rightarrow> row_wrap \<Rightarrow> row_store option" where
  "rs_insert_with_wrap s index row wrap =
     (let index = min index (length (rs_rows s)) in
      if length (rs_wraps s) < index then None
      else Some \<lparr>rs_rows = deque_insert (rs_rows s) index row, rs_wraps = deque_insert (rs_wraps s) index wrap\<rparr>)"

definition rs_insert :: "row_store \<Rightarrow> usize \<Rightarrow> row \<Rightarrow> row_store option" where
  "rs_insert s index row = rs_insert_with_wrap s index row Hard"

definition rs_remove_with_wrap :: "row_store \<Rightarrow> usize \<Rightarrow> (row \<times> row_wrap) option \<times> row_store" where
  "rs_remove_with_wrap s index =
     (case deque_remove (rs_rows s) index of
        None \<Rightarrow> (None, s)
      | Some (row, rows') \<Rightarrow>
        (case deque_remove (rs_wraps s) index of
           Some (w, ws) \<Rightarrow> (Some (row, w), \<lparr>rs_rows = rows', rs_wraps = ws\<rparr>)
         | None \<Rightarrow> (Some (row, default), s\<lparr>rs_rows := rows'\<rparr>)))"

definition rs_remove :: "row_store \<Rightarrow> usize \<Rightarrow> row option \<times> row_store" where
  "rs_remove s index = (let (r, s) = rs_remove_with_wrap s index in (map_option fst r, s))"

definition rs_push_back_with_wrap :: "row_store \<Rightarrow> row \<Rightarrow> row_wrap \<Rightarrow> row_store" where
  "rs_push_back_with_wrap s row wrap = \<lparr>rs_rows = rs_rows s @ [row], rs_wraps = rs_wraps s @ [wrap]\<rparr>"

definition rs_push_back :: "row_store \<Rightarrow> row \<Rightarrow> row_store" where
  "rs_push_back s row = rs_push_back_with_wrap s row Hard"

definition rs_pop_front_with_wrap :: "row_store \<Rightarrow> (row \<times> row_wrap) option \<times> row_store" where
  "rs_pop_front_with_wrap s =
     (case rs_rows s of
        [] \<Rightarrow> (None, s)
      | row # rest \<Rightarrow>
        (case rs_wraps s of
           w # ws \<Rightarrow> (Some (row, w), \<lparr>rs_rows = rest, rs_wraps = ws\<rparr>)
         | [] \<Rightarrow> (Some (row, default), s\<lparr>rs_rows := rest\<rparr>)))"

definition rs_recycle_front :: "row_store \<Rightarrow> arena \<Rightarrow> row_store \<times> arena" where
  "rs_recycle_front s pool =
     (case rs_pop_front_with_wrap s of
        (Some (row, w), s') \<Rightarrow> (s', arena_recycle pool row)
      | (None, s') \<Rightarrow> (s', pool))"

subsection \<open>Resizing\<close>

definition resize_row :: "usize \<Rightarrow> row \<Rightarrow> row" where
  "resize_row target_cols row =
     (let old_cols = length row;
          row' = take target_cols row @ replicate (target_cols - old_cols) cell_default
      in if old_cols < target_cols then complete_wide_lead row' old_cols
         else if row' \<noteq> [] \<and> is_wide (last row') then row'[length row' - 1 := cell_default]
         else row')"

function rs_shrink :: "usize \<Rightarrow> row_store \<Rightarrow> arena \<Rightarrow> row_store \<times> arena" where
  "rs_shrink target s pool =
     (if target < length (rs_rows s)
      then rs_shrink target \<lparr>rs_rows = butlast (rs_rows s), rs_wraps = butlast (rs_wraps s)\<rparr>
             (arena_recycle pool (last (rs_rows s)))
      else (s, pool))"
  by pat_completeness auto
termination
  by (relation "measure (\<lambda>(target, s, pool). length (rs_rows s))") auto

function rs_grow :: "usize \<Rightarrow> u16 \<Rightarrow> row_store \<Rightarrow> arena \<Rightarrow> row_store \<times> arena" where
  "rs_grow target cols s pool =
     (if length (rs_rows s) < target
      then let (row, pool) = arena_blank_row pool cols
           in rs_grow target cols (rs_push_back_with_wrap s row default) pool
      else (s, pool))"
  by pat_completeness auto
termination
  by (relation "measure (\<lambda>(target, cols, s, pool). target - length (rs_rows s))")
     (auto simp: rs_push_back_with_wrap_def)

declare rs_shrink.simps [simp del] rs_grow.simps [simp del]

definition rs_resize :: "row_store \<Rightarrow> u16 \<Rightarrow> u16 \<Rightarrow> arena \<Rightarrow> row_store \<times> arena" where
  "rs_resize s rows cols pool =
     (let width_changed = (rs_rows s \<noteq> [] \<and> length (hd (rs_rows s)) \<noteq> cols) in
      if length (rs_rows s) = rows \<and> \<not> width_changed then (s, pool)
      else let s = (if width_changed then s\<lparr>rs_rows := map (resize_row cols) (rs_rows s)\<rparr> else s);
               (s, pool) = rs_shrink rows s pool
           in rs_grow rows cols s pool)"

section \<open>Well-formed cells and stores\<close>

definition MAX_CLUSTER_JOINERS :: usize where
  "MAX_CLUSTER_JOINERS = 16"

definition OSC8_URI_MAX :: usize where
  "OSC8_URI_MAX = 8 * 1024"

definition OSC8_ID_MAX :: usize where
  "OSC8_ID_MAX = 256"

definition OSC8_RECENT_MAX :: usize where
  "OSC8_RECENT_MAX = 8"

definition link_ok :: "hyperlink \<Rightarrow> bool" where
  "link_ok l \<longleftrightarrow> length (utf8 (hl_id l)) \<le> OSC8_ID_MAX \<and> length (utf8 (hl_uri l)) \<le> OSC8_URI_MAX
     \<and> hl_uri l \<noteq> []"

definition opt_link_ok :: "hyperlink option \<Rightarrow> bool" where
  "opt_link_ok l \<longleftrightarrow> (case l of None \<Rightarrow> True | Some l \<Rightarrow> link_ok l)"

definition cell_ok :: "cell \<Rightarrow> bool" where
  "cell_ok c \<longleftrightarrow> length (contents c) \<le> MAX_CLUSTER_JOINERS + 1
     \<and> (is_wide_continuation c \<longrightarrow> contents c = []) \<and> opt_link_ok (cell_hyperlink c)"

lemma opt_link_ok_None [simp]: "opt_link_ok None"
  by (simp add: opt_link_ok_def)

lemma cell_ok_default [simp]: "cell_ok cell_default"
  by (simp add: cell_ok_def)

lemma cell_ok_continuation [simp]: "opt_link_ok l \<Longrightarrow> cell_ok (continuation_cell a l)"
  by (simp add: cell_ok_def continuation_cell_def)

text \<open>A row of the given width that is paired and whose cells are within the limits.\<close>

definition good_row :: "nat \<Rightarrow> row \<Rightarrow> bool" where
  "good_row cols row \<longleftrightarrow> length row = cols \<and> row_ok row \<and> list_all cell_ok row"

definition store_ok :: "nat \<Rightarrow> nat \<Rightarrow> row_store \<Rightarrow> bool" where
  "store_ok rows cols s \<longleftrightarrow> length (rs_rows s) = rows \<and> length (rs_wraps s) = rows
     \<and> list_all (good_row cols) (rs_rows s)"

lemma good_row_blank [simp]: "good_row n (blank_row n)"
  by (simp add: good_row_def blank_row_def list_all_iff)

lemma store_ok_nth: "store_ok rows cols s \<Longrightarrow> i < rows \<Longrightarrow> good_row cols (rs_rows s ! i)"
  by (simp add: store_ok_def list_all_length)

lemma good_row_cell: "good_row cols row \<Longrightarrow> i < cols \<Longrightarrow> cell_ok (row ! i)"
  by (simp add: good_row_def list_all_length)

lemma list_all_update: "list_all P xs \<Longrightarrow> P x \<Longrightarrow> list_all P (xs[i := x])"
  by (auto simp: list_all_iff dest!: set_update_subset_insert [THEN subsetD])

lemma store_ok_update:
  "store_ok rows cols s \<Longrightarrow> good_row cols row \<Longrightarrow> store_ok rows cols (s\<lparr>rs_rows := (rs_rows s)[i := row]\<rparr>)"
  by (simp add: store_ok_def list_all_update)

lemma rs_blank_ok:
  "store_ok rows cols (fst (rs_blank rows cols pool))"
  "arena_inv pool \<Longrightarrow> arena_inv (snd (rs_blank rows cols pool))"
  by (simp_all add: rs_blank_def split_beta Let_def store_ok_def list_all_iff pool.alloc_rows_blank
      pool.alloc_rows_inv)

lemma rs_blank_rows:
  "rs_rows (fst (rs_blank rows cols pool)) = replicate rows (blank_row cols)"
  "rs_wraps (fst (rs_blank rows cols pool)) = replicate rows Hard"
  by (simp_all add: rs_blank_def split_beta Let_def pool.alloc_rows_blank)

lemma store_ok_insert:
  assumes "store_ok n cols s" "good_row cols row"
  shows "ok (rs_insert_with_wrap s i row w) (store_ok (Suc n) cols)"
  using assms by (auto simp: rs_insert_with_wrap_def Let_def store_ok_def list_all_iff)

lemma store_ok_remove:
  assumes "store_ok n cols s" "i < n" "rs_remove_with_wrap s i = (r, s')"
  shows "store_ok (n - 1) cols s' \<and> (\<exists>row w. r = Some (row, w) \<and> good_row cols row)"
  using assms
  by (auto 4 3 simp: rs_remove_with_wrap_def store_ok_def deque_remove_def list_all_iff
      dest!: in_set_takeD in_set_dropD split: if_splits)

text \<open>The rows of a store after a removal and an insertion, as lists.\<close>

lemma rs_remove_rows:
  assumes "length (rs_wraps s) = length (rs_rows s)" "i < length (rs_rows s)"
  shows "rs_remove_with_wrap s i = (Some (rs_rows s ! i, rs_wraps s ! i),
    \<lparr>rs_rows = take i (rs_rows s) @ drop (Suc i) (rs_rows s),
     rs_wraps = take i (rs_wraps s) @ drop (Suc i) (rs_wraps s)\<rparr>)"
  using assms by (simp add: rs_remove_with_wrap_def deque_remove_def)

lemma rs_recycle_front_ok:
  assumes "store_ok n cols s"
  shows "store_ok (n - 1) cols (fst (rs_recycle_front s pool))"
    "arena_inv pool \<Longrightarrow> arena_inv (snd (rs_recycle_front s pool))"
  using assms
  by (auto simp: rs_recycle_front_def rs_pop_front_with_wrap_def store_ok_def pool.release_inv
      split: list.splits)

subsection \<open>Resizing keeps a store well formed\<close>

lemma complete_wide_lead_nth:
  assumes "len \<le> length row"
  shows "length (complete_wide_lead row len) = length row"
    "i < length row \<Longrightarrow> complete_wide_lead row len ! i =
      (if i = len \<and> 0 < len \<and> is_wide (row ! (len - 1))
       then continuation_cell (cell_attrs (row ! (len - 1))) (cell_hyperlink (row ! (len - 1)))
       else row ! i)"
  using assms by (auto simp: complete_wide_lead_def Let_def nth_list_update)

lemma take_row_ok: "row_ok row \<Longrightarrow> row_ok (take n row)"
  by (auto simp: row_ok_def)

lemma row_ok_snoc:
  "row_ok (xs @ [x]) \<longleftrightarrow> row_ok xs
     \<and> (is_wide_continuation x \<longleftrightarrow> xs \<noteq> [] \<and> is_wide (last xs)) \<and> not_both x"
proof (cases xs rule: rev_cases)
  case Nil
  then show ?thesis by (auto simp: row_ok_iff not_both_def)
next
  case (snoc ys y)
  have split: "(\<forall>i < Suc (length xs). P i) \<longleftrightarrow> (\<forall>i < length xs. P i) \<and> P (length xs)" for P
    by (auto simp: less_Suc_eq)
  have pairs: "(\<forall>i. Suc i < Suc (length xs) \<longrightarrow> P i) \<longleftrightarrow> (\<forall>i. Suc i < length xs \<longrightarrow> P i) \<and> P (length ys)" for P
    by (auto simp: snoc less_Suc_eq)
  show ?thesis
    unfolding row_ok_iff length_append_singleton split pairs
    by (auto simp: snoc nth_append not_both_def less_Suc_eq)
qed

lemma row_ok_append_blank:
  "row_ok xs \<Longrightarrow> xs = [] \<or> \<not> is_wide (last xs) \<Longrightarrow> row_ok (xs @ replicate k cell_default)"
proof (induction k)
  case (Suc k)
  let ?ys = "xs @ replicate k cell_default"
  have "row_ok ?ys" using Suc by simp
  moreover have "?ys = [] \<or> \<not> is_wide (last ?ys)"
    using Suc.prems by (cases k) auto
  ultimately have "row_ok (?ys @ [cell_default])"
    unfolding row_ok_snoc by (auto simp: not_both_def)
  moreover have "?ys @ [cell_default] = xs @ replicate (Suc k) cell_default"
    by (simp add: replicate_append_same)
  ultimately show ?case by (simp only:)
qed simp

lemma grow_row_ok:
  assumes ok: "row_ok row" and k: "0 < k"
  shows "row_ok (complete_wide_lead (row @ replicate k cell_default) (length row))"
proof (cases "row \<noteq> [] \<and> is_wide (last row)")
  case False
  with ok show ?thesis
    by (auto simp: complete_wide_lead_def Let_def row_ok_append_blank nth_append last_conv_nth)
next
  case True
  define c where "c = continuation_cell (cell_attrs (last row)) (cell_hyperlink (last row))"
  have "complete_wide_lead (row @ replicate k cell_default) (length row)
      = (row @ [c]) @ replicate (k - 1) cell_default"
    using True k by (cases k) (auto simp: complete_wide_lead_def Let_def nth_append last_conv_nth c_def)
  moreover have "row_ok (row @ [c])"
    using ok True by (simp add: row_ok_snoc c_def continuation_cell_def not_both_def)
  ultimately show ?thesis
    using row_ok_append_blank [of "row @ [c]" "k - 1"] by (simp add: c_def continuation_cell_def)
qed

lemma shrink_row_ok:
  assumes "row_ok row"
  shows "row_ok (if row \<noteq> [] \<and> is_wide (last row) then row[length row - 1 := cell_default] else row)"
  using assms
  by (cases row rule: rev_cases) (auto simp: row_ok_snoc not_both_def)

lemma resize_row_ok:
  assumes "good_row n row"
  shows "good_row cols (resize_row cols row)"
proof -
  have row: "length row = n" "row_ok row" "list_all cell_ok row"
    using assms by (auto simp: good_row_def)
  define r where "r = take cols row @ replicate (cols - n) cell_default"
  have r: "length r = cols" "list_all cell_ok r"
    using row by (auto simp: r_def list_all_iff dest: in_set_takeD)
  show ?thesis
  proof (cases "n < cols")
    case True
    then have "resize_row cols row = complete_wide_lead r n"
      using row by (simp add: resize_row_def Let_def r_def)
    moreover have "row_ok (complete_wide_lead r n)"
      using grow_row_ok [OF row(2), of "cols - n"] True row(1) by (simp add: r_def)
    moreover have "list_all cell_ok (complete_wide_lead r n)"
      using r True by (auto simp: complete_wide_lead_def Let_def list_all_update list_all_length cell_ok_def
          continuation_cell_def nth_list_update)
    ultimately show ?thesis using r(1) True by (simp add: good_row_def complete_wide_lead_nth)
  next
    case False
    then have r_eq: "r = take cols row" by (simp add: r_def row(1))
    have "resize_row cols row
        = (if r \<noteq> [] \<and> is_wide (last r) then r[length r - 1 := cell_default] else r)"
      using False row(1) by (simp add: resize_row_def Let_def r_def)
    then show ?thesis
      using shrink_row_ok [OF take_row_ok [OF row(2), of cols]] r r_eq
      by (auto simp: good_row_def list_all_update)
  qed
qed

lemma rs_shrink_ok:
  assumes "store_ok n cols s" "arena_inv pool"
  shows "store_ok (min n target) cols (fst (rs_shrink target s pool))
    \<and> arena_inv (snd (rs_shrink target s pool))"
  using assms
proof (induction target s pool arbitrary: n rule: rs_shrink.induct)
  case (1 target s pool)
  show ?case
  proof (cases "target < length (rs_rows s)")
    case False
    with "1.prems" show ?thesis by (simp add: rs_shrink.simps store_ok_def)
  next
    case True
    let ?s = "\<lparr>rs_rows = butlast (rs_rows s), rs_wraps = butlast (rs_wraps s)\<rparr>"
    have "store_ok (n - 1) cols ?s"
      using "1.prems"(1) by (auto simp: store_ok_def list_all_iff dest: in_set_butlastD)
    note IH = "1.IH" [OF True this pool.release_inv [OF "1.prems"(2)]]
    have "min (n - 1) target = min n target" using True "1.prems"(1) by (auto simp: store_ok_def)
    with IH True show ?thesis by (simp add: rs_shrink.simps [of target s pool])
  qed
qed

lemma rs_grow_ok:
  assumes "store_ok n cols s" "arena_inv pool"
  shows "store_ok (max n target) cols (fst (rs_grow target cols s pool))
    \<and> arena_inv (snd (rs_grow target cols s pool))"
  using assms
proof (induction target cols s pool arbitrary: n rule: rs_grow.induct)
  case (1 target cols s pool)
  show ?case
  proof (cases "length (rs_rows s) < target")
    case False
    with "1.prems" show ?thesis by (simp add: rs_grow.simps store_ok_def max_def)
  next
    case True
    obtain row pool' where r: "arena_blank_row pool cols = (row, pool')" by fastforce
    have row: "row = blank_row cols" using pool.alloc_blank [of pool cols] r by simp
    let ?s = "rs_push_back_with_wrap s row default"
    have "store_ok (Suc n) cols ?s"
      using "1.prems"(1) by (simp add: store_ok_def rs_push_back_with_wrap_def row)
    moreover have "arena_inv pool'" using pool.alloc_inv [OF "1.prems"(2), of cols] r by simp
    ultimately have "store_ok (max (Suc n) target) cols (fst (rs_grow target cols ?s pool'))
      \<and> arena_inv (snd (rs_grow target cols ?s pool'))"
      by (rule "1.IH" [OF True r [symmetric] refl])
    moreover have "max (Suc n) target = max n target" using True "1.prems"(1) by (simp add: store_ok_def)
    ultimately show ?thesis using True r by (simp add: rs_grow.simps [of target cols s pool])
  qed
qed

lemma rs_resize_ok:
  assumes st: "store_ok n c s" and n: "0 < n" and inv: "arena_inv pool"
  shows "store_ok rows cols (fst (rs_resize s rows cols pool)) \<and> arena_inv (snd (rs_resize s rows cols pool))"
proof -
  define s1 where "s1 = (if c \<noteq> cols then s\<lparr>rs_rows := map (resize_row cols) (rs_rows s)\<rparr> else s)"
  have ne: "rs_rows s \<noteq> []" "length (hd (rs_rows s)) = c"
    using st n by (auto simp: store_ok_def good_row_def list_all_iff)
  have "store_ok n cols s1"
    using st by (auto simp: s1_def store_ok_def list_all_iff resize_row_ok)
  from rs_shrink_ok [OF this inv, of rows]
  have sh: "store_ok (min n rows) cols (fst (rs_shrink rows s1 pool))" "arena_inv (snd (rs_shrink rows s1 pool))"
    by auto
  from rs_grow_ok [OF this, of rows]
  have "store_ok rows cols (fst (rs_grow rows cols (fst (rs_shrink rows s1 pool)) (snd (rs_shrink rows s1 pool))))
    \<and> arena_inv (snd (rs_grow rows cols (fst (rs_shrink rows s1 pool)) (snd (rs_shrink rows s1 pool))))"
    by (simp add: max_def min_def split: if_splits)
  with st ne inv show ?thesis
    by (auto simp: rs_resize_def Let_def split_beta s1_def store_ok_def split: if_splits)
qed

section \<open>Correctness of the row operations\<close>

text \<open>Concrete cells for the examples: a letter, and the two halves of a wide character.\<close>

definition letter :: "char \<Rightarrow> cell" where
  "letter c = cell_default\<lparr>contents := [of_char c]\<rparr>"

definition wide_pair :: "char \<Rightarrow> cell list" where
  "wide_pair ch = [cell_default\<lparr>contents := [of_char ch], is_wide := True\<rparr>, continuation_cell attrs_default None]"

lemma rs_shrink_rows:
  "rs_rows (fst (rs_shrink target s pool)) = take target (rs_rows s)"
proof (induction target s pool rule: rs_shrink.induct)
  case (1 target s pool)
  show ?case
  proof (cases "target < length (rs_rows s)")
    case True
    then have "take target (butlast (rs_rows s)) = take target (rs_rows s)" by (simp add: butlast_conv_take)
    with 1 True show ?thesis by (simp add: rs_shrink.simps [of target s])
  qed (simp add: rs_shrink.simps [of target s])
qed

lemma rs_grow_rows:
  "rs_rows (fst (rs_grow target cols s pool)) = rs_rows s @ replicate (target - length (rs_rows s)) (blank_row cols)"
proof (induction target cols s pool rule: rs_grow.induct)
  case (1 target cols s pool)
  show ?case
  proof (cases "length (rs_rows s) < target")
    case True
    obtain row pool' where a: "arena_blank_row pool cols = (row, pool')" by fastforce
    have row: "row = blank_row cols" using pool.alloc_blank [of pool cols] a by simp
    have "replicate (target - length (rs_rows s)) (blank_row cols)
        = row # replicate (target - Suc (length (rs_rows s))) (blank_row cols)"
      using True by (simp add: row flip: replicate_Suc Suc_diff_Suc)
    with 1(1) [OF True a [symmetric]] True show ?thesis
      by (simp add: rs_grow.simps [of target cols s pool] a rs_push_back_with_wrap_def)
  qed (simp add: rs_grow.simps [of target])
qed

text \<open>
  Resizing a store of paired rows gives paired rows of the new size: the surviving rows are cut or
  extended one by one (\<open>resize_row\<close>, only when the width changes), rows are dropped at the bottom,
  and new rows are blank whatever the arena holds.
\<close>

lemma resize_store:
  assumes "store_ok n c s" "0 < n" "arena_inv pool"
  shows "store_ok rows cols (fst (rs_resize s rows cols pool))
    \<and> rs_rows (fst (rs_resize s rows cols pool)) =
      take rows (map (if c = cols then id else resize_row cols) (rs_rows s)) @ replicate (rows - n) (blank_row cols)"
proof -
  have ne: "rs_rows s \<noteq> []" "length (hd (rs_rows s)) = c" "length (rs_rows s) = n"
    using assms by (auto simp: store_ok_def good_row_def list_all_iff)
  then have "rs_rows (fst (rs_resize s rows cols pool)) =
      take rows (map (if c = cols then id else resize_row cols) (rs_rows s)) @ replicate (rows - n) (blank_row cols)"
    by (auto simp: rs_resize_def Let_def split_beta rs_grow_rows rs_shrink_rows)
  with rs_resize_ok [OF assms] show ?thesis by simp
qed

lemma resize_store_witness:
  "rs_rows (fst (rs_resize \<lparr>rs_rows = [letter CHR ''a'' # wide_pair CHR ''W''], rs_wraps = [Hard]\<rparr> 2 2 [])) =
     [[letter CHR ''a'', cell_default], [cell_default, cell_default]]"
proof -
  let ?s = "\<lparr>rs_rows = [letter CHR ''a'' # wide_pair CHR ''W''], rs_wraps = [Hard]\<rparr>"
  have "store_ok 1 3 ?s" "arena_inv []" by code_simp+
  moreover have "take 2 (map (if (3 :: nat) = 2 then id else resize_row 2) (rs_rows ?s))
      @ replicate (2 - 1) (blank_row 2) = [[letter CHR ''a'', cell_default], [cell_default, cell_default]]"
    by code_simp
  ultimately show ?thesis using resize_store [of 1 3 ?s "[]" 2 2] by simp
qed



text \<open>
  Erasing columns \<open>start..stop\<close> of a paired row (a non-empty range, or the empty one at the right margin) never tears a wide character: exactly the range and
  the other half of a pair cut at either end become blank, and the row stays paired.
\<close>

lemma erase_cells_bce_correct:
  assumes "row_ok row" "start < stop \<or> start = length row" "stop \<le> length row" "start \<le> stop" "\<not> is_wide blank" "\<not> is_wide_continuation blank"
  shows "ok (erase_cells_bce row start stop blank) (\<lambda>row'. row_ok row' \<and> length row' = length row
    \<and> (\<forall>i < length row. row' ! i = (if (start \<le> i \<and> i < stop)
         \<or> (start < length row \<and> Suc i = start \<and> is_wide_continuation (row ! start))
         \<or> (i = stop \<and> start < stop \<and> is_wide (row ! (stop - 1))) then blank else row ! i)))"
proof -
  have "ok (erase_cells_bce row start stop blank) (\<lambda>row'. length row' = length row \<and>
     (\<forall>i < length row. row' ! i = (if erased row start stop i then blank else row ! i)))"
    using erase_cells_bce_ok [OF assms(4,3)] by simp
  then show ?thesis
  proof (rule ok_mono_all)
    fix row' assume r: "length row' = length row \<and> (\<forall>i < length row. row' ! i = (if erased row start stop i then blank else row ! i))"
    then have "row_ok row'" using erased_row_ok [OF assms(1) _ assms(2,3) _ assms(5,6)] by simp
    with r show "row_ok row' \<and> length row' = length row
      \<and> (\<forall>i < length row. row' ! i = (if (start \<le> i \<and> i < stop)
         \<or> (start < length row \<and> Suc i = start \<and> is_wide_continuation (row ! start))
         \<or> (i = stop \<and> start < stop \<and> is_wide (row ! (stop - 1))) then blank else row ! i))"
      by (auto simp: erased_def)
  qed
qed

lemma erase_cells_bce_witness:
  "ok (erase_cells_bce (letter CHR ''a'' # wide_pair CHR ''W'' @ [letter CHR ''b'']) 2 4 cell_default)
     (\<lambda>row'. row_ok row' \<and> row' ! 0 = letter CHR ''a'' \<and> row' ! 1 = cell_default \<and> row' ! 3 = cell_default)"
proof -
  let ?r = "letter CHR ''a'' # wide_pair CHR ''W'' @ [letter CHR ''b'']"
  have "row_ok ?r" by (simp add: row_ok_def less_Suc_eq wide_pair_def letter_def continuation_cell_def)
  from erase_cells_bce_correct [OF this, of 2 4 cell_default] show ?thesis
    by (rule ok_mono_all) (simp_all add: wide_pair_def continuation_cell_def)
qed

text \<open>
  A row taken from the arena is blank whatever rows were recycled into it, and the pool never holds
  more than \<open>MAX_RECYCLED_ROWS\<close> rows, all of them blank.
\<close>

lemma arena_correct:
  assumes "arena_inv pool"
  shows "fst (arena_blank_row pool cols) = blank_row cols \<and> arena_inv (snd (arena_blank_row pool cols))
    \<and> arena_inv (arena_recycle pool row) \<and> length (arena_recycle pool row) \<le> MAX_RECYCLED_ROWS"
  using assms pool.alloc_blank [of pool cols] pool.alloc_inv [OF assms] pool.release_inv [OF assms, of row]
  by (simp add: arena_inv_def)

lemma arena_witness:
  "fst (arena_blank_row (arena_recycle [] [letter CHR ''a'', letter CHR ''b'']) 2) = [cell_default, cell_default]"
proof -
  have "arena_inv []" by (simp add: arena_inv_def)
  then have "arena_inv (arena_recycle [] [letter CHR ''a'', letter CHR ''b''])" using arena_correct by blast
  from arena_correct [OF this, of 2] show ?thesis by (simp add: blank_row_def numeral_2_eq_2)
qed

end
