(* ===== verification/Sgr.thy ===== *)
theory Sgr
  imports Cells
begin

text \<open>
  CSI reconstruction and SGR parameters (\<open>src/src/grid/parse.rs\<close>, and \<open>apply_sgr\<close> of
  \<open>src/src/grid.rs\<close>). The parameters of a control sequence are a list of subparameter lists, as
  \<open>vte::Params::iter\<close> yields them. \<open>apply_sgr\<close> only touches the pen, so it is a function on
  attributes; its \<open>while\<close> loop is \<open>sgr_loop\<close>, with the index the colour parser advances.
\<close>

type_synonym params = "u16 list list"

definition first_or_0 :: "u16 list \<Rightarrow> u16" where
  "first_or_0 p = (case p of [] \<Rightarrow> 0 | x # _ \<Rightarrow> x)"

text \<open>\<open>[a].join(sep)\<close> over byte strings.\<close>

fun sep_concat :: "u8 \<Rightarrow> u8 list list \<Rightarrow> u8 list" where
  "sep_concat sep [] = []"
| "sep_concat sep [x] = x"
| "sep_concat sep (x # y # xs) = x @ sep # sep_concat sep (y # xs)"

definition reconstruct_csi :: "params \<Rightarrow> u8 list \<Rightarrow> u8 \<Rightarrow> u8 list" where
  "reconstruct_csi ps intermediates final_byte =
     esc ''['' @ intermediates
       @ sep_concat 0x3b (map (\<lambda>sub. sep_concat 0x3a (map decimal sub)) ps) @ [final_byte]"

definition underline_style_from_sgr :: "u16 \<Rightarrow> underline_style" where
  "underline_style_from_sgr style =
     (if style = 0 then UnderlineNone
      else if style = 2 then UnderlineDouble
      else if style = 3 then UnderlineCurly
      else if style = 4 then UnderlineDotted
      else if style = 5 then UnderlineDashed
      else UnderlineSingle)"

definition clamp_u8 :: "u16 \<Rightarrow> u8" where
  "clamp_u8 n = byte (min n 255)"

definition parse_sgr_color_values :: "u16 list \<Rightarrow> color option" where
  "parse_sgr_color_values vs = do {
     mode \<leftarrow> vec_get vs 0;
     if mode = 5 then map_option (\<lambda>idx. Idx (clamp_u8 idx)) (vec_get vs 1)
     else if mode = 2 then do {
       let start = (if 5 \<le> length vs \<and> vs ! 1 = 0 then 2 else 1);
       r \<leftarrow> vec_get vs start;
       g \<leftarrow> vec_get vs (start + 1);
       b \<leftarrow> vec_get vs (start + 2);
       Some (Rgb (clamp_u8 r) (clamp_u8 g) (clamp_u8 b))
     }
     else None
   }"

text \<open>Returns the colour and the new value of the caller's index.\<close>

definition parse_sgr_color :: "u16 list \<Rightarrow> params \<Rightarrow> usize \<Rightarrow> color option \<times> usize" where
  "parse_sgr_color cur ps i =
     (if 1 < length cur then (parse_sgr_color_values (drop 1 cur), i)
      else if length ps \<le> i + 1 then (None, i)
      else let mode = first_or_0 (ps ! (i + 1)) in
        if mode = 5 then
          (if i + 2 < length ps then (Some (Idx (clamp_u8 (first_or_0 (ps ! (i + 2))))), i + 2) else (None, i))
        else if mode = 2 then
          (if i + 4 < length ps
           then (Some (Rgb (clamp_u8 (first_or_0 (ps ! (i + 2)))) (clamp_u8 (first_or_0 (ps ! (i + 3))))
                   (clamp_u8 (first_or_0 (ps ! (i + 4))))), i + 4)
           else (None, i))
        else (None, i))"

lemma parse_sgr_color_index: "i \<le> snd (parse_sgr_color cur ps i)"
  by (simp add: parse_sgr_color_def Let_def)

definition set_fg :: "color option \<Rightarrow> attrs \<Rightarrow> attrs" where
  "set_fg c a = (case c of Some x \<Rightarrow> a\<lparr>at_foreground := x\<rparr> | None \<Rightarrow> a)"

definition set_bg :: "color option \<Rightarrow> attrs \<Rightarrow> attrs" where
  "set_bg c a = (case c of Some x \<Rightarrow> a\<lparr>at_background := x\<rparr> | None \<Rightarrow> a)"

definition set_ul :: "color option \<Rightarrow> attrs \<Rightarrow> attrs" where
  "set_ul c a = (case c of Some x \<Rightarrow> a\<lparr>at_underline_color := x\<rparr> | None \<Rightarrow> a)"

text \<open>One iteration: the attributes after the code at index \<open>i\<close>, and the index it leaves.\<close>

definition sgr_code :: "attrs \<Rightarrow> params \<Rightarrow> usize \<Rightarrow> attrs \<times> usize" where
  "sgr_code a ps i = (let param = ps ! i; code = first_or_0 param in
     if code = 0 then (attrs_default, i)
     else if code = 1 then (a\<lparr>at_bold := True\<rparr>, i)
     else if code = 2 then (a\<lparr>at_dim := True\<rparr>, i)
     else if code = 3 then (a\<lparr>at_italic := True\<rparr>, i)
     else if code = 4 then
       (a\<lparr>at_underline_style := underline_style_from_sgr (if 1 < length param then param ! 1 else 1)\<rparr>, i)
     else if code = 5 then (a\<lparr>at_slow_blink := True\<rparr>, i)
     else if code = 6 then (a\<lparr>at_rapid_blink := True\<rparr>, i)
     else if code = 7 then (a\<lparr>at_inverse := True\<rparr>, i)
     else if code = 8 then (a\<lparr>at_conceal := True\<rparr>, i)
     else if code = 9 then (a\<lparr>at_strikethrough := True\<rparr>, i)
     else if code = 21 then (a\<lparr>at_underline_style := UnderlineDouble\<rparr>, i)
     else if code = 22 then (a\<lparr>at_bold := False, at_dim := False\<rparr>, i)
     else if code = 23 then (a\<lparr>at_italic := False\<rparr>, i)
     else if code = 24 then (a\<lparr>at_underline_style := UnderlineNone\<rparr>, i)
     else if code = 25 then (a\<lparr>at_slow_blink := False, at_rapid_blink := False\<rparr>, i)
     else if code = 27 then (a\<lparr>at_inverse := False\<rparr>, i)
     else if code = 28 then (a\<lparr>at_conceal := False\<rparr>, i)
     else if code = 29 then (a\<lparr>at_strikethrough := False\<rparr>, i)
     else if 30 \<le> code \<and> code \<le> 37 then (a\<lparr>at_foreground := Idx (byte (code - 30))\<rparr>, i)
     else if code = 38 then (let (c, j) = parse_sgr_color param ps i in (set_fg c a, j))
     else if code = 39 then (a\<lparr>at_foreground := ColorDefault\<rparr>, i)
     else if 40 \<le> code \<and> code \<le> 47 then (a\<lparr>at_background := Idx (byte (code - 40))\<rparr>, i)
     else if code = 48 then (let (c, j) = parse_sgr_color param ps i in (set_bg c a, j))
     else if code = 49 then (a\<lparr>at_background := ColorDefault\<rparr>, i)
     else if code = 53 then (a\<lparr>at_overline := True\<rparr>, i)
     else if code = 55 then (a\<lparr>at_overline := False\<rparr>, i)
     else if code = 58 then (let (c, j) = parse_sgr_color param ps i in (set_ul c a, j))
     else if code = 59 then (a\<lparr>at_underline_color := ColorDefault\<rparr>, i)
     else if 90 \<le> code \<and> code \<le> 97 then (a\<lparr>at_foreground := Idx (byte (code - 90 + 8))\<rparr>, i)
     else if 100 \<le> code \<and> code \<le> 107 then (a\<lparr>at_background := Idx (byte (code - 100 + 8))\<rparr>, i)
     else (a, i))"

lemma sgr_code_index: "i \<le> snd (sgr_code a ps i)"
  using parse_sgr_color_index [of i "ps ! i" ps]
  by (simp add: sgr_code_def Let_def split_beta)

function sgr_loop :: "attrs \<Rightarrow> params \<Rightarrow> usize \<Rightarrow> attrs" where
  "sgr_loop a ps i =
     (if i < length ps
      then sgr_loop (fst (sgr_code a ps i)) ps (snd (sgr_code a ps i) + 1)
      else a)"
  by pat_completeness auto
termination
  by (relation "measure (\<lambda>(a, ps, i). length ps - i)")
     (use sgr_code_index in \<open>auto simp: le_imp_less_Suc intro!: diff_less_mono2\<close>)

declare sgr_loop.simps [simp del]

definition apply_sgr :: "attrs \<Rightarrow> params \<Rightarrow> attrs" where
  "apply_sgr a ps = (if ps = [] then attrs_default else sgr_loop a ps 0)"

section \<open>Locality of the loop\<close>

text \<open>
  The loop only looks ahead, so its result depends on the parameters from the index on:
  \<open>sgr_from\<close> runs it on the remaining parameters.
\<close>

lemma sgr_code_drop:
  assumes "i < length ps"
  shows "sgr_code a ps i = (fst (sgr_code a (drop i ps) 0), i + snd (sgr_code a (drop i ps) 0))"
proof -
  have "parse_sgr_color cur ps i
      = (fst (parse_sgr_color cur (drop i ps) 0), i + snd (parse_sgr_color cur (drop i ps) 0))" for cur
    using assms by (auto simp: parse_sgr_color_def Let_def)
  note eq = this [of "ps ! i"]
  have hd: "drop i ps ! 0 = ps ! i" using assms by simp
  show ?thesis unfolding sgr_code_def Let_def hd eq by (simp add: split_beta)
qed

lemma sgr_loop_drop: "sgr_loop a ps i = sgr_loop a (drop i ps) 0"
proof (induction "length ps - i" arbitrary: a ps i rule: less_induct)
  case less
  show ?case
  proof (cases "i < length ps")
    case False
    then show ?thesis by (simp add: sgr_loop.simps)
  next
    case True
    obtain a' j where r: "sgr_code a (drop i ps) 0 = (a', j)" by (cases "sgr_code a (drop i ps) 0")
    have "sgr_loop a ps i = sgr_loop a' ps (i + j + 1)"
      using True by (simp add: sgr_loop.simps [of a ps i] sgr_code_drop r)
    also have "\<dots> = sgr_loop a' (drop (i + j + 1) ps) 0"
      using True by (intro less) simp
    also have "\<dots> = sgr_loop a' (drop (j + 1) (drop i ps)) 0"
      by (simp add: add.commute add.left_commute)
    also have "\<dots> = sgr_loop a' (drop i ps) (j + 1)"
      using True by (intro less [symmetric]) simp
    also have "\<dots> = sgr_loop a (drop i ps) 0"
      using True by (simp add: sgr_loop.simps [of a "drop i ps" 0] r)
    finally show ?thesis .
  qed
qed

definition sgr_from :: "attrs \<Rightarrow> params \<Rightarrow> attrs" where
  "sgr_from a ps = sgr_loop a ps 0"

lemma sgr_from_Nil [simp]: "sgr_from a [] = a"
  by (simp add: sgr_from_def sgr_loop.simps)

lemma sgr_from_step:
  "ps \<noteq> [] \<Longrightarrow> sgr_from a ps = sgr_from (fst (sgr_code a ps 0)) (drop (snd (sgr_code a ps 0) + 1) ps)"
  by (simp add: sgr_from_def sgr_loop.simps [of a ps 0] sgr_loop_drop [of _ ps "Suc _"])

end
