(* ===== verification/Widths.thy ===== *)
theory Widths
  imports Cells
begin

text \<open>
  The display-width contract (\<open>src/src/width.rs\<close>). The tables of the \<open>unicode_width\<close> crate are a
  parameter: \<open>uw_char\<close> is \<open>UnicodeWidthChar::width\<close> (\<open>None\<close> for a control character), \<open>uw_str\<close> is
  \<open>UnicodeWidthStr::width\<close>. Nothing is assumed of them; the code clamps both to two columns.
\<close>

record unicode_width =
  uw_char :: "uchar \<Rightarrow> usize option"
  uw_str :: "ustr \<Rightarrow> usize"

datatype osc8_policy = ModelMetadata

record supported_sgr =
  sgr_flags :: "16 word"

definition BOLD :: "16 word" where "BOLD = push_bit 0 1"
definition DIM :: "16 word" where "DIM = push_bit 1 1"
definition ITALIC :: "16 word" where "ITALIC = push_bit 2 1"
definition UNDERLINE :: "16 word" where "UNDERLINE = push_bit 3 1"
definition UNDERLINE_STYLE :: "16 word" where "UNDERLINE_STYLE = push_bit 4 1"
definition UNDERLINE_COLOR :: "16 word" where "UNDERLINE_COLOR = push_bit 5 1"
definition INVERSE :: "16 word" where "INVERSE = push_bit 6 1"
definition STRIKETHROUGH :: "16 word" where "STRIKETHROUGH = push_bit 7 1"
definition BLINK :: "16 word" where "BLINK = push_bit 8 1"
definition CONCEAL :: "16 word" where "CONCEAL = push_bit 9 1"
definition OVERLINE :: "16 word" where "OVERLINE = push_bit 10 1"
definition COLOR_256 :: "16 word" where "COLOR_256 = push_bit 11 1"
definition TRUECOLOR :: "16 word" where "TRUECOLOR = push_bit 12 1"

text \<open>The accessors of \<open>SupportedSgr\<close> test one flag each.\<close>

definition sgr_supports :: "supported_sgr \<Rightarrow> 16 word \<Rightarrow> bool" where
  "sgr_supports s flag \<longleftrightarrow> sgr_flags s AND flag \<noteq> 0"

record profile =
  pr_unicode_version :: string
  pr_grapheme_cluster_width_mode :: bool
  pr_ambiguous_width_is_wide :: bool
  pr_decrqm_mode_2027_status :: u16
  pr_default_reported_fg :: "u8 \<times> u8 \<times> u8"
  pr_default_reported_bg :: "u8 \<times> u8 \<times> u8"
  pr_agent_term :: string
  pr_agent_colorterm :: string
  pr_osc8_policy :: osc8_policy
  pr_supported_sgr :: supported_sgr

definition profile_default :: profile where
  "profile_default = \<lparr>pr_unicode_version = ''unicode-width 0.2'',
     pr_grapheme_cluster_width_mode = False, pr_ambiguous_width_is_wide = False,
     pr_decrqm_mode_2027_status = 0, pr_default_reported_fg = (0xe6, 0xe6, 0xe6),
     pr_default_reported_bg = (0x00, 0x00, 0x00), pr_agent_term = ''xterm-256color'',
     pr_agent_colorterm = ''truecolor'', pr_osc8_policy = ModelMetadata,
     pr_supported_sgr = \<lparr>sgr_flags = push_bit 13 1 - 1\<rparr>\<rparr>"

definition char_width :: "unicode_width \<Rightarrow> uchar \<Rightarrow> u16" where
  "char_width uw ch = as_u16 (min (case uw_char uw ch of None \<Rightarrow> 1 | Some n \<Rightarrow> n) 2)"

definition display_width :: "unicode_width \<Rightarrow> ustr \<Rightarrow> u16" where
  "display_width uw cluster = (if cluster = [] then 0 else min (as_u16 (uw_str uw cluster)) 2)"

definition cluster_width :: "unicode_width \<Rightarrow> ustr \<Rightarrow> u16" where
  "cluster_width uw cluster = display_width uw cluster"

definition profile_decrqm_status :: "profile \<Rightarrow> u16 \<Rightarrow> u16" where
  "profile_decrqm_status p mode = (if mode = 2027 then pr_decrqm_mode_2027_status p else 0)"

definition default_reported_color :: "profile \<Rightarrow> nat \<Rightarrow> (u8 \<times> u8 \<times> u8) option" where
  "default_reported_color p code =
     (if code = 10 then Some (pr_default_reported_fg p)
      else if code = 11 then Some (pr_default_reported_bg p) else None)"

definition attrs_supported :: "profile \<Rightarrow> attrs \<Rightarrow> bool" where
  "attrs_supported p a = (let sgr = pr_supported_sgr p in
     (sgr_supports sgr COLOR_256 \<or> sgr_supports sgr TRUECOLOR
        \<or> (at_foreground a = ColorDefault \<and> at_background a = ColorDefault))
     \<and> (\<not> at_bold a \<or> sgr_supports sgr BOLD)
     \<and> (\<not> at_dim a \<or> sgr_supports sgr DIM)
     \<and> (\<not> at_italic a \<or> sgr_supports sgr ITALIC)
     \<and> (at_underline_style a = UnderlineNone \<or> sgr_supports sgr UNDERLINE)
     \<and> (\<not> at_strikethrough a \<or> sgr_supports sgr STRIKETHROUGH)
     \<and> (\<not> (at_slow_blink a \<or> at_rapid_blink a) \<or> sgr_supports sgr BLINK)
     \<and> (\<not> at_conceal a \<or> sgr_supports sgr CONCEAL)
     \<and> (\<not> at_overline a \<or> sgr_supports sgr OVERLINE))"

lemma char_width_le: "char_width uw ch \<le> 2"
  by (simp add: char_width_def)

lemma display_width_le: "display_width uw s \<le> 2"
  by (simp add: display_width_def)

lemma cluster_width_le: "cluster_width uw s \<le> 2"
  by (simp add: cluster_width_def display_width_le)

lemmas sgr_flag_defs = BOLD_def DIM_def ITALIC_def UNDERLINE_def UNDERLINE_STYLE_def
  UNDERLINE_COLOR_def INVERSE_def STRIKETHROUGH_def BLINK_def CONCEAL_def OVERLINE_def
  COLOR_256_def TRUECOLOR_def

text \<open>
  The default profile claims every SGR attribute, so no attribute set a program can select is
  refused.
\<close>

lemma attrs_supported_default: "attrs_supported profile_default a"
  by (simp add: attrs_supported_def profile_default_def sgr_supports_def sgr_flag_defs Let_def)

end
