(* ===== verification/Damage.thy ===== *)
theory Damage
  imports Termpane_Prelude
begin

text \<open>
  Dirty-row tracking (\<open>src/src/damage.rs\<close>): a fixed array of at most 64 spans, one merged column
  span per row, kept sorted by row with a binary search, and an overflow flag that means every
  row is dirty. \<open>covers t r c\<close> is the meaning of a tracker: the cell at row \<open>r\<close>, column \<open>c\<close> is
  reported as changed. The locale \<open>damage_sink\<close> is what the grid relies on.
\<close>

section \<open>Model\<close>

definition MAX_TRACKED_DIRTY_ROWS :: usize where
  "MAX_TRACKED_DIRTY_ROWS = 64"

record dirty_span =
  ds_row :: u16
  ds_start_col :: u16
  ds_end_col :: u16

definition span_full_row :: "u16 \<Rightarrow> dirty_span" where
  "span_full_row r = \<lparr>ds_row = r, ds_start_col = 0, ds_end_col = u16_max\<rparr>"

definition is_full_row :: "dirty_span \<Rightarrow> bool" where
  "is_full_row s \<longleftrightarrow> ds_start_col s = 0 \<and> ds_end_col s = u16_max"

definition span_merge :: "dirty_span \<Rightarrow> u16 \<Rightarrow> u16 \<Rightarrow> dirty_span" where
  "span_merge s start_col end_col =
     s\<lparr>ds_start_col := min (ds_start_col s) start_col, ds_end_col := max (ds_end_col s) end_col\<rparr>"

record dirty_rows =
  dr_rows :: "dirty_span list"
  dr_len :: usize

definition dirty_rows_default :: dirty_rows where
  "dirty_rows_default = \<lparr>dr_rows = replicate MAX_TRACKED_DIRTY_ROWS (span_full_row 0), dr_len = 0\<rparr>"

definition dr_as_slice :: "dirty_rows \<Rightarrow> dirty_span list" where
  "dr_as_slice d = take (dr_len d) (dr_rows d)"

text \<open>\<open>None\<close> is a panic, \<open>Some (Inl ())\<close> the error result for a full list.\<close>

definition push_or_merge :: "dirty_rows \<Rightarrow> u16 \<Rightarrow> u16 \<Rightarrow> u16 \<Rightarrow> (unit + dirty_rows) option" where
  "push_or_merge d r start_col end_col =
     (case binary_search_by_key (dr_as_slice d) r ds_row of
        Inr idx \<Rightarrow> do {
          s \<leftarrow> vec_get (dr_rows d) idx;
          rs \<leftarrow> vec_set (dr_rows d) idx (span_merge s start_col end_col);
          Some (Inr (d\<lparr>dr_rows := rs\<rparr>))
        }
      | Inl insert_at \<Rightarrow>
        (if dr_len d = length (dr_rows d) then Some (Inl ())
         else do {
           rs \<leftarrow> copy_within (dr_rows d) insert_at (dr_len d) (insert_at + 1);
           rs' \<leftarrow> vec_set rs insert_at \<lparr>ds_row = r, ds_start_col = start_col, ds_end_col = end_col\<rparr>;
           Some (Inr (d\<lparr>dr_rows := rs', dr_len := dr_len d + 1\<rparr>))
         }))"

definition dr_clear :: "dirty_rows \<Rightarrow> dirty_rows" where
  "dr_clear d = d\<lparr>dr_len := 0\<rparr>"

definition dr_is_empty :: "dirty_rows \<Rightarrow> bool" where
  "dr_is_empty d \<longleftrightarrow> dr_len d = 0"

definition dr_contains :: "dirty_rows \<Rightarrow> u16 \<Rightarrow> bool" where
  "dr_contains d r = (case binary_search_by_key (dr_as_slice d) r ds_row of Inr _ \<Rightarrow> True | Inl _ \<Rightarrow> False)"

datatype dirty_spans = AllDirty | RowsDirty dirty_rows

fun spans_is_empty :: "dirty_spans \<Rightarrow> bool" where
  "spans_is_empty AllDirty = False"
| "spans_is_empty (RowsDirty v) = dr_is_empty v"

record dirty_tracker =
  dt_rows :: dirty_rows
  dt_all_dirty :: bool

definition dt_new :: "u16 \<Rightarrow> dirty_tracker" where
  "dt_new row_count = \<lparr>dt_rows = dirty_rows_default, dt_all_dirty = False\<rparr>"

definition mark_all :: "dirty_tracker \<Rightarrow> dirty_tracker" where
  "mark_all t = t\<lparr>dt_rows := dr_clear (dt_rows t), dt_all_dirty := True\<rparr>"

definition dt_resize :: "dirty_tracker \<Rightarrow> u16 \<Rightarrow> dirty_tracker" where
  "dt_resize t row_count = mark_all (t\<lparr>dt_rows := dr_clear (dt_rows t)\<rparr>)"

definition mark_range :: "dirty_tracker \<Rightarrow> u16 \<Rightarrow> u16 \<Rightarrow> u16 \<Rightarrow> dirty_tracker option" where
  "mark_range t r start_col end_col =
     (if dt_all_dirty t then Some t
      else if end_col \<le> start_col then Some t
      else do {
        res \<leftarrow> push_or_merge (dt_rows t) r start_col end_col;
        Some (case res of Inl _ \<Rightarrow> mark_all t | Inr d \<Rightarrow> t\<lparr>dt_rows := d\<rparr>)
      })"

definition mark_row :: "dirty_tracker \<Rightarrow> u16 \<Rightarrow> dirty_tracker option" where
  "mark_row t r = mark_range t r 0 u16_max"

definition mark_cell :: "dirty_tracker \<Rightarrow> u16 \<Rightarrow> u16 \<Rightarrow> dirty_tracker option" where
  "mark_cell t r c = mark_range t r c (u16_sat_add c 1)"

definition dt_take :: "dirty_tracker \<Rightarrow> dirty_spans \<times> dirty_tracker" where
  "dt_take t =
     (if dt_all_dirty t then (AllDirty, t\<lparr>dt_all_dirty := False\<rparr>)
      else (RowsDirty (dt_rows t), t\<lparr>dt_rows := dirty_rows_default\<rparr>))"

definition dt_is_dirty :: "dirty_tracker \<Rightarrow> bool" where
  "dt_is_dirty t \<longleftrightarrow> dt_all_dirty t \<or> \<not> dr_is_empty (dt_rows t)"

section \<open>Meaning and invariant\<close>

definition span_covers :: "dirty_span \<Rightarrow> nat \<Rightarrow> nat \<Rightarrow> bool" where
  "span_covers s r c \<longleftrightarrow> ds_row s = r \<and> ds_start_col s \<le> c \<and> c < ds_end_col s"

definition covers :: "dirty_tracker \<Rightarrow> nat \<Rightarrow> nat \<Rightarrow> bool" where
  "covers t r c \<longleftrightarrow> dt_all_dirty t \<or> (\<exists>s \<in> set (dr_as_slice (dt_rows t)). span_covers s r c)"

definition spans_cover :: "dirty_spans \<Rightarrow> nat \<Rightarrow> nat \<Rightarrow> bool" where
  "spans_cover d r c = (case d of AllDirty \<Rightarrow> True
     | RowsDirty v \<Rightarrow> (\<exists>s \<in> set (dr_as_slice v). span_covers s r c))"

definition dr_inv :: "dirty_rows \<Rightarrow> bool" where
  "dr_inv d \<longleftrightarrow> length (dr_rows d) = MAX_TRACKED_DIRTY_ROWS \<and> dr_len d \<le> MAX_TRACKED_DIRTY_ROWS
     \<and> sorted_wrt (<) (map ds_row (dr_as_slice d))
     \<and> list_all (\<lambda>s. ds_start_col s < ds_end_col s) (dr_as_slice d)"

definition dt_inv :: "dirty_tracker \<Rightarrow> bool" where
  "dt_inv t \<longleftrightarrow> dr_inv (dt_rows t) \<and> (dt_all_dirty t \<longrightarrow> dr_len (dt_rows t) = 0)"

lemma length_dr_as_slice: "dr_inv d \<Longrightarrow> length (dr_as_slice d) = dr_len d"
  by (simp add: dr_inv_def dr_as_slice_def)

section \<open>Insertion\<close>

lemma take_copy_within:
  assumes "i \<le> n" "n < length xs" "copy_within xs i n (i + 1) = Some ys" "i < length ys"
  shows "take (n + 1) (ys[i := x]) = take i xs @ x # drop i (take n xs)" "length ys = length xs"
proof -
  have ys: "ys = take (i + 1) xs @ take (n - i) (drop i xs) @ drop (Suc n) xs"
    using assms by (auto simp: copy_within_def split: if_splits)
  then show "length ys = length xs" using assms(1,2) by simp
  have "ys[i := x] = take i xs @ x # take (n - i) (drop i xs) @ drop (Suc n) xs"
    using assms(1,2) by (simp add: ys take_Suc_conv_app_nth list_update_append)
  then show "take (n + 1) (ys[i := x]) = take i xs @ x # drop i (take n xs)"
    using assms(1,2) by (simp add: drop_take take_Cons')
qed

text \<open>
  The effect of \<open>push_or_merge\<close> on the live prefix of the array: a merge in place, an insertion
  at the sorted position, or an error when all 64 slots hold other rows.
\<close>

lemma push_or_merge_cases:
  assumes inv: "dr_inv d"
  obtains (merge) i where "i < dr_len d" "ds_row (dr_as_slice d ! i) = r"
      "push_or_merge d r s e = Some (Inr (d\<lparr>dr_rows := (dr_rows d)[i := span_merge (dr_rows d ! i) s e]\<rparr>))"
    | (full) "dr_len d = MAX_TRACKED_DIRTY_ROWS" "r \<notin> ds_row ` set (dr_as_slice d)"
      "push_or_merge d r s e = Some (Inl ())"
    | (insert) i d' where "i \<le> dr_len d" "dr_len d < MAX_TRACKED_DIRTY_ROWS"
      "\<forall>j < i. ds_row (dr_as_slice d ! j) < r" "\<forall>j < dr_len d. i \<le> j \<longrightarrow> r < ds_row (dr_as_slice d ! j)"
      "push_or_merge d r s e = Some (Inr d')" "length (dr_rows d') = length (dr_rows d)"
      "dr_len d' = dr_len d + 1"
      "dr_as_slice d' = take i (dr_as_slice d)
         @ \<lparr>ds_row = r, ds_start_col = s, ds_end_col = e\<rparr> # drop i (dr_as_slice d)"
proof -
  have len: "length (dr_rows d) = MAX_TRACKED_DIRTY_ROWS" "dr_len d \<le> length (dr_rows d)"
    and lslice: "length (dr_as_slice d) = dr_len d"
    using inv length_dr_as_slice [OF inv] by (auto simp: dr_inv_def)
  have sorted: "sorted_wrt (<) (map ds_row (dr_as_slice d))" using inv by (simp add: dr_inv_def)
  note bs = binary_search_by_key_cases [OF sorted, of r]
  show thesis
  proof (cases "binary_search_by_key (dr_as_slice d) r ds_row")
    case (Inr i)
    with bs lslice have i: "i < dr_len d" "ds_row (dr_as_slice d ! i) = r" by auto
    then have "push_or_merge d r s e
        = Some (Inr (d\<lparr>dr_rows := (dr_rows d)[i := span_merge (dr_rows d ! i) s e]\<rparr>))"
      using Inr len by (simp add: push_or_merge_def vec_get_def vec_set_def)
    with i show thesis by (rule merge)
  next
    case (Inl i)
    with bs lslice have i: "i \<le> dr_len d" "\<forall>j < i. ds_row (dr_as_slice d ! j) < r"
      "\<forall>j < dr_len d. i \<le> j \<longrightarrow> r < ds_row (dr_as_slice d ! j)" by auto
    show thesis
    proof (cases "dr_len d = length (dr_rows d)")
      case True
      have "ds_row x \<noteq> r" if x: "x \<in> set (dr_as_slice d)" for x
      proof -
        obtain j where "j < dr_len d" "x = dr_as_slice d ! j"
          using x lslice by (metis in_set_conv_nth)
        with i(2,3) show ?thesis by (cases "j < i") (auto dest: less_imp_neq)
      qed
      then have "r \<notin> ds_row ` set (dr_as_slice d)" by auto
      with True Inl len show thesis by (intro full) (auto simp: push_or_merge_def)
    next
      case False
      with len i(1) have lt: "dr_len d < length (dr_rows d)" by simp
      then obtain ys where ys: "copy_within (dr_rows d) i (dr_len d) (i + 1) = Some ys"
        using i(1) by (auto simp: copy_within_def)
      have il: "i < length ys" using ys i(1) lt by (auto simp: copy_within_def split: if_splits)
      note tk = take_copy_within [OF i(1) lt ys il]
      define x where "x = \<lparr>ds_row = r, ds_start_col = s, ds_end_col = e\<rparr>"
      define d' where "d' = d\<lparr>dr_rows := ys[i := x], dr_len := dr_len d + 1\<rparr>"
      have "push_or_merge d r s e = Some (Inr d')"
        using Inl False ys il by (simp add: push_or_merge_def vec_set_def d'_def x_def)
      moreover have "dr_as_slice d' = take i (dr_as_slice d) @ x # drop i (dr_as_slice d)"
        using tk(1) [of x] i(1) by (simp add: dr_as_slice_def d'_def min_def)
      ultimately show thesis
        using i lt len tk(2) by (intro insert [of i d']) (auto simp: d'_def x_def)
    qed
  qed
qed

lemma sorted_insert_at:
  assumes "sorted_wrt (<) (map f xs)" "i \<le> length xs"
    and "\<forall>j < i. f (xs ! j) < f x" "\<forall>j < length xs. i \<le> j \<longrightarrow> f x < f (xs ! j)"
  shows "sorted_wrt (<) (map f (take i xs @ x # drop i xs))"
proof -
  have "sorted_wrt (<) (map f (take i xs) @ map f (drop i xs))"
    using assms(1) by (simp only: map_append [symmetric] append_take_drop_id)
  moreover have "\<forall>y \<in> set (take i xs). f y < f x"
    using assms(2,3) by (auto simp: in_set_conv_nth)
  moreover have "\<forall>y \<in> set (drop i xs). f x < f y"
    using assms(2,4) by (auto simp: in_set_conv_nth)
  ultimately show ?thesis by (auto simp: sorted_wrt_append)
qed

lemma slice_merge:
  assumes "i < dr_len d" "dr_len d \<le> length (dr_rows d)"
  shows "dr_as_slice (d\<lparr>dr_rows := (dr_rows d)[i := x]\<rparr>) = (dr_as_slice d)[i := x]"
  using assms by (simp add: dr_as_slice_def take_update_swap)

text \<open>
  \<open>dr_extends d d' r s e\<close>: \<open>d'\<close> is well formed, loses no damage of \<open>d\<close>, covers \<open>[s, e)\<close> on row \<open>r\<close>,
  and reports no row that was not reported before, \<open>r\<close> apart.
\<close>

definition dr_extends :: "dirty_rows \<Rightarrow> dirty_rows \<Rightarrow> u16 \<Rightarrow> u16 \<Rightarrow> u16 \<Rightarrow> bool" where
  "dr_extends d d' r s e \<longleftrightarrow> dr_inv d'
     \<and> (\<forall>x \<in> set (dr_as_slice d). \<exists>y \<in> set (dr_as_slice d'). \<forall>r c. span_covers x r c \<longrightarrow> span_covers y r c)
     \<and> (\<exists>y \<in> set (dr_as_slice d'). \<forall>c. s \<le> c \<and> c < e \<longrightarrow> span_covers y r c)
     \<and> ds_row ` set (dr_as_slice d') = insert r (ds_row ` set (dr_as_slice d))"

lemma dr_extends_merge:
  assumes inv: "dr_inv d" and se: "s < e" and i: "i < dr_len d" "ds_row (dr_as_slice d ! i) = r"
  shows "dr_extends d (d\<lparr>dr_rows := (dr_rows d)[i := span_merge (dr_rows d ! i) s e]\<rparr>) r s e"
proof -
  define x where "x = span_merge (dr_as_slice d ! i) s e"
  define d' where "d' = d\<lparr>dr_rows := (dr_rows d)[i := x]\<rparr>"
  note len = length_dr_as_slice [OF inv]
  have nth: "dr_as_slice d ! i = dr_rows d ! i" using i(1) by (simp add: dr_as_slice_def)
  have slice: "dr_as_slice d' = (dr_as_slice d)[i := x]"
    using i(1) inv by (simp add: d'_def slice_merge dr_inv_def)
  have row: "ds_row x = r" using i(2) by (simp add: x_def span_merge_def)
  have rows: "map ds_row (dr_as_slice d') = map ds_row (dr_as_slice d)"
    using i row len by (simp add: slice map_update) (metis length_map list_update_id nth_map)
  have pos: "ds_start_col x < ds_end_col x" using se by (auto simp: x_def span_merge_def)
  have "list_all (\<lambda>s. ds_start_col s < ds_end_col s) (dr_as_slice d')"
    using inv pos set_update_subset_insert [of "dr_as_slice d" i x]
    by (auto simp: slice list_all_iff dr_inv_def)
  then have "dr_inv d'" using inv rows by (simp add: dr_inv_def d'_def)
  moreover have "\<exists>y \<in> set (dr_as_slice d'). \<forall>r c. span_covers z r c \<longrightarrow> span_covers y r c"
    if z: "z \<in> set (dr_as_slice d)" for z
  proof -
    obtain j where j: "j < dr_len d" "z = dr_as_slice d ! j"
      using z len by (metis in_set_conv_nth)
    have "dr_as_slice d' ! j \<in> set (dr_as_slice d')" using j len by (simp add: slice)
    moreover have "span_covers z r c \<longrightarrow> span_covers (dr_as_slice d' ! j) r c" for r c
      using j len by (cases "j = i") (auto simp: slice span_covers_def span_merge_def x_def)
    ultimately show ?thesis by blast
  qed
  moreover have "x \<in> set (dr_as_slice d')" using i(1) len by (simp add: slice set_update_memI)
  moreover have "\<forall>c. s \<le> c \<and> c < e \<longrightarrow> span_covers x r c"
    using row by (auto simp: span_covers_def span_merge_def x_def)
  moreover have "ds_row ` set (dr_as_slice d') = insert r (ds_row ` set (dr_as_slice d))"
    using rows i len by (metis insert_absorb list.set_map imageI nth_mem)
  ultimately show ?thesis unfolding dr_extends_def d'_def x_def nth by blast
qed

lemma dr_extends_insert:
  assumes inv: "dr_inv d" and se: "s < e" and i: "i \<le> dr_len d" "dr_len d < MAX_TRACKED_DIRTY_ROWS"
    and below: "\<forall>j < i. ds_row (dr_as_slice d ! j) < r"
    and above: "\<forall>j < dr_len d. i \<le> j \<longrightarrow> r < ds_row (dr_as_slice d ! j)"
    and d': "length (dr_rows d') = length (dr_rows d)" "dr_len d' = dr_len d + 1"
      "dr_as_slice d' = take i (dr_as_slice d)
         @ \<lparr>ds_row = r, ds_start_col = s, ds_end_col = e\<rparr> # drop i (dr_as_slice d)"
  shows "dr_extends d d' r s e"
proof -
  let ?x = "\<lparr>ds_row = r, ds_start_col = s, ds_end_col = e\<rparr>"
  have set: "set (dr_as_slice d') = insert ?x (set (dr_as_slice d))"
    using set_deque_insert [of "dr_as_slice d" i ?x] by (simp add: d'(3) deque_insert_def)
  have "sorted_wrt (<) (map ds_row (dr_as_slice d'))"
    unfolding d'(3) by (rule sorted_insert_at)
      (use inv i below above length_dr_as_slice [OF inv] in \<open>simp_all add: dr_inv_def\<close>)
  moreover have "list_all (\<lambda>s. ds_start_col s < ds_end_col s) (dr_as_slice d')"
    using inv se set by (auto simp: dr_inv_def list_all_iff)
  ultimately have "dr_inv d'" using inv d' i(2) by (simp add: dr_inv_def)
  moreover have "\<forall>c. s \<le> c \<and> c < e \<longrightarrow> span_covers ?x r c" by (simp add: span_covers_def)
  ultimately show ?thesis unfolding dr_extends_def set by (auto intro: bexI [of _ ?x])
qed

lemma push_or_merge_ok:
  assumes inv: "dr_inv d" and se: "s < e"
  shows "ok (push_or_merge d r s e) (\<lambda>res. case res of
      Inl _ \<Rightarrow> dr_len d = MAX_TRACKED_DIRTY_ROWS \<and> r \<notin> ds_row ` set (dr_as_slice d)
    | Inr d' \<Rightarrow> dr_extends d d' r s e)"
  using inv
proof (cases rule: push_or_merge_cases [where r = r and s = s and e = e])
  case (merge i)
  with dr_extends_merge [OF inv se] show ?thesis by simp
next
  case (insert i d')
  with dr_extends_insert [OF inv se] show ?thesis by simp
qed simp

section \<open>The tracker\<close>

lemma dt_inv_new [simp]: "dt_inv (dt_new n)"
  by (simp add: dt_inv_def dt_new_def dr_inv_def dirty_rows_default_def dr_as_slice_def)

lemma dt_inv_mark_all [simp]: "dt_inv t \<Longrightarrow> dt_inv (mark_all t)"
  by (simp add: dt_inv_def mark_all_def dr_inv_def dr_clear_def dr_as_slice_def)

lemma covers_mark_all [simp]: "covers (mark_all t) r c"
  by (simp add: covers_def mark_all_def)

lemma dt_resize_eq: "dt_resize t n = mark_all t"
  by (simp add: dt_resize_def mark_all_def dr_clear_def)

text \<open>The rows a tracker reports.\<close>

definition dirty_row :: "dirty_tracker \<Rightarrow> nat \<Rightarrow> bool" where
  "dirty_row t r \<longleftrightarrow> dt_all_dirty t \<or> r \<in> ds_row ` set (dr_as_slice (dt_rows t))"

lemma dirty_row_covers: "dt_inv t \<Longrightarrow> dirty_row t r \<longleftrightarrow> (\<exists>c. covers t r c)"
  by (auto simp: dirty_row_def covers_def span_covers_def dt_inv_def dr_inv_def list_all_iff)

lemma mark_range_ok:
  assumes "dt_inv t"
  shows "ok (mark_range t r s e) (\<lambda>t'. dt_inv t'
     \<and> (\<forall>r' c. covers t r' c \<longrightarrow> covers t' r' c)
     \<and> (\<forall>c. s \<le> c \<and> c < e \<longrightarrow> covers t' r c)
     \<and> (dt_all_dirty t' \<or> (\<forall>r'. dirty_row t' r' \<longleftrightarrow> dirty_row t r' \<or> (r' = r \<and> s < e))))"
proof (cases "dt_all_dirty t \<or> e \<le> s")
  case True
  with assms show ?thesis by (auto simp: mark_range_def covers_def)
next
  case False
  have inv: "dr_inv (dt_rows t)" using assms by (simp add: dt_inv_def)
  from False have "s < e" by simp
  from push_or_merge_ok [OF inv this, of r] obtain res
    where res: "push_or_merge (dt_rows t) r s e = Some res"
      "\<And>d'. res = Inr d' \<Longrightarrow> dr_extends (dt_rows t) d' r s e"
    by (cases "push_or_merge (dt_rows t) r s e") (auto split: sum.splits)
  show ?thesis
  proof (cases res)
    case Inl
    with res(1) False assms have "mark_range t r s e = Some (mark_all t)"
      by (simp add: mark_range_def)
    with assms show ?thesis by (simp add: mark_all_def dt_inv_def covers_def dr_inv_def dr_clear_def dr_as_slice_def)
  next
    case (Inr d')
    then have ext: "dr_extends (dt_rows t) d' r s e" by (rule res(2))
    have "covers (t\<lparr>dt_rows := d'\<rparr>) r' c" if "covers t r' c" for r' c
      using ext that False unfolding dr_extends_def covers_def by fastforce
    with ext res(1) Inr False show ?thesis
      by (auto simp: mark_range_def dt_inv_def dr_extends_def covers_def dirty_row_def)
  qed
qed

lemma mark_row_ok:
  assumes "dt_inv t"
  shows "ok (mark_row t r) (\<lambda>t'. dt_inv t'
     \<and> (\<forall>r' c. covers t r' c \<longrightarrow> covers t' r' c) \<and> (\<forall>c < u16_max. covers t' r c))"
  using mark_range_ok [OF assms, of r 0 u16_max] unfolding mark_row_def
  by (rule ok_mono_all) auto

text \<open>Draining reports exactly the recorded damage and leaves a clean tracker.\<close>

lemma dt_take_correct:
  assumes "dt_inv t"
  shows "spans_cover (fst (dt_take t)) r c \<longleftrightarrow> covers t r c" "dt_inv (snd (dt_take t))"
    "\<not> covers (snd (dt_take t)) r c"
  using assms
  by (auto simp: dt_take_def spans_cover_def covers_def dt_inv_def dr_inv_def dirty_rows_default_def
      dr_as_slice_def)

lemma dr_contains_iff:
  assumes "dr_inv d"
  shows "dr_contains d r \<longleftrightarrow> r \<in> ds_row ` set (dr_as_slice d)"
proof -
  have sorted: "sorted_wrt (<) (map ds_row (dr_as_slice d))" using assms by (simp add: dr_inv_def)
  note bs = binary_search_by_key_cases [OF sorted, of r]
  show ?thesis
  proof (cases "binary_search_by_key (dr_as_slice d) r ds_row")
    case (Inr i)
    with bs show ?thesis by (force simp: dr_contains_def)
  next
    case (Inl i)
    with bs have "ds_row (dr_as_slice d ! j) \<noteq> r" if "j < length (dr_as_slice d)" for j
      using that by (cases "j < i") (auto dest: less_imp_neq)
    then have "r \<notin> ds_row ` set (dr_as_slice d)" by (metis (no_types) imageE in_set_conv_nth)
    with Inl show ?thesis by (simp add: dr_contains_def)
  qed
qed

section \<open>The interface the grid uses\<close>

text \<open>
  A sink for damage: marking a range never panics on a well-formed sink, keeps every cell already
  reported and reports the whole range.
\<close>

locale damage_sink =
  fixes inv :: "'t \<Rightarrow> bool"
    and covered :: "'t \<Rightarrow> nat \<Rightarrow> nat \<Rightarrow> bool"
    and mark :: "'t \<Rightarrow> u16 \<Rightarrow> u16 \<Rightarrow> u16 \<Rightarrow> 't option"
  assumes mark_spec: "inv t \<Longrightarrow> ok (mark t r s e) (\<lambda>t'. inv t'
     \<and> (\<forall>r' c. covered t r' c \<longrightarrow> covered t' r' c) \<and> (\<forall>c. s \<le> c \<and> c < e \<longrightarrow> covered t' r c))"
begin

lemma mark_inv: "inv t \<Longrightarrow> ok (mark t r s e) inv"
  by (rule ok_mono_all [OF mark_spec]) simp_all

text \<open>A loop that marks the same columns of several rows reports all of them.\<close>

lemma mark_rows_spec:
  assumes "inv t"
  shows "ok (fold_opt (\<lambda>r t. mark t r s e) rs t) (\<lambda>t'. inv t'
     \<and> (\<forall>r c. covered t r c \<longrightarrow> covered t' r c)
     \<and> (\<forall>r \<in> set rs. \<forall>c. s \<le> c \<and> c < e \<longrightarrow> covered t' r c))"
  using assms
proof (induction rs arbitrary: t)
  case (Cons r rs)
  from mark_spec [OF Cons.prems, of r s e] obtain t1
    where t1: "mark t r s e = Some t1" "inv t1" "\<forall>r' c. covered t r' c \<longrightarrow> covered t1 r' c"
      "\<forall>c. s \<le> c \<and> c < e \<longrightarrow> covered t1 r c"
    by (auto simp: ok_iff_ex)
  from Cons.IH [OF t1(2)] t1 show ?case by (fastforce simp: ok_iff_ex)
qed simp

end

interpretation tracker: damage_sink dt_inv covers mark_range
  by unfold_locales (rule ok_mono_all [OF mark_range_ok], simp_all)

section \<open>What a consumer of damage may rely on\<close>


text \<open>A drained tracker.\<close>

definition clean_tracker :: dirty_tracker where
  "clean_tracker = snd (dt_take (dt_new 3))"

lemma clean_tracker_inv: "dt_inv clean_tracker"
  by (simp add: clean_tracker_def dt_take_def dt_new_def dt_inv_def dr_inv_def dirty_rows_default_def
      dr_as_slice_def)


text \<open>
  Draining the tracker hands out exactly the cells it covered and leaves a tracker that covers
  nothing, so no damage is lost or reported twice.
\<close>

lemma drain_exact:
  assumes "dt_inv t"
  shows "(\<forall>r c. spans_cover (fst (dt_take t)) r c \<longleftrightarrow> covers t r c)
     \<and> dt_inv (snd (dt_take t)) \<and> (\<forall>r c. \<not> covers (snd (dt_take t)) r c)"
  using dt_take_correct [OF assms] by blast

lemma drain_witness:
  "(\<forall>r c. \<not> spans_cover (fst (dt_take clean_tracker)) r c) \<and> (\<forall>r c. \<not> covers (snd (dt_take clean_tracker)) r c)"
  using drain_exact [OF clean_tracker_inv]
  by (auto simp: clean_tracker_def dt_take_def dt_new_def covers_def dirty_rows_default_def dr_as_slice_def)

end
