(* ===== verification/Passthrough.thy ===== *)
theory Passthrough
  imports Utf8
begin

text \<open>
  Typed passthrough events and their encoding for an outer terminal
  (\<open>src/src/passthrough.rs\<close>). The buffer collects events in order and is drained as a whole.
\<close>

datatype passthrough_event =
    Bell
  | TitleChanged ustr
  | IconNameChanged ustr
  | ClipboardWrite ustr
  | CwdChanged ustr
  | Notification ustr
  | ApplicationCursorKeys bool
  | FocusEvents bool
  | BracketedPaste bool
  | HyperlinkEvent ustr ustr
  | UnhandledCsi "u8 list"
  | DroppedCsi "u8 list"
  | Reply "u8 list"
  | ScrollbackClear

definition osc_bytes :: "string \<Rightarrow> ustr \<Rightarrow> u8 list" where
  "osc_bytes code s = esc (CHR '']'' # code @ '';'') @ utf8 s @ [0x07]"

fun encode :: "passthrough_event \<Rightarrow> u8 list option" where
  "encode Bell = Some [0x07]"
| "encode (TitleChanged title) = Some (osc_bytes ''0'' title)"
| "encode (IconNameChanged name) = Some (osc_bytes ''1'' name)"
| "encode (ClipboardWrite payload) = Some (osc_bytes ''52'' payload)"
| "encode (CwdChanged uri) = Some (osc_bytes ''7'' uri)"
| "encode (Notification msg) = Some (osc_bytes ''9'' msg)"
| "encode (ApplicationCursorKeys on) = Some (if on then esc ''[?1h'' else esc ''[?1l'')"
| "encode (FocusEvents on) = Some (if on then esc ''[?1004h'' else esc ''[?1004l'')"
| "encode (BracketedPaste on) = Some (if on then esc ''[?2004h'' else esc ''[?2004l'')"
| "encode (HyperlinkEvent ident uri) =
     (if uri = [] then Some (esc '']8;;'' @ [0x07])
      else Some (esc '']8;'' @ utf8 ident @ bytes '';'' @ utf8 uri @ [0x07]))"
| "encode (UnhandledCsi bs) = Some bs"
| "encode (DroppedCsi bs) = None"
| "encode (Reply bs) = None"
| "encode ScrollbackClear = None"

record passthrough_buffer =
  pb_events :: "passthrough_event list"

definition pb_default :: passthrough_buffer where
  "pb_default = \<lparr>pb_events = []\<rparr>"

definition pb_drain :: "passthrough_buffer \<Rightarrow> passthrough_event list \<times> passthrough_buffer" where
  "pb_drain b = (pb_events b, b\<lparr>pb_events := []\<rparr>)"

definition pb_push :: "passthrough_buffer \<Rightarrow> passthrough_event \<Rightarrow> passthrough_buffer" where
  "pb_push b e = b\<lparr>pb_events := pb_events b @ [e]\<rparr>"

definition pb_is_empty :: "passthrough_buffer \<Rightarrow> bool" where
  "pb_is_empty b \<longleftrightarrow> pb_events b = []"

lemma pb_push_events [simp]: "pb_events (pb_push b e) = pb_events b @ [e]"
  by (simp add: pb_push_def)

text \<open>
  The events that answer a query of the program (\<open>Reply\<close>), that were refused (\<open>DroppedCsi\<close>) or
  that are internal (\<open>ScrollbackClear\<close>) are the ones with no bytes for the outer terminal.
\<close>

lemma encode_None_iff:
  "encode e = None \<longleftrightarrow> (\<exists>bs. e = DroppedCsi bs) \<or> (\<exists>bs. e = Reply bs) \<or> e = ScrollbackClear"
  by (cases e) simp_all

end
