(* ===== verification/Grid_State.thy ===== *)
theory Grid_State
  imports Rows Sgr Widths Damage Passthrough
begin

text \<open>
  The state of a terminal grid (\<open>DamageGrid\<close> in \<open>src/src/grid.rs\<close>) and the operations on it that
  touch no cell: construction, resizing, the accessors, cursor helpers, modes and DECRQM.

  The field \<open>g_arena\<close> is the pool of the arena that the three row stores share; every operation
  that allocates or recycles a row threads it. The fields of \<open>DamageGrid\<close> that belong to the byte
  stream (the parser, the pending UTF-8 tail and the ground-state tracker) are in the theory \<open>Feed\<close>:
  no operation of this theory or of the ones on cells reads or writes them.
\<close>

section \<open>Modes\<close>

datatype scroll_op = ScrollUp u16 u16 u16 | ScrollDown u16 u16 u16

datatype mouse_protocol_mode = MouseNone | Press | PressRelease | ButtonMotion | AnyEvent | AnyMotion

datatype mouse_protocol_encoding = MouseDefault | MouseUtf8 | MouseSgr | MouseUrxvt

datatype erase_display_policy = SaveToScrollback | Discard

instantiation erase_display_policy :: default
begin

definition default_erase_display_policy :: erase_display_policy where
  "default_erase_display_policy = SaveToScrollback"

instance ..

end

definition mouse_mode_number :: "mouse_protocol_mode \<Rightarrow> u16" where
  "mouse_mode_number mode = (case mode of MouseNone \<Rightarrow> 0 | Press \<Rightarrow> 1000
     | PressRelease \<Rightarrow> 1002 | ButtonMotion \<Rightarrow> 1002 | AnyEvent \<Rightarrow> 1003 | AnyMotion \<Rightarrow> 1003)"

definition mouse_encoding_number :: "mouse_protocol_encoding \<Rightarrow> u16" where
  "mouse_encoding_number e = (case e of MouseDefault \<Rightarrow> 0 | MouseUtf8 \<Rightarrow> 1005
     | MouseSgr \<Rightarrow> 1006 | MouseUrxvt \<Rightarrow> 1015)"

definition KITTY_KB_STACK_CAP :: usize where
  "KITTY_KB_STACK_CAP = 64"

text \<open>The mode flags are bits of one \<open>u16\<close>.\<close>

definition ALT_SCREEN :: "16 word" where "ALT_SCREEN = push_bit 0 1"
definition HIDE_CURSOR :: "16 word" where "HIDE_CURSOR = push_bit 1 1"
definition BRACKETED_PASTE :: "16 word" where "BRACKETED_PASTE = push_bit 2 1"
definition APPLICATION_CURSOR :: "16 word" where "APPLICATION_CURSOR = push_bit 3 1"
definition FOCUS_EVENTS :: "16 word" where "FOCUS_EVENTS = push_bit 4 1"
definition PENDING_WRAP :: "16 word" where "PENDING_WRAP = push_bit 5 1"
definition MUTATED_SINCE_PRESERVE :: "16 word" where "MUTATED_SINCE_PRESERVE = push_bit 6 1"
definition NO_AUTOWRAP :: "16 word" where "NO_AUTOWRAP = push_bit 7 1"
definition APPLICATION_KEYPAD :: "16 word" where "APPLICATION_KEYPAD = push_bit 8 1"
definition SYNCHRONIZED_UPDATE :: "16 word" where "SYNCHRONIZED_UPDATE = push_bit 9 1"

lemmas flag_defs =
  ALT_SCREEN_def HIDE_CURSOR_def BRACKETED_PASTE_def APPLICATION_CURSOR_def
  FOCUS_EVENTS_def PENDING_WRAP_def MUTATED_SINCE_PRESERVE_def NO_AUTOWRAP_def
  APPLICATION_KEYPAD_def SYNCHRONIZED_UPDATE_def

definition is_mask :: "16 word \<Rightarrow> bool" where
  "is_mask f \<longleftrightarrow> (\<exists>k < 16. f = push_bit k 1)"

lemma mask_set_iff:
  assumes "is_mask f" "is_mask m"
  shows "(w OR f) AND m \<noteq> 0 \<longleftrightarrow> f = m \<or> w AND m \<noteq> 0"
    and "(w AND NOT f) AND m \<noteq> 0 \<longleftrightarrow> f \<noteq> m \<and> w AND m \<noteq> 0"
proof -
  obtain j k where f: "f = push_bit j 1" "j < 16" and m: "m = push_bit k 1" "k < 16"
    using assms by (auto simp: is_mask_def)
  have test: "w AND push_bit k 1 \<noteq> 0 \<longleftrightarrow> bit w k" for w :: "16 word"
    using m(2) by (auto simp: bit_eq_iff [where ?'a = "16 word"] bit_simps)
  have eq: "f = m \<longleftrightarrow> j = k"
    using f m by (auto simp: bit_eq_iff [where ?'a = "16 word"] bit_simps)
  show "(w OR f) AND m \<noteq> 0 \<longleftrightarrow> f = m \<or> w AND m \<noteq> 0"
    unfolding eq unfolding m(1) test using f m(2) by (auto simp: bit_simps)
  show "(w AND NOT f) AND m \<noteq> 0 \<longleftrightarrow> f \<noteq> m \<and> w AND m \<noteq> 0"
    unfolding eq unfolding m(1) test using f m(2) by (auto simp: bit_simps)
qed

lemma is_mask_push: "k < 16 \<Longrightarrow> is_mask (push_bit k 1)"
  by (auto simp: is_mask_def)

lemma is_mask_nonzero [simp]: "is_mask f \<Longrightarrow> f \<noteq> 0" "is_mask f \<Longrightarrow> 0 \<noteq> f"
  by (auto simp: is_mask_def bit_eq_iff [where ?'a = "16 word"] bit_simps)

lemma is_mask_flags [simp]:
  "is_mask ALT_SCREEN" "is_mask HIDE_CURSOR" "is_mask BRACKETED_PASTE" "is_mask APPLICATION_CURSOR"
  "is_mask FOCUS_EVENTS" "is_mask PENDING_WRAP" "is_mask MUTATED_SINCE_PRESERVE" "is_mask NO_AUTOWRAP"
  "is_mask APPLICATION_KEYPAD" "is_mask SYNCHRONIZED_UPDATE"
  unfolding flag_defs by (rule is_mask_push, simp)+

lemma flags_distinct:
  "distinct [ALT_SCREEN, HIDE_CURSOR, BRACKETED_PASTE, APPLICATION_CURSOR, FOCUS_EVENTS,
    PENDING_WRAP, MUTATED_SINCE_PRESERVE, NO_AUTOWRAP, APPLICATION_KEYPAD, SYNCHRONIZED_UPDATE]"
  "distinct [SYNCHRONIZED_UPDATE, APPLICATION_KEYPAD, NO_AUTOWRAP, MUTATED_SINCE_PRESERVE, PENDING_WRAP,
    FOCUS_EVENTS, APPLICATION_CURSOR, BRACKETED_PASTE, HIDE_CURSOR, ALT_SCREEN]"
  by (simp_all add: flag_defs)

lemmas flags_neq [simp] = flags_distinct [simplified]

section \<open>The grid\<close>

type_synonym rgb = "u8 \<times> u8 \<times> u8"

record grid =
  g_profile :: profile
  g_arena :: arena
  g_rows :: u16
  g_cols :: u16
  g_primary :: row_store
  g_alternate :: row_store
  g_scrollback :: row_store
  g_scrollback_limit :: usize
  g_scrollback_offset :: usize
  g_cursor_row :: u16
  g_cursor_col :: u16
  g_saved_cursor_row :: u16
  g_saved_cursor_col :: u16
  g_mouse_mode :: mouse_protocol_mode
  g_mouse_encoding :: mouse_protocol_encoding
  g_cursor_style :: u16
  g_text_cursor_enable :: "bool option"
  g_last_print :: "(u16 \<times> u16) option"
  g_last_preserved_block :: "row list option"
  g_erase_display_policy :: erase_display_policy
  g_mode_flags :: "16 word"
  g_reported_fg :: rgb
  g_reported_bg :: rgb
  g_current_attrs :: attrs
  g_active_hyperlink :: "hyperlink option"
  g_recent_hyperlinks :: "hyperlink list"
  g_scroll_top :: u16
  g_scroll_bottom :: u16
  g_scroll_ops :: "scroll_op list"
  g_kitty_kb_stack :: "nat list"
  g_dirty :: dirty_tracker
  g_passthrough :: passthrough_buffer

definition has_flag :: "grid \<Rightarrow> 16 word \<Rightarrow> bool" where
  "has_flag g f \<longleftrightarrow> g_mode_flags g AND f \<noteq> 0"

definition set_flag :: "16 word \<Rightarrow> grid \<Rightarrow> grid" where
  "set_flag f g = g\<lparr>g_mode_flags := g_mode_flags g OR f\<rparr>"

definition clear_flag :: "16 word \<Rightarrow> grid \<Rightarrow> grid" where
  "clear_flag f g = g\<lparr>g_mode_flags := g_mode_flags g AND NOT f\<rparr>"

definition put_flag :: "16 word \<Rightarrow> bool \<Rightarrow> grid \<Rightarrow> grid" where
  "put_flag f on g = (if on then set_flag f g else clear_flag f g)"

definition push_event :: "passthrough_event \<Rightarrow> grid \<Rightarrow> grid" where
  "push_event e g = g\<lparr>g_passthrough := pb_push (g_passthrough g) e\<rparr>"

section \<open>Construction\<close>

definition with_row_arena :: "u16 \<Rightarrow> u16 \<Rightarrow> usize \<Rightarrow> arena \<Rightarrow> grid" where
  "with_row_arena rows cols scrollback_limit pool =
     (let (blank, pool) = make_blank_grid rows cols pool;
          profile = profile_default
      in \<lparr>g_profile = profile, g_arena = pool, g_rows = rows, g_cols = cols, g_primary = blank, g_alternate = blank,
          g_scrollback = \<lparr>rs_rows = [], rs_wraps = []\<rparr>, g_scrollback_limit = scrollback_limit,
          g_scrollback_offset = 0, g_cursor_row = 0, g_cursor_col = 0, g_saved_cursor_row = 0,
          g_saved_cursor_col = 0, g_mouse_mode = MouseNone, g_mouse_encoding = MouseDefault,
          g_cursor_style = 0, g_text_cursor_enable = None, g_last_print = None,
          g_last_preserved_block = None, g_erase_display_policy = default, g_mode_flags = 0,
          g_reported_fg = pr_default_reported_fg profile,
          g_reported_bg = pr_default_reported_bg profile, g_current_attrs = attrs_default,
          g_active_hyperlink = None, g_recent_hyperlinks = [], g_scroll_top = 0,
          g_scroll_bottom = rows - 1, g_scroll_ops = [], g_kitty_kb_stack = [],
          g_dirty = dt_new rows, g_passthrough = pb_default\<rparr>)"

section \<open>Screens\<close>

definition active_grid :: "grid \<Rightarrow> row_store" where
  "active_grid g = (if has_flag g ALT_SCREEN then g_alternate g else g_primary g)"

text \<open>The effect of an assignment through the \<open>&mut RowStore\<close> that \<open>active_grid\<close> returns.\<close>

definition put_active :: "row_store \<Rightarrow> grid \<Rightarrow> grid" where
  "put_active s g = (if has_flag g ALT_SCREEN then g\<lparr>g_alternate := s\<rparr> else g\<lparr>g_primary := s\<rparr>)"

definition set_active_row :: "usize \<Rightarrow> row \<Rightarrow> grid \<Rightarrow> grid option" where
  "set_active_row i row g = do {
     rs \<leftarrow> vec_set (rs_rows (active_grid g)) i row;
     Some (put_active (active_grid g\<lparr>rs_rows := rs\<rparr>) g)
   }"

definition grid_mark_range :: "u16 \<Rightarrow> u16 \<Rightarrow> u16 \<Rightarrow> grid \<Rightarrow> grid option" where
  "grid_mark_range r s e g = map_option (\<lambda>t. g\<lparr>g_dirty := t\<rparr>) (mark_range (g_dirty g) r s e)"

definition grid_mark_row :: "u16 \<Rightarrow> grid \<Rightarrow> grid option" where
  "grid_mark_row r g = map_option (\<lambda>t. g\<lparr>g_dirty := t\<rparr>) (mark_row (g_dirty g) r)"

definition grid_mark_all :: "grid \<Rightarrow> grid" where
  "grid_mark_all g = g\<lparr>g_dirty := mark_all (g_dirty g)\<rparr>"

section \<open>Cursor helpers\<close>

definition clear_pending_wrap :: "grid \<Rightarrow> grid" where
  "clear_pending_wrap g =
     (let g = (clear_flag PENDING_WRAP g)\<lparr>g_last_print := None\<rparr>
      in if g_cols g \<le> g_cursor_col g then g\<lparr>g_cursor_col := g_cols g - 1\<rparr> else g)"

definition restore_autowrap :: "grid \<Rightarrow> grid" where
  "restore_autowrap g =
     (if has_flag g NO_AUTOWRAP then clear_flag NO_AUTOWRAP (clear_pending_wrap g) else g)"

definition clamp_cursor :: "grid \<Rightarrow> grid" where
  "clamp_cursor g = g\<lparr>g_cursor_row := min (g_cursor_row g) (g_rows g - 1),
     g_cursor_col := min (g_cursor_col g) (g_cols g - 1)\<rparr>"

definition restore_saved_cursor :: "grid \<Rightarrow> grid" where
  "restore_saved_cursor g =
     (let g = (clear_flag PENDING_WRAP g)\<lparr>g_last_print := None\<rparr>;
          g = g\<lparr>g_cursor_row := g_saved_cursor_row g, g_cursor_col := g_saved_cursor_col g\<rparr>;
          g = clamp_cursor g
      in if g_cols g \<le> g_saved_cursor_col g
         then set_flag PENDING_WRAP (g\<lparr>g_cursor_col := g_cols g\<rparr>) else g)"

definition save_cursor :: "grid \<Rightarrow> grid" where
  "save_cursor g = g\<lparr>g_saved_cursor_row := g_cursor_row g, g_saved_cursor_col := g_cursor_col g\<rparr>"

definition add_cursor_offset :: "u16 \<Rightarrow> u16 \<Rightarrow> u16 \<Rightarrow> u16" where
  "add_cursor_offset pos offset max_pos = min (u16_sat_add pos offset) max_pos"

section \<open>Public operations on the state\<close>

definition set_size :: "u16 \<Rightarrow> u16 \<Rightarrow> grid \<Rightarrow> grid" where
  "set_size rows cols g =
     (let rows = max rows 1; cols = max cols 1;
          (primary, pool) = rs_resize (g_primary g) rows cols (g_arena g);
          (alternate, pool) = rs_resize (g_alternate g) rows cols pool;
          g = g\<lparr>g_rows := rows, g_cols := cols, g_primary := primary, g_alternate := alternate,
                g_arena := pool,
                g_cursor_row := min (g_cursor_row g) (rows - 1),
                g_cursor_col := min (g_cursor_col g) (cols - 1)\<rparr>;
          g = clear_pending_wrap g
      in g\<lparr>g_scroll_top := 0, g_scroll_bottom := rows - 1, g_dirty := dt_resize (g_dirty g) rows\<rparr>)"

definition dirty_spans_of :: "grid \<Rightarrow> dirty_spans \<times> grid" where
  "dirty_spans_of g = (let (d, t) = dt_take (g_dirty g) in (d, g\<lparr>g_dirty := t\<rparr>))"

definition drain_passthrough :: "grid \<Rightarrow> passthrough_event list \<times> grid" where
  "drain_passthrough g = (let (es, b) = pb_drain (g_passthrough g) in (es, g\<lparr>g_passthrough := b\<rparr>))"

definition scroll_affordance_metrics :: "grid \<Rightarrow> u16 \<times> u16 \<times> u16 \<times> u16 \<times> u16" where
  "scroll_affordance_metrics g =
     (let occupied = (case rposition (\<lambda>row. list_ex has_contents row) (rs_rows (active_grid g)) of
            None \<Rightarrow> 0 | Some l \<Rightarrow> as_u16 (l + 1))
      in (occupied, g_rows g, g_cols g, g_cursor_row g, g_cursor_col g))"

definition cell_at :: "grid \<Rightarrow> u16 \<Rightarrow> u16 \<Rightarrow> cell option" where
  "cell_at g row col = Option.bind (rs_get (active_grid g) row) (\<lambda>r. vec_get r col)"

definition set_scrollback :: "usize \<Rightarrow> grid \<Rightarrow> grid" where
  "set_scrollback offset g = g\<lparr>g_scrollback_offset := min offset (rs_len (g_scrollback g))\<rparr>"

definition set_erase_display_policy :: "erase_display_policy \<Rightarrow> grid \<Rightarrow> grid" where
  "set_erase_display_policy policy g = g\<lparr>g_erase_display_policy := policy\<rparr>"

definition clear_scrollback :: "grid \<Rightarrow> grid" where
  "clear_scrollback g = (let (s, pool) = rs_clear (g_scrollback g) (g_arena g)
     in g\<lparr>g_scrollback := s, g_arena := pool, g_scrollback_offset := 0\<rparr>)"

definition drain_scroll_ops :: "grid \<Rightarrow> scroll_op list \<times> grid" where
  "drain_scroll_ops g = (g_scroll_ops g, g\<lparr>g_scroll_ops := []\<rparr>)"

definition clear_scroll_ops :: "grid \<Rightarrow> grid" where
  "clear_scroll_ops g = g\<lparr>g_scroll_ops := []\<rparr>"

definition kitty_kb_flags :: "grid \<Rightarrow> nat" where
  "kitty_kb_flags g = (if g_kitty_kb_stack g = [] then 0 else last (g_kitty_kb_stack g))"

definition clear_kitty_kb_stack :: "grid \<Rightarrow> grid" where
  "clear_kitty_kb_stack g = g\<lparr>g_kitty_kb_stack := []\<rparr>"

definition set_reported_colors :: "rgb option \<Rightarrow> rgb option \<Rightarrow> grid \<Rightarrow> grid" where
  "set_reported_colors fg bg g =
     (let g = (case fg of Some c \<Rightarrow> g\<lparr>g_reported_fg := c\<rparr> | None \<Rightarrow> g)
      in case bg of Some c \<Rightarrow> g\<lparr>g_reported_bg := c\<rparr> | None \<Rightarrow> g)"

section \<open>Mode reports and changes\<close>

definition status_code :: "bool \<Rightarrow> u16" where
  "status_code on = (if on then 1 else 2)"

definition decrqm_status :: "grid \<Rightarrow> u16 \<Rightarrow> u16" where
  "decrqm_status g mode =
     (if mode = 1 then status_code (has_flag g APPLICATION_CURSOR)
      else if mode = 7 then status_code (\<not> has_flag g NO_AUTOWRAP)
      else if mode = 12 then status_code (g_text_cursor_enable g = Some True)
      else if mode = 25 then status_code (\<not> has_flag g HIDE_CURSOR)
      else if mode = 47 \<or> mode = 1047 \<or> mode = 1049 then status_code (has_flag g ALT_SCREEN)
      else if mode = 1000 then status_code (mouse_mode_number (g_mouse_mode g) = 1000)
      else if mode = 1002 then status_code (mouse_mode_number (g_mouse_mode g) = 1002)
      else if mode = 1003 then status_code (mouse_mode_number (g_mouse_mode g) = 1003)
      else if mode = 1004 then status_code (has_flag g FOCUS_EVENTS)
      else if mode = 1005 then status_code (mouse_encoding_number (g_mouse_encoding g) = 1005)
      else if mode = 1006 then status_code (mouse_encoding_number (g_mouse_encoding g) = 1006)
      else if mode = 1015 then status_code (mouse_encoding_number (g_mouse_encoding g) = 1015)
      else if mode = 2004 then status_code (has_flag g BRACKETED_PASTE)
      else if mode = 2026 then status_code (has_flag g SYNCHRONIZED_UPDATE)
      else if mode = 2027 then profile_decrqm_status (g_profile g) mode
      else 0)"

definition reset_modes :: "grid \<Rightarrow> grid" where
  "reset_modes g =
     (let g = g\<lparr>g_mouse_mode := MouseNone, g_mouse_encoding := MouseDefault\<rparr>;
          g = clear_flag HIDE_CURSOR g; g = clear_flag BRACKETED_PASTE g;
          g = clear_flag APPLICATION_CURSOR g; g = clear_flag FOCUS_EVENTS g;
          g = clear_flag NO_AUTOWRAP g; g = clear_flag APPLICATION_KEYPAD g;
          g = clear_flag SYNCHRONIZED_UPDATE g
      in g\<lparr>g_text_cursor_enable := None, g_scrollback_offset := 0, g_active_hyperlink := None\<rparr>)"

definition set_alt_screen :: "bool \<Rightarrow> grid \<Rightarrow> grid" where
  "set_alt_screen active g =
     grid_mark_all ((put_flag ALT_SCREEN active g)\<lparr>g_active_hyperlink := None\<rparr>)"

definition set_dec_mode :: "u16 \<Rightarrow> bool \<Rightarrow> grid \<Rightarrow> grid" where
  "set_dec_mode mode enabled g =
     (if mode = 7 then put_flag NO_AUTOWRAP (\<not> enabled) g
      else if mode = 12 then g\<lparr>g_text_cursor_enable := Some enabled\<rparr>
      else if mode = 25 then put_flag HIDE_CURSOR (\<not> enabled) g
      else if mode = 1 then push_event (ApplicationCursorKeys enabled) (put_flag APPLICATION_CURSOR enabled g)
      else if mode = 1004 then push_event (FocusEvents enabled) (put_flag FOCUS_EVENTS enabled g)
      else if mode = 2004 then push_event (BracketedPaste enabled) (put_flag BRACKETED_PASTE enabled g)
      else if mode = 47 \<or> mode = 1047 then set_alt_screen enabled g
      else if mode = 1049 then
        (if enabled then clear_pending_wrap (set_alt_screen True (save_cursor g))
         else let g = restore_saved_cursor (set_alt_screen False g);
                  depth = length (g_kitty_kb_stack g)
              in (push_event (UnhandledCsi (esc ''[<u'')) ^^ depth) (g\<lparr>g_kitty_kb_stack := []\<rparr>))
      else if mode = 1000 then g\<lparr>g_mouse_mode := (if enabled then Press else MouseNone)\<rparr>
      else if mode = 1002 then g\<lparr>g_mouse_mode := (if enabled then ButtonMotion else MouseNone)\<rparr>
      else if mode = 1003 then g\<lparr>g_mouse_mode := (if enabled then AnyMotion else MouseNone)\<rparr>
      else if mode = 1005 then g\<lparr>g_mouse_encoding := (if enabled then MouseUtf8 else MouseDefault)\<rparr>
      else if mode = 1006 then g\<lparr>g_mouse_encoding := (if enabled then MouseSgr else MouseDefault)\<rparr>
      else if mode = 1015 then g\<lparr>g_mouse_encoding := (if enabled then MouseUrxvt else MouseDefault)\<rparr>
      else if mode = 2026 then put_flag SYNCHRONIZED_UPDATE enabled g
      else g)"

section \<open>The invariant\<close>

text \<open>
  The widest grid for which no operation overflows a \<open>u16\<close>: the tab stop after the last column is
  at most \<open>65528\<close>.
\<close>

definition MAX_COLS :: u16 where
  "MAX_COLS = 65528"

definition dims_ok :: "grid \<Rightarrow> bool" where
  "dims_ok g \<longleftrightarrow> 1 \<le> g_rows g \<and> g_rows g \<le> u16_max \<and> 1 \<le> g_cols g \<and> g_cols g \<le> MAX_COLS"

text \<open>The cursor is on the screen, or parked at the phantom column exactly while a wrap is pending.\<close>

definition cursor_ok :: "grid \<Rightarrow> bool" where
  "cursor_ok g \<longleftrightarrow> g_cursor_row g < g_rows g \<and> g_cursor_col g \<le> g_cols g
     \<and> (has_flag g PENDING_WRAP \<longleftrightarrow> g_cursor_col g = g_cols g)"

definition region_ok :: "grid \<Rightarrow> bool" where
  "region_ok g \<longleftrightarrow> g_scroll_top g \<le> g_scroll_bottom g \<and> g_scroll_bottom g < g_rows g"

definition screens_ok :: "grid \<Rightarrow> bool" where
  "screens_ok g \<longleftrightarrow> store_ok (g_rows g) (g_cols g) (g_primary g)
     \<and> store_ok (g_rows g) (g_cols g) (g_alternate g)"

text \<open>Rows in the history keep the width they had; the view offset points into it.\<close>

definition store_any_width :: "row_store \<Rightarrow> bool" where
  "store_any_width s \<longleftrightarrow> length (rs_wraps s) = length (rs_rows s)
     \<and> list_all (\<lambda>r. good_row (length r) r) (rs_rows s)"

definition history_ok :: "grid \<Rightarrow> bool" where
  "history_ok g \<longleftrightarrow> store_any_width (g_scrollback g)
     \<and> rs_len (g_scrollback g) \<le> g_scrollback_limit g
     \<and> g_scrollback_offset g \<le> rs_len (g_scrollback g)"

definition links_ok :: "grid \<Rightarrow> bool" where
  "links_ok g \<longleftrightarrow> length (g_recent_hyperlinks g) \<le> OSC8_RECENT_MAX
     \<and> list_all link_ok (g_recent_hyperlinks g) \<and> opt_link_ok (g_active_hyperlink g)"

definition grid_inv :: "grid \<Rightarrow> bool" where
  "grid_inv g \<longleftrightarrow> dims_ok g \<and> cursor_ok g \<and> region_ok g \<and> screens_ok g \<and> history_ok g \<and> links_ok g
     \<and> length (g_kitty_kb_stack g) \<le> KITTY_KB_STACK_CAP \<and> dt_inv (g_dirty g) \<and> arena_inv (g_arena g)"

lemmas flag_op_defs = has_flag_def set_flag_def clear_flag_def put_flag_def

lemmas inv_part_defs = dims_ok_def cursor_ok_def region_ok_def screens_ok_def history_ok_def links_ok_def

lemma flag_test_simps [simp]:
  assumes "is_mask f" "is_mask m"
  shows "(w OR f) AND m = 0 \<longleftrightarrow> f \<noteq> m \<and> w AND m = 0"
    and "(w AND NOT f) AND m = 0 \<longleftrightarrow> f = m \<or> w AND m = 0"
  using mask_set_iff [OF assms, of w] by auto

lemma push_event_inv [simp]: "grid_inv (push_event e g) \<longleftrightarrow> grid_inv g"
  by (simp add: push_event_def grid_inv_def inv_part_defs has_flag_def)

lemma push_events_inv [simp]: "grid_inv ((push_event e ^^ n) g) \<longleftrightarrow> grid_inv g"
  by (induction n) simp_all

text \<open>A flag other than the pending wrap carries no obligation.\<close>

lemma put_flag_inv:
  "is_mask f \<Longrightarrow> f \<noteq> PENDING_WRAP \<Longrightarrow> grid_inv (put_flag f on g) \<longleftrightarrow> grid_inv g"
  by (simp add: flag_op_defs grid_inv_def inv_part_defs)

lemma set_clear_flag_inv:
  assumes "is_mask f" "f \<noteq> PENDING_WRAP"
  shows "grid_inv (set_flag f g) \<longleftrightarrow> grid_inv g" "grid_inv (clear_flag f g) \<longleftrightarrow> grid_inv g"
  using put_flag_inv [OF assms, of True g] put_flag_inv [OF assms, of False g]
  by (simp_all add: put_flag_def)

lemma mark_all_inv [simp]: "grid_inv g \<Longrightarrow> grid_inv (grid_mark_all g)"
  by (simp add: grid_mark_all_def grid_inv_def inv_part_defs has_flag_def)

lemma clear_pending_wrap_simps [simp]:
  "g_rows (clear_pending_wrap g) = g_rows g" "g_cols (clear_pending_wrap g) = g_cols g"
  "g_cursor_row (clear_pending_wrap g) = g_cursor_row g"
  "g_scroll_top (clear_pending_wrap g) = g_scroll_top g"
  "g_scroll_bottom (clear_pending_wrap g) = g_scroll_bottom g"
  "active_grid (clear_pending_wrap g) = active_grid g"
  "g_dirty (clear_pending_wrap g) = g_dirty g"
  by (simp_all add: clear_pending_wrap_def Let_def flag_op_defs active_grid_def)

lemma clear_pending_wrap_inv:
  assumes "grid_inv g"
  shows "grid_inv (clear_pending_wrap g)" "g_cursor_col (clear_pending_wrap g) < g_cols g"
    "\<not> has_flag (clear_pending_wrap g) PENDING_WRAP"
  using assms
  by (auto simp: clear_pending_wrap_def Let_def flag_op_defs grid_inv_def inv_part_defs)

text \<open>An un-parked cursor may be put on any cell of the screen.\<close>

lemma move_cursor_inv:
  assumes "grid_inv g" "\<not> has_flag g PENDING_WRAP" "r < g_rows g" "c < g_cols g"
  shows "grid_inv (g\<lparr>g_cursor_row := r, g_cursor_col := c\<rparr>)" "grid_inv (g\<lparr>g_cursor_col := c\<rparr>)"
    "grid_inv (g\<lparr>g_cursor_row := r\<rparr>)"
  using assms by (auto simp: grid_inv_def inv_part_defs has_flag_def)

lemma restore_autowrap_inv: "grid_inv g \<Longrightarrow> grid_inv (restore_autowrap g)"
  by (simp add: restore_autowrap_def set_clear_flag_inv clear_pending_wrap_inv)

lemma restore_saved_cursor_inv: "grid_inv g \<Longrightarrow> grid_inv (restore_saved_cursor g)"
  by (auto simp: restore_saved_cursor_def Let_def clamp_cursor_def flag_op_defs grid_inv_def inv_part_defs)

lemma save_cursor_inv: "grid_inv g \<Longrightarrow> grid_inv (save_cursor g)"
  by (simp add: save_cursor_def grid_inv_def inv_part_defs has_flag_def)

lemma set_alt_screen_inv: "grid_inv g \<Longrightarrow> grid_inv (set_alt_screen active g)"
  by (simp add: set_alt_screen_def grid_mark_all_def flag_op_defs grid_inv_def inv_part_defs)

lemma reset_modes_inv: "grid_inv g \<Longrightarrow> grid_inv (reset_modes g)"
  by (simp add: reset_modes_def Let_def flag_op_defs grid_inv_def inv_part_defs)

lemma set_dec_mode_inv:
  assumes "grid_inv g"
  shows "grid_inv (set_dec_mode mode enabled g)"
proof -
  have fields: "grid_inv (g\<lparr>g_kitty_kb_stack := []\<rparr>)" "grid_inv (g\<lparr>g_text_cursor_enable := t\<rparr>)"
    "grid_inv (g\<lparr>g_mouse_mode := m\<rparr>)" "grid_inv (g\<lparr>g_mouse_encoding := e\<rparr>)"
    if "grid_inv g" for g :: "grid" and t m e
    using that by (simp_all add: grid_inv_def inv_part_defs has_flag_def)
  show ?thesis
    using assms
    by (simp add: set_dec_mode_def Let_def put_flag_inv set_alt_screen_inv fields restore_saved_cursor_inv
        clear_pending_wrap_inv save_cursor_inv)
qed

lemma with_row_arena_inv:
  assumes "1 \<le> rows" "rows \<le> u16_max" "1 \<le> cols" "cols \<le> MAX_COLS" "arena_inv pool"
  shows "grid_inv (with_row_arena rows cols limit pool)"
  using assms rs_blank_ok [where rows = rows and cols = cols and pool = pool]
  by (auto simp: with_row_arena_def Let_def split_beta make_blank_grid_def grid_inv_def inv_part_defs
      has_flag_def store_any_width_def rs_len_def)

lemma set_size_inv:
  assumes inv: "grid_inv g" and "rows \<le> u16_max" "cols \<le> MAX_COLS"
  shows "grid_inv (set_size rows cols g)"
proof -
  define r c where "r = max rows 1" and "c = max cols 1"
  obtain p1 a1 where p: "rs_resize (g_primary g) r c (g_arena g) = (p1, a1)" by fastforce
  obtain p2 a2 where a: "rs_resize (g_alternate g) r c a1 = (p2, a2)" by fastforce
  have pos: "0 < g_rows g" using inv by (simp add: grid_inv_def dims_ok_def)
  have "store_ok r c p1" "arena_inv a1"
    using rs_resize_ok [of "g_rows g" "g_cols g" "g_primary g" "g_arena g" r c] inv pos p
    by (auto simp: grid_inv_def screens_ok_def)
  moreover from this have "store_ok r c p2" "arena_inv a2"
    using rs_resize_ok [of "g_rows g" "g_cols g" "g_alternate g" a1 r c] inv pos a
    by (auto simp: grid_inv_def screens_ok_def)
  moreover have "1 \<le> r" "r \<le> u16_max" "1 \<le> c" "c \<le> MAX_COLS"
    using assms(2,3) by (auto simp: r_def c_def u16_max_def MAX_COLS_def)
  ultimately show ?thesis
    using inv
    unfolding set_size_def Let_def r_def [symmetric] c_def [symmetric] p a prod.case
    by (auto simp: clear_pending_wrap_def Let_def flag_op_defs grid_inv_def inv_part_defs dt_resize_eq)
qed

lemma set_scrollback_inv: "grid_inv g \<Longrightarrow> grid_inv (set_scrollback k g)"
  by (simp add: set_scrollback_def grid_inv_def inv_part_defs has_flag_def)

lemma clear_scrollback_inv: "grid_inv g \<Longrightarrow> grid_inv (clear_scrollback g)"
  by (simp add: clear_scrollback_def rs_clear_def Let_def grid_inv_def inv_part_defs has_flag_def
      store_any_width_def rs_len_def pool.release_all_inv)

section \<open>Examples\<close>

text \<open>A three-by-four grid with text on every row; the cursor is on the \<open>g\<close>.\<close>

definition example_grid :: grid where
  "example_grid = (with_row_arena 3 4 2 [])
     \<lparr>g_primary := \<lparr>rs_rows = map (map letter) [''abcd'', ''efgh'', ''ijkl''], rs_wraps = [Hard, Hard, Hard]\<rparr>,
      g_cursor_row := 1, g_cursor_col := 2, g_dirty := snd (dt_take (dt_new 3)),
      g_mode_flags := MUTATED_SINCE_PRESERVE\<rparr>"

lemma good_letters: "length s = n \<Longrightarrow> good_row n (map letter s)"
  by (auto simp: good_row_def row_ok_def list_all_iff letter_def cell_ok_def)

lemma example_grid_inv: "grid_inv example_grid"
proof -
  have "store_ok 3 4 \<lparr>rs_rows = map (map letter) [''abcd'', ''efgh'', ''ijkl''], rs_wraps = [Hard, Hard, Hard]\<rparr>"
    unfolding store_ok_def list.pred_map comp_def row_store.simps
    using good_letters [of _ 4] by (simp add: list_all_iff del: list.map)
  moreover have "grid_inv (with_row_arena 3 4 2 [])"
    by (rule with_row_arena_inv) (simp_all add: u16_max_def MAX_COLS_def arena_inv_def)
  moreover have "dt_inv (snd (dt_take (dt_new 3)))"
    using clean_tracker_inv by (simp add: clean_tracker_def)
  moreover have "\<not> has_flag (with_row_arena 3 4 2 []) PENDING_WRAP" "g_rows (with_row_arena 3 4 2 []) = 3"
      "g_cols (with_row_arena 3 4 2 []) = 4"
    by (simp_all add: with_row_arena_def split_beta Let_def has_flag_def)
  moreover have "MUTATED_SINCE_PRESERVE AND PENDING_WRAP = 0" by (simp add: flag_defs)
  ultimately show ?thesis
    by (simp add: example_grid_def grid_inv_def inv_part_defs has_flag_def)
qed

lemma example_grid_simps [simp]:
  "g_rows example_grid = 3" "g_cols example_grid = 4" "g_cursor_row example_grid = 1"
  "g_cursor_col example_grid = 2" "g_scroll_top example_grid = 0" "g_scroll_bottom example_grid = 2"
  "g_scrollback_limit example_grid = 2" "rs_rows (g_scrollback example_grid) = []"
  "g_current_attrs example_grid = attrs_default" "g_active_hyperlink example_grid = None"
  "g_dirty example_grid = clean_tracker" "g_kitty_kb_stack example_grid = []"
  "\<not> has_flag example_grid ALT_SCREEN" "\<not> has_flag example_grid PENDING_WRAP"
  "has_flag example_grid MUTATED_SINCE_PRESERVE"
  "rs_rows (active_grid example_grid) = map (map letter) [''abcd'', ''efgh'', ''ijkl'']"
  "rs_wraps (active_grid example_grid) = [Hard, Hard, Hard]"
  "rs_rows (g_primary example_grid) = map (map letter) [''abcd'', ''efgh'', ''ijkl'']"
  by (simp_all add: example_grid_def with_row_arena_def split_beta Let_def has_flag_def active_grid_def flag_defs
      clean_tracker_def)

section \<open>Cursor, modes and size\<close>

text \<open>
  C20: DECSC followed by DECRC restores the cursor exactly, the pending wrap at the phantom column
  included, whatever the grid did in between, as long as its size and the saved position are kept.
\<close>

theorem save_restore_cursor:
  assumes "grid_inv g" "g_rows h = g_rows g" "g_cols h = g_cols g"
    "g_saved_cursor_row h = g_saved_cursor_row (save_cursor g)"
    "g_saved_cursor_col h = g_saved_cursor_col (save_cursor g)"
  shows "g_cursor_row (restore_saved_cursor h) = g_cursor_row g
    \<and> g_cursor_col (restore_saved_cursor h) = g_cursor_col g
    \<and> has_flag (restore_saved_cursor h) PENDING_WRAP = has_flag g PENDING_WRAP"
  using assms
  by (auto simp: grid_inv_def inv_part_defs restore_saved_cursor_def save_cursor_def clamp_cursor_def Let_def
      flag_op_defs)

lemma save_restore_cursor_witness:
  "g_cursor_col (restore_saved_cursor ((save_cursor example_grid)\<lparr>g_cursor_col := 0, g_cursor_row := 0\<rparr>)) = 2"
  using save_restore_cursor [OF example_grid_inv, of "(save_cursor example_grid)\<lparr>g_cursor_col := 0, g_cursor_row := 0\<rparr>"]
  by (simp add: save_cursor_def)

text \<open>
  C21: a DEC private mode that the grid reports is reported as set after DECSET and as reset after
  DECRST, for every recognised mode number.
\<close>

theorem set_mode_reported:
  assumes "mode \<in> {1, 7, 12, 25, 47, 1000, 1002, 1003, 1004, 1005, 1006, 1015, 1047, 1049, 2004, 2026}"
  shows "decrqm_status (set_dec_mode mode enabled g) mode = (if enabled then 1 else 2)"
proof -
  have pushes: "g_mode_flags ((push_event e ^^ n) g) = g_mode_flags g" for e n g
    by (induction n) (simp_all add: push_event_def)
  show ?thesis
    using assms
    by (auto simp: decrqm_status_def set_dec_mode_def status_code_def push_event_def flag_op_defs set_alt_screen_def
        grid_mark_all_def clear_pending_wrap_def restore_saved_cursor_def clamp_cursor_def save_cursor_def Let_def
        mouse_mode_number_def mouse_encoding_number_def pushes)
qed

lemma set_mode_reported_witness:
  "decrqm_status (set_dec_mode 1049 True example_grid) 1049 = 1 \<and> decrqm_status (set_dec_mode 2004 False example_grid) 2004 = 2"
  using set_mode_reported [of 1049 True example_grid] set_mode_reported [of 2004 False example_grid] by simp

text \<open>
  C19: after \<open>set_size\<close> the grid is well-formed with at least one row and one column, the cursor is on a
  cell of it with no wrap pending, the scroll region is the whole screen and everything is dirty.
\<close>

theorem set_size_correct:
  assumes "grid_inv g" "rows \<le> u16_max" "cols \<le> MAX_COLS"
  shows "grid_inv (set_size rows cols g)
    \<and> g_rows (set_size rows cols g) = max rows 1 \<and> g_cols (set_size rows cols g) = max cols 1
    \<and> g_cursor_row (set_size rows cols g) = min (g_cursor_row g) (max rows 1 - 1)
    \<and> g_cursor_col (set_size rows cols g) = min (g_cursor_col g) (max cols 1 - 1)
    \<and> g_scroll_top (set_size rows cols g) = 0 \<and> g_scroll_bottom (set_size rows cols g) = max rows 1 - 1
    \<and> dt_all_dirty (g_dirty (set_size rows cols g)) \<and> \<not> has_flag (set_size rows cols g) PENDING_WRAP"
  by (intro conjI set_size_inv [OF assms])
     (auto simp: set_size_def clear_pending_wrap_def dt_resize_def mark_all_def Let_def split_beta flag_op_defs)

lemma set_size_witness: "g_rows (set_size 0 2 example_grid) = 1 \<and> g_cursor_col (set_size 0 2 example_grid) = 1"
  using set_size_correct [OF example_grid_inv, of 0 2] by (simp add: MAX_COLS_def)

end
