(* ===== verification/Scrolling.thy ===== *)
theory Scrolling
  imports Grid_State
begin

text \<open>
  Scrolling, line feeds and the scrollback (\<open>src/src/grid.rs\<close>: \<open>scroll_up\<close>, \<open>push_scrollback_row\<close>,
  \<open>preserve_visible_rows_to_scrollback\<close>, \<open>newline_action\<close>). A function that indexes a row or adds two
  \<open>u16\<close> values can panic and returns an option.

  \<open>step_ok g g'\<close> is what every operation of the grid guarantees: the invariant, the dimensions, and
  sound damage, that is, a row not reported dirty afterwards was not dirty before and is unchanged.
\<close>

section \<open>Scrolling and scrollback\<close>

definition push_scrollback_row :: "row \<Rightarrow> row_wrap \<Rightarrow> grid \<Rightarrow> grid" where
  "push_scrollback_row row wrap g =
     (let (s, pool) = (if g_scrollback_limit g \<le> rs_len (g_scrollback g)
            then rs_recycle_front (g_scrollback g) (g_arena g) else (g_scrollback g, g_arena g))
      in g\<lparr>g_scrollback := rs_push_back_with_wrap s row wrap, g_arena := pool\<rparr>)"

text \<open>One iteration of the loop of \<open>scroll_up\<close>.\<close>

definition scroll_up_once :: "usize \<Rightarrow> usize \<Rightarrow> row_wrap \<Rightarrow> grid \<Rightarrow> grid option" where
  "scroll_up_once top_row bottom inserted_wrap g =
     (if rs_len (active_grid g) \<le> bottom \<or> bottom \<le> top_row then Some g
      else do {
        let to_scrollback = (\<not> has_flag g ALT_SCREEN \<and> top_row = 0 \<and> 0 < g_scrollback_limit g);
        let (blank, pool) = arena_blank_row (g_arena g) (g_cols g);
        let (evicted, s) = rs_remove_with_wrap (active_grid g) top_row;
        let g = put_active s (g\<lparr>g_arena := pool\<rparr>);
        let g = (case evicted of
            Some (row, wrap) \<Rightarrow>
              if to_scrollback then push_scrollback_row row wrap g
              else g\<lparr>g_arena := arena_recycle (g_arena g) row\<rparr>
          | None \<Rightarrow> g);
        s \<leftarrow> rs_insert_with_wrap (active_grid g) bottom blank inserted_wrap;
        Some (put_active s g)
      })"

definition scroll_up :: "u16 \<Rightarrow> row_wrap \<Rightarrow> grid \<Rightarrow> grid option" where
  "scroll_up n inserted_wrap g = do {
     let g = set_flag MUTATED_SINCE_PRESERVE g;
     d \<leftarrow> u16_sub (g_scroll_bottom g) (g_scroll_top g);
     h \<leftarrow> u16_add d 1;
     let n = min n h;
     let top_row = g_scroll_top g;
     let bottom = g_scroll_bottom g;
     let g = (if 0 < n then g\<lparr>g_scroll_ops := g_scroll_ops g @ [ScrollUp top_row bottom n]\<rparr> else g);
     g \<leftarrow> repeat_opt n (scroll_up_once top_row bottom inserted_wrap) g;
     fold_opt grid_mark_row [top_row..<bottom + 1] g
   }"

definition row_has_contents :: "row \<Rightarrow> bool" where
  "row_has_contents row \<longleftrightarrow> list_ex has_contents row"

definition preserve_visible_rows_to_scrollback :: "grid \<Rightarrow> grid" where
  "preserve_visible_rows_to_scrollback g =
     (if g_erase_display_policy g = Discard \<or> has_flag g ALT_SCREEN \<or> g_scrollback_limit g = 0 then g
      else if \<not> has_flag g MUTATED_SINCE_PRESERVE then g
      else case position row_has_contents (rs_rows (g_primary g)) of
        None \<Rightarrow> g
      | Some first \<Rightarrow>
        (case rposition row_has_contents (rs_rows (g_primary g)) of
          None \<Rightarrow> g
        | Some l \<Rightarrow>
          (let unchanged = (case g_last_preserved_block g of
                 None \<Rightarrow> False
               | Some prev \<Rightarrow> length prev = l - first + 1
                   \<and> list_all (\<lambda>(prev_row, idx). prev_row = rs_rows (g_primary g) ! idx)
                       (zip prev [first..<l + 1]))
           in if unchanged then clear_flag MUTATED_SINCE_PRESERVE g
              else let block = map (\<lambda>idx. rs_rows (g_primary g) ! idx) [first..<l + 1];
                       g = foldl (\<lambda>g row. push_scrollback_row row Hard g) g block
                   in clear_flag MUTATED_SINCE_PRESERVE (g\<lparr>g_last_preserved_block := Some block\<rparr>))))"

definition set_active_row_wrap :: "u16 \<Rightarrow> row_wrap \<Rightarrow> grid \<Rightarrow> grid" where
  "set_active_row_wrap row wrap g =
     put_active (active_grid g\<lparr>rs_wraps := (rs_wraps (active_grid g))[row := wrap]\<rparr>) g"

definition newline_action_with_wrap :: "row_wrap \<Rightarrow> grid \<Rightarrow> grid option" where
  "newline_action_with_wrap wrap g =
     (if g_cursor_row g = g_scroll_bottom g then scroll_up 1 wrap g
      else let g = g\<lparr>g_cursor_row := add_cursor_offset (g_cursor_row g) 1 (g_rows g - 1)\<rparr>
           in Some (set_active_row_wrap (g_cursor_row g) wrap g))"

definition newline_action :: "grid \<Rightarrow> grid option" where
  "newline_action g = newline_action_with_wrap Hard g"

section \<open>Sound steps\<close>

definition damage_sound :: "grid \<Rightarrow> grid \<Rightarrow> bool" where
  "damage_sound g g' \<longleftrightarrow> (\<forall>r. \<not> dirty_row (g_dirty g') r \<longrightarrow>
     \<not> dirty_row (g_dirty g) r \<and> rs_get (active_grid g') r = rs_get (active_grid g) r)"

definition step_ok :: "grid \<Rightarrow> grid \<Rightarrow> bool" where
  "step_ok g g' \<longleftrightarrow> grid_inv g' \<and> damage_sound g g' \<and> g_rows g' = g_rows g \<and> g_cols g' = g_cols g"

lemma step_ok_refl [simp]: "step_ok g g \<longleftrightarrow> grid_inv g"
  by (simp add: step_ok_def damage_sound_def)

lemma step_ok_inv: "step_ok g g' \<Longrightarrow> grid_inv g'"
  by (simp add: step_ok_def)

lemma step_ok_trans: "step_ok g g1 \<Longrightarrow> step_ok g1 g2 \<Longrightarrow> step_ok g g2"
  by (auto simp: step_ok_def damage_sound_def)

lemma ok_step_bind:
  assumes "ok r (step_ok g)" "\<And>g1. step_ok g g1 \<Longrightarrow> ok (f g1) (step_ok g1)"
  shows "ok (Option.bind r f) (step_ok g)"
proof (cases r)
  case (Some g1)
  with assms(1) have "step_ok g g1" by simp
  with assms(2) [OF this] Some show ?thesis by (auto elim: ok_mono_all intro: step_ok_trans)
qed (use assms(1) in simp)

lemma ok_step_mono: "ok r (step_ok g1) \<Longrightarrow> step_ok g g1 \<Longrightarrow> ok r (step_ok g)"
  by (erule ok_mono_all) (rule step_ok_trans)

text \<open>A step that touches neither the screens nor the damage, and one that damages everything.\<close>

lemma step_ok_frame:
  assumes "grid_inv g'" "g_rows g' = g_rows g" "g_cols g' = g_cols g"
    "rs_rows (active_grid g') = rs_rows (active_grid g)" "g_dirty g' = g_dirty g"
  shows "step_ok g g'"
  using assms by (simp add: step_ok_def damage_sound_def rs_get_def)

lemma step_ok_all_dirty:
  assumes "grid_inv g'" "g_rows g' = g_rows g" "g_cols g' = g_cols g" "dt_all_dirty (g_dirty g')"
  shows "step_ok g g'"
  using assms by (simp add: step_ok_def damage_sound_def dirty_row_def)

lemma dt_all_dirty_mark_all [simp]: "dt_all_dirty (g_dirty (grid_mark_all g))"
  by (simp add: grid_mark_all_def mark_all_def)

lemma grid_mark_all_simps [simp]:
  "g_rows (grid_mark_all g) = g_rows g" "g_cols (grid_mark_all g) = g_cols g"
  by (simp_all add: grid_mark_all_def)

subsection \<open>The active screen\<close>

lemma put_active_simps [simp]:
  "active_grid (put_active s g) = s"
  "g_rows (put_active s g) = g_rows g" "g_cols (put_active s g) = g_cols g"
  "g_dirty (put_active s g) = g_dirty g" "g_arena (put_active s g) = g_arena g"
  "g_cursor_row (put_active s g) = g_cursor_row g" "g_cursor_col (put_active s g) = g_cursor_col g"
  "g_mode_flags (put_active s g) = g_mode_flags g"
  "g_scrollback (put_active s g) = g_scrollback g"
  "g_scrollback_limit (put_active s g) = g_scrollback_limit g"
  "g_scrollback_offset (put_active s g) = g_scrollback_offset g"
  "g_scroll_top (put_active s g) = g_scroll_top g" "g_scroll_bottom (put_active s g) = g_scroll_bottom g"
  "g_current_attrs (put_active s g) = g_current_attrs g"
  "g_active_hyperlink (put_active s g) = g_active_hyperlink g"
  "g_recent_hyperlinks (put_active s g) = g_recent_hyperlinks g"
  "g_kitty_kb_stack (put_active s g) = g_kitty_kb_stack g"
  by (simp_all add: put_active_def active_grid_def has_flag_def)

text \<open>Updates of other fields leave the active screen and the flags alone.\<close>

lemma active_grid_frame [simp]:
  "active_grid (g\<lparr>g_dirty := x0\<rparr>) = active_grid g" "active_grid (g\<lparr>g_cursor_row := x1\<rparr>) = active_grid g"
  "active_grid (g\<lparr>g_cursor_col := x2\<rparr>) = active_grid g" "active_grid (g\<lparr>g_last_print := x3\<rparr>) = active_grid g"
  "active_grid (g\<lparr>g_arena := x4\<rparr>) = active_grid g" "active_grid (g\<lparr>g_scroll_ops := x5\<rparr>) = active_grid g"
  "active_grid (g\<lparr>g_scrollback := x6\<rparr>) = active_grid g" "active_grid (g\<lparr>g_active_hyperlink := x7\<rparr>) = active_grid g"
  "active_grid (g\<lparr>g_last_preserved_block := x8\<rparr>) = active_grid g" "active_grid (g\<lparr>g_passthrough := x9\<rparr>) = active_grid g"
  "active_grid (g\<lparr>g_kitty_kb_stack := x10\<rparr>) = active_grid g" "active_grid (g\<lparr>g_current_attrs := x11\<rparr>) = active_grid g"
  "active_grid (g\<lparr>g_scroll_top := x12\<rparr>) = active_grid g" "active_grid (g\<lparr>g_scroll_bottom := x13\<rparr>) = active_grid g"
  by (simp_all add: active_grid_def has_flag_def)

lemma has_flag_frame [simp]:
  "has_flag (g\<lparr>g_dirty := x0\<rparr>) f = has_flag g f" "has_flag (g\<lparr>g_cursor_row := x1\<rparr>) f = has_flag g f"
  "has_flag (g\<lparr>g_cursor_col := x2\<rparr>) f = has_flag g f" "has_flag (g\<lparr>g_last_print := x3\<rparr>) f = has_flag g f"
  "has_flag (g\<lparr>g_arena := x4\<rparr>) f = has_flag g f" "has_flag (g\<lparr>g_scroll_ops := x5\<rparr>) f = has_flag g f"
  "has_flag (g\<lparr>g_scrollback := x6\<rparr>) f = has_flag g f" "has_flag (g\<lparr>g_active_hyperlink := x7\<rparr>) f = has_flag g f"
  "has_flag (g\<lparr>g_last_preserved_block := x8\<rparr>) f = has_flag g f" "has_flag (g\<lparr>g_passthrough := x9\<rparr>) f = has_flag g f"
  "has_flag (g\<lparr>g_kitty_kb_stack := x10\<rparr>) f = has_flag g f" "has_flag (g\<lparr>g_current_attrs := x11\<rparr>) f = has_flag g f"
  "has_flag (g\<lparr>g_scroll_top := x12\<rparr>) f = has_flag g f" "has_flag (g\<lparr>g_scroll_bottom := x13\<rparr>) f = has_flag g f"
  by (simp_all add: has_flag_def)

lemma flag_simps [simp]:
  "is_mask f \<Longrightarrow> is_mask m \<Longrightarrow> has_flag (set_flag f g) m \<longleftrightarrow> f = m \<or> has_flag g m"
  "is_mask f \<Longrightarrow> is_mask m \<Longrightarrow> has_flag (clear_flag f g) m \<longleftrightarrow> f \<noteq> m \<and> has_flag g m"
  "has_flag (put_active s g) m = has_flag g m"
  by (auto simp: flag_op_defs)

lemma active_grid_flag [simp]:
  "is_mask f \<Longrightarrow> f \<noteq> ALT_SCREEN \<Longrightarrow> active_grid (set_flag f g) = active_grid g"
  "is_mask f \<Longrightarrow> f \<noteq> ALT_SCREEN \<Longrightarrow> active_grid (clear_flag f g) = active_grid g"
  by (simp_all add: active_grid_def) (simp_all add: flag_op_defs)

lemma active_ok: "grid_inv g \<Longrightarrow> store_ok (g_rows g) (g_cols g) (active_grid g)"
  by (simp add: grid_inv_def screens_ok_def active_grid_def)

lemma active_row:
  assumes "grid_inv g" "i < g_rows g"
  shows "i < length (rs_rows (active_grid g))" "good_row (g_cols g) (rs_rows (active_grid g) ! i)"
    "length (rs_rows (active_grid g) ! i) = g_cols g"
  using active_ok [OF assms(1)] assms(2) store_ok_nth [OF active_ok [OF assms(1)] assms(2)]
  by (auto simp: store_ok_def good_row_def)

lemma cursor_in: "grid_inv g \<Longrightarrow> g_cursor_row g < g_rows g"
  by (simp add: grid_inv_def cursor_ok_def)

lemma put_active_inv:
  "grid_inv g \<Longrightarrow> store_ok (g_rows g) (g_cols g) s \<Longrightarrow> grid_inv (put_active s g)"
  by (auto simp: put_active_def grid_inv_def inv_part_defs has_flag_def)

lemma set_dirty_inv: "grid_inv g \<Longrightarrow> dt_inv t \<Longrightarrow> grid_inv (g\<lparr>g_dirty := t\<rparr>)"
  by (simp add: grid_inv_def inv_part_defs has_flag_def)

lemma grid_mark_range_ok:
  assumes "grid_inv g"
  obtains t where "grid_mark_range r s e g = Some (g\<lparr>g_dirty := t\<rparr>)" "dt_inv t"
    "\<forall>r'. dirty_row (g_dirty g) r' \<longrightarrow> dirty_row t r'" "s < e \<Longrightarrow> dirty_row t r"
proof -
  have "dt_inv (g_dirty g)" using assms by (simp add: grid_inv_def)
  from mark_range_ok [OF this, of r s e] obtain t
    where t: "mark_range (g_dirty g) r s e = Some t" "dt_inv t"
      "dt_all_dirty t \<or> (\<forall>r'. dirty_row t r' \<longleftrightarrow> dirty_row (g_dirty g) r' \<or> (r' = r \<and> s < e))"
    by (auto simp: ok_iff_ex)
  show thesis
    by (rule that [of t]) (use t in \<open>auto simp: grid_mark_range_def dirty_row_def\<close>)
qed

lemma grid_mark_range_step:
  assumes "grid_inv g"
  shows "ok (grid_mark_range r s e g) (step_ok g)"
  using assms
  by (rule grid_mark_range_ok [of g r s e])
     (auto simp: step_ok_def damage_sound_def set_dirty_inv assms active_grid_def has_flag_def)

lemma grid_mark_row_eq: "grid_mark_row r g = grid_mark_range r 0 u16_max g"
  by (simp add: grid_mark_row_def grid_mark_range_def mark_row_def)

text \<open>Replacing one row and marking a non-empty range of it is a sound step.\<close>

lemma edit_row_step:
  assumes inv: "grid_inv g" and i: "i < g_rows g" and row: "good_row (g_cols g) row"
    and mark: "s < e \<or> row = rs_rows (active_grid g) ! i"
  obtains g1 t where "set_active_row i row g = Some g1"
    "g1 = put_active (active_grid g\<lparr>rs_rows := (rs_rows (active_grid g))[i := row]\<rparr>) g"
    "grid_inv g1" "grid_mark_range i s e g1 = Some (g1\<lparr>g_dirty := t\<rparr>)" "dt_inv t"
    "step_ok g (g1\<lparr>g_dirty := t\<rparr>)"
proof -
  define st where "st = active_grid g\<lparr>rs_rows := (rs_rows (active_grid g))[i := row]\<rparr>"
  have g1: "set_active_row i row g = Some (put_active st g)"
    using active_row [OF inv i] by (simp add: set_active_row_def vec_set_def st_def)
  have inv1: "grid_inv (put_active st g)"
    unfolding st_def by (intro put_active_inv inv store_ok_update active_ok row)
  from grid_mark_range_ok [OF inv1, of i s e] obtain t
    where t: "grid_mark_range i s e (put_active st g) = Some ((put_active st g)\<lparr>g_dirty := t\<rparr>)" "dt_inv t"
      "\<forall>r'. dirty_row (g_dirty g) r' \<longrightarrow> dirty_row t r'" "s < e \<Longrightarrow> dirty_row t i"
    by auto
  have "rs_get st r = rs_get (active_grid g) r" if "\<not> dirty_row t r" for r
    using that t(4) mark by (cases "r = i") (auto simp: st_def rs_get_def vec_get_def)
  with t have "step_ok g ((put_active st g)\<lparr>g_dirty := t\<rparr>)"
    by (auto simp: step_ok_def damage_sound_def set_dirty_inv inv1)
  with g1 inv1 t(1,2) show thesis by (intro that [of "put_active st g" t]) (simp_all add: st_def)
qed

subsection \<open>The scrollback buffer\<close>

text \<open>Appending to a buffer that keeps the newest \<open>limit\<close> entries.\<close>

definition push_limited :: "nat \<Rightarrow> 'a list \<Rightarrow> 'a list \<Rightarrow> 'a list" where
  "push_limited limit xs ys = drop (length xs + length ys - limit) (xs @ ys)"

lemma push_limited_Nil [simp]: "length xs \<le> limit \<Longrightarrow> push_limited limit xs [] = xs"
  by (simp add: push_limited_def)

lemma length_push_limited: "length (push_limited limit xs ys) = min limit (length xs + length ys)"
  by (simp add: push_limited_def)

lemma push_limited_append:
  "push_limited limit (push_limited limit xs ys) zs = push_limited limit xs (ys @ zs)"
proof -
  define k where "k = length xs + length ys - limit"
  have app: "drop k (xs @ ys) @ zs = drop k (xs @ ys @ zs)" by (simp add: k_def)
  have len: "length (drop k (xs @ ys)) + length zs - limit + k = length xs + length (ys @ zs) - limit"
    unfolding length_drop length_append k_def by arith
  show ?thesis
    unfolding push_limited_def k_def [symmetric] app drop_drop len ..
qed

lemma push_limited_snoc:
  assumes "length xs \<le> limit" "0 < limit"
  shows "push_limited limit xs [x] = (if limit \<le> length xs then tl xs else xs) @ [x]"
  using assms by (cases xs) (auto simp: push_limited_def)

lemma push_scrollback_row_spec:
  assumes inv: "grid_inv g" and lim: "0 < g_scrollback_limit g"
  shows "rs_rows (g_scrollback (push_scrollback_row row w g))
      = push_limited (g_scrollback_limit g) (rs_rows (g_scrollback g)) [row]"
    and "rs_wraps (g_scrollback (push_scrollback_row row w g))
      = push_limited (g_scrollback_limit g) (rs_wraps (g_scrollback g)) [w]"
    and "push_scrollback_row row w g = g\<lparr>g_scrollback := g_scrollback (push_scrollback_row row w g),
      g_arena := g_arena (push_scrollback_row row w g)\<rparr>"
    and "arena_inv (g_arena (push_scrollback_row row w g))"
proof -
  let ?s = "g_scrollback g"
  have len: "length (rs_wraps ?s) = length (rs_rows ?s)" "length (rs_rows ?s) \<le> g_scrollback_limit g"
    and ai: "arena_inv (g_arena g)"
    using inv by (auto simp: grid_inv_def history_ok_def store_any_width_def rs_len_def)
  obtain s pool where sp: "(if g_scrollback_limit g \<le> rs_len ?s
      then rs_recycle_front ?s (g_arena g) else (?s, g_arena g)) = (s, pool)" by fastforce
  have s: "rs_rows s = (if g_scrollback_limit g \<le> length (rs_rows ?s) then tl (rs_rows ?s) else rs_rows ?s)"
    "rs_wraps s = (if g_scrollback_limit g \<le> length (rs_rows ?s) then tl (rs_wraps ?s) else rs_wraps ?s)"
    "arena_inv pool"
    using sp len lim ai
    by (auto simp: rs_recycle_front_def rs_pop_front_with_wrap_def rs_len_def pool.release_inv
        split: if_splits list.splits)
  have eq: "push_scrollback_row row w g = g\<lparr>g_scrollback := rs_push_back_with_wrap s row w, g_arena := pool\<rparr>"
    by (simp add: push_scrollback_row_def sp)
  show "rs_rows (g_scrollback (push_scrollback_row row w g))
      = push_limited (g_scrollback_limit g) (rs_rows ?s) [row]"
    "rs_wraps (g_scrollback (push_scrollback_row row w g))
      = push_limited (g_scrollback_limit g) (rs_wraps ?s) [w]"
    using s(1,2) len lim by (simp_all add: eq rs_push_back_with_wrap_def push_limited_snoc)
  show "push_scrollback_row row w g = g\<lparr>g_scrollback := g_scrollback (push_scrollback_row row w g),
      g_arena := g_arena (push_scrollback_row row w g)\<rparr>"
    "arena_inv (g_arena (push_scrollback_row row w g))"
    using s(3) by (simp_all add: eq)
qed

lemma set_push_limited: "set (push_limited limit xs ys) \<subseteq> set xs \<union> set ys"
  by (auto simp: push_limited_def dest: in_set_dropD)

lemma push_scrollback_row_inv:
  assumes inv: "grid_inv g" and lim: "0 < g_scrollback_limit g" and row: "good_row (length row) row"
  shows "grid_inv (push_scrollback_row row w g)"
proof -
  note spec = push_scrollback_row_spec [OF inv lim, of row w]
  have old: "length (rs_wraps (g_scrollback g)) = length (rs_rows (g_scrollback g))"
    "\<forall>r \<in> set (rs_rows (g_scrollback g)). good_row (length r) r"
    "length (rs_rows (g_scrollback g)) \<le> g_scrollback_limit g"
    "g_scrollback_offset g \<le> length (rs_rows (g_scrollback g))"
    using inv by (auto simp: grid_inv_def history_ok_def store_any_width_def rs_len_def list_all_iff)
  have "store_any_width (g_scrollback (push_scrollback_row row w g))"
    unfolding store_any_width_def spec(1,2) list_all_iff
    using old set_push_limited [of "g_scrollback_limit g" "rs_rows (g_scrollback g)" "[row]"] row
    by (auto simp: length_push_limited)
  moreover have "rs_len (g_scrollback (push_scrollback_row row w g))
      = min (g_scrollback_limit g) (Suc (length (rs_rows (g_scrollback g))))"
    by (simp add: rs_len_def spec(1) length_push_limited)
  ultimately show ?thesis
    using inv old(3,4) spec(4)
    by (subst spec(3)) (auto simp: grid_inv_def inv_part_defs has_flag_def)
qed

subsection \<open>Scrolling\<close>

text \<open>The region \<open>[a..b]\<close> of a list moved up by \<open>n\<close>, with \<open>n\<close> copies of \<open>x\<close> entering at the bottom.\<close>

definition shift_up :: "nat \<Rightarrow> nat \<Rightarrow> nat \<Rightarrow> 'a \<Rightarrow> 'a list \<Rightarrow> 'a list" where
  "shift_up a b n x xs =
     take a xs @ drop (a + n) (take (Suc b) xs) @ replicate n x @ drop (Suc b) xs"

lemma length_shift_up: "a + n \<le> Suc b \<Longrightarrow> b < length xs \<Longrightarrow> length (shift_up a b n x xs) = length xs"
  by (simp add: shift_up_def)

lemma nth_shift_up:
  assumes "a + n \<le> Suc b" "b < length xs" "i < length xs"
  shows "shift_up a b n x xs ! i =
    (if i < a \<or> b < i then xs ! i else if i + n \<le> b then xs ! (i + n) else x)"
  using assms by (auto simp: shift_up_def nth_append min_def add.commute)

lemma shift_up_0 [simp]: "a \<le> Suc b \<Longrightarrow> b < length xs \<Longrightarrow> shift_up a b 0 x xs = xs"
  by (intro nth_equalityI) (simp_all add: length_shift_up nth_shift_up)

lemma shift_up_Suc:
  assumes "a + Suc n \<le> Suc b" "b < length xs"
  shows "shift_up a b n x (shift_up a b 1 x xs) = shift_up a b (Suc n) x xs"
  using assms by (intro nth_equalityI) (auto simp: length_shift_up nth_shift_up)

lemma set_shift_up: "set (shift_up a b n x xs) \<subseteq> insert x (set xs)"
  by (auto simp: shift_up_def dest: in_set_takeD in_set_dropD)

lemma remove_insert_shift_up:
  assumes "a \<le> b" "b < length xs"
  shows "deque_insert (take a xs @ drop (Suc a) xs) b x = shift_up a b 1 x xs"
proof -
  have "take b (take a xs @ drop (Suc a) xs) = take a xs @ drop (Suc a) (take (Suc b) xs)"
    using assms by (simp add: drop_take min_def)
  moreover have "drop b (take a xs @ drop (Suc a) xs) = drop (Suc b) xs"
    using assms by (simp add: min_def)
  ultimately show ?thesis by (simp add: deque_insert_def shift_up_def)
qed

lemma store_ok_shift_up:
  assumes "store_ok rows cols s" "a + n \<le> Suc b" "b < rows"
  shows "store_ok rows cols \<lparr>rs_rows = shift_up a b n (blank_row cols) (rs_rows s),
    rs_wraps = shift_up a b n w (rs_wraps s)\<rparr>"
  using assms set_shift_up [of a b n "blank_row cols" "rs_rows s"]
  by (auto simp: store_ok_def length_shift_up list_all_iff)

text \<open>Where the evicted rows of a scroll go.\<close>

definition feeds_scrollback :: "nat \<Rightarrow> grid \<Rightarrow> bool" where
  "feeds_scrollback top_row g \<longleftrightarrow> \<not> has_flag g ALT_SCREEN \<and> top_row = 0 \<and> 0 < g_scrollback_limit g"

text \<open>
  The result of scrolling up by \<open>n\<close>: the region shifts, and the rows that leave it from the top of
  the primary screen are appended to the scrollback.
\<close>

definition scrolled_up :: "nat \<Rightarrow> nat \<Rightarrow> nat \<Rightarrow> row_wrap \<Rightarrow> grid \<Rightarrow> grid \<Rightarrow> bool" where
  "scrolled_up top_row bottom n w g g' \<longleftrightarrow>
     (\<exists>sb pool. g' = put_active
          \<lparr>rs_rows = shift_up top_row bottom n (blank_row (g_cols g)) (rs_rows (active_grid g)),
           rs_wraps = shift_up top_row bottom n w (rs_wraps (active_grid g))\<rparr>
          (g\<lparr>g_scrollback := sb, g_arena := pool\<rparr>)
        \<and> rs_rows sb = (if feeds_scrollback top_row g
            then push_limited (g_scrollback_limit g) (rs_rows (g_scrollback g))
                   (take n (rs_rows (active_grid g)))
            else rs_rows (g_scrollback g))
        \<and> rs_wraps sb = (if feeds_scrollback top_row g
            then push_limited (g_scrollback_limit g) (rs_wraps (g_scrollback g))
                   (take n (rs_wraps (active_grid g)))
            else rs_wraps (g_scrollback g)))"

lemma put_active_commute:
  "put_active s (g\<lparr>g_scrollback := sb, g_arena := pool\<rparr>) = (put_active s g)\<lparr>g_scrollback := sb, g_arena := pool\<rparr>"
  by (simp add: put_active_def has_flag_def)

lemma put_active_arena: "(put_active s g)\<lparr>g_arena := pool\<rparr> = put_active s (g\<lparr>g_arena := pool\<rparr>)"
  by (simp add: put_active_def has_flag_def)

lemma put_active_twice [simp]: "put_active s (put_active t g) = put_active s g"
  by (simp add: put_active_def has_flag_def)

lemma set_arena_inv: "grid_inv g \<Longrightarrow> arena_inv pool \<Longrightarrow> grid_inv (g\<lparr>g_arena := pool\<rparr>)"
  by (simp add: grid_inv_def inv_part_defs has_flag_def)

lemma scroll_up_once_spec:
  assumes inv: "grid_inv g" and tb: "top_row < bottom" "bottom < g_rows g"
  shows "ok (scroll_up_once top_row bottom w g) (\<lambda>g'. grid_inv g' \<and> scrolled_up top_row bottom 1 w g g')"
proof -
  let ?s = "active_grid g" and ?b = "blank_row (g_cols g)"
  define st where "st = \<lparr>rs_rows = shift_up top_row bottom 1 ?b (rs_rows ?s), rs_wraps = shift_up top_row bottom 1 w (rs_wraps ?s)\<rparr>"
  have len: "length (rs_rows ?s) = g_rows g" "length (rs_wraps ?s) = g_rows g"
    using active_ok [OF inv] by (auto simp: store_ok_def)
  obtain pool where blank: "arena_blank_row (g_arena g) (g_cols g) = (?b, pool)"
    using pool.alloc_blank [of "g_arena g" "g_cols g"] by (metis prod.collapse)
  have pool: "arena_inv pool"
    using pool.alloc_inv [of "g_arena g" "g_cols g"] inv blank by (simp add: grid_inv_def)
  have removed: "rs_remove_with_wrap ?s top_row = (Some (rs_rows ?s ! top_row, rs_wraps ?s ! top_row),
      \<lparr>rs_rows = take top_row (rs_rows ?s) @ drop (Suc top_row) (rs_rows ?s),
       rs_wraps = take top_row (rs_wraps ?s) @ drop (Suc top_row) (rs_wraps ?s)\<rparr>)" (is "_ = (_, ?r)")
    using len tb by (intro rs_remove_rows) simp_all
  have ins: "rs_insert_with_wrap ?r bottom ?b w = Some st"
    using len tb by (simp add: rs_insert_with_wrap_def Let_def st_def remove_insert_shift_up)
  have stok: "store_ok (g_rows g) (g_cols g) st"
    unfolding st_def using tb by (intro store_ok_shift_up active_ok inv) simp_all
  have row: "good_row (g_cols g) (rs_rows ?s ! top_row)" and lrow: "length (rs_rows ?s ! top_row) = g_cols g"
    using active_row [OF inv, of top_row] tb by simp_all
  show ?thesis
  proof (cases "feeds_scrollback top_row g")
    case True
    define g1 where "g1 = push_scrollback_row (rs_rows ?s ! 0) (rs_wraps ?s ! 0) (g\<lparr>g_arena := pool\<rparr>)"
    have inv0: "grid_inv (g\<lparr>g_arena := pool\<rparr>)" by (rule set_arena_inv [OF inv pool])
    have lim: "0 < g_scrollback_limit (g\<lparr>g_arena := pool\<rparr>)" using True by (simp add: feeds_scrollback_def)
    note spec = push_scrollback_row_spec [OF inv0 lim, of "rs_rows ?s ! 0" "rs_wraps ?s ! 0", folded g1_def]
    have inv1: "grid_inv g1"
      unfolding g1_def using row lrow True by (intro push_scrollback_row_inv inv0 lim) (simp add: feeds_scrollback_def)
    have commute: "push_scrollback_row r v (put_active t h) = put_active t (push_scrollback_row r v h)" for r v t and h :: "grid"
      by (simp add: push_scrollback_row_def put_active_def has_flag_def split_beta Let_def)
    have eq: "scroll_up_once top_row bottom w g = Some (put_active st g1)"
      using True len tb ins unfolding scroll_up_once_def Let_def blank removed prod.case
      by (simp add: rs_len_def feeds_scrollback_def commute g1_def [symmetric])
    have g1: "g1 = g\<lparr>g_scrollback := g_scrollback g1, g_arena := g_arena g1\<rparr>"
      using spec(3) by simp
    have dims: "g_rows g1 = g_rows g" "g_cols g1 = g_cols g" by (subst g1, simp)+
    have "take 1 (rs_rows ?s) = [rs_rows ?s ! 0]" "take 1 (rs_wraps ?s) = [rs_wraps ?s ! 0]"
      using len tb by (simp_all add: take_Suc_conv_app_nth [of 0])
    then have "scrolled_up top_row bottom 1 w g (put_active st g1)"
      unfolding scrolled_up_def st_def [symmetric]
      by (intro exI [of _ "g_scrollback g1"] exI [of _ "g_arena g1"] conjI)
         (simp only: g1 [symmetric], use True spec(1,2) in simp_all)
    moreover have "grid_inv (put_active st g1)" using stok by (intro put_active_inv inv1) (simp add: dims)
    ultimately show ?thesis by (simp add: eq)
  next
    case False
    define pool' where "pool' = arena_recycle pool (rs_rows ?s ! top_row)"
    have eq: "scroll_up_once top_row bottom w g = Some ((put_active st g)\<lparr>g_arena := pool'\<rparr>)"
      using len tb ins
      unfolding scroll_up_once_def Let_def blank removed prod.case feeds_scrollback_def [symmetric]
      by (simp add: False rs_len_def pool'_def put_active_arena)
    have "scrolled_up top_row bottom 1 w g ((put_active st g)\<lparr>g_arena := pool'\<rparr>)"
      using False unfolding scrolled_up_def st_def [symmetric]
      by (intro exI [of _ "g_scrollback g"] exI [of _ pool']) (simp add: put_active_def has_flag_def)
    moreover have "grid_inv ((put_active st g)\<lparr>g_arena := pool'\<rparr>)"
      using stok pool by (auto simp: pool'_def intro!: set_arena_inv put_active_inv inv pool.release_inv)
    ultimately show ?thesis by (simp add: eq)
  qed
qed

lemma scrolled_up_fields:
  assumes "scrolled_up a b n w g g'"
  shows "rs_rows (active_grid g') = shift_up a b n (blank_row (g_cols g)) (rs_rows (active_grid g))"
    "rs_wraps (active_grid g') = shift_up a b n w (rs_wraps (active_grid g))"
    "g_rows g' = g_rows g" "g_cols g' = g_cols g" "g_dirty g' = g_dirty g"
    "g_cursor_row g' = g_cursor_row g" "g_cursor_col g' = g_cursor_col g" "g_mode_flags g' = g_mode_flags g"
    "g_scrollback_limit g' = g_scrollback_limit g" "g_scroll_bottom g' = g_scroll_bottom g"
    "g_scroll_top g' = g_scroll_top g" "feeds_scrollback a g' = feeds_scrollback a g"
    "rs_rows (g_scrollback g') = (if feeds_scrollback a g
       then push_limited (g_scrollback_limit g) (rs_rows (g_scrollback g)) (take n (rs_rows (active_grid g)))
       else rs_rows (g_scrollback g))"
  using assms by (auto simp: scrolled_up_def feeds_scrollback_def)

lemma take_shift_up:
  assumes "n \<le> b" "b < length xs"
  shows "take 1 xs @ take n (shift_up 0 b 1 x xs) = take (Suc n) xs"
proof -
  have "take n (shift_up 0 b 1 x xs) = take n (drop 1 xs)"
    using assms by (auto simp: shift_up_def drop_take min_def)
  then show ?thesis
    using assms by (cases xs) simp_all
qed

lemma scrolled_up_Suc:
  assumes "scrolled_up a b 1 w g g1" "scrolled_up a b n w g1 g2" "a + Suc n \<le> Suc b"
    and len: "b < length (rs_rows (active_grid g))" "b < length (rs_wraps (active_grid g))"
  shows "scrolled_up a b (Suc n) w g g2"
proof -
  obtain sb1 p1 where g1: "g1 = put_active
      \<lparr>rs_rows = shift_up a b 1 (blank_row (g_cols g)) (rs_rows (active_grid g)),
       rs_wraps = shift_up a b 1 w (rs_wraps (active_grid g))\<rparr> (g\<lparr>g_scrollback := sb1, g_arena := p1\<rparr>)"
    "rs_rows sb1 = (if feeds_scrollback a g then push_limited (g_scrollback_limit g) (rs_rows (g_scrollback g))
       (take 1 (rs_rows (active_grid g))) else rs_rows (g_scrollback g))"
    "rs_wraps sb1 = (if feeds_scrollback a g then push_limited (g_scrollback_limit g) (rs_wraps (g_scrollback g))
       (take 1 (rs_wraps (active_grid g))) else rs_wraps (g_scrollback g))"
    using assms(1) unfolding scrolled_up_def by blast
  obtain sb2 p2 where g2: "g2 = put_active
      \<lparr>rs_rows = shift_up a b n (blank_row (g_cols g1)) (rs_rows (active_grid g1)),
       rs_wraps = shift_up a b n w (rs_wraps (active_grid g1))\<rparr> (g1\<lparr>g_scrollback := sb2, g_arena := p2\<rparr>)"
    "rs_rows sb2 = (if feeds_scrollback a g1 then push_limited (g_scrollback_limit g1) (rs_rows (g_scrollback g1))
       (take n (rs_rows (active_grid g1))) else rs_rows (g_scrollback g1))"
    "rs_wraps sb2 = (if feeds_scrollback a g1 then push_limited (g_scrollback_limit g1) (rs_wraps (g_scrollback g1))
       (take n (rs_wraps (active_grid g1))) else rs_wraps (g_scrollback g1))"
    using assms(2) unfolding scrolled_up_def by blast
  have feeds: "feeds_scrollback a g1 = feeds_scrollback a g" by (rule scrolled_up_fields [OF assms(1)])
  have g1s: "g_cols g1 = g_cols g" "g_scrollback g1 = sb1" "g_scrollback_limit g1 = g_scrollback_limit g"
    "active_grid g1 = \<lparr>rs_rows = shift_up a b 1 (blank_row (g_cols g)) (rs_rows (active_grid g)),
       rs_wraps = shift_up a b 1 w (rs_wraps (active_grid g))\<rparr>"
    by (simp_all add: g1(1))
  have eq: "g2 = put_active
      \<lparr>rs_rows = shift_up a b (Suc n) (blank_row (g_cols g)) (rs_rows (active_grid g)),
       rs_wraps = shift_up a b (Suc n) w (rs_wraps (active_grid g))\<rparr> (g\<lparr>g_scrollback := sb2, g_arena := p2\<rparr>)"
    unfolding g2(1) g1s using assms(3) len
    by (simp add: shift_up_Suc del: One_nat_def) (simp add: g1(1) put_active_def has_flag_def)
  have joined: "take 1 (rs_rows (active_grid g))
        @ take n (shift_up 0 b 1 (blank_row (g_cols g)) (rs_rows (active_grid g)))
      = take (Suc n) (rs_rows (active_grid g))"
    "take 1 (rs_wraps (active_grid g)) @ take n (shift_up 0 b 1 w (rs_wraps (active_grid g)))
      = take (Suc n) (rs_wraps (active_grid g))"
    using assms(3) len by (simp_all only: take_shift_up)
  have "feeds_scrollback a g \<Longrightarrow> a = 0" by (simp add: feeds_scrollback_def)
  with g2(2,3) g1(2,3) joined
  show ?thesis
    unfolding scrolled_up_def
    by (intro exI [of _ sb2] exI [of _ p2] conjI eq)
       (auto simp: feeds g1s push_limited_append simp del: One_nat_def)
qed

lemma repeat_scroll_up_once:
  assumes "grid_inv g" "top_row < bottom" "bottom < g_rows g" "top_row + n \<le> Suc bottom"
  shows "ok (repeat_opt n (scroll_up_once top_row bottom w) g)
    (\<lambda>g'. grid_inv g' \<and> scrolled_up top_row bottom n w g g')"
  using assms
proof (induction n arbitrary: g)
  case 0
  have "store_ok (g_rows g) (g_cols g) (active_grid g)" by (rule active_ok [OF 0(1)])
  then have len: "bottom < length (rs_rows (active_grid g))" "bottom < length (rs_wraps (active_grid g))"
    using 0 by (auto simp: store_ok_def)
  have hist: "length (rs_rows (g_scrollback g)) \<le> g_scrollback_limit g"
      "length (rs_wraps (g_scrollback g)) \<le> g_scrollback_limit g"
    using 0(1) by (auto simp: grid_inv_def history_ok_def store_any_width_def rs_len_def)
  have "put_active \<lparr>rs_rows = rs_rows (active_grid g), rs_wraps = rs_wraps (active_grid g)\<rparr> g = g"
    by (simp add: put_active_def active_grid_def)
  with 0 len hist show ?case
    unfolding scrolled_up_def by (auto intro!: exI [of _ "g_scrollback g"] exI [of _ "g_arena g"])
next
  case (Suc n)
  from scroll_up_once_spec [OF Suc.prems(1-3), of w] obtain g1
    where g1: "scroll_up_once top_row bottom w g = Some g1" "grid_inv g1" "scrolled_up top_row bottom 1 w g g1"
    by (auto simp: ok_iff_ex)
  have len: "bottom < length (rs_rows (active_grid g))" "bottom < length (rs_wraps (active_grid g))"
    using active_ok [OF Suc.prems(1)] Suc.prems(3) by (auto simp: store_ok_def)
  have "g_rows g1 = g_rows g" using g1(3) by (rule scrolled_up_fields)
  with Suc.prems have "ok (repeat_opt n (scroll_up_once top_row bottom w) g1)
      (\<lambda>g'. grid_inv g' \<and> scrolled_up top_row bottom n w g1 g')"
    by (intro Suc.IH g1(2)) simp_all
  then show ?case
    using scrolled_up_Suc [OF g1(3) _ Suc.prems(4) len] by (auto simp: g1(1) ok_iff_ex)
qed

lemma repeat_opt_noop: "(\<And>x. f x = Some x) \<Longrightarrow> repeat_opt n f s = Some s"
  by (induction n) simp_all

lemma fold_mark_rows:
  "fold_opt grid_mark_row rs g
     = map_option (\<lambda>t. g\<lparr>g_dirty := t\<rparr>) (fold_opt (\<lambda>r t. mark_range t r 0 u16_max) rs (g_dirty g))"
proof (induction rs arbitrary: g)
  case (Cons r rs)
  show ?case
    by (cases "mark_range (g_dirty g) r 0 u16_max")
       (simp_all add: grid_mark_row_def [of r g] mark_row_def Cons.IH)
qed simp

text \<open>Marking a range of rows reports all of them and forgets nothing.\<close>

lemma fold_mark_rows_ok:
  assumes "grid_inv g"
  obtains t where "fold_opt grid_mark_row rs g = Some (g\<lparr>g_dirty := t\<rparr>)" "dt_inv t"
    "\<forall>r. dirty_row (g_dirty g) r \<longrightarrow> dirty_row t r" "\<forall>r \<in> set rs. dirty_row t r"
proof -
  have inv: "dt_inv (g_dirty g)" using assms by (simp add: grid_inv_def)
  from tracker.mark_rows_spec [OF this, of 0 u16_max rs] obtain t
    where t: "fold_opt (\<lambda>r t. mark_range t r 0 u16_max) rs (g_dirty g) = Some t" "dt_inv t"
      "\<forall>r c. covers (g_dirty g) r c \<longrightarrow> covers t r c" "\<forall>r \<in> set rs. \<forall>c. c < u16_max \<longrightarrow> covers t r c"
    by (auto simp: ok_iff_ex)
  have "\<forall>r \<in> set rs. covers t r 0" using t(4) by (simp add: u16_max_def)
  with t inv show thesis
    by (intro that [of t]) (auto simp: fold_mark_rows dirty_row_covers)
qed

text \<open>
  Scrolling up: the region moves by \<open>n\<close> rows (at most its height), and from the top of the primary
  screen the evicted rows go to the scrollback, which keeps the newest ones. A region of one row
  does not move.
\<close>

definition scroll_amount :: "u16 \<Rightarrow> grid \<Rightarrow> nat" where
  "scroll_amount n g = min n (g_scroll_bottom g - g_scroll_top g + 1)"

lemma scroll_up_spec:
  assumes inv: "grid_inv g"
  shows "ok (scroll_up n w g) (\<lambda>g'. step_ok g g'
    \<and> (if g_scroll_top g < g_scroll_bottom g
       then rs_rows (active_grid g') = shift_up (g_scroll_top g) (g_scroll_bottom g) (scroll_amount n g)
              (blank_row (g_cols g)) (rs_rows (active_grid g))
         \<and> rs_wraps (active_grid g') = shift_up (g_scroll_top g) (g_scroll_bottom g) (scroll_amount n g)
              w (rs_wraps (active_grid g))
         \<and> rs_rows (g_scrollback g') = (if feeds_scrollback (g_scroll_top g) g
              then push_limited (g_scrollback_limit g) (rs_rows (g_scrollback g))
                     (take (scroll_amount n g) (rs_rows (active_grid g)))
              else rs_rows (g_scrollback g))
       else active_grid g' = active_grid g \<and> g_scrollback g' = g_scrollback g)
    \<and> g_cursor_row g' = g_cursor_row g \<and> g_cursor_col g' = g_cursor_col g
    \<and> g_mode_flags g' = g_mode_flags g OR MUTATED_SINCE_PRESERVE)"
proof -
  let ?t = "g_scroll_top g" and ?b = "g_scroll_bottom g" and ?n = "scroll_amount n g"
  have tb: "?t \<le> ?b" "?b < g_rows g" "g_rows g \<le> u16_max"
    using inv by (auto simp: grid_inv_def region_ok_def dims_ok_def)
  have height: "Suc (?b - ?t) \<le> u16_max" using tb by linarith
  define g0 where "g0 = (let g = set_flag MUTATED_SINCE_PRESERVE g in
      if 0 < ?n then g\<lparr>g_scroll_ops := g_scroll_ops g @ [ScrollUp ?t ?b ?n]\<rparr> else g)"
  have g0: "grid_inv g0" "active_grid g0 = active_grid g" "g_scrollback g0 = g_scrollback g" "g_rows g0 = g_rows g"
    "g_cols g0 = g_cols g" "g_cursor_row g0 = g_cursor_row g" "g_cursor_col g0 = g_cursor_col g"
    "g_dirty g0 = g_dirty g" "g_mode_flags g0 = g_mode_flags g OR MUTATED_SINCE_PRESERVE"
    "feeds_scrollback a g0 = feeds_scrollback a g" "g_scrollback_limit g0 = g_scrollback_limit g" for a
    using inv
    by (auto simp: g0_def Let_def set_flag_def active_grid_def has_flag_def feeds_scrollback_def
        grid_inv_def inv_part_defs)
  have unfold: "scroll_up n w g
      = Option.bind (repeat_opt ?n (scroll_up_once ?t ?b w) g0) (fold_opt grid_mark_row [?t..<?b + 1])"
    using tb height by (simp add: scroll_up_def u16_sub_def u16_add_def scroll_amount_def g0_def Let_def set_flag_def)
  have "\<exists>g1. repeat_opt ?n (scroll_up_once ?t ?b w) g0 = Some g1 \<and> grid_inv g1
      \<and> (if ?t < ?b then scrolled_up ?t ?b ?n w g0 g1 else g1 = g0)"
  proof (cases "?t < ?b")
    case True
    with repeat_scroll_up_once [OF g0(1) True, of ?n w] tb g0(4) show ?thesis
      by (auto simp: ok_iff_ex scroll_amount_def)
  next
    case False
    with g0(1) show ?thesis by (simp add: repeat_opt_noop scroll_up_once_def)
  qed
  then obtain g1 where g1: "repeat_opt ?n (scroll_up_once ?t ?b w) g0 = Some g1" "grid_inv g1"
      "if ?t < ?b then scrolled_up ?t ?b ?n w g0 g1 else g1 = g0" by blast
  have same: "g_rows g1 = g_rows g" "g_cols g1 = g_cols g" "g_dirty g1 = g_dirty g"
    "g_cursor_row g1 = g_cursor_row g" "g_cursor_col g1 = g_cursor_col g" "g_mode_flags g1 = g_mode_flags g0"
    using g1(3) g0 scrolled_up_fields [of ?t ?b ?n w g0 g1] by (auto split: if_splits)
  from fold_mark_rows_ok [OF g1(2), of "[?t..<?b + 1]"] obtain t
    where t: "fold_opt grid_mark_row [?t..<?b + 1] g1 = Some (g1\<lparr>g_dirty := t\<rparr>)" "dt_inv t"
      "\<forall>r. dirty_row (g_dirty g) r \<longrightarrow> dirty_row t r" "\<forall>r \<in> set [?t..<?b + 1]. dirty_row t r"
    by (auto simp: same)
  have rows: "rs_rows (active_grid g1) = (if ?t < ?b then shift_up ?t ?b ?n (blank_row (g_cols g)) (rs_rows (active_grid g))
      else rs_rows (active_grid g))"
    using g1(3) g0 scrolled_up_fields(1) [of ?t ?b ?n w g0 g1] by (auto split: if_splits)
  have len: "length (rs_rows (active_grid g)) = g_rows g" using active_ok [OF inv] by (simp add: store_ok_def)
  have "rs_get (active_grid g1) r = rs_get (active_grid g) r" if "\<not> dirty_row t r" for r
  proof -
    have "r \<notin> set [?t..<?b + 1]" using that t(4) by blast
    then have "r < ?t \<or> ?b < r" by auto
    with tb len show ?thesis
      by (auto simp: rs_get_def vec_get_def rows nth_shift_up length_shift_up scroll_amount_def)
  qed
  then have "step_ok g (g1\<lparr>g_dirty := t\<rparr>)"
    using t(2,3) by (auto simp: step_ok_def damage_sound_def set_dirty_inv g1(2) same)
  moreover have "scroll_up n w g = Some (g1\<lparr>g_dirty := t\<rparr>)"
    by (simp only: unfold g1(1) t(1) Option.bind.bind_lunit)
  ultimately show ?thesis
    using g1(3) by (cases "?t < ?b") (simp_all add: g0 same scrolled_up_fields [of ?t ?b ?n w g0 g1])
qed

subsection \<open>Line feeds\<close>

lemma set_active_row_wrap_step:
  assumes "grid_inv g"
  shows "step_ok g (set_active_row_wrap r w g)"
proof (rule step_ok_frame)
  have "store_ok (g_rows g) (g_cols g) (active_grid g\<lparr>rs_wraps := (rs_wraps (active_grid g))[r := w]\<rparr>)"
    using active_ok [OF assms] by (simp add: store_ok_def)
  then show "grid_inv (set_active_row_wrap r w g)"
    unfolding set_active_row_wrap_def by (rule put_active_inv [OF assms])
qed (simp_all add: set_active_row_wrap_def)

lemma newline_action_with_wrap_spec:
  assumes inv: "grid_inv g" and pw: "\<not> has_flag g PENDING_WRAP"
  shows "ok (newline_action_with_wrap w g) (\<lambda>g'. step_ok g g' \<and> g_cursor_col g' = g_cursor_col g
     \<and> g_cursor_row g' = (if g_cursor_row g = g_scroll_bottom g then g_cursor_row g
          else min (g_cursor_row g + 1) (g_rows g - 1))
     \<and> has_flag g' PENDING_WRAP = has_flag g PENDING_WRAP \<and> has_flag g' NO_AUTOWRAP = has_flag g NO_AUTOWRAP)"
proof (cases "g_cursor_row g = g_scroll_bottom g")
  case True
  show ?thesis
    unfolding newline_action_with_wrap_def
    by (simp add: True) (rule ok_mono_all [OF scroll_up_spec [OF inv]], simp add: has_flag_def True)
next
  case False
  have d: "g_cursor_row g < g_rows g" "g_rows g \<le> u16_max" "g_cursor_col g < g_cols g"
    using inv pw by (auto simp: grid_inv_def cursor_ok_def dims_ok_def)
  then have eq: "add_cursor_offset (g_cursor_row g) 1 (g_rows g - 1) = min (g_cursor_row g + 1) (g_rows g - 1)"
    by (simp add: add_cursor_offset_def u16_sat_add_def)
  define g1 where "g1 = g\<lparr>g_cursor_row := min (g_cursor_row g + 1) (g_rows g - 1)\<rparr>"
  have "grid_inv g1" unfolding g1_def using d by (intro move_cursor_inv(3) [OF inv pw _ d(3)]) auto
  then have "step_ok g g1" by (rule step_ok_frame) (simp_all add: g1_def)
  moreover have "step_ok g1 (set_active_row_wrap (g_cursor_row g1) w g1)"
    by (rule set_active_row_wrap_step [OF \<open>grid_inv g1\<close>])
  ultimately have "step_ok g (set_active_row_wrap (g_cursor_row g1) w g1)" by (rule step_ok_trans)
  with False show ?thesis
    unfolding newline_action_with_wrap_def eq g1_def [symmetric] Let_def
    by simp (simp add: set_active_row_wrap_def g1_def)
qed

subsection \<open>Preserving a cleared screen\<close>

text \<open>A step that may also change the scrollback.\<close>

lemma push_rows_step:
  assumes "grid_inv g" "0 < g_scrollback_limit g" "\<forall>r \<in> set rs. good_row (length r) r"
  defines "g' \<equiv> foldl (\<lambda>g row. push_scrollback_row row Hard g) g rs"
  shows "step_ok g g'" "g_mode_flags g' = g_mode_flags g" "g_current_attrs g' = g_current_attrs g"
    "g_cursor_row g' = g_cursor_row g" "g_cursor_col g' = g_cursor_col g" "g_primary g' = g_primary g"
    "rs_rows (g_scrollback g') = push_limited (g_scrollback_limit g) (rs_rows (g_scrollback g)) rs"
    "g_scrollback_limit g' = g_scrollback_limit g"
proof -
  have "step_ok g g' \<and> g_mode_flags g' = g_mode_flags g \<and> g_current_attrs g' = g_current_attrs g
      \<and> g_cursor_row g' = g_cursor_row g \<and> g_cursor_col g' = g_cursor_col g \<and> g_primary g' = g_primary g
      \<and> rs_rows (g_scrollback g') = push_limited (g_scrollback_limit g) (rs_rows (g_scrollback g)) rs
      \<and> g_scrollback_limit g' = g_scrollback_limit g"
    using assms(1-3) unfolding g'_def
  proof (induction rs arbitrary: g)
    case Nil
    then show ?case by (auto simp: grid_inv_def history_ok_def rs_len_def)
  next
    case (Cons r rs)
    define g1 where "g1 = push_scrollback_row r Hard g"
    note spec = push_scrollback_row_spec [OF Cons.prems(1,2), of r Hard, folded g1_def]
    have inv1: "grid_inv g1" unfolding g1_def by (rule push_scrollback_row_inv) (use Cons.prems in auto)
    have same: "g_mode_flags g1 = g_mode_flags g" "g_current_attrs g1 = g_current_attrs g"
      "g_cursor_row g1 = g_cursor_row g" "g_cursor_col g1 = g_cursor_col g" "g_primary g1 = g_primary g"
      "g_scrollback_limit g1 = g_scrollback_limit g" "g_rows g1 = g_rows g" "g_cols g1 = g_cols g"
      "g_dirty g1 = g_dirty g" "g_alternate g1 = g_alternate g"
      by (subst spec(3), simp)+
    have "step_ok g g1" by (rule step_ok_frame [OF inv1]) (simp_all add: same active_grid_def has_flag_def)
    moreover have "push_limited l (push_limited l xs [r]) rs = push_limited l xs (r # rs)" for l xs
      by (simp add: push_limited_append)
    ultimately show ?case
      using Cons.IH [OF inv1] Cons.prems(2,3) spec(1) same
      by (auto simp: g1_def [symmetric] intro: step_ok_trans)
  qed
  then show "step_ok g g'" "g_mode_flags g' = g_mode_flags g" "g_current_attrs g' = g_current_attrs g"
    "g_cursor_row g' = g_cursor_row g" "g_cursor_col g' = g_cursor_col g" "g_primary g' = g_primary g"
    "rs_rows (g_scrollback g') = push_limited (g_scrollback_limit g) (rs_rows (g_scrollback g)) rs"
    "g_scrollback_limit g' = g_scrollback_limit g"
    by blast+
qed

text \<open>The visible rows from the first to the last with content.\<close>

definition visible_block :: "grid \<Rightarrow> row list" where
  "visible_block g = (case (position row_has_contents (rs_rows (g_primary g)),
       rposition row_has_contents (rs_rows (g_primary g))) of
     (Some first, Some l) \<Rightarrow> map (\<lambda>idx. rs_rows (g_primary g) ! idx) [first..<l + 1]
   | _ \<Rightarrow> [])"

definition preserves_block :: "grid \<Rightarrow> bool" where
  "preserves_block g \<longleftrightarrow> g_erase_display_policy g = SaveToScrollback \<and> \<not> has_flag g ALT_SCREEN
     \<and> 0 < g_scrollback_limit g \<and> has_flag g MUTATED_SINCE_PRESERVE \<and> visible_block g \<noteq> []
     \<and> g_last_preserved_block g \<noteq> Some (visible_block g)"

lemma zip_all_eq:
  "length prev = length ys \<and> list_all (\<lambda>(p, i). p = f i) (zip prev ys) \<longleftrightarrow> prev = map f ys"
  by (induction prev ys rule: list_induct2') auto

lemma preserve_cases:
  assumes "first \<le> l" "position row_has_contents (rs_rows (g_primary g)) = Some first"
    "rposition row_has_contents (rs_rows (g_primary g)) = Some l"
  shows "preserve_visible_rows_to_scrollback g =
    (if preserves_block g
     then clear_flag MUTATED_SINCE_PRESERVE
       ((foldl (\<lambda>g row. push_scrollback_row row Hard g) g (visible_block g))\<lparr>g_last_preserved_block := Some (visible_block g)\<rparr>)
     else if g_erase_display_policy g = SaveToScrollback \<and> \<not> has_flag g ALT_SCREEN
       \<and> 0 < g_scrollback_limit g \<and> has_flag g MUTATED_SINCE_PRESERVE
     then clear_flag MUTATED_SINCE_PRESERVE g else g)"
proof -
  have block: "visible_block g = map (\<lambda>idx. rs_rows (g_primary g) ! idx) [first..<l + 1]"
    using assms by (simp add: visible_block_def)
  have "visible_block g \<noteq> []" using assms(1) by (simp add: block)
  moreover have "(case g_last_preserved_block g of None \<Rightarrow> False | Some prev \<Rightarrow> length prev = l - first + 1
      \<and> list_all (\<lambda>(prev_row, idx). prev_row = rs_rows (g_primary g) ! idx) (zip prev [first..<l + 1]))
      \<longleftrightarrow> g_last_preserved_block g = Some (visible_block g)"
    using zip_all_eq [of _ "[first..<l + 1]" "\<lambda>idx. rs_rows (g_primary g) ! idx"] assms(1)
    unfolding block by (auto simp: Suc_diff_le simp del: upt_Suc split: option.splits)
  moreover have "g_erase_display_policy g = Discard \<longleftrightarrow> g_erase_display_policy g \<noteq> SaveToScrollback"
    by (cases "g_erase_display_policy g") simp_all
  ultimately show ?thesis
    unfolding preserve_visible_rows_to_scrollback_def assms(2,3) option.case Let_def block [symmetric]
    by (auto simp: preserves_block_def)
qed

lemma preserve_nothing:
  assumes "position row_has_contents (rs_rows (g_primary g)) = None"
  shows "preserve_visible_rows_to_scrollback g = g" "\<not> preserves_block g"
  using assms by (simp_all add: preserve_visible_rows_to_scrollback_def preserves_block_def visible_block_def)

lemma preserve_positions:
  obtains "position row_has_contents (rs_rows (g_primary g)) = None"
  | first l where "first \<le> l" "position row_has_contents (rs_rows (g_primary g)) = Some first"
      "rposition row_has_contents (rs_rows (g_primary g)) = Some l" "l < length (rs_rows (g_primary g))"
proof (cases "position row_has_contents (rs_rows (g_primary g))")
  case (Some first)
  note f = position_SomeD [OF this]
  then obtain l where l: "rposition row_has_contents (rs_rows (g_primary g)) = Some l"
    by (metis nth_mem option.exhaust rposition_NoneD)
  note r = rposition_SomeD [OF l]
  have "first \<le> l" using f r by (meson not_le)
  with Some l r that(2) show thesis by blast
qed (use that(1) in simp)

text \<open>
  Preserving pushes exactly the visible block, and only when something was printed since the last
  time and the block differs from the last one preserved.
\<close>

lemma preserve_spec:
  assumes inv: "grid_inv g"
  defines "g' \<equiv> preserve_visible_rows_to_scrollback g"
  shows "step_ok g g'"
    "rs_rows (g_scrollback g') = (if preserves_block g
       then push_limited (g_scrollback_limit g) (rs_rows (g_scrollback g)) (visible_block g)
       else rs_rows (g_scrollback g))"
    "g_cursor_row g' = g_cursor_row g" "g_cursor_col g' = g_cursor_col g"
    "g_current_attrs g' = g_current_attrs g" "has_flag g' ALT_SCREEN = has_flag g ALT_SCREEN"
    "active_grid g' = active_grid g"
proof -
  have clear: "step_ok h (clear_flag MUTATED_SINCE_PRESERVE h)"
    "g_scrollback (clear_flag MUTATED_SINCE_PRESERVE h) = g_scrollback h"
    "g_cursor_row (clear_flag MUTATED_SINCE_PRESERVE h) = g_cursor_row h"
    "g_cursor_col (clear_flag MUTATED_SINCE_PRESERVE h) = g_cursor_col h"
    "g_current_attrs (clear_flag MUTATED_SINCE_PRESERVE h) = g_current_attrs h" if "grid_inv h" for h :: "grid"
    using that by (auto intro!: step_ok_frame simp: set_clear_flag_inv) (simp_all add: clear_flag_def)
  have "step_ok g g' \<and> rs_rows (g_scrollback g') = (if preserves_block g
       then push_limited (g_scrollback_limit g) (rs_rows (g_scrollback g)) (visible_block g)
       else rs_rows (g_scrollback g))
    \<and> g_cursor_row g' = g_cursor_row g \<and> g_cursor_col g' = g_cursor_col g
    \<and> g_current_attrs g' = g_current_attrs g \<and> has_flag g' ALT_SCREEN = has_flag g ALT_SCREEN
    \<and> active_grid g' = active_grid g"
  proof (cases rule: preserve_positions [of g])
    case 1
    then show ?thesis using inv by (simp add: g'_def preserve_nothing)
  next
    case (2 first l)
    show ?thesis
    proof (cases "preserves_block g")
      case False
      then show ?thesis using inv clear by (auto simp: g'_def preserve_cases [OF 2(1-3)])
    next
      case True
      define g1 where "g1 = foldl (\<lambda>g row. push_scrollback_row row Hard g) g (visible_block g)"
      have lim: "0 < g_scrollback_limit g" using True by (simp add: preserves_block_def)
      have "store_ok (g_rows g) (g_cols g) (g_primary g)" using inv by (simp add: grid_inv_def screens_ok_def)
      then have "\<forall>r \<in> set (visible_block g). good_row (length r) r"
        using 2 by (auto simp: visible_block_def store_ok_def list_all_length good_row_def)
      note rows = push_rows_step [OF inv lim this, folded g1_def]
      let ?g2 = "g1\<lparr>g_last_preserved_block := Some (visible_block g)\<rparr>"
      have inv1: "grid_inv g1" by (rule step_ok_inv [OF rows(1)])
      then have inv2: "grid_inv ?g2" by (simp add: grid_inv_def inv_part_defs has_flag_def)
      have "step_ok g1 ?g2" by (rule step_ok_frame [OF inv2]) simp_all
      with rows(1) clear(1) [OF inv2] have "step_ok g g'"
        using step_ok_trans by (metis g'_def g1_def preserve_cases [OF 2(1-3)] True)
      moreover have "g' = clear_flag MUTATED_SINCE_PRESERVE ?g2"
        using True by (simp add: g'_def preserve_cases [OF 2(1-3)] g1_def)
      moreover have "\<not> has_flag g ALT_SCREEN" using True by (simp add: preserves_block_def)
      ultimately show ?thesis
        using rows True clear(2-5) [OF inv2] by (simp add: active_grid_def has_flag_def clear_flag_def)
    qed
  qed
  then show "step_ok g g'"
    "rs_rows (g_scrollback g') = (if preserves_block g
       then push_limited (g_scrollback_limit g) (rs_rows (g_scrollback g)) (visible_block g)
       else rs_rows (g_scrollback g))"
    "g_cursor_row g' = g_cursor_row g" "g_cursor_col g' = g_cursor_col g"
    "g_current_attrs g' = g_current_attrs g" "has_flag g' ALT_SCREEN = has_flag g ALT_SCREEN"
    "active_grid g' = active_grid g"
    by blast+
qed

section \<open>Correctness of scrolling\<close>



text \<open>
  A region of one row is left unchanged by \<open>scroll_up\<close>: no row moves and nothing reaches the
  scrollback, although a scroll operation is recorded and the row is marked dirty.
\<close>

lemma scroll_up_single_row:
  assumes "grid_inv g" "g_scroll_top g = g_scroll_bottom g" "1 \<le> n"
  shows "ok (scroll_up n w g) (\<lambda>g'. active_grid g' = active_grid g \<and> g_scrollback g' = g_scrollback g
    \<and> g_scroll_ops g' = g_scroll_ops g @ [ScrollUp (g_scroll_top g) (g_scroll_bottom g) 1])"
proof -
  let ?t = "g_scroll_top g"
  define g0 where "g0 = (set_flag MUTATED_SINCE_PRESERVE g)\<lparr>g_scroll_ops := g_scroll_ops g @ [ScrollUp ?t ?t 1]\<rparr>"
  have "grid_inv g0" using assms(1) by (simp add: g0_def set_flag_def grid_inv_def inv_part_defs has_flag_def)
  then have "dt_inv (g_dirty g0)" by (simp add: grid_inv_def)
  from mark_row_ok [OF this, of ?t] obtain t where t: "grid_mark_row ?t g0 = Some (g0\<lparr>g_dirty := t\<rparr>)"
    by (auto simp: ok_iff_ex grid_mark_row_def)
  have "repeat_opt 1 (scroll_up_once ?t ?t w) g0 = Some g0" by (simp add: scroll_up_once_def)
  then have "scroll_up n w g = Some (g0\<lparr>g_dirty := t\<rparr>)"
    using assms(2,3) t
    by (simp add: scroll_up_def u16_sub_def u16_add_def u16_max_def Let_def g0_def set_flag_def min_def)
  then show ?thesis using assms(2) by (simp add: g0_def active_grid_def has_flag_def set_flag_def)
qed

lemma scroll_up_single_row_witness:
  "ok (scroll_up 3 Hard (example_grid\<lparr>g_scroll_bottom := 0\<rparr>)) (\<lambda>g'. g_scroll_ops g' \<noteq> []
     \<and> rs_rows (active_grid g') = rs_rows (active_grid example_grid))"
proof -
  let ?g = "example_grid\<lparr>g_scroll_bottom := 0\<rparr>"
  have inv: "grid_inv ?g" using example_grid_inv by (simp add: grid_inv_def inv_part_defs has_flag_def)
  have "active_grid ?g = active_grid example_grid" by (simp add: active_grid_def has_flag_def)
  then show ?thesis
    using scroll_up_single_row [OF inv, of 3 Hard] by (auto elim!: ok_mono_all)
qed

lemma preserve_done: "\<not> preserves_block (preserve_visible_rows_to_scrollback g)"
proof (cases rule: preserve_positions [of g])
  case 1
  then show ?thesis by (simp add: preserve_nothing)
next
  case (2 first l)
  show ?thesis
    unfolding preserve_cases [OF 2(1-3)]
    by (simp add: preserves_block_def [of "clear_flag _ _"] clear_flag_def has_flag_def) (auto simp: preserves_block_def has_flag_def)
qed

text \<open>
  Preserving the screen before it is erased appends the block of rows from the first to the last one
  with contents to the scrollback, and does so only under the saving policy, on the primary screen,
  after a change, and never for the same block twice in a row; the screen itself is not touched.
\<close>

lemma preserve_correct:
  assumes "grid_inv g"
  shows "step_ok g (preserve_visible_rows_to_scrollback g)
    \<and> rs_rows (g_scrollback (preserve_visible_rows_to_scrollback g)) = (if preserves_block g
        then push_limited (g_scrollback_limit g) (rs_rows (g_scrollback g)) (visible_block g)
        else rs_rows (g_scrollback g))
    \<and> active_grid (preserve_visible_rows_to_scrollback g) = active_grid g
    \<and> rs_rows (g_scrollback (preserve_visible_rows_to_scrollback (preserve_visible_rows_to_scrollback g)))
        = rs_rows (g_scrollback (preserve_visible_rows_to_scrollback g))"
  using preserve_spec [OF assms]
    preserve_spec(2) [OF step_ok_inv [OF preserve_spec(1) [OF assms]]] preserve_done [of g]
  by simp

lemma preserve_witness:
  "rs_rows (g_scrollback (preserve_visible_rows_to_scrollback (preserve_visible_rows_to_scrollback example_grid)))
     = [map letter ''efgh'', map letter ''ijkl'']"
proof -
  have block: "visible_block example_grid = map (map letter) [''abcd'', ''efgh'', ''ijkl'']"
    by (simp add: visible_block_def row_has_contents_def has_contents_def letter_def upt_rec)
  have "preserves_block example_grid"
    by (simp add: preserves_block_def block) (simp add: example_grid_def with_row_arena_def split_beta Let_def
        default_erase_display_policy_def)
  with preserve_correct [OF example_grid_inv] show ?thesis by (simp add: push_limited_def block)
qed

text \<open>
  A line feed moves the cursor one row down without changing its column; on the bottom row of the
  scroll region it stays and the region scrolls, and below the region it stops at the last row.
\<close>

lemma newline_correct:
  assumes "grid_inv g" "\<not> has_flag g PENDING_WRAP"
  shows "ok (newline_action g) (\<lambda>g'. step_ok g g' \<and> g_cursor_col g' = g_cursor_col g
     \<and> g_cursor_row g' = (if g_cursor_row g = g_scroll_bottom g then g_cursor_row g
          else min (g_cursor_row g + 1) (g_rows g - 1)))"
  using newline_action_with_wrap_spec [OF assms] unfolding newline_action_def
  by (rule ok_mono_all) simp

lemma newline_witness: "ok (newline_action example_grid) (\<lambda>g'. g_cursor_row g' = 2 \<and> g_cursor_col g' = 2)"
  by (rule ok_mono_all [OF newline_correct [OF example_grid_inv]]) simp_all

end
