(* ===== verification/Printing.thy ===== *)
theory Printing
  imports Scrolling
begin

text \<open>
  Printing a character (\<open>write_char_at_cursor\<close> and \<open>append_to_previous_cluster\<close> of
  \<open>src/src/grid.rs\<close>): the deferred wrap, wide characters and grapheme clusters. Two parts of the
  long Rust functions are functions of their own here: \<open>write_glyph\<close> is the tail of
  \<open>write_char_at_cursor\<close> and \<open>join_cluster\<close> that of \<open>append_to_previous_cluster\<close>.
\<close>

section \<open>Printing\<close>

definition ZWJ :: uchar where
  "ZWJ = 0x200d"

text \<open>
  The early returns of \<open>append_to_previous_cluster\<close> are \<open>Inl\<close> of the returned flag: first the column
  left of the cursor, then the lead cell there.
\<close>

definition cluster_target :: "grid \<Rightarrow> bool \<Rightarrow> bool + u16" where
  "cluster_target g zero_width =
     (if has_flag g PENDING_WRAP \<or> g_cols g \<le> g_cursor_col g then Inr (g_cols g - 1)
      else if 0 < g_cursor_col g then Inr (g_cursor_col g - 1)
      else Inl zero_width)"

definition cluster_lead :: "row \<Rightarrow> usize \<Rightarrow> bool \<Rightarrow> bool + usize" where
  "cluster_lead row target zero_width =
     (if length row \<le> target then Inl zero_width
      else let col = (if is_wide_continuation (row ! target) \<and> 0 < target then target - 1 else target);
               c = contents (row ! col)
           in if \<not> zero_width \<and> \<not> (c \<noteq> [] \<and> last c = ZWJ) then Inl False
              else if c = [] \<and> zero_width then Inl True
              else if MAX_CLUSTER_JOINERS < length c then Inl zero_width
              else Inr col)"

definition arm_wrap :: "grid \<Rightarrow> grid" where
  "arm_wrap g = set_flag PENDING_WRAP (g\<lparr>g_cursor_col := g_cols g\<rparr>)"

text \<open>The cursor after a join that changed the cluster from \<open>old_width\<close> to \<open>new_width\<close>.\<close>

definition join_cursor :: "usize \<Rightarrow> u16 \<Rightarrow> u16 \<Rightarrow> u16 \<Rightarrow> grid \<Rightarrow> grid option" where
  "join_cursor col old_width new_width old_cursor_end g = do {
     g \<leftarrow> (if g_cursor_col g = old_cursor_end then
            (if g_cursor_col g < g_cols g then do {
               e \<leftarrow> u16_add (as_u16 col) new_width;
               Some (g\<lparr>g_cursor_col := min e (g_cols g)\<rparr>)
             }
             else if new_width < old_width then do {
               e \<leftarrow> u16_add (as_u16 col) new_width;
               Some (clear_flag PENDING_WRAP (g\<lparr>g_cursor_col := e\<rparr>))
             }
             else Some g)
          else Some g);
     if has_flag g PENDING_WRAP \<or> g_cols g \<le> g_cursor_col g then do {
       e \<leftarrow> u16_add (as_u16 col) new_width;
       Some (if g_cols g \<le> e \<and> old_width < new_width then arm_wrap g else g)
     }
     else Some g
   }"

definition join_cluster :: "unicode_width \<Rightarrow> uchar \<Rightarrow> usize \<Rightarrow> grid \<Rightarrow> grid option" where
  "join_cluster uw ch col g = do {
     row \<leftarrow> vec_get (rs_rows (active_grid g)) (g_cursor_row g);
     c \<leftarrow> vec_get row col;
     let old_width = cell_width c;
     old_cursor_end \<leftarrow> u16_add (as_u16 col) old_width;
     let joined = contents c @ [ch];
     let new_width = min (cluster_width uw joined) 2;
     row \<leftarrow> vec_set row col (c\<lparr>contents := joined, cell_hyperlink := g_active_hyperlink g\<rparr>);
     row \<leftarrow> set_cell_width row col new_width (cell_attrs c) (g_cols g);
     g \<leftarrow> set_active_row (g_cursor_row g) row g;
     g \<leftarrow> join_cursor col old_width new_width old_cursor_end g;
     let mark_start = as_u16 col;
     let mark_end = u16_sat_add mark_start (max (max old_width new_width) 1);
     g \<leftarrow> grid_mark_range (g_cursor_row g) mark_start mark_end g;
     Some (g\<lparr>g_last_print := Some (g_cursor_row g, g_cursor_col g)\<rparr>)
   }"

definition append_to_previous_cluster ::
    "unicode_width \<Rightarrow> uchar \<Rightarrow> u16 \<Rightarrow> grid \<Rightarrow> (bool \<times> grid) option" where
  "append_to_previous_cluster uw ch width g =
     (let zero_width = (width = 0) in
      if \<not> zero_width \<and> g_last_print g \<noteq> Some (g_cursor_row g, g_cursor_col g) then Some (False, g)
      else case cluster_target g zero_width of
        Inl absorbed \<Rightarrow> Some (absorbed, g)
      | Inr target \<Rightarrow> do {
          row \<leftarrow> vec_get (rs_rows (active_grid g)) (g_cursor_row g);
          case cluster_lead row target zero_width of
            Inl absorbed \<Rightarrow> Some (absorbed, g)
          | Inr col \<Rightarrow> map_option (Pair True) (join_cluster uw ch col g)
        })"

text \<open>
  Blank the halves of the wide characters that a glyph at \<open>col\<close> splits; the result is the row and
  the dirty range.
\<close>

definition blank_overwritten :: "row \<Rightarrow> u16 \<Rightarrow> u16 \<Rightarrow> row \<times> u16 \<times> u16" where
  "blank_overwritten row col width =
     (let dirty_start = col; dirty_end = u16_sat_add col width;
          (row, dirty_start) =
            (if col < length row \<and> is_wide_continuation (row ! col) \<and> 0 < col
             then (row[col - 1 := cell_default], dirty_start - 1) else (row, dirty_start));
          (row, dirty_end) =
            (if col < length row \<and> is_wide (row ! col) \<and> width < 2 \<and> col + 1 < length row
             then (row[col + 1 := cell_default], max dirty_end (u16_sat_add col 2)) else (row, dirty_end));
          (row, dirty_end) =
            (if 1 < width \<and> col + 1 < length row \<and> is_wide (row ! (col + 1)) \<and> col + 2 < length row
             then (row[col + 2 := cell_default], max dirty_end (u16_sat_add col 3)) else (row, dirty_end))
      in (row, dirty_start, dirty_end))"

definition glyph_cell :: "uchar \<Rightarrow> u16 \<Rightarrow> grid \<Rightarrow> cell" where
  "glyph_cell ch width g = \<lparr>contents = [ch], is_wide = 1 < width, is_wide_continuation = False,
     cell_attrs = g_current_attrs g, cell_hyperlink = g_active_hyperlink g\<rparr>"

definition put_glyph :: "row \<Rightarrow> usize \<Rightarrow> u16 \<Rightarrow> cell \<Rightarrow> usize \<Rightarrow> row option" where
  "put_glyph row col width c cols = do {
     row \<leftarrow> vec_set row col c;
     Some (if 1 < width \<and> col + 1 < cols \<and> col + 1 < length row
           then row[col + 1 := continuation_cell (cell_attrs c) (cell_hyperlink c)] else row)
   }"

definition write_glyph :: "uchar \<Rightarrow> u16 \<Rightarrow> grid \<Rightarrow> grid option" where
  "write_glyph ch width g = do {
     row \<leftarrow> vec_get (rs_rows (active_grid g)) (g_cursor_row g);
     let (row, dirty_start, dirty_end) = blank_overwritten row (g_cursor_col g) width;
     row \<leftarrow> put_glyph row (g_cursor_col g) width (glyph_cell ch width g) (g_cols g);
     g \<leftarrow> set_active_row (g_cursor_row g) row g;
     g \<leftarrow> grid_mark_range (g_cursor_row g) dirty_start dirty_end g;
     c \<leftarrow> u16_add (g_cursor_col g) width;
     let g = (if g_cols g \<le> c then arm_wrap g else g\<lparr>g_cursor_col := c\<rparr>);
     Some (g\<lparr>g_last_print := Some (g_cursor_row g, g_cursor_col g)\<rparr>)
   }"

definition deferred_wrap :: "grid \<Rightarrow> grid option" where
  "deferred_wrap g =
     (if has_flag g PENDING_WRAP \<and> \<not> has_flag g NO_AUTOWRAP
      then newline_action_with_wrap Soft ((clear_flag PENDING_WRAP g)\<lparr>g_cursor_col := 0\<rparr>)
      else Some g)"

definition write_clamped :: "uchar \<Rightarrow> u16 \<Rightarrow> grid \<Rightarrow> grid option" where
  "write_clamped ch width g =
     (let col = min (g_cursor_col g) (g_cols g - 1) in
      if has_flag g NO_AUTOWRAP \<and> g_cols g - col < width then Some g
      else let g = (if has_flag g NO_AUTOWRAP then (clear_flag PENDING_WRAP g)\<lparr>g_cursor_col := col\<rparr> else g) in
        if g_rows g \<le> g_cursor_row g \<or> g_cols g \<le> g_cursor_col g then Some g
        else write_glyph ch width g)"

definition write_char_at_cursor :: "unicode_width \<Rightarrow> uchar \<Rightarrow> grid \<Rightarrow> grid option" where
  "write_char_at_cursor uw ch g = do {
     let width = char_width uw ch;
     let g = set_flag MUTATED_SINCE_PRESERVE g;
     (absorbed, g) \<leftarrow> append_to_previous_cluster uw ch width g;
     if absorbed then Some g
     else do {
       g \<leftarrow> deferred_wrap g;
       write_clamped ch width g
     }
   }"

section \<open>Writing a glyph\<close>

text \<open>The row after a glyph write, by cases on the column.\<close>

definition glyph_row :: "row \<Rightarrow> usize \<Rightarrow> cell \<Rightarrow> row" where
  "glyph_row row col c = map (\<lambda>i. if i = col then c
     else glyph_nth row col (is_wide c) (continuation_cell (cell_attrs c) (cell_hyperlink c)) i) [0..<length row]"

lemma good_glyph_row:
  assumes row: "good_row n row" and col: "col < n" and c: "cell_ok c" "\<not> is_wide_continuation c"
  shows "good_row n (glyph_row row col c)"
proof -
  have len: "length row = n" and ok: "row_ok row" using row by (auto simp: good_row_def)
  have "row_ok (glyph_row row col c)"
    by (rule glyph_row_ok [OF ok, of col _ "continuation_cell (cell_attrs c) (cell_hyperlink c)"])
       (use len col c in \<open>simp_all add: glyph_row_def continuation_cell_def\<close>)
  moreover have "list_all cell_ok (glyph_row row col c)"
    using row c(1) by (auto simp: glyph_row_def glyph_nth_def list_all_length good_row_def)
       (simp_all add: cell_ok_def continuation_cell_def)
  ultimately show ?thesis using len by (simp add: good_row_def glyph_row_def)
qed

lemma blank_overwritten_glyph:
  assumes ok: "row_ok row" and col: "col < length row" and w: "width = 1 \<or> width = 2"
    and bo: "blank_overwritten row col width = (row', s, e)"
    and c: "is_wide c \<longleftrightarrow> 1 < width"
  shows "put_glyph row' col width c (length row) = Some (glyph_row row col c)"
proof -
  have sp: "(if b then (x, y) else (z, v)) = (if b then x else z, if b then y else v)"
    for b and x z :: row and y v :: nat by simp
  have row': "row' = (let r1 = (if is_wide_continuation (row ! col) \<and> 0 < col then row[col - 1 := cell_default] else row);
      r2 = (if is_wide (row ! col) \<and> width < 2 \<and> col + 1 < length row then r1[col + 1 := cell_default] else r1)
      in if 1 < width \<and> col + 1 < length row \<and> is_wide (row ! (col + 1)) \<and> col + 2 < length row
         then r2[col + 2 := cell_default] else r2)"
    using bo col w by (auto simp: blank_overwritten_def sp Let_def nth_list_update)
  then have len: "length row' = length row" by (simp add: Let_def)
  have cont: "is_wide_continuation (row ! col) \<Longrightarrow> 0 < col" using row_ok_cont [OF ok col] by auto
  have "(if 1 < width \<and> col + 1 < length row
      then row'[col := c, col + 1 := continuation_cell (cell_attrs c) (cell_hyperlink c)] else row'[col := c])
     = glyph_row row col c" (is "?l = _")
  proof (rule nth_equalityI)
    show "length ?l = length (glyph_row row col c)" by (simp add: len glyph_row_def)
    fix i assume "i < length ?l"
    then have i: "i < length row" by (simp add: len split: if_splits)
    consider "i = col" | "Suc i = col" | "i = col + 1" | "i = col + 2" | "Suc i < col" | "col + 2 < i"
      by linarith
    then show "?l ! i = glyph_row row col c ! i"
      using w i c cont len unfolding row' Let_def
      by cases (auto simp: glyph_row_def glyph_nth_def)
  qed
  then show ?thesis
    using col len by (auto simp: put_glyph_def vec_set_def split: if_splits)
qed

lemma blank_overwritten_range:
  assumes "blank_overwritten row col width = (row', s, e)" "1 \<le> width" "col < u16_max"
  shows "s < e" "s \<le> col" "min (col + width) u16_max \<le> e"
proof -
  have "s \<le> col \<and> u16_sat_add col width \<le> e"
    using assms(1) by (auto simp: blank_overwritten_def Let_def split: if_splits prod.splits)
  moreover have "col < u16_sat_add col width" using assms(2,3) by (simp add: u16_sat_add_def)
  ultimately show "s < e" "s \<le> col" "min (col + width) u16_max \<le> e"
    by (auto simp: u16_sat_add_def)
qed

lemma arm_wrap_inv: "grid_inv g \<Longrightarrow> grid_inv (arm_wrap g)"
  by (simp add: arm_wrap_def flag_op_defs grid_inv_def inv_part_defs)

lemma last_print_inv [simp]: "grid_inv (g\<lparr>g_last_print := x\<rparr>) \<longleftrightarrow> grid_inv g"
  by (simp add: grid_inv_def inv_part_defs has_flag_def)

lemma arm_wrap_fields [simp]:
  "g_rows (arm_wrap g) = g_rows g" "g_cols (arm_wrap g) = g_cols g" "g_dirty (arm_wrap g) = g_dirty g"
  "g_cursor_row (arm_wrap g) = g_cursor_row g" "g_cursor_col (arm_wrap g) = g_cols g"
  "active_grid (arm_wrap g) = active_grid g" "has_flag (arm_wrap g) PENDING_WRAP"
  by (simp_all add: arm_wrap_def) (simp_all add: set_flag_def)

lemma put_active_row_wraps [simp]:
  "g_last_print (put_active s g) = g_last_print g" by (simp add: put_active_def)

text \<open>
  A glyph of one or two columns replaces the cell under the cursor, and the cursor moves right,
  parking at the phantom column when it reaches the margin.
\<close>

lemma write_glyph_spec:
  assumes inv: "grid_inv g" and col: "g_cursor_col g < g_cols g" and w: "width = 1 \<or> width = 2"
  shows "ok (write_glyph ch width g) (\<lambda>g'. step_ok g g'
    \<and> rs_rows (active_grid g') = (rs_rows (active_grid g))[g_cursor_row g :=
        glyph_row (rs_rows (active_grid g) ! g_cursor_row g) (g_cursor_col g) (glyph_cell ch width g)]
    \<and> g_cursor_row g' = g_cursor_row g \<and> g_cursor_col g' = min (g_cursor_col g + width) (g_cols g)
    \<and> g_last_print g' = Some (g_cursor_row g', g_cursor_col g'))"
proof -
  let ?r = "g_cursor_row g" and ?c = "g_cursor_col g"
  define row where "row = rs_rows (active_grid g) ! ?r"
  define glyph where "glyph = glyph_cell ch width g"
  have d: "?r < g_rows g" "g_cols g \<le> MAX_COLS" "\<not> has_flag g PENDING_WRAP" "opt_link_ok (g_active_hyperlink g)"
    using inv col by (auto simp: grid_inv_def inv_part_defs)
  note rw = active_row [OF inv d(1), folded row_def]
  obtain row' s e where bo: "blank_overwritten row ?c width = (row', s, e)" by (metis prod_cases3)
  have glyph: "is_wide glyph \<longleftrightarrow> 1 < width" "cell_ok glyph" "\<not> is_wide_continuation glyph"
    "cell_attrs glyph = g_current_attrs g" "cell_hyperlink glyph = g_active_hyperlink g"
    using d(4) by (simp_all add: glyph_def glyph_cell_def cell_ok_def MAX_CLUSTER_JOINERS_def)
  have ok: "row_ok row" using rw(2) by (simp add: good_row_def)
  have "?c < length row" using col rw(3) by simp
  note final = blank_overwritten_glyph [OF ok this w bo glyph(1)]
  have good: "good_row (g_cols g) (glyph_row row ?c glyph)" using rw(2) col glyph(2,3) by (rule good_glyph_row)
  have "s < e" using blank_overwritten_range(1) [OF bo] w col d(2) by (auto simp: u16_max_def MAX_COLS_def)
  then have mark: "s < e \<or> glyph_row row ?c glyph = rs_rows (active_grid g) ! ?r" ..
  obtain g1 t where g1: "set_active_row ?r (glyph_row row ?c glyph) g = Some g1"
    "g1 = put_active (active_grid g\<lparr>rs_rows := (rs_rows (active_grid g))[?r := glyph_row row ?c glyph]\<rparr>) g"
    "grid_mark_range ?r s e g1 = Some (g1\<lparr>g_dirty := t\<rparr>)" "step_ok g (g1\<lparr>g_dirty := t\<rparr>)"
    by (rule edit_row_step [OF inv d(1) good mark])
  define g2 where "g2 = g1\<lparr>g_dirty := t\<rparr>"
  define g3 where "g3 = (if g_cols g2 \<le> ?c + width then arm_wrap g2 else g2\<lparr>g_cursor_col := ?c + width\<rparr>)"
  have g2: "grid_inv g2" "g_rows g2 = g_rows g" "g_cols g2 = g_cols g" "g_cursor_row g2 = ?r" "g_cursor_col g2 = ?c"
    "has_flag g2 PENDING_WRAP = has_flag g PENDING_WRAP" "active_grid g2 = active_grid g1"
    using g1(2) step_ok_inv [OF g1(4)] by (simp_all add: g2_def)
  have eq: "write_glyph ch width g = Some (g3\<lparr>g_last_print := Some (g_cursor_row g3, g_cursor_col g3)\<rparr>)"
  proof -
    have sum: "?c + width \<le> u16_max" using col d(2) w by (auto simp: u16_max_def MAX_COLS_def)
    have get: "vec_get (rs_rows (active_grid g)) ?r = Some row" using rw(1) by (simp add: row_def)
    have "g_cursor_row g1 = ?r" by (simp add: g1(2))
    then show ?thesis
      using g1(1,3) g2(3-5) sum
      by (simp add: write_glyph_def get bo glyph_def [symmetric] final [unfolded rw(3)] g2_def [symmetric]
          u16_add_def g3_def)
  qed
  have inv3: "grid_inv g3"
    using g2 d(1,3) by (auto simp: g3_def arm_wrap_inv intro!: move_cursor_inv(2))
  have "step_ok g2 (g3\<lparr>g_last_print := Some (g_cursor_row g3, g_cursor_col g3)\<rparr>)"
    using inv3 by (intro step_ok_frame) (simp_all add: g3_def)
  with g1(4) have "step_ok g (g3\<lparr>g_last_print := Some (g_cursor_row g3, g_cursor_col g3)\<rparr>)"
    unfolding g2_def [symmetric] by (rule step_ok_trans)
  then show ?thesis
    using g1(2) g2 w by (auto simp: eq g3_def glyph_def row_def)
qed

section \<open>Joining a cluster\<close>

lemma row_ok_same_widths:
  assumes "row_ok row" "length row' = length row"
    "\<And>i. i < length row \<Longrightarrow> is_wide (row' ! i) = is_wide (row ! i)
       \<and> is_wide_continuation (row' ! i) = is_wide_continuation (row ! i)"
  shows "row_ok row'"
  using assms by (auto simp: row_ok_def)

text \<open>The cell after \<open>ch\<close> joined it, and the row: the join rewrites the lead like a glyph write.\<close>

definition joined_cell :: "unicode_width \<Rightarrow> uchar \<Rightarrow> grid \<Rightarrow> cell \<Rightarrow> cell" where
  "joined_cell uw ch g c = c\<lparr>contents := contents c @ [ch], cell_hyperlink := g_active_hyperlink g,
     is_wide := 1 < min (cluster_width uw (contents c @ [ch])) 2, is_wide_continuation := False\<rparr>"

lemma set_cell_width_joined:
  assumes row: "good_row cols row" and col: "col < cols" and lead: "\<not> is_wide_continuation (row ! col)"
    and len: "length (contents (row ! col)) \<le> MAX_CLUSTER_JOINERS" and link: "opt_link_ok (g_active_hyperlink g)"
  defines "c \<equiv> row ! col"
  shows "set_cell_width (row[col := c\<lparr>contents := contents c @ [ch], cell_hyperlink := g_active_hyperlink g\<rparr>]) col
      (min (cluster_width uw (contents c @ [ch])) 2) (cell_attrs c) cols
    = Some (glyph_row row col (joined_cell uw ch g c))"
    "good_row cols (glyph_row row col (joined_cell uw ch g c))"
proof -
  let ?w = "min (cluster_width uw (contents c @ [ch])) 2"
  define row2 where "row2 = row[col := c\<lparr>contents := contents c @ [ch], cell_hyperlink := g_active_hyperlink g\<rparr>]"
  have l: "length row = cols" and ok: "row_ok row" using row by (auto simp: good_row_def)
  have ok2: "row_ok row2"
    by (rule row_ok_same_widths [OF ok]) (use l col in \<open>auto simp: row2_def c_def nth_list_update\<close>)
  have c2: "row2 ! col = c\<lparr>contents := contents c @ [ch], cell_hyperlink := g_active_hyperlink g\<rparr>"
    using l col by (simp add: row2_def)
  have l2: "length row2 = cols" by (simp add: row2_def l)
  have "ok (set_cell_width row2 col ?w (cell_attrs c) cols) (\<lambda>row'. row' = glyph_row row col (joined_cell uw ch g c))"
  proof (rule ok_mono_all [OF set_cell_width_ok [OF ok2 _ l2, of col ?w "cell_attrs c"]])
    show "col < length row2" "\<not> is_wide_continuation (row2 ! col)" using lead l2 col c2 by (simp_all add: c_def)
  next
    fix row'
    assume "length row' = length row2
      \<and> row' ! col = (row2 ! col)\<lparr>is_wide := 1 < ?w, is_wide_continuation := False\<rparr>
      \<and> (\<forall>i < length row2. i \<noteq> col \<longrightarrow> row' ! i
           = glyph_nth row2 col (1 < ?w) (continuation_cell (cell_attrs c) (cell_hyperlink (row2 ! col))) i)"
    then have r: "length row' = cols" "row' ! col = joined_cell uw ch g c"
      "\<And>i. i < cols \<Longrightarrow> i \<noteq> col \<Longrightarrow> row' ! i
         = glyph_nth row2 col (1 < ?w) (continuation_cell (cell_attrs c) (g_active_hyperlink g)) i"
      by (simp_all add: l2 c2 joined_cell_def)
    have same: "glyph_nth row2 col w k i = glyph_nth row col w k i" if "i < cols" "i \<noteq> col" for w k i
      using that l col by (auto simp: glyph_nth_def row2_def c_def nth_list_update)
    show "row' = glyph_row row col (joined_cell uw ch g c)"
      using r l by (intro nth_equalityI) (auto simp: glyph_row_def same joined_cell_def)
  qed
  then show "set_cell_width (row[col := c\<lparr>contents := contents c @ [ch], cell_hyperlink := g_active_hyperlink g\<rparr>]) col
      ?w (cell_attrs c) cols = Some (glyph_row row col (joined_cell uw ch g c))"
    by (auto simp: ok_iff_ex row2_def)
  have "cell_ok (joined_cell uw ch g c)"
    using len link by (simp add: cell_ok_def joined_cell_def c_def)
  then show "good_row cols (glyph_row row col (joined_cell uw ch g c))"
    by (rule good_glyph_row [OF row col]) (simp add: joined_cell_def)
qed

lemma join_cursor_spec:
  assumes inv: "grid_inv g" and col: "col < g_cols g" and w: "old \<le> 2" "new \<le> 2"
  shows "ok (join_cursor col old new (col + old) g) (\<lambda>g'. grid_inv g'
    \<and> g' = g\<lparr>g_cursor_col := g_cursor_col g', g_mode_flags := g_mode_flags g'\<rparr>
    \<and> active_grid g' = active_grid g)"
proof -
  have d: "g_cols g \<le> MAX_COLS" "g_cursor_col g \<le> g_cols g" "g_cursor_row g < g_rows g"
    "has_flag g PENDING_WRAP \<longleftrightarrow> g_cursor_col g = g_cols g"
    using inv by (auto simp: grid_inv_def inv_part_defs)
  have sum: "col + new \<le> u16_max" "as_u16 col = col"
    using col w d(1) by (auto simp: u16_max_def MAX_COLS_def)
  have move: "grid_inv (g\<lparr>g_cursor_col := c\<rparr>)" if "c < g_cols g" "\<not> has_flag g PENDING_WRAP" for c
    using that inv d(3) by (intro move_cursor_inv(2)) auto
  have unpark: "grid_inv (clear_flag PENDING_WRAP (g\<lparr>g_cursor_col := c\<rparr>))" if "c < g_cols g" for c
    using inv that by (auto simp: grid_inv_def inv_part_defs flag_op_defs)
  have arm: "grid_inv (arm_wrap (g\<lparr>g_cursor_col := c\<rparr>))" for c
    using arm_wrap_inv [OF inv] by (simp add: arm_wrap_def set_flag_def)
  have act: "active_grid (clear_flag PENDING_WRAP g') = active_grid g'" for g' :: "grid" by simp
  consider (moved) "g_cursor_col g = col + old" "g_cursor_col g < g_cols g"
    | (shrink) "g_cursor_col g = col + old" "g_cursor_col g = g_cols g" "new < old"
    | (stay) "g_cursor_col g \<noteq> col + old \<or> (g_cursor_col g = g_cols g \<and> old \<le> new)"
    using d(2) by linarith
  then show ?thesis
  proof cases
    case moved
    show ?thesis
    proof (cases "col + new < g_cols g")
      case True
      with moved d(4) sum move [OF True] show ?thesis
        by (simp add: join_cursor_def u16_add_def)
    next
      case False
      with moved d(4) sum arm show ?thesis
        by (simp add: join_cursor_def u16_add_def min_def) (simp add: arm_wrap_def set_flag_def)
    qed
  next
    case shrink
    then have "col + new < g_cols g" by linarith
    with shrink d(4) sum unpark [OF this] show ?thesis
      by (simp add: join_cursor_def u16_add_def) (simp add: clear_flag_def)
  next
    case stay
    have parked: "g_cols g \<le> g_cursor_col g \<longleftrightarrow> g_cursor_col g = g_cols g" using d(2) by auto
    from stay have "(if g_cursor_col g = col + old then
         (if g_cursor_col g < g_cols g then do {
            e \<leftarrow> u16_add (as_u16 col) new; Some (g\<lparr>g_cursor_col := min e (g_cols g)\<rparr>) }
          else if new < old then do {
            e \<leftarrow> u16_add (as_u16 col) new; Some (clear_flag PENDING_WRAP (g\<lparr>g_cursor_col := e\<rparr>)) }
          else Some g) else Some g) = Some g"
      by auto
    then have "join_cursor col old new (col + old) g
        = Some (if has_flag g PENDING_WRAP \<and> g_cols g \<le> col + new \<and> old < new then arm_wrap g else g)"
      unfolding join_cursor_def by (simp only: Option.bind.bind_lunit) (simp add: parked d(4) sum u16_add_def)
    with inv arm_wrap_inv [OF inv] show ?thesis by simp (simp add: arm_wrap_def set_flag_def)
  qed
qed

lemma edit_then_mark:
  assumes inv: "grid_inv g2" and same: "g_rows g2 = g_rows g" "g_cols g2 = g_cols g" "g_dirty g2 = g_dirty g"
    and act: "rs_rows (active_grid g2) = (rs_rows (active_grid g))[i := row]" and mark: "s < e"
  obtains t where "grid_mark_range i s e g2 = Some (g2\<lparr>g_dirty := t\<rparr>)" "step_ok g (g2\<lparr>g_dirty := t\<rparr>)"
proof -
  from grid_mark_range_ok [OF inv, of i s e] obtain t
    where t: "grid_mark_range i s e g2 = Some (g2\<lparr>g_dirty := t\<rparr>)" "dt_inv t"
      "\<forall>r'. dirty_row (g_dirty g) r' \<longrightarrow> dirty_row t r'" "dirty_row t i"
    using mark same(3) by metis
  have "rs_get (active_grid g2) r = rs_get (active_grid g) r" if "\<not> dirty_row t r" for r
    using that t(4) by (cases "r = i") (auto simp: rs_get_def vec_get_def act)
  with t have "step_ok g (g2\<lparr>g_dirty := t\<rparr>)"
    by (auto simp: step_ok_def damage_sound_def set_dirty_inv inv same)
  with t(1) show thesis by (rule that)
qed

lemma cell_width_le: "cell_width c \<le> 2"
  by (simp add: cell_width_def)

lemma join_cluster_spec:
  assumes inv: "grid_inv g" and col: "col < g_cols g"
    and lead: "\<not> is_wide_continuation (rs_rows (active_grid g) ! g_cursor_row g ! col)"
    and len: "length (contents (rs_rows (active_grid g) ! g_cursor_row g ! col)) \<le> MAX_CLUSTER_JOINERS"
  shows "ok (join_cluster uw ch col g) (\<lambda>g'. step_ok g g'
    \<and> rs_rows (active_grid g') = (rs_rows (active_grid g))[g_cursor_row g :=
        glyph_row (rs_rows (active_grid g) ! g_cursor_row g) col
          (joined_cell uw ch g (rs_rows (active_grid g) ! g_cursor_row g ! col))])"
proof -
  let ?r = "g_cursor_row g"
  define row where "row = rs_rows (active_grid g) ! ?r"
  define c where "c = row ! col"
  define new where "new = min (cluster_width uw (contents c @ [ch])) 2"
  define row' where "row' = glyph_row row col (joined_cell uw ch g c)"
  have d: "?r < g_rows g" "g_cols g \<le> MAX_COLS" "opt_link_ok (g_active_hyperlink g)"
    using inv by (auto simp: grid_inv_def inv_part_defs)
  note rw = active_row [OF inv d(1), folded row_def]
  have bounds: "as_u16 col = col" "col + cell_width c \<le> u16_max" "cell_width c \<le> 2" "new \<le> 2"
    using col d(2) cell_width_le [of c] by (auto simp: u16_max_def MAX_COLS_def new_def)
  note joined = set_cell_width_joined [OF rw(2) col lead [folded row_def] len [folded row_def] d(3),
      folded c_def, where ch = ch and uw = uw, folded new_def row'_def]
  obtain g1 where g1: "set_active_row ?r row' g = Some g1" "grid_inv g1"
    "g1 = put_active (active_grid g\<lparr>rs_rows := (rs_rows (active_grid g))[?r := row']\<rparr>) g"
    using edit_row_step [OF inv d(1) joined(2), of 0 1] by auto
  have colg1: "col < g_cols g1" using col by (simp add: g1(3))
  from join_cursor_spec [OF g1(2) colg1 bounds(3,4)] obtain g2
    where g2: "join_cursor col (cell_width c) new (col + cell_width c) g1 = Some g2" "grid_inv g2"
      "g2 = g1\<lparr>g_cursor_col := g_cursor_col g2, g_mode_flags := g_mode_flags g2\<rparr>" "active_grid g2 = active_grid g1"
    by (auto simp: ok_iff_ex)
  have same: "g_rows g2 = g_rows g" "g_cols g2 = g_cols g" "g_dirty g2 = g_dirty g" "g_cursor_row g2 = ?r"
    by (subst g2(3), simp add: g1(3))+
  have act: "rs_rows (active_grid g2) = (rs_rows (active_grid g))[?r := row']"
    by (simp add: g2(4) g1(3))
  let ?e = "u16_sat_add col (max (max (cell_width c) new) 1)"
  have "col < ?e" using col d(2) by (auto simp: u16_sat_add_def u16_max_def MAX_COLS_def)
  then obtain t where t: "grid_mark_range ?r col ?e g2 = Some (g2\<lparr>g_dirty := t\<rparr>)" "step_ok g (g2\<lparr>g_dirty := t\<rparr>)"
    by (rule edit_then_mark [OF g2(2) same(1-3) act])
  have get: "vec_get (rs_rows (active_grid g)) ?r = Some row" "vec_get row col = Some c"
    using rw(1,3) col by (simp_all add: row_def c_def)
  have eq: "join_cluster uw ch col g
      = Some (g2\<lparr>g_dirty := t, g_last_print := Some (g_cursor_row g2, g_cursor_col g2)\<rparr>)"
    using bounds col rw(3) g1(1) g2(1) t(1) same(4)
    by (simp add: join_cluster_def get u16_add_def vec_set_def new_def [symmetric] joined(1))
  have "step_ok (g2\<lparr>g_dirty := t\<rparr>) (g2\<lparr>g_dirty := t, g_last_print := Some (g_cursor_row g2, g_cursor_col g2)\<rparr>)"
    using step_ok_inv [OF t(2)] by (intro step_ok_frame) simp_all
  with t(2) have "step_ok g (g2\<lparr>g_dirty := t, g_last_print := Some (g_cursor_row g2, g_cursor_col g2)\<rparr>)"
    by (rule step_ok_trans)
  then show ?thesis using act by (simp add: eq row'_def row_def c_def)
qed

lemma cluster_lead_SomeD:
  assumes "cluster_lead row target z = Inr col" "row_ok row" "list_all cell_ok row"
  shows "col < length row" "\<not> is_wide_continuation (row ! col)" "length (contents (row ! col)) \<le> MAX_CLUSTER_JOINERS"
    "contents (row ! col) \<noteq> []"
proof -
  have t: "target < length row" using assms(1) by (auto simp: cluster_lead_def split: if_splits)
  have c: "col = (if is_wide_continuation (row ! target) \<and> 0 < target then target - 1 else target)"
    "length (contents (row ! col)) \<le> MAX_CLUSTER_JOINERS" "contents (row ! col) \<noteq> []"
    using assms(1) t by (auto simp: cluster_lead_def Let_def split: if_splits)
  show "col < length row" using t c(1) by auto
  show "length (contents (row ! col)) \<le> MAX_CLUSTER_JOINERS" "contents (row ! col) \<noteq> []" by (rule c(2,3))+
  show "\<not> is_wide_continuation (row ! col)"
    using c(3) assms(3) \<open>col < length row\<close> by (auto simp: list_all_length cell_ok_def)
qed

lemma append_to_previous_cluster_spec:
  assumes inv: "grid_inv g"
  shows "ok (append_to_previous_cluster uw ch width g)
    (\<lambda>(absorbed, g'). step_ok g g' \<and> (\<not> absorbed \<longrightarrow> g' = g \<and> width \<noteq> 0))"
proof -
  let ?r = "g_cursor_row g"
  have d: "?r < g_rows g" using inv by (auto simp: grid_inv_def inv_part_defs)
  note rw = active_row [OF inv d]
  have row: "row_ok (rs_rows (active_grid g) ! ?r)" "list_all cell_ok (rs_rows (active_grid g) ! ?r)"
    using rw(2) by (auto simp: good_row_def)
  have lead: "cluster_lead (rs_rows (active_grid g) ! ?r) t z = Inl b \<Longrightarrow> z \<longrightarrow> b" for t z b
    by (auto simp: cluster_lead_def Let_def split: if_splits)
  have target: "cluster_target g z = Inl b \<Longrightarrow> z \<longrightarrow> b" for z b
    by (auto simp: cluster_target_def split: if_splits)
  have join: "ok (join_cluster uw ch col g) (step_ok g)"
    if "cluster_lead (rs_rows (active_grid g) ! ?r) t z = Inr col" for t z col
    by (rule ok_mono_all [OF join_cluster_spec [OF inv]])
       (use cluster_lead_SomeD [OF that row] rw(3) in auto)
  have get: "vec_get (rs_rows (active_grid g)) ?r = Some (rs_rows (active_grid g) ! ?r)" using rw(1) by simp
  show ?thesis
  proof (cases "width \<noteq> 0 \<and> g_last_print g \<noteq> Some (g_cursor_row g, g_cursor_col g)")
    case True
    with inv show ?thesis by (simp add: append_to_previous_cluster_def)
  next
    case last: False
    show ?thesis
    proof (cases "cluster_target g (width = 0)")
      case (Inl b)
      with last inv target [OF Inl] show ?thesis by (auto simp: append_to_previous_cluster_def)
    next
      case t: (Inr t)
      show ?thesis
      proof (cases "cluster_lead (rs_rows (active_grid g) ! ?r) t (width = 0)")
        case (Inl b)
        with t last inv lead [OF Inl] show ?thesis by (auto simp: append_to_previous_cluster_def get)
      next
        case (Inr col)
        with t last join [OF Inr] show ?thesis by (auto simp: append_to_previous_cluster_def get ok_iff_ex)
      qed
    qed
  qed
qed

section \<open>Printing a character\<close>

lemma write_clamped_step:
  assumes inv: "grid_inv g" and w: "width = 1 \<or> width = 2"
    and wrap: "has_flag g PENDING_WRAP \<longrightarrow> has_flag g NO_AUTOWRAP"
  shows "ok (write_clamped ch width g) (step_ok g)"
proof -
  define col where "col = min (g_cursor_col g) (g_cols g - 1)"
  define h where "h = (if has_flag g NO_AUTOWRAP then (clear_flag PENDING_WRAP g)\<lparr>g_cursor_col := col\<rparr> else g)"
  have d: "g_cursor_row g < g_rows g" "1 \<le> g_cols g" "has_flag g PENDING_WRAP \<longleftrightarrow> g_cursor_col g = g_cols g"
    "g_cursor_col g \<le> g_cols g"
    using inv by (auto simp: grid_inv_def inv_part_defs)
  have col: "col < g_cols g" using d(2) by (auto simp: col_def)
  have inv_h: "grid_inv h"
    using inv col by (auto simp: h_def grid_inv_def inv_part_defs flag_op_defs)
  have same: "g_rows h = g_rows g" "g_cols h = g_cols g" "g_cursor_row h = g_cursor_row g" "g_dirty h = g_dirty g"
    by (simp_all add: h_def clear_flag_def)
  have step: "step_ok g h"
    by (rule step_ok_frame [OF inv_h]) (simp_all add: same, simp add: h_def)
  have hcol: "g_cursor_col h < g_cols h"
    using col wrap d(3,4) by (auto simp: h_def clear_flag_def)
  have "ok (write_glyph ch width h) (step_ok g)"
    by (rule ok_step_mono [OF _ step], rule ok_mono_all [OF write_glyph_spec [OF inv_h hcol w]]) simp
  then show ?thesis
    using inv hcol same(1,3) d(1) unfolding write_clamped_def Let_def col_def [symmetric] h_def [symmetric] by simp
qed

lemma deferred_wrap_step:
  assumes inv: "grid_inv g"
  shows "ok (deferred_wrap g) (\<lambda>g'. step_ok g g' \<and> (has_flag g' PENDING_WRAP \<longrightarrow> has_flag g' NO_AUTOWRAP))"
proof (cases "has_flag g PENDING_WRAP \<and> \<not> has_flag g NO_AUTOWRAP")
  case True
  let ?h = "(clear_flag PENDING_WRAP g)\<lparr>g_cursor_col := 0\<rparr>"
  have invh: "grid_inv ?h" using inv by (auto simp: grid_inv_def inv_part_defs flag_op_defs)
  have step: "step_ok g ?h" by (rule step_ok_frame [OF invh]) (simp_all, simp_all add: clear_flag_def)
  have "ok (newline_action_with_wrap Soft ?h) (\<lambda>g'. step_ok ?h g' \<and> (has_flag g' PENDING_WRAP \<longrightarrow> has_flag g' NO_AUTOWRAP))"
    by (rule ok_mono_all [OF newline_action_with_wrap_spec [OF invh]]) simp_all
  then show ?thesis
    using True step by (auto simp: deferred_wrap_def ok_iff_ex intro: step_ok_trans)
next
  case False
  then show ?thesis using inv by (auto simp: deferred_wrap_def)
qed

lemma write_char_at_cursor_step:
  assumes inv: "grid_inv g"
  shows "ok (write_char_at_cursor uw ch g) (step_ok g)"
proof -
  define w where "w = char_width uw ch"
  define g0 where "g0 = set_flag MUTATED_SINCE_PRESERVE g"
  have inv0: "grid_inv g0" using inv by (simp add: g0_def set_clear_flag_inv)
  have step0: "step_ok g g0" by (rule step_ok_frame [OF inv0]) (simp_all add: g0_def, simp_all add: set_flag_def)
  from append_to_previous_cluster_spec [OF inv0, of uw ch w] obtain absorbed g1
    where app: "append_to_previous_cluster uw ch w g0 = Some (absorbed, g1)" "step_ok g0 g1"
      "\<not> absorbed \<longrightarrow> g1 = g0 \<and> w \<noteq> 0"
    by (auto simp: ok_iff_ex)
  have eq: "write_char_at_cursor uw ch g
      = (if absorbed then Some g1 else Option.bind (deferred_wrap g1) (write_clamped ch w))"
    by (simp add: write_char_at_cursor_def Let_def app(1) w_def [symmetric] g0_def [symmetric])
  have "ok (write_char_at_cursor uw ch g) (step_ok g1)"
  proof (cases absorbed)
    case True
    then show ?thesis using step_ok_inv [OF app(2)] by (simp add: eq)
  next
    case False
    with app(3) have w12: "w = 1 \<or> w = 2" using char_width_le [of uw ch] by (auto simp: w_def)
    from deferred_wrap_step [OF step_ok_inv [OF app(2)]] obtain g2
      where g2: "deferred_wrap g1 = Some g2" "step_ok g1 g2" "has_flag g2 PENDING_WRAP \<longrightarrow> has_flag g2 NO_AUTOWRAP"
      by (auto simp: ok_iff_ex)
    have "ok (write_clamped ch w g2) (step_ok g1)"
      using write_clamped_step [OF step_ok_inv [OF g2(2)] w12 g2(3)] g2(2) by (rule ok_step_mono)
    then show ?thesis by (simp add: eq False g2(1))
  qed
  then show ?thesis using step_ok_trans [OF step0 app(2)] by (rule ok_step_mono)
qed

section \<open>Correctness of printing\<close>

lemma not_joined:
  assumes "width \<noteq> 0" "g_last_print g \<noteq> Some (g_cursor_row g, g_cursor_col g)"
  shows "append_to_previous_cluster uw ch width g = Some (False, g)"
  using assms by (simp add: append_to_previous_cluster_def)

lemma char_width_cases: "1 \<le> char_width uw ch \<Longrightarrow> char_width uw ch = 1 \<or> char_width uw ch = 2"
  using char_width_le [of uw ch] by linarith


text \<open>A width table for the examples: letters have width one, everything from U+1100 on width two.\<close>

definition example_width :: unicode_width where
  "example_width = \<lparr>uw_char = (\<lambda>c. Some (if c = 0x301 then 0 else if c < 0x1100 then 1 else 2)),
     uw_str = (\<lambda>s. if list_ex (\<lambda>c. 0x1100 \<le> c) s then 2 else 1)\<rparr>"

lemma example_width_simps [simp]:
  "char_width example_width 120 = 1" "char_width example_width 0x4e00 = 2"
  by (simp_all add: char_width_def example_width_def as_u16_def)

lemma example_autowrap [simp]: "\<not> has_flag example_grid NO_AUTOWRAP" "g_last_print example_grid = None"
  by (simp_all add: example_grid_def with_row_arena_def split_beta Let_def has_flag_def flag_defs)




end
