(* ===== verification/Erasing.thy ===== *)
theory Erasing
  imports Scrolling
begin

text \<open>
  Erasing in line and in display (\<open>erase_line\<close> and \<open>erase_display\<close> of \<open>src/src/grid.rs\<close>). Erased
  cells keep the current background colour.
\<close>

section \<open>Erasing\<close>

definition blank_cell :: "grid \<Rightarrow> cell" where
  "blank_cell g = cell_default\<lparr>cell_attrs := attrs_default\<lparr>at_background := at_background (g_current_attrs g)\<rparr>\<rparr>"

definition blank_row_bce :: "grid \<Rightarrow> row" where
  "blank_row_bce g = replicate (g_cols g) (blank_cell g)"

definition erase_line :: "u16 \<Rightarrow> grid \<Rightarrow> grid option" where
  "erase_line mode g =
     (let row = g_cursor_row g; col = g_cursor_col g; cols = g_cols g in
      if mode = 0 then do {
        r \<leftarrow> vec_get (rs_rows (active_grid g)) row;
        r \<leftarrow> erase_cells_bce r col cols (blank_cell g);
        g \<leftarrow> set_active_row row r g;
        grid_mark_range row col cols g
      }
      else if mode = 1 then do {
        l \<leftarrow> usize_sub cols 1;
        r \<leftarrow> vec_get (rs_rows (active_grid g)) row;
        r \<leftarrow> erase_cells_bce r 0 (min col l + 1) (blank_cell g);
        g \<leftarrow> set_active_row row r g;
        grid_mark_range row 0 (u16_sat_add col 1) g
      }
      else if mode = 2 then do {
        g \<leftarrow> set_active_row row (blank_row_bce g) g;
        grid_mark_row row g
      }
      else Some g)"

text \<open>\<open>for row in rows.iter_mut().take(stop).skip(start)\<close>, each row replaced by \<open>x\<close>.\<close>

definition fill_rows :: "usize \<Rightarrow> usize \<Rightarrow> row \<Rightarrow> row_store \<Rightarrow> row_store" where
  "fill_rows start stop x s = s\<lparr>rs_rows :=
     map (\<lambda>i. if start \<le> i \<and> i < stop then x else rs_rows s ! i) [0..<length (rs_rows s)]\<rparr>"

definition erase_display :: "u16 \<Rightarrow> grid \<Rightarrow> grid option" where
  "erase_display mode g = do {
     let cursor_row = g_cursor_row g;
     let cursor_col = g_cursor_col g;
     let rows = g_rows g;
     let cols = g_cols g;
     let blank = blank_cell g;
     g \<leftarrow> (if mode = 0 then do {
            let g = (if cursor_row = 0 \<and> cursor_col = 0 then preserve_visible_rows_to_scrollback g else g);
            r \<leftarrow> vec_get (rs_rows (active_grid g)) cursor_row;
            r \<leftarrow> erase_cells_bce r cursor_col cols blank;
            g \<leftarrow> set_active_row cursor_row r g;
            Some (put_active (fill_rows (cursor_row + 1) rows (blank_row_bce g) (active_grid g)) g)
          }
          else if mode = 1 then do {
            let g = put_active (fill_rows 0 cursor_row (blank_row_bce g) (active_grid g)) g;
            l \<leftarrow> usize_sub cols 1;
            r \<leftarrow> vec_get (rs_rows (active_grid g)) cursor_row;
            r \<leftarrow> erase_cells_bce r 0 (min cursor_col l + 1) blank;
            set_active_row cursor_row r g
          }
          else if mode = 2 then do {
            let g = preserve_visible_rows_to_scrollback g;
            Some (put_active (fill_rows 0 rows (blank_row_bce g) (active_grid g)) g)
          }
          else if mode = 3 then do {
            let g = clear_scrollback g;
            let g = put_active (fill_rows 0 rows (blank_row_bce g) (active_grid g)) g;
            Some (push_event ScrollbackClear g)
          }
          else Some g);
     Some (grid_mark_all g)
   }"

section \<open>Safety\<close>

lemma blank_cell_simps [simp]:
  "\<not> is_wide (blank_cell g)" "\<not> is_wide_continuation (blank_cell g)" "cell_ok (blank_cell g)"
  "contents (blank_cell g) = []"
  by (simp_all add: blank_cell_def cell_ok_def)

lemma good_row_bce [simp]: "good_row (g_cols g) (blank_row_bce g)"
  by (simp add: good_row_def blank_row_bce_def list_all_iff)

text \<open>What an erase does to a row: the cells of \<open>erased\<close> become blank, the others stay.\<close>

definition erased_row :: "row \<Rightarrow> usize \<Rightarrow> usize \<Rightarrow> cell \<Rightarrow> row" where
  "erased_row row start stop blank =
     map (\<lambda>i. if erased row start stop i then blank else row ! i) [0..<length row]"

lemma erase_cells_bce_eq:
  assumes "start \<le> stop" "stop \<le> length row"
  shows "erase_cells_bce row start stop blank = Some (erased_row row start stop blank)"
  using erase_cells_bce_ok [OF assms, of blank]
  by (auto simp: ok_iff_ex erased_row_def intro!: nth_equalityI)

lemma good_erased_row:
  assumes row: "good_row n row" and range: "start < stop \<or> start = n" "stop \<le> n"
    and blank: "\<not> is_wide blank" "\<not> is_wide_continuation blank" "cell_ok blank"
  shows "good_row n (erased_row row start stop blank)"
proof -
  have len: "length row = n" and ok: "row_ok row" using row by (auto simp: good_row_def)
  have "row_ok (erased_row row start stop blank)"
    by (rule erased_row_ok [OF ok _ _ _ _ blank(1,2)]) (use len range in \<open>auto simp: erased_row_def\<close>)
  moreover have "list_all cell_ok (erased_row row start stop blank)"
    using row blank(3) by (auto simp: erased_row_def list_all_length good_row_def)
  ultimately show ?thesis using len by (simp add: good_row_def erased_row_def)
qed

lemma erased_row_none: "erased_row row (length row) (length row) blank = row"
  by (intro nth_equalityI) (auto simp: erased_row_def erased_def)

lemma erase_active_row:
  assumes inv: "grid_inv g" and r: "r < g_rows g" and range: "start < stop \<or> start = g_cols g" "stop \<le> g_cols g"
    and "start \<le> stop" and "s < e \<or> start = g_cols g" and blank: "\<not> is_wide b" "\<not> is_wide_continuation b" "cell_ok b"
  defines "row \<equiv> rs_rows (active_grid g) ! r"
  obtains g1 t where "erase_cells_bce row start stop b = Some (erased_row row start stop b)"
    "set_active_row r (erased_row row start stop b) g = Some g1"
    "g1 = put_active (active_grid g\<lparr>rs_rows := (rs_rows (active_grid g))[r := erased_row row start stop b]\<rparr>) g"
    "grid_mark_range r s e g1 = Some (g1\<lparr>g_dirty := t\<rparr>)" "step_ok g (g1\<lparr>g_dirty := t\<rparr>)"
proof -
  note row = active_row [OF inv r, folded row_def]
  have good: "good_row (g_cols g) (erased_row row start stop b)"
    using row(2) range blank by (rule good_erased_row)
  have "start = g_cols g \<Longrightarrow> erased_row row start stop b = row"
    using range(2) row(3) assms(5) erased_row_none [of row b] by simp
  with assms(6) have mark: "s < e \<or> erased_row row start stop b = rs_rows (active_grid g) ! r"
    by (auto simp: row_def)
  obtain g1 t where g1: "set_active_row r (erased_row row start stop b) g = Some g1"
    "g1 = put_active (active_grid g\<lparr>rs_rows := (rs_rows (active_grid g))[r := erased_row row start stop b]\<rparr>) g"
    "grid_mark_range r s e g1 = Some (g1\<lparr>g_dirty := t\<rparr>)" "step_ok g (g1\<lparr>g_dirty := t\<rparr>)"
    by (rule edit_row_step [OF inv r good mark])
  show thesis
    by (rule that [OF _ g1]) (use row(3) assms(5) range(2) in \<open>simp add: erase_cells_bce_eq\<close>)
qed

lemma erase_line_spec:
  assumes inv: "grid_inv g"
  shows "ok (erase_line mode g) (\<lambda>g'. step_ok g g'
    \<and> rs_rows (active_grid g') = (if 2 < mode then rs_rows (active_grid g)
        else (rs_rows (active_grid g))[g_cursor_row g :=
          (let row = rs_rows (active_grid g) ! g_cursor_row g; col = g_cursor_col g in
           if mode = 0 then erased_row row col (g_cols g) (blank_cell g)
           else if mode = 1 then erased_row row 0 (min col (g_cols g - 1) + 1) (blank_cell g)
           else blank_row_bce g)]))"
proof -
  let ?r = "g_cursor_row g" and ?c = "g_cursor_col g" and ?b = "blank_cell g"
  let ?row = "rs_rows (active_grid g) ! ?r"
  have d: "?r < g_rows g" "?c \<le> g_cols g" "1 \<le> g_cols g" "g_cols g \<le> MAX_COLS"
    using inv by (auto simp: grid_inv_def cursor_ok_def dims_ok_def)
  note row = active_row [OF inv d(1)]
  consider "mode = 0" | "mode = 1" | "mode = 2" | "2 < mode" by linarith
  then show ?thesis
  proof cases
    case 1
    have pre: "?c < g_cols g \<or> ?c = g_cols g" "g_cols g \<le> g_cols g" using d(2) by auto
    obtain g1 t where "erase_cells_bce ?row ?c (g_cols g) ?b = Some (erased_row ?row ?c (g_cols g) ?b)"
      "set_active_row ?r (erased_row ?row ?c (g_cols g) ?b) g = Some g1"
      "g1 = put_active (active_grid g\<lparr>rs_rows := (rs_rows (active_grid g))[?r := erased_row ?row ?c (g_cols g) ?b]\<rparr>) g"
      "grid_mark_range ?r ?c (g_cols g) g1 = Some (g1\<lparr>g_dirty := t\<rparr>)" "step_ok g (g1\<lparr>g_dirty := t\<rparr>)"
      by (rule erase_active_row [OF inv d(1) pre d(2) pre(1) blank_cell_simps(1-3)])
    with 1 row(1) show ?thesis by (simp add: erase_line_def vec_get_def Let_def)
  next
    case 2
    let ?stop = "min ?c (g_cols g - 1) + 1"
    have pre: "0 < ?stop \<or> 0 = g_cols g" "?stop \<le> g_cols g" "0 \<le> ?stop" "0 < u16_sat_add ?c 1 \<or> 0 = g_cols g"
      using d(3) by (simp_all add: u16_sat_add_def u16_max_def)
    obtain g1 t where "erase_cells_bce ?row 0 ?stop ?b = Some (erased_row ?row 0 ?stop ?b)"
      "set_active_row ?r (erased_row ?row 0 ?stop ?b) g = Some g1"
      "g1 = put_active (active_grid g\<lparr>rs_rows := (rs_rows (active_grid g))[?r := erased_row ?row 0 ?stop ?b]\<rparr>) g"
      "grid_mark_range ?r 0 (u16_sat_add ?c 1) g1 = Some (g1\<lparr>g_dirty := t\<rparr>)" "step_ok g (g1\<lparr>g_dirty := t\<rparr>)"
      by (rule erase_active_row [OF inv d(1) pre blank_cell_simps(1-3)])
    with 2 row(1) d(3) show ?thesis by (simp add: erase_line_def vec_get_def Let_def usize_sub_def)
  next
    case 3
    have mark: "(0 :: nat) < u16_max \<or> blank_row_bce g = ?row" by (simp add: u16_max_def)
    obtain g1 t where "set_active_row ?r (blank_row_bce g) g = Some g1"
      "g1 = put_active (active_grid g\<lparr>rs_rows := (rs_rows (active_grid g))[?r := blank_row_bce g]\<rparr>) g"
      "grid_mark_range ?r 0 u16_max g1 = Some (g1\<lparr>g_dirty := t\<rparr>)" "step_ok g (g1\<lparr>g_dirty := t\<rparr>)"
      by (rule edit_row_step [OF inv d(1) good_row_bce mark])
    with 3 show ?thesis by (simp add: erase_line_def grid_mark_row_eq Let_def)
  next
    case 4
    then show ?thesis using inv by (simp add: erase_line_def)
  qed
qed

lemma store_ok_fill_rows:
  "store_ok n cols s \<Longrightarrow> good_row cols x \<Longrightarrow> store_ok n cols (fill_rows a b x s)"
  by (auto simp: store_ok_def fill_rows_def list_all_length)

lemma fill_active_inv:
  "grid_inv g \<Longrightarrow> grid_inv (put_active (fill_rows a b (blank_row_bce g) (active_grid g)) g)"
  by (intro put_active_inv store_ok_fill_rows active_ok good_row_bce)

lemma blank_row_bce_cong:
  "g_cols g' = g_cols g \<Longrightarrow> g_current_attrs g' = g_current_attrs g \<Longrightarrow> blank_row_bce g' = blank_row_bce g"
  by (simp add: blank_row_bce_def blank_cell_def)

lemma set_active_row_inv:
  assumes "grid_inv g" "r < g_rows g" "good_row (g_cols g) row"
  obtains g1 where "set_active_row r row g = Some g1" "grid_inv g1"
    "g1 = put_active (active_grid g\<lparr>rs_rows := (rs_rows (active_grid g))[r := row]\<rparr>) g"
  using edit_row_step [OF assms, of 0 1] by auto

lemma nth_fill_rows:
  "i < length (rs_rows s) \<Longrightarrow> rs_rows (fill_rows a b x s) ! i = (if a \<le> i \<and> i < b then x else rs_rows s ! i)"
  "length (rs_rows (fill_rows a b x s)) = length (rs_rows s)"
  by (simp_all add: fill_rows_def)

text \<open>The rows of the active screen after \<open>erase_display\<close>.\<close>

definition display_row :: "u16 \<Rightarrow> grid \<Rightarrow> nat \<Rightarrow> row" where
  "display_row mode g i =
     (let row = rs_rows (active_grid g) ! i; r = g_cursor_row g; c = g_cursor_col g in
      if mode = 0 then
        (if i < r then row else if i = r then erased_row row c (g_cols g) (blank_cell g) else blank_row_bce g)
      else if mode = 1 then
        (if i < r then blank_row_bce g
         else if i = r then erased_row row 0 (min c (g_cols g - 1) + 1) (blank_cell g) else row)
      else if mode = 2 \<or> mode = 3 then blank_row_bce g
      else row)"

lemma erase_display_below:
  assumes inv: "grid_inv g"
  shows "ok (do {
      r \<leftarrow> vec_get (rs_rows (active_grid g)) (g_cursor_row g);
      r \<leftarrow> erase_cells_bce r (g_cursor_col g) (g_cols g) (blank_cell g);
      h \<leftarrow> set_active_row (g_cursor_row g) r g;
      Some (put_active (fill_rows (g_cursor_row g + 1) (g_rows g) (blank_row_bce h) (active_grid h)) h)
    }) (\<lambda>g'. grid_inv g' \<and> g_rows g' = g_rows g \<and> g_cols g' = g_cols g \<and> g_scrollback g' = g_scrollback g
      \<and> (\<forall>i < g_rows g. rs_rows (active_grid g') ! i = display_row 0 g i))"
proof -
  let ?r = "g_cursor_row g" and ?c = "g_cursor_col g"
  let ?row = "erased_row (rs_rows (active_grid g) ! ?r) ?c (g_cols g) (blank_cell g)"
  have d: "?r < g_rows g" "?c \<le> g_cols g" using inv by (auto simp: grid_inv_def cursor_ok_def)
  note row = active_row [OF inv d(1)]
  have good: "good_row (g_cols g) ?row" using d(2) by (intro good_erased_row row) auto
  have len: "length (rs_rows (active_grid g)) = g_rows g" using active_ok [OF inv] by (simp add: store_ok_def)
  show ?thesis
  proof (rule set_active_row_inv [OF inv d(1) good])
    fix h assume h: "set_active_row ?r ?row g = Some h" "grid_inv h"
      "h = put_active (active_grid g\<lparr>rs_rows := (rs_rows (active_grid g))[?r := ?row]\<rparr>) g"
    have "blank_row_bce h = blank_row_bce g" by (rule blank_row_bce_cong) (simp_all add: h(3))
    with h fill_active_inv [OF h(2)] row d len show ?thesis
      by (auto simp: vec_get_def erase_cells_bce_eq nth_fill_rows display_row_def Let_def nth_list_update)
  qed
qed

lemma erase_display_above:
  assumes inv: "grid_inv g"
  shows "ok (do {
      let h = put_active (fill_rows 0 (g_cursor_row g) (blank_row_bce g) (active_grid g)) g;
      l \<leftarrow> usize_sub (g_cols g) 1;
      r \<leftarrow> vec_get (rs_rows (active_grid h)) (g_cursor_row g);
      r \<leftarrow> erase_cells_bce r 0 (min (g_cursor_col g) l + 1) (blank_cell g);
      set_active_row (g_cursor_row g) r h
    }) (\<lambda>g'. grid_inv g' \<and> g_rows g' = g_rows g \<and> g_cols g' = g_cols g \<and> g_scrollback g' = g_scrollback g
      \<and> (\<forall>i < g_rows g. rs_rows (active_grid g') ! i = display_row 1 g i))"
proof -
  let ?r = "g_cursor_row g" and ?stop = "min (g_cursor_col g) (g_cols g - 1) + 1"
  define h where "h = put_active (fill_rows 0 ?r (blank_row_bce g) (active_grid g)) g"
  have inv1: "grid_inv h" unfolding h_def by (rule fill_active_inv [OF inv])
  have d: "?r < g_rows g" "1 \<le> g_cols g" using inv by (auto simp: grid_inv_def cursor_ok_def dims_ok_def)
  have hd: "g_rows h = g_rows g" "g_cols h = g_cols g" "g_scrollback h = g_scrollback g" by (simp_all add: h_def)
  have len: "length (rs_rows (active_grid g)) = g_rows g" using active_ok [OF inv] by (simp add: store_ok_def)
  have hrow: "rs_rows (active_grid h) ! ?r = rs_rows (active_grid g) ! ?r"
    using d len by (simp add: h_def nth_fill_rows)
  let ?row = "erased_row (rs_rows (active_grid h) ! ?r) 0 ?stop (blank_cell g)"
  note row = active_row [OF inv1, of ?r, unfolded hd, OF d(1)]
  have good: "good_row (g_cols h) ?row"
    unfolding hd using d(2) by (intro good_erased_row row) auto
  have r: "?r < g_rows h" using d(1) by (simp add: hd)
  show ?thesis
  proof (rule set_active_row_inv [OF inv1 r good])
    fix h' assume h': "set_active_row ?r ?row h = Some h'" "grid_inv h'"
      "h' = put_active (active_grid h\<lparr>rs_rows := (rs_rows (active_grid h))[?r := ?row]\<rparr>) h"
    have "rs_rows (active_grid h) ! i = (if i < ?r then blank_row_bce g else rs_rows (active_grid g) ! i)"
      if "i < g_rows g" for i
      using that len by (simp add: h_def nth_fill_rows)
    moreover have "length (rs_rows (active_grid h)) = g_rows g" by (simp add: h_def nth_fill_rows len)
    ultimately show ?thesis
      using h' row d len hd hrow unfolding Let_def h_def [symmetric]
      by (auto simp: vec_get_def erase_cells_bce_eq display_row_def Let_def nth_list_update usize_sub_def)
  qed
qed

lemma erase_all_rows:
  assumes inv: "grid_inv h" and same: "g_rows h = g_rows g" "g_cols h = g_cols g"
    "g_current_attrs h = g_current_attrs g" and mode: "mode = 2 \<or> mode = 3"
  defines "g' \<equiv> put_active (fill_rows 0 (g_rows g) (blank_row_bce h) (active_grid h)) h"
  shows "grid_inv g'" "g_rows g' = g_rows g" "g_cols g' = g_cols g" "g_scrollback g' = g_scrollback h"
    "\<forall>i < g_rows g. rs_rows (active_grid g') ! i = display_row mode g i"
proof -
  have "length (rs_rows (active_grid h)) = g_rows g" using active_ok [OF inv] same by (simp add: store_ok_def)
  moreover have "blank_row_bce h = blank_row_bce g" using same by (intro blank_row_bce_cong) simp_all
  ultimately show "\<forall>i < g_rows g. rs_rows (active_grid g') ! i = display_row mode g i"
    using mode by (auto simp: g'_def nth_fill_rows display_row_def Let_def)
qed (use fill_active_inv [OF inv] same in \<open>simp_all add: g'_def\<close>)

lemma clear_scrollback_fields:
  "g_rows (clear_scrollback g) = g_rows g" "g_cols (clear_scrollback g) = g_cols g"
  "g_current_attrs (clear_scrollback g) = g_current_attrs g"
  "rs_rows (g_scrollback (clear_scrollback g)) = []"
  by (simp_all add: clear_scrollback_def rs_clear_def Let_def)

lemma push_event_fields [simp]:
  "g_rows (push_event e g) = g_rows g" "g_cols (push_event e g) = g_cols g"
  "active_grid (push_event e g) = active_grid g" "g_scrollback (push_event e g) = g_scrollback g"
  "g_dirty (push_event e g) = g_dirty g" "has_flag (push_event e g) f = has_flag g f"
  by (simp_all add: push_event_def)

text \<open>
  Erase in display: every row of the active screen is as \<open>display_row\<close> says, and the scrollback
  gains the visible block (modes 0 at home, and 2), is emptied (mode 3) or is left alone.
\<close>

lemma erase_display_spec:
  assumes inv: "grid_inv g"
  defines "home \<equiv> g_cursor_row g = 0 \<and> g_cursor_col g = 0"
  shows "ok (erase_display mode g) (\<lambda>g'. step_ok g g'
    \<and> (\<forall>i < g_rows g. rs_rows (active_grid g') ! i = display_row mode g i)
    \<and> rs_rows (g_scrollback g') =
        (if mode = 3 then []
         else if (mode = 2 \<or> mode = 0 \<and> home) \<and> preserves_block g
         then push_limited (g_scrollback_limit g) (rs_rows (g_scrollback g)) (visible_block g)
         else rs_rows (g_scrollback g)))"
proof -
  have finish: "step_ok g (grid_mark_all h) \<and> active_grid (grid_mark_all h) = active_grid h
      \<and> g_scrollback (grid_mark_all h) = g_scrollback h"
    if "grid_inv h" "g_rows h = g_rows g" "g_cols h = g_cols g" for h
    using that by (auto intro!: step_ok_all_dirty) (simp_all add: grid_mark_all_def)
  define p where "p = preserve_visible_rows_to_scrollback g"
  note pres = preserve_spec [OF inv, folded p_def]
  have p: "grid_inv p" "g_rows p = g_rows g" "g_cols p = g_cols g" using pres(1) by (auto simp: step_ok_def)
  consider "mode = 0" | "mode = 1" | "mode = 2" | "mode = 3" | "3 < mode" by linarith
  then show ?thesis
  proof cases
    case 1
    define h where "h = (if home then p else g)"
    have h: "grid_inv h" "g_rows h = g_rows g" "g_cols h = g_cols g" "g_cursor_row h = g_cursor_row g"
      "g_cursor_col h = g_cursor_col g" "blank_cell h = blank_cell g" "blank_row_bce h = blank_row_bce g"
      "active_grid h = active_grid g"
      "rs_rows (g_scrollback h) = (if home \<and> preserves_block g
         then push_limited (g_scrollback_limit g) (rs_rows (g_scrollback g)) (visible_block g)
         else rs_rows (g_scrollback g))"
      using inv p pres by (simp_all add: h_def blank_cell_def blank_row_bce_def)
    have row: "display_row 0 h i = display_row 0 g i" for i
      by (simp add: display_row_def h Let_def)
    have eq: "erase_display mode g = Option.bind (do {
        r \<leftarrow> vec_get (rs_rows (active_grid h)) (g_cursor_row h);
        r \<leftarrow> erase_cells_bce r (g_cursor_col h) (g_cols h) (blank_cell h);
        h' \<leftarrow> set_active_row (g_cursor_row h) r h;
        Some (put_active (fill_rows (g_cursor_row h + 1) (g_rows h) (blank_row_bce h') (active_grid h')) h')
      }) (\<lambda>h. Some (grid_mark_all h))"
      by (simp add: erase_display_def 1 h_def [symmetric, unfolded home_def p_def] h) (simp add: Let_def)
    show ?thesis
      unfolding eq ok_bind [of "Option.bind _ _" "\<lambda>h. Some (grid_mark_all h)"]
      by (rule ok_mono_all [OF erase_display_below [OF h(1)]]) (simp add: 1 row h finish)
  next
    case 2
    have eq: "erase_display mode g = Option.bind (do {
        let h = put_active (fill_rows 0 (g_cursor_row g) (blank_row_bce g) (active_grid g)) g;
        l \<leftarrow> usize_sub (g_cols g) 1;
        r \<leftarrow> vec_get (rs_rows (active_grid h)) (g_cursor_row g);
        r \<leftarrow> erase_cells_bce r 0 (min (g_cursor_col g) l + 1) (blank_cell g);
        set_active_row (g_cursor_row g) r h
      }) (\<lambda>h. Some (grid_mark_all h))"
      by (simp add: erase_display_def 2 Let_def)
    show ?thesis
      unfolding eq ok_bind [of "Let _ _" "\<lambda>h. Some (grid_mark_all h)"]
      by (rule ok_mono_all [OF erase_display_above [OF inv]]) (simp add: 2 finish)
  next
    case 3
    note e = erase_all_rows [OF p pres(5), of 2]
    from 3 e show ?thesis
      by (auto simp: erase_display_def Let_def p_def [symmetric] finish pres(2))
  next
    case 4
    note e = erase_all_rows [OF clear_scrollback_inv [OF inv] clear_scrollback_fields(1-3), of 3]
    from 4 e show ?thesis
      by (auto simp: erase_display_def Let_def finish clear_scrollback_fields)
  next
    case 5
    with inv finish [OF inv] show ?thesis by (simp add: erase_display_def display_row_def)
  qed
qed

section \<open>Correctness of erasing\<close>

text \<open>
  C13: EL erases from the cursor to the end of the line, from its start through the cursor, or the whole
  line, with the background of the current attributes; a wide character cut by the range goes as a
  whole, other rows are untouched, and an unknown mode changes nothing.
\<close>

theorem erase_line_correct:
  assumes "grid_inv g"
  shows "ok (erase_line mode g) (\<lambda>g'. step_ok g g'
    \<and> rs_rows (active_grid g') = (if 2 < mode then rs_rows (active_grid g)
        else (rs_rows (active_grid g))[g_cursor_row g :=
          (let row = rs_rows (active_grid g) ! g_cursor_row g; col = g_cursor_col g in
           if mode = 0 then erased_row row col (g_cols g) (blank_cell g)
           else if mode = 1 then erased_row row 0 (min col (g_cols g - 1) + 1) (blank_cell g)
           else blank_row_bce g)]))"
  by (rule erase_line_spec [OF assms])

lemma erase_line_witness:
  "ok (erase_line 0 example_grid) (\<lambda>g'. rs_rows (active_grid g')
     = [map letter ''abcd'', map letter ''ef'' @ [cell_default, cell_default], map letter ''ijkl''])"
proof -
  have blank: "blank_cell example_grid = cell_default" by (simp add: blank_cell_def cell_default_def)
  have "erased_row (map letter ''efgh'') 2 4 cell_default = map letter ''ef'' @ [cell_default, cell_default]"
    by (simp add: erased_row_def erased_def letter_def upt_rec)
  then show ?thesis
    by (intro ok_mono_all [OF erase_line_correct [OF example_grid_inv]]) (simp add: blank Let_def)
qed

text \<open>
  C12: ED erases below the cursor, above it or the whole screen. Erasing the whole screen (mode 2, or mode
  0 from the home position) first saves the block of occupied rows to the scrollback under the
  conditions of \<open>preserves_block\<close>; mode 3 clears the scrollback as well.
\<close>

theorem erase_display_correct:
  assumes "grid_inv g"
  shows "ok (erase_display mode g) (\<lambda>g'. step_ok g g'
    \<and> (\<forall>i < g_rows g. rs_rows (active_grid g') ! i = display_row mode g i)
    \<and> rs_rows (g_scrollback g') =
        (if mode = 3 then []
         else if (mode = 2 \<or> mode = 0 \<and> g_cursor_row g = 0 \<and> g_cursor_col g = 0) \<and> preserves_block g
         then push_limited (g_scrollback_limit g) (rs_rows (g_scrollback g)) (visible_block g)
         else rs_rows (g_scrollback g)))"
  by (rule erase_display_spec [OF assms])

lemma erase_display_witness:
  "ok (erase_display 1 example_grid) (\<lambda>g'. rs_rows (active_grid g') ! 0 = replicate 4 cell_default
     \<and> rs_rows (active_grid g') ! 2 = map letter ''ijkl'' \<and> rs_rows (g_scrollback g') = [])"
proof -
  have "blank_row_bce example_grid = replicate 4 cell_default"
    by (simp add: blank_row_bce_def blank_cell_def cell_default_def)
  then show ?thesis
    by (intro ok_mono_all [OF erase_display_correct [OF example_grid_inv]]) (simp add: display_row_def Let_def)
qed

end
