(* ===== verification/Osc_Strings.thy ===== *)
theory Osc_Strings
  imports Scrolling
begin

text \<open>
  OSC strings (\<open>handle_osc\<close>, \<open>osc_color_reply\<close> and \<open>intern_hyperlink\<close> of \<open>src/src/grid.rs\<close>):
  titles, clipboard, working directory, notifications, colour queries and hyperlinks.
\<close>

text \<open>\<open>str::parse::<u8>\<close>: an optional plus sign and decimal digits, at most 255.\<close>

definition is_digit :: "uchar \<Rightarrow> bool" where
  "is_digit c \<longleftrightarrow> 48 \<le> c \<and> c \<le> 57"

definition digits_value :: "ustr \<Rightarrow> nat" where
  "digits_value s = foldl (\<lambda>v c. v * 10 + (c - 48)) 0 s"

definition parse_u8 :: "ustr \<Rightarrow> nat option" where
  "parse_u8 s =
     (let ds = (case s of c # rest \<Rightarrow> if c = 43 then rest else s | [] \<Rightarrow> [])
      in if ds \<noteq> [] \<and> list_all is_digit ds \<and> digits_value ds \<le> 255 then Some (digits_value ds) else None)"

text \<open>\<open>trim_start_matches\<close> with a non-empty string pattern.\<close>

function trim_start_matches :: "ustr \<Rightarrow> ustr \<Rightarrow> ustr" where
  "trim_start_matches pat s =
     (if pat \<noteq> [] \<and> length pat \<le> length s \<and> take (length pat) s = pat
      then trim_start_matches pat (drop (length pat) s) else s)"
  by pat_completeness auto
termination
  by (relation "measure (\<lambda>(pat, s). length s)") (auto intro!: diff_less)

declare trim_start_matches.simps [simp del]

fun str_join :: "ustr \<Rightarrow> ustr list \<Rightarrow> ustr" where
  "str_join sep [] = []"
| "str_join sep [x] = x"
| "str_join sep (x # y # xs) = x @ sep @ str_join sep (y # xs)"

definition osc_color_reply :: "nat \<Rightarrow> rgb \<Rightarrow> bool \<Rightarrow> u8 list" where
  "osc_color_reply code col bell_terminated =
     (let (r, g, b) = col;
          terminator = (if bell_terminated then [0x07] else esc [CHR 0x5C])
      in esc '']'' @ decimal code @ bytes '';rgb:'' @ hex4 (unat r * 0x101) @ bytes ''/''
           @ hex4 (unat g * 0x101) @ bytes ''/'' @ hex4 (unat b * 0x101) @ terminator)"

definition intern_hyperlink :: "ustr \<Rightarrow> ustr \<Rightarrow> grid \<Rightarrow> hyperlink \<times> grid" where
  "intern_hyperlink ident uri g =
     (let recent = g_recent_hyperlinks g in
      case position (\<lambda>link. hl_id link = ident \<and> hl_uri link = uri) recent of
        Some i \<Rightarrow>
          (let recent = recent ! i # take i recent @ drop (Suc i) recent
           in (hd recent, g\<lparr>g_recent_hyperlinks := recent\<rparr>))
      | None \<Rightarrow>
          (let link = \<lparr>hl_id = ident, hl_uri = uri\<rparr>;
               recent = (if length recent = OSC8_RECENT_MAX then butlast recent else recent)
           in (link, g\<lparr>g_recent_hyperlinks := link # recent\<rparr>)))"

text \<open>The id and URI of an OSC 8, when both are present and within the limits.\<close>

definition osc8_target :: "u8 list list \<Rightarrow> (ustr \<times> ustr) option" where
  "osc8_target ps = do {
     id_bytes \<leftarrow> vec_get ps 1;
     param \<leftarrow> from_utf8 id_bytes;
     let ident = trim_start_matches (str ''id='') param;
     if OSC8_ID_MAX < length (utf8 ident) then None else do {
       uri_bytes \<leftarrow> vec_get ps 2;
       if OSC8_URI_MAX < length uri_bytes then None else do {
         uri \<leftarrow> from_utf8 uri_bytes;
         if uri = [] then None else Some (ident, uri)
       }
     }
   }"

definition handle_osc :: "u8 list list \<Rightarrow> bool \<Rightarrow> grid \<Rightarrow> grid" where
  "handle_osc ps bell_terminated g =
     (case ps of
        [] \<Rightarrow> g
      | code_bytes # _ \<Rightarrow>
        (let code = Option.bind (from_utf8 code_bytes) parse_u8;
             val = Option.bind (vec_get ps 1) from_utf8
         in case code of
              None \<Rightarrow> g
            | Some code \<Rightarrow>
              if code = 8 then
                (case osc8_target ps of
                   Some (ident, uri) \<Rightarrow>
                     (let (link, g) = intern_hyperlink ident uri g
                      in g\<lparr>g_active_hyperlink := Some link\<rparr>)
                 | None \<Rightarrow> g\<lparr>g_active_hyperlink := None\<rparr>)
              else case val of
                None \<Rightarrow> g
              | Some v \<Rightarrow>
                if code = 0 \<or> code = 2 then push_event (TitleChanged v) g
                else if code = 1 then push_event (IconNameChanged v) g
                else if code = 52 then
                  push_event (ClipboardWrite (str_join (str '';'') (List.map_filter from_utf8 (drop 1 ps)))) g
                else if code = 7 then push_event (CwdChanged v) g
                else if code = 9 then push_event (Notification v) g
                else if (code = 10 \<or> code = 11) \<and> v = str ''?'' then
                  push_event (Reply (osc_color_reply code
                    (if code = 10 then g_reported_fg g else g_reported_bg g) bell_terminated)) g
                else g))"

section \<open>Safety\<close>

text \<open>The table of recent links keeps at most eight, all within the limits, newest first.\<close>

lemma intern_hyperlink_spec:
  assumes inv: "grid_inv g" and link: "link_ok \<lparr>hl_id = ident, hl_uri = uri\<rparr>"
    and r: "intern_hyperlink ident uri g = (l, g')"
  shows "l = \<lparr>hl_id = ident, hl_uri = uri\<rparr>" "g' = g\<lparr>g_recent_hyperlinks := g_recent_hyperlinks g'\<rparr>"
    "hd (g_recent_hyperlinks g') = l" "g_recent_hyperlinks g' \<noteq> []"
    "length (g_recent_hyperlinks g') \<le> OSC8_RECENT_MAX" "list_all link_ok (g_recent_hyperlinks g')"
proof -
  let ?rs = "g_recent_hyperlinks g"
  have old: "length ?rs \<le> OSC8_RECENT_MAX" "list_all link_ok ?rs"
    using inv by (auto simp: grid_inv_def links_ok_def)
  show "l = \<lparr>hl_id = ident, hl_uri = uri\<rparr>" "g' = g\<lparr>g_recent_hyperlinks := g_recent_hyperlinks g'\<rparr>"
    "hd (g_recent_hyperlinks g') = l" "g_recent_hyperlinks g' \<noteq> []"
    using r by (auto simp: intern_hyperlink_def Let_def split: option.splits dest!: position_SomeD)
  have "length (g_recent_hyperlinks g') \<le> OSC8_RECENT_MAX \<and> list_all link_ok (g_recent_hyperlinks g')"
  proof (cases "position (\<lambda>link. hl_id link = ident \<and> hl_uri link = uri) ?rs")
    case None
    have "\<forall>x \<in> set (butlast ?rs). link_ok x" using old(2) by (auto simp: list_all_iff dest: in_set_butlastD)
    with None r old link show ?thesis
      by (auto simp: intern_hyperlink_def Let_def OSC8_RECENT_MAX_def list_all_iff split: if_splits)
  next
    case (Some i)
    then have "i < length ?rs" using position_SomeD by fastforce
    moreover have "\<forall>x \<in> set (take i ?rs). link_ok x" "\<forall>x \<in> set (drop (Suc i) ?rs). link_ok x"
      using old(2) by (auto simp: list_all_iff dest: in_set_takeD in_set_dropD)
    ultimately show ?thesis
      using r old Some by (auto simp: intern_hyperlink_def Let_def list_all_iff)
  qed
  then show "length (g_recent_hyperlinks g') \<le> OSC8_RECENT_MAX" "list_all link_ok (g_recent_hyperlinks g')"
    by blast+
qed

lemma set_link_step:
  assumes "grid_inv g" "length rs \<le> OSC8_RECENT_MAX" "list_all link_ok rs" "opt_link_ok l"
  shows "step_ok g (g\<lparr>g_recent_hyperlinks := rs, g_active_hyperlink := l\<rparr>)"
  using assms
  by (intro step_ok_frame) (simp_all add: grid_inv_def inv_part_defs has_flag_def active_grid_def)

lemma push_event_step: "grid_inv g \<Longrightarrow> step_ok g (push_event e g)"
  by (intro step_ok_frame) (simp_all, simp_all add: push_event_def)

lemma osc8_step:
  assumes inv: "grid_inv g" and id: "length (utf8 ident) \<le> OSC8_ID_MAX"
    and uri: "length (utf8 uri) \<le> OSC8_URI_MAX" "uri \<noteq> []"
  shows "step_ok g (let (link, g) = intern_hyperlink ident uri g in g\<lparr>g_active_hyperlink := Some link\<rparr>)"
proof -
  obtain l g' where r: "intern_hyperlink ident uri g = (l, g')" by fastforce
  have link: "link_ok \<lparr>hl_id = ident, hl_uri = uri\<rparr>" using id uri by (simp add: link_ok_def)
  note spec = intern_hyperlink_spec [OF inv link r]
  have "g'\<lparr>g_active_hyperlink := Some l\<rparr>
      = g\<lparr>g_recent_hyperlinks := g_recent_hyperlinks g', g_active_hyperlink := Some l\<rparr>"
    by (subst spec(2)) simp
  with set_link_step [OF inv spec(5,6), of "Some l"] link spec(1) show ?thesis
    by (simp add: r opt_link_ok_def)
qed

lemma clear_link_step: "grid_inv g \<Longrightarrow> step_ok g (g\<lparr>g_active_hyperlink := None\<rparr>)"
  by (intro step_ok_frame) (simp_all add: grid_inv_def inv_part_defs has_flag_def)

lemma osc8_targetD:
  assumes "osc8_target ps = Some (ident, uri)"
  shows "length (utf8 ident) \<le> OSC8_ID_MAX" "length (utf8 uri) \<le> OSC8_URI_MAX" "uri \<noteq> []"
  using assms by (auto simp: osc8_target_def Option.bind_eq_Some_conv Let_def from_utf8_iff split: if_splits)

lemma handle_osc_step:
  assumes inv: "grid_inv g"
  shows "step_ok g (handle_osc ps bell_terminated g)"
proof (cases ps)
  case Nil
  with inv show ?thesis by (simp add: handle_osc_def)
next
  case (Cons code_bytes rest)
  show ?thesis
  proof (cases "Option.bind (from_utf8 code_bytes) parse_u8")
    case None
    with Cons inv show ?thesis by (simp add: handle_osc_def)
  next
    case (Some code)
    show ?thesis
    proof (cases "code = 8")
      case True
      then show ?thesis
        using Cons Some inv osc8_step [OF inv] osc8_targetD [of ps]
        by (auto simp: handle_osc_def clear_link_step split: option.split)
    next
      case False
      then show ?thesis
        using Cons Some inv
        by (auto simp: handle_osc_def push_event_step Let_def split: option.splits)
    qed
  qed
qed

section \<open>Hyperlinks\<close>

text \<open>
  An OSC 8 with a URI makes later cells carry exactly that id and URI: the active hyperlink is the
  decoded target, it is the head of the bounded table of recent links, and the identifier and URI are
  within the limits; an empty, oversized or undecodable target ends the link instead.
\<close>

lemma osc8_sets_link:
  assumes "grid_inv g" "from_utf8 code_bytes = Some (str ''8'')"
  shows "g_active_hyperlink (handle_osc (code_bytes # ps) bell g) =
      map_option (\<lambda>(ident, uri). \<lparr>hl_id = ident, hl_uri = uri\<rparr>) (osc8_target (code_bytes # ps))
    \<and> opt_link_ok (g_active_hyperlink (handle_osc (code_bytes # ps) bell g))
    \<and> length (g_recent_hyperlinks (handle_osc (code_bytes # ps) bell g)) \<le> OSC8_RECENT_MAX
    \<and> step_ok g (handle_osc (code_bytes # ps) bell g)"
proof -
  have code: "parse_u8 (str ''8'') = Some 8" by code_simp
  have step: "step_ok g (handle_osc (code_bytes # ps) bell g)" by (rule handle_osc_step [OF assms(1)])
  then have inv: "grid_inv (handle_osc (code_bytes # ps) bell g)" by (rule step_ok_inv)
  have "g_active_hyperlink (handle_osc (code_bytes # ps) bell g) =
      map_option (\<lambda>(ident, uri). \<lparr>hl_id = ident, hl_uri = uri\<rparr>) (osc8_target (code_bytes # ps))"
  proof (cases "osc8_target (code_bytes # ps)")
    case None
    then show ?thesis by (simp add: handle_osc_def assms(2) code)
  next
    case (Some t)
    obtain ident uri where t: "t = (ident, uri)" by (cases t)
    obtain l g' where r: "intern_hyperlink ident uri g = (l, g')" by (cases "intern_hyperlink ident uri g")
    have "link_ok \<lparr>hl_id = ident, hl_uri = uri\<rparr>" using osc8_targetD [of "code_bytes # ps"] Some t by (simp add: link_ok_def)
    from intern_hyperlink_spec(1) [OF assms(1) this r] show ?thesis
      by (simp add: handle_osc_def assms(2) code Some t r)
  qed
  with inv step show ?thesis by (simp add: grid_inv_def links_ok_def)
qed

lemma osc8_witness:
  "g_active_hyperlink (handle_osc [bytes ''8'', bytes ''id=a'', bytes ''x:y''] False example_grid)
     = Some \<lparr>hl_id = str ''a'', hl_uri = str ''x:y''\<rparr>"
proof -
  have "from_utf8 (bytes ''8'') = Some (str ''8'')" by code_simp
  moreover have "osc8_target [bytes ''8'', bytes ''id=a'', bytes ''x:y''] = Some (str ''a'', str ''x:y'')" by code_simp
  ultimately show ?thesis using osc8_sets_link [OF example_grid_inv] by simp
qed

end
