(* ===== verification/Perform.thy ===== *)
theory Perform
  imports Printing Erasing Osc_Strings
begin

text \<open>
  The actions of the escape-sequence parser on the grid (\<open>impl vte::Perform for DamageGrid\<close> in
  \<open>src/src/grid/perform.rs\<close>): control characters, CSI and ESC dispatch. Each arm of the long
  dispatcher that edits cells is a function of its own; \<open>csi_dispatch\<close> selects them in the source's
  order. The parser is not part of this code; what it calls is a \<open>perform_call\<close>.
\<close>

datatype perform_call =
    Print uchar
  | Execute u8
  | CsiDispatch params "u8 list" bool uchar
  | EscDispatch "u8 list" bool u8
  | OscDispatch "u8 list list" bool
  | Hook params "u8 list" bool uchar
  | Put u8
  | Unhook

section \<open>Control characters\<close>

definition execute :: "u8 \<Rightarrow> grid \<Rightarrow> grid option" where
  "execute b g =
     (if b = 0x0a \<or> b = 0x0b \<or> b = 0x0c then newline_action (clear_pending_wrap g)
      else if b = 0x0d then Some ((clear_pending_wrap g)\<lparr>g_cursor_col := 0\<rparr>)
      else if b = 0x08 then
        Some (if has_flag g PENDING_WRAP then clear_pending_wrap g
              else if 0 < g_cursor_col g then g\<lparr>g_cursor_col := g_cursor_col g - 1\<rparr> else g)
      else if b = 0x09 then do {
        let g = clear_pending_wrap g;
        n \<leftarrow> u16_add (g_cursor_col g div 8) 1;
        next_tab \<leftarrow> u16_mul n 8;
        Some (g\<lparr>g_cursor_col := min next_tab (g_cols g - 1)\<rparr>)
      }
      else if b = 0x07 then Some (push_event Bell g)
      else Some g)"

section \<open>Editing within a row\<close>

text \<open>\<open>for c in (col..end.saturating_sub(n)).rev() { row[c + n] = row[c].clone() }\<close>\<close>

definition shift_right :: "usize \<Rightarrow> usize \<Rightarrow> usize \<Rightarrow> row \<Rightarrow> row option" where
  "shift_right col stop n row = fold_opt (\<lambda>c row. do {
     x \<leftarrow> vec_get row c;
     vec_set row (c + n) x
   }) (rev [col..<stop - n]) row"

text \<open>\<open>for c in col..cols.saturating_sub(n) { row[c] = row.get(c + n).cloned().unwrap_or_default() }\<close>\<close>

definition shift_left :: "usize \<Rightarrow> usize \<Rightarrow> usize \<Rightarrow> row \<Rightarrow> row option" where
  "shift_left col stop n row = fold_opt (\<lambda>c row.
     vec_set row c (case vec_get row (c + n) of Some x \<Rightarrow> x | None \<Rightarrow> cell_default)) [col..<stop - n] row"

definition insert_characters :: "u16 \<Rightarrow> grid \<Rightarrow> grid option" where
  "insert_characters p0 g = do {
     let n = max p0 1;
     let col = g_cursor_col g;
     row \<leftarrow> vec_get (rs_rows (active_grid g)) (g_cursor_row g);
     let stop = min (g_cols g) (length row);
     row \<leftarrow> shift_right col stop n row;
     let row = map (\<lambda>i. if col \<le> i \<and> i < min (col + n) stop then cell_default else row ! i) [0..<length row];
     let row = (if col < stop then repair_wide_pairs row else row);
     g \<leftarrow> set_active_row (g_cursor_row g) row g;
     grid_mark_range (g_cursor_row g) (g_cursor_col g) (g_cols g) g
   }"

definition delete_characters :: "u16 \<Rightarrow> grid \<Rightarrow> grid option" where
  "delete_characters p0 g = do {
     let n = max p0 1;
     let cols = g_cols g;
     row \<leftarrow> vec_get (rs_rows (active_grid g)) (g_cursor_row g);
     row \<leftarrow> shift_left (g_cursor_col g) cols n row;
     let tail_start = cols - n;
     row \<leftarrow> slice_fill row tail_start cols cell_default;
     let row = repair_wide_pairs row;
     g \<leftarrow> set_active_row (g_cursor_row g) row g;
     grid_mark_range (g_cursor_row g) (g_cursor_col g) cols g
   }"

definition erase_characters :: "u16 \<Rightarrow> grid \<Rightarrow> grid option" where
  "erase_characters p0 g = do {
     let n = max p0 1;
     let col = g_cursor_col g;
     row \<leftarrow> vec_get (rs_rows (active_grid g)) (g_cursor_row g);
     let stop = min (col + n) (length row);
     let start = min col stop;
     row \<leftarrow> erase_cells_bce row start stop (blank_cell g);
     g \<leftarrow> set_active_row (g_cursor_row g) row g;
     grid_mark_range (g_cursor_row g) (g_cursor_col g) (as_u16 stop) g
   }"

section \<open>Inserting, deleting and scrolling lines\<close>

text \<open>The loops of IL, SD and RI: remove the row at \<open>bottom\<close>, insert a blank one at \<open>at\<close>.\<close>

definition push_down_once :: "usize \<Rightarrow> usize \<Rightarrow> u16 \<Rightarrow> row_store \<Rightarrow> row_store option" where
  "push_down_once at bottom cols s =
     (let s = (if bottom < rs_len s then snd (rs_remove s bottom) else s)
      in rs_insert s at (blank_row cols))"

text \<open>The loop of DL: remove the row at \<open>at\<close>, insert a blank one at \<open>bottom\<close>.\<close>

definition pull_up_once :: "usize \<Rightarrow> usize \<Rightarrow> u16 \<Rightarrow> row_store \<Rightarrow> row_store option" where
  "pull_up_once at bottom cols s =
     (let s = (if at < rs_len s then snd (rs_remove s at) else s)
      in if bottom < rs_len s + 1 then rs_insert s bottom (blank_row cols) else Some s)"

definition record_scroll :: "scroll_op \<Rightarrow> grid \<Rightarrow> grid" where
  "record_scroll op g = g\<lparr>g_scroll_ops := g_scroll_ops g @ [op]\<rparr>"

definition insert_lines :: "u16 \<Rightarrow> grid \<Rightarrow> grid option" where
  "insert_lines p0 g =
     (let row = g_cursor_row g; bottom = g_scroll_bottom g in
      if row < g_scroll_top g \<or> bottom < row then Some g
      else do {
        d \<leftarrow> u16_sub bottom row;
        h \<leftarrow> u16_add d 1;
        let n = min (max p0 1) h;
        let g = record_scroll (ScrollDown row bottom n) g;
        s \<leftarrow> repeat_opt n (push_down_once row bottom (g_cols g)) (active_grid g);
        Some (grid_mark_all (put_active s g))
      })"

definition delete_lines :: "u16 \<Rightarrow> grid \<Rightarrow> grid option" where
  "delete_lines p0 g =
     (let row = g_cursor_row g; bottom = g_scroll_bottom g in
      if row < g_scroll_top g \<or> bottom < row then Some g
      else do {
        d \<leftarrow> u16_sub bottom row;
        h \<leftarrow> u16_add d 1;
        let n = min (max p0 1) h;
        let g = record_scroll (ScrollUp row bottom n) g;
        s \<leftarrow> repeat_opt n (pull_up_once row bottom (g_cols g)) (active_grid g);
        Some (grid_mark_all (put_active s g))
      })"

definition scroll_down :: "u16 \<Rightarrow> grid \<Rightarrow> grid option" where
  "scroll_down p0 g = do {
     d \<leftarrow> u16_sub (g_scroll_bottom g) (g_scroll_top g);
     h \<leftarrow> u16_add d 1;
     let n = min (max p0 1) h;
     let g = record_scroll (ScrollDown (g_scroll_top g) (g_scroll_bottom g) n) g;
     s \<leftarrow> repeat_opt n (push_down_once (g_scroll_top g) (g_scroll_bottom g) (g_cols g)) (active_grid g);
     Some (grid_mark_all (put_active s g))
   }"

definition reverse_index :: "grid \<Rightarrow> grid option" where
  "reverse_index g =
     (let g = clear_pending_wrap g in
      if g_cursor_row g = g_scroll_top g then do {
        let g = record_scroll (ScrollDown (g_scroll_top g) (g_scroll_bottom g) 1) g;
        s \<leftarrow> push_down_once (g_scroll_top g) (g_scroll_bottom g) (g_cols g) (active_grid g);
        Some (grid_mark_all (put_active s g))
      }
      else Some (g\<lparr>g_cursor_row := g_cursor_row g - 1\<rparr>))"

section \<open>CSI dispatch\<close>

definition set_scroll_region :: "u16 \<Rightarrow> u16 \<Rightarrow> grid \<Rightarrow> grid" where
  "set_scroll_region p0 p1 g =
     (let t = p0 - 1;
          b = (if p1 = 0 then g_rows g - 1 else min (p1 - 1) (g_rows g - 1));
          g = (if t < b then g\<lparr>g_scroll_top := t, g_scroll_bottom := b\<rparr>
               else g\<lparr>g_scroll_top := 0, g_scroll_bottom := g_rows g - 1\<rparr>)
      in g\<lparr>g_cursor_row := 0, g_cursor_col := 0\<rparr>)"

definition kitty_push :: "u16 \<Rightarrow> grid \<Rightarrow> grid" where
  "kitty_push p0 g =
     (let flags = max p0 1;
          g = (if length (g_kitty_kb_stack g) < KITTY_KB_STACK_CAP
               then g\<lparr>g_kitty_kb_stack := g_kitty_kb_stack g @ [flags]\<rparr> else g)
      in push_event (UnhandledCsi (esc ''[>'' @ decimal flags @ bytes ''u'')) g)"

definition kitty_pop :: "u16 \<Rightarrow> grid \<Rightarrow> grid" where
  "kitty_pop p0 g =
     (let count = max p0 1;
          stack = g_kitty_kb_stack g;
          g = g\<lparr>g_kitty_kb_stack := (butlast ^^ min count (length stack)) stack\<rparr>
      in push_event (UnhandledCsi (esc ''[<'' @ decimal count @ bytes ''u'')) g)"

definition status_report :: "u16 \<Rightarrow> bool \<Rightarrow> grid \<Rightarrow> grid" where
  "status_report p0 dec g =
     (let reply =
        (if p0 = 5 then esc ''[0n''
         else if p0 = 6 then
           (let row = u16_sat_add (g_cursor_row g) 1;
                col = u16_sat_add (min (g_cursor_col g) (g_cols g - 1)) 1
            in if dec then esc ''[?'' @ decimal row @ bytes '';'' @ decimal col @ bytes '';1R''
               else esc ''['' @ decimal row @ bytes '';'' @ decimal col @ bytes ''R'')
         else [])
      in if reply \<noteq> [] then push_event (Reply reply) g else g)"

definition mode_report :: "u16 \<Rightarrow> bool \<Rightarrow> grid \<Rightarrow> grid" where
  "mode_report p0 dec g =
     (let status = (if dec then decrqm_status g p0 else 0)
      in push_event (Reply (if dec
           then esc ''[?'' @ decimal p0 @ bytes '';'' @ decimal status @ bytes ''$y''
           else esc ''['' @ decimal p0 @ bytes '';'' @ decimal status @ bytes ''$y'')) g)"

definition soft_reset :: "grid \<Rightarrow> grid" where
  "soft_reset g =
     (let g = g\<lparr>g_current_attrs := attrs_default, g_scroll_top := 0, g_scroll_bottom := g_rows g - 1\<rparr>;
          g = restore_autowrap g;
          g = g\<lparr>g_last_print := None\<rparr>;
          g = clear_flag HIDE_CURSOR g;
          g = clear_flag APPLICATION_CURSOR g;
          g = clear_flag APPLICATION_KEYPAD g
      in g\<lparr>g_saved_cursor_row := 0, g_saved_cursor_col := 0\<rparr>)"

definition char_in :: "uchar \<Rightarrow> string \<Rightarrow> bool" where
  "char_in c s \<longleftrightarrow> list_ex (\<lambda>d. c = of_char d) s"

definition is_char :: "uchar \<Rightarrow> char \<Rightarrow> bool" where
  "is_char c d \<longleftrightarrow> c = of_char d"

definition csi_dispatch :: "params \<Rightarrow> u8 list \<Rightarrow> bool \<Rightarrow> uchar \<Rightarrow> grid \<Rightarrow> grid option" where
  "csi_dispatch ps intermediates ignore action g =
     (let p = map first_or_0 ps;
          p0 = (if p = [] then 0 else p ! 0);
          p1 = (if length p < 2 then 0 else p ! 1);
          g = (if char_in action ''ABCDEFGHfdr'' then clear_pending_wrap g else g);
          n = max p0 1;
          dropped = (let bs = reconstruct_csi ps intermediates (byte (action mod 256))
                     in if bs \<noteq> [] then push_event (DroppedCsi bs) g else g)
      in if is_char action CHR ''@'' then insert_characters p0 g
         else if is_char action CHR ''A'' then Some (clamp_cursor (g\<lparr>g_cursor_row := g_cursor_row g - n\<rparr>))
         else if is_char action CHR ''B'' then
           Some (clamp_cursor (g\<lparr>g_cursor_row := add_cursor_offset (g_cursor_row g) n (g_rows g - 1)\<rparr>))
         else if is_char action CHR ''C'' then
           Some (clamp_cursor (g\<lparr>g_cursor_col := add_cursor_offset (g_cursor_col g) n (g_cols g - 1)\<rparr>))
         else if is_char action CHR ''D'' then Some (clamp_cursor (g\<lparr>g_cursor_col := g_cursor_col g - n\<rparr>))
         else if is_char action CHR ''E'' then
           Some (g\<lparr>g_cursor_row := add_cursor_offset (g_cursor_row g) n (g_rows g - 1), g_cursor_col := 0\<rparr>)
         else if is_char action CHR ''F'' then
           Some (g\<lparr>g_cursor_row := g_cursor_row g - n, g_cursor_col := 0\<rparr>)
         else if is_char action CHR ''G'' then Some (g\<lparr>g_cursor_col := min (p0 - 1) (g_cols g - 1)\<rparr>)
         else if is_char action CHR ''H'' \<or> is_char action CHR ''f'' then
           Some (g\<lparr>g_cursor_row := min (p0 - 1) (g_rows g - 1), g_cursor_col := min (p1 - 1) (g_cols g - 1)\<rparr>)
         else if is_char action CHR ''J'' \<and> (intermediates = [] \<or> intermediates = bytes ''?'') then erase_display p0 g
         else if is_char action CHR ''K'' \<and> (intermediates = [] \<or> intermediates = bytes ''?'') then erase_line p0 g
         else if is_char action CHR ''L'' then insert_lines p0 g
         else if is_char action CHR ''M'' then delete_lines p0 g
         else if is_char action CHR ''P'' then delete_characters p0 g
         else if is_char action CHR ''S'' then scroll_up n Hard g
         else if is_char action CHR ''T'' then scroll_down p0 g
         else if is_char action CHR ''X'' then erase_characters p0 g
         else if is_char action CHR ''d'' then Some (g\<lparr>g_cursor_row := min (p0 - 1) (g_rows g - 1)\<rparr>)
         else if is_char action CHR ''m'' \<and> intermediates = [] then
           Some (g\<lparr>g_current_attrs := apply_sgr (g_current_attrs g) ps\<rparr>)
         else if is_char action CHR ''h'' \<and> intermediates = bytes ''?'' then
           Some (foldl (\<lambda>g mode. set_dec_mode mode True g) g p)
         else if is_char action CHR ''l'' \<and> intermediates = bytes ''?'' then
           Some (foldl (\<lambda>g mode. set_dec_mode mode False g) g p)
         else if is_char action CHR ''r'' then Some (set_scroll_region p0 p1 g)
         else if is_char action CHR ''s'' then Some (save_cursor g)
         else if is_char action CHR ''u'' \<and> intermediates = [] then Some (restore_saved_cursor g)
         else if is_char action CHR ''u'' \<and> intermediates = bytes ''>'' then Some (kitty_push p0 g)
         else if is_char action CHR ''u'' \<and> intermediates = bytes ''<'' then Some (kitty_pop p0 g)
         else if is_char action CHR ''u'' \<and> intermediates = bytes ''?'' then Some (push_event (Reply (esc ''[?0u'')) g)
         else if is_char action CHR ''c'' then
           Some (if intermediates = [] then push_event (Reply (esc ''[?62c'')) g
                 else if intermediates = bytes ''>'' then push_event (Reply (esc ''[>0;0;0c'')) g
                 else g)
         else if is_char action CHR ''n'' \<and> (intermediates = [] \<or> intermediates = bytes ''?'') then
           Some (status_report p0 (intermediates = bytes ''?'') g)
         else if is_char action CHR ''p'' \<and> of_char (CHR ''$'') \<in> set intermediates then
           Some (mode_report p0 (of_char (CHR ''?'') \<in> set intermediates) g)
         else if is_char action CHR ''q'' \<and> intermediates = bytes '' '' then Some (g\<lparr>g_cursor_style := p0\<rparr>)
         else if is_char action CHR ''p'' \<and> intermediates = bytes ''!'' then Some (soft_reset g)
         else if is_char action CHR ''m'' \<and> intermediates = bytes ''>'' \<and> p0 = 4 then
           Some (let bs = reconstruct_csi ps intermediates (byte (action mod 256))
                 in if bs \<noteq> [] then push_event (UnhandledCsi bs) g else g)
         else if is_char action CHR ''q'' \<and> intermediates = bytes ''>'' then Some g
         else Some dropped)"

section \<open>ESC dispatch\<close>

text \<open>RIS. The replaced stores return their rows to the arena when they are dropped.\<close>

definition full_reset :: "grid \<Rightarrow> grid" where
  "full_reset g =
     (let (blank, pool) = make_blank_grid (g_rows g) (g_cols g) (g_arena g);
          pool = snd (rs_clear (g_primary g) pool);
          pool = snd (rs_clear (g_alternate g) pool);
          g = g\<lparr>g_primary := blank, g_alternate := blank, g_arena := pool\<rparr>;
          g = clear_flag ALT_SCREEN g;
          g = clear_flag PENDING_WRAP g;
          g = g\<lparr>g_cursor_row := 0, g_cursor_col := 0, g_current_attrs := attrs_default,
                g_active_hyperlink := None, g_last_print := None, g_scroll_top := 0,
                g_scroll_bottom := g_rows g - 1\<rparr>;
          g = reset_modes g
      in grid_mark_all g)"

definition esc_dispatch :: "u8 list \<Rightarrow> bool \<Rightarrow> u8 \<Rightarrow> grid \<Rightarrow> grid option" where
  "esc_dispatch intermediates ignore b g =
     (if b = of_char (CHR ''M'') then reverse_index g
      else if b = of_char (CHR ''7'') then Some (save_cursor g)
      else if b = of_char (CHR ''8'') then Some (restore_saved_cursor g)
      else if b = of_char (CHR ''='') then Some (set_flag APPLICATION_KEYPAD g)
      else if b = of_char (CHR ''>'') then Some (clear_flag APPLICATION_KEYPAD g)
      else if b = of_char (CHR ''c'') then Some (full_reset g)
      else Some g)"

fun perform :: "unicode_width \<Rightarrow> perform_call \<Rightarrow> grid \<Rightarrow> grid option" where
  "perform uw (Print ch) g = write_char_at_cursor uw ch g"
| "perform uw (Execute b) g = execute b g"
| "perform uw (CsiDispatch ps intermediates ignore action) g = csi_dispatch ps intermediates ignore action g"
| "perform uw (EscDispatch intermediates ignore b) g = esc_dispatch intermediates ignore b g"
| "perform uw (OscDispatch ps bell) g = Some (handle_osc ps bell g)"
| "perform uw (Hook ps intermediates ignore action) g = Some g"
| "perform uw (Put b) g = Some g"
| "perform uw Unhook g = Some g"

section \<open>Shifting cells and lines\<close>

text \<open>What the two shift loops compute.\<close>

lemma fold_shift_right:
  assumes "a < m \<longrightarrow> m + n \<le> length row"
  shows "fold_opt (\<lambda>c row. do { x \<leftarrow> vec_get row c; vec_set row (c + n) x }) (rev [a..<m]) row
    = Some (map (\<lambda>i. if a + n \<le> i \<and> i < m + n then row ! (i - n) else row ! i) [0..<length row])"
  using assms
proof (induction m arbitrary: row)
  case 0
  show ?case by (auto intro!: nth_equalityI)
next
  case (Suc m)
  show ?case
  proof (cases "a \<le> m")
    case False
    then show ?thesis by (auto intro!: nth_equalityI)
  next
    case True
    let ?row = "row[m + n := row ! m]"
    have len: "m + n < length row" using Suc.prems True by simp
    have "fold_opt (\<lambda>c row. do { x \<leftarrow> vec_get row c; vec_set row (c + n) x }) (rev [a..<m]) ?row
        = Some (map (\<lambda>i. if a + n \<le> i \<and> i < m + n then ?row ! (i - n) else ?row ! i) [0..<length ?row])"
      using len by (intro Suc.IH) simp
    also have "map (\<lambda>i. if a + n \<le> i \<and> i < m + n then ?row ! (i - n) else ?row ! i) [0..<length ?row]
        = map (\<lambda>i. if a + n \<le> i \<and> i < Suc m + n then row ! (i - n) else row ! i) [0..<length row]"
      using len True by (intro nth_equalityI) (auto simp: nth_list_update less_Suc_eq)
    finally show ?thesis using True len by (simp add: vec_get_def vec_set_def)
  qed
qed

lemma fold_shift_left:
  assumes "0 < n" "m \<le> length row"
  shows "fold_opt (\<lambda>c row. vec_set row c (case vec_get row (c + n) of Some x \<Rightarrow> x | None \<Rightarrow> cell_default)) [a..<m] row
    = Some (map (\<lambda>i. if a \<le> i \<and> i < m then (if i + n < length row then row ! (i + n) else cell_default) else row ! i)
        [0..<length row])"
  using assms(2)
proof (induction m)
  case 0
  show ?case by (auto intro!: nth_equalityI)
next
  case (Suc m)
  show ?case
  proof (cases "a \<le> m")
    case False
    then show ?thesis by (auto intro!: nth_equalityI)
  next
    case True
    let ?f = "\<lambda>m i. if a \<le> i \<and> i < m then (if i + n < length row then row ! (i + n) else cell_default) else row ! i"
    have "(map (?f m) [0..<length row])[m := (if m + n < length row then row ! (m + n) else cell_default)]
        = map (?f (Suc m)) [0..<length row]"
      using Suc.prems True by (intro nth_equalityI) (auto simp: nth_list_update less_Suc_eq)
    moreover have "(case vec_get (map (?f m) [0..<length row]) (m + n) of Some x \<Rightarrow> x | None \<Rightarrow> cell_default)
        = (if m + n < length row then row ! (m + n) else cell_default)"
      using assms(1) by (simp add: vec_get_def)
    ultimately show ?thesis
      using Suc True by (simp add: fold_opt_append vec_set_def)
  qed
qed

text \<open>The region \<open>[a..b]\<close> of a list moved down by \<open>n\<close>, with \<open>n\<close> copies of \<open>x\<close> entering at the top.\<close>

definition shift_down :: "nat \<Rightarrow> nat \<Rightarrow> nat \<Rightarrow> 'a \<Rightarrow> 'a list \<Rightarrow> 'a list" where
  "shift_down a b n x xs =
     take a xs @ replicate n x @ drop a (take (Suc b - n) xs) @ drop (Suc b) xs"

lemma length_shift_down: "a + n \<le> Suc b \<Longrightarrow> b < length xs \<Longrightarrow> length (shift_down a b n x xs) = length xs"
  by (simp add: shift_down_def)

lemma nth_shift_down:
  assumes "a + n \<le> Suc b" "b < length xs" "i < length xs"
  shows "shift_down a b n x xs ! i =
    (if i < a \<or> b < i then xs ! i else if i < a + n then x else xs ! (i - n))"
  using assms by (auto simp: shift_down_def nth_append min_def)

lemma shift_down_0 [simp]: "a \<le> Suc b \<Longrightarrow> b < length xs \<Longrightarrow> shift_down a b 0 x xs = xs"
  by (intro nth_equalityI) (simp_all add: length_shift_down nth_shift_down)

lemma shift_down_Suc:
  assumes "a + Suc n \<le> Suc b" "b < length xs"
  shows "shift_down a b n x (shift_down a b 1 x xs) = shift_down a b (Suc n) x xs"
  using assms by (intro nth_equalityI) (auto simp: length_shift_down nth_shift_down)

lemma set_shift_down: "set (shift_down a b n x xs) \<subseteq> insert x (set xs)"
  by (auto simp: shift_down_def dest: in_set_takeD in_set_dropD)

lemma remove_insert_shift_down:
  assumes "a \<le> b" "b < length xs"
  shows "deque_insert (take b xs @ drop (Suc b) xs) a x = shift_down a b 1 x xs"
proof -
  have "take a (take b xs @ drop (Suc b) xs) = take a xs" using assms by (simp add: min_def)
  moreover have "drop a (take b xs @ drop (Suc b) xs) = drop a (take b xs) @ drop (Suc b) xs"
    using assms by simp
  ultimately show ?thesis by (simp add: deque_insert_def shift_down_def)
qed

definition shift_store_down :: "nat \<Rightarrow> nat \<Rightarrow> nat \<Rightarrow> u16 \<Rightarrow> row_store \<Rightarrow> row_store" where
  "shift_store_down a b n cols s =
     \<lparr>rs_rows = shift_down a b n (blank_row cols) (rs_rows s), rs_wraps = shift_down a b n Hard (rs_wraps s)\<rparr>"

definition shift_store_up :: "nat \<Rightarrow> nat \<Rightarrow> nat \<Rightarrow> u16 \<Rightarrow> row_store \<Rightarrow> row_store" where
  "shift_store_up a b n cols s =
     \<lparr>rs_rows = shift_up a b n (blank_row cols) (rs_rows s), rs_wraps = shift_up a b n Hard (rs_wraps s)\<rparr>"

lemma store_ok_shift_store:
  assumes "store_ok rows cols s" "a + n \<le> Suc b" "b < rows"
  shows "store_ok rows cols (shift_store_down a b n cols s)" "store_ok rows cols (shift_store_up a b n cols s)"
  using assms set_shift_down [of a b n "blank_row cols" "rs_rows s"] store_ok_shift_up [OF assms, of Hard]
  by (auto simp: store_ok_def shift_store_down_def shift_store_up_def length_shift_down list_all_iff)

lemma push_down_once_eq:
  assumes "store_ok rows cols s" "a \<le> b" "b < rows"
  shows "push_down_once a b cols s = Some (shift_store_down a b 1 cols s)"
proof -
  have len: "length (rs_rows s) = rows" "length (rs_wraps s) = rows" using assms(1) by (auto simp: store_ok_def)
  have "rs_remove_with_wrap s b = (Some (rs_rows s ! b, rs_wraps s ! b),
      \<lparr>rs_rows = take b (rs_rows s) @ drop (Suc b) (rs_rows s), rs_wraps = take b (rs_wraps s) @ drop (Suc b) (rs_wraps s)\<rparr>)"
    using len assms(3) by (intro rs_remove_rows) simp_all
  then show ?thesis
    using len assms(2,3)
    by (simp add: push_down_once_def rs_len_def rs_remove_def rs_insert_def rs_insert_with_wrap_def Let_def
        remove_insert_shift_down shift_store_down_def)
qed

lemma pull_up_once_eq:
  assumes "store_ok rows cols s" "a \<le> b" "b < rows"
  shows "pull_up_once a b cols s = Some (shift_store_up a b 1 cols s)"
proof -
  have len: "length (rs_rows s) = rows" "length (rs_wraps s) = rows" using assms(1) by (auto simp: store_ok_def)
  have "rs_remove_with_wrap s a = (Some (rs_rows s ! a, rs_wraps s ! a),
      \<lparr>rs_rows = take a (rs_rows s) @ drop (Suc a) (rs_rows s), rs_wraps = take a (rs_wraps s) @ drop (Suc a) (rs_wraps s)\<rparr>)"
    using len assms(2,3) by (intro rs_remove_rows) simp_all
  moreover have "\<not> rows - 1 < b" using assms(3) by simp
  ultimately show ?thesis
    using len assms(2,3)
    by (simp add: pull_up_once_def rs_len_def rs_remove_def rs_insert_def rs_insert_with_wrap_def Let_def
        remove_insert_shift_up shift_store_up_def)
qed

lemma repeat_push_down:
  assumes "store_ok rows cols s" "a + n \<le> Suc b" "a \<le> b" "b < rows"
  shows "repeat_opt n (push_down_once a b cols) s = Some (shift_store_down a b n cols s)"
  using assms
proof (induction n arbitrary: s)
  case 0
  then show ?case by (simp add: shift_store_down_def store_ok_def)
next
  case (Suc n)
  have one: "store_ok rows cols (shift_store_down a b 1 cols s)"
    using Suc.prems by (intro store_ok_shift_store) auto
  show ?case
    using Suc.prems Suc.IH [OF one] push_down_once_eq [OF Suc.prems(1,3,4)]
    by (simp add: shift_store_down_def store_ok_def shift_down_Suc del: One_nat_def)
qed

lemma repeat_pull_up:
  assumes "store_ok rows cols s" "a + n \<le> Suc b" "a \<le> b" "b < rows"
  shows "repeat_opt n (pull_up_once a b cols) s = Some (shift_store_up a b n cols s)"
  using assms
proof (induction n arbitrary: s)
  case 0
  then show ?case by (simp add: shift_store_up_def store_ok_def)
next
  case (Suc n)
  have one: "store_ok rows cols (shift_store_up a b 1 cols s)"
    using Suc.prems by (intro store_ok_shift_store) auto
  show ?case
    using Suc.prems Suc.IH [OF one] pull_up_once_eq [OF Suc.prems(1,3,4)]
    by (simp add: shift_store_up_def store_ok_def shift_up_Suc del: One_nat_def)
qed

section \<open>Safety of the actions\<close>

subsection \<open>Lines\<close>

lemma record_scroll_fields [simp]:
  "active_grid (record_scroll op g) = active_grid g" "g_rows (record_scroll op g) = g_rows g"
  "g_cols (record_scroll op g) = g_cols g" "g_dirty (record_scroll op g) = g_dirty g"
  "g_scroll_top (record_scroll op g) = g_scroll_top g" "g_scroll_bottom (record_scroll op g) = g_scroll_bottom g"
  "g_scrollback (record_scroll op g) = g_scrollback g"
  by (simp_all add: record_scroll_def)

lemma record_scroll_inv [simp]: "grid_inv (record_scroll op g) \<longleftrightarrow> grid_inv g"
  by (simp add: record_scroll_def grid_inv_def inv_part_defs has_flag_def)

lemma replace_screen_step:
  assumes "grid_inv g" "store_ok (g_rows g) (g_cols g) s"
  shows "step_ok g (grid_mark_all (put_active s (record_scroll op g)))"
    "active_grid (grid_mark_all (put_active s (record_scroll op g))) = s"
proof -
  show "step_ok g (grid_mark_all (put_active s (record_scroll op g)))"
    using assms by (intro step_ok_all_dirty mark_all_inv put_active_inv) simp_all
  show "active_grid (grid_mark_all (put_active s (record_scroll op g))) = s"
    by (simp add: grid_mark_all_def)
qed

text \<open>The number of lines an insert or delete moves: at least one, at most to the bottom margin.\<close>

definition lines_moved :: "u16 \<Rightarrow> nat \<Rightarrow> nat \<Rightarrow> nat" where
  "lines_moved p0 a b = min (max p0 1) (b - a + 1)"

lemma lines_moved_le: "a \<le> b \<Longrightarrow> a + lines_moved p0 a b \<le> Suc b"
  by (simp add: lines_moved_def)

lemma height_fits: "grid_inv g \<Longrightarrow> b < g_rows g \<Longrightarrow> b - a + 1 \<le> u16_max"
  by (auto simp: grid_inv_def dims_ok_def)

lemma insert_lines_spec:
  assumes inv: "grid_inv g"
  defines "a \<equiv> g_cursor_row g" and "b \<equiv> g_scroll_bottom g"
  shows "ok (insert_lines p0 g) (\<lambda>g'. step_ok g g' \<and> active_grid g' =
    (if g_scroll_top g \<le> a \<and> a \<le> b then shift_store_down a b (lines_moved p0 a b) (g_cols g) (active_grid g)
     else active_grid g))"
proof (cases "g_scroll_top g \<le> a \<and> a \<le> b")
  case False
  with inv show ?thesis by (auto simp: insert_lines_def a_def b_def)
next
  case True
  have b: "b < g_rows g" using inv by (simp add: b_def grid_inv_def region_ok_def)
  note st = active_ok [OF inv]
  have "repeat_opt (lines_moved p0 a b) (push_down_once a b (g_cols g)) (active_grid g)
      = Some (shift_store_down a b (lines_moved p0 a b) (g_cols g) (active_grid g))"
    using True b by (intro repeat_push_down [OF st] lines_moved_le) auto
  moreover have "store_ok (g_rows g) (g_cols g) (shift_store_down a b (lines_moved p0 a b) (g_cols g) (active_grid g))"
    using True b by (intro store_ok_shift_store [OF st] lines_moved_le) auto
  moreover note height_fits [OF inv b, of a]
  ultimately show ?thesis
    using True replace_screen_step [OF inv]
    by (simp add: insert_lines_def a_def [symmetric] b_def [symmetric] u16_sub_def u16_add_def lines_moved_def
        Let_def)
qed

lemma delete_lines_spec:
  assumes inv: "grid_inv g"
  defines "a \<equiv> g_cursor_row g" and "b \<equiv> g_scroll_bottom g"
  shows "ok (delete_lines p0 g) (\<lambda>g'. step_ok g g' \<and> active_grid g' =
    (if g_scroll_top g \<le> a \<and> a \<le> b then shift_store_up a b (lines_moved p0 a b) (g_cols g) (active_grid g)
     else active_grid g))"
proof (cases "g_scroll_top g \<le> a \<and> a \<le> b")
  case False
  with inv show ?thesis by (auto simp: delete_lines_def a_def b_def)
next
  case True
  have b: "b < g_rows g" using inv by (simp add: b_def grid_inv_def region_ok_def)
  note st = active_ok [OF inv]
  have "repeat_opt (lines_moved p0 a b) (pull_up_once a b (g_cols g)) (active_grid g)
      = Some (shift_store_up a b (lines_moved p0 a b) (g_cols g) (active_grid g))"
    using True b by (intro repeat_pull_up [OF st] lines_moved_le) auto
  moreover have "store_ok (g_rows g) (g_cols g) (shift_store_up a b (lines_moved p0 a b) (g_cols g) (active_grid g))"
    using True b by (intro store_ok_shift_store [OF st] lines_moved_le) auto
  moreover note height_fits [OF inv b, of a]
  ultimately show ?thesis
    using True replace_screen_step [OF inv]
    by (simp add: delete_lines_def a_def [symmetric] b_def [symmetric] u16_sub_def u16_add_def lines_moved_def
        Let_def)
qed

lemma scroll_down_spec:
  assumes inv: "grid_inv g"
  defines "a \<equiv> g_scroll_top g" and "b \<equiv> g_scroll_bottom g"
  shows "ok (scroll_down p0 g) (\<lambda>g'. step_ok g g' \<and> g_scrollback g' = g_scrollback g
    \<and> active_grid g' = shift_store_down a b (lines_moved p0 a b) (g_cols g) (active_grid g))"
proof -
  have b: "b < g_rows g" and ab: "a \<le> b" using inv by (auto simp: a_def b_def grid_inv_def region_ok_def)
  note st = active_ok [OF inv]
  have "repeat_opt (lines_moved p0 a b) (push_down_once a b (g_cols g)) (active_grid g)
      = Some (shift_store_down a b (lines_moved p0 a b) (g_cols g) (active_grid g))"
    using ab b by (intro repeat_push_down [OF st] lines_moved_le) auto
  moreover have "store_ok (g_rows g) (g_cols g) (shift_store_down a b (lines_moved p0 a b) (g_cols g) (active_grid g))"
    using ab b by (intro store_ok_shift_store [OF st] lines_moved_le) auto
  moreover have "g_scrollback (grid_mark_all (put_active s (record_scroll op g))) = g_scrollback g" for s op
    by (simp add: grid_mark_all_def)
  moreover note height_fits [OF inv b, of a]
  ultimately show ?thesis
    using ab replace_screen_step [OF inv]
    by (simp add: scroll_down_def a_def [symmetric] b_def [symmetric] u16_sub_def u16_add_def lines_moved_def
        Let_def)
qed

lemma clear_pending_wrap_step: "grid_inv g \<Longrightarrow> step_ok g (clear_pending_wrap g)"
  by (rule step_ok_frame) (simp_all add: clear_pending_wrap_inv)

lemma reverse_index_spec:
  assumes inv: "grid_inv g"
  shows "ok (reverse_index g) (\<lambda>g'. step_ok g g'
    \<and> active_grid g' = (if g_cursor_row g = g_scroll_top g
        then shift_store_down (g_scroll_top g) (g_scroll_bottom g) 1 (g_cols g) (active_grid g) else active_grid g)
    \<and> (g_cursor_row g \<noteq> g_scroll_top g \<longrightarrow> g_cursor_row g' = g_cursor_row g - 1))"
proof -
  define h where "h = clear_pending_wrap g"
  have h: "grid_inv h" "step_ok g h" "\<not> has_flag h PENDING_WRAP" "g_cursor_col h < g_cols g"
    using clear_pending_wrap_inv [OF inv] clear_pending_wrap_step [OF inv] by (simp_all add: h_def)
  have same: "g_cursor_row h = g_cursor_row g" "g_scroll_top h = g_scroll_top g" "g_scroll_bottom h = g_scroll_bottom g"
    "g_cols h = g_cols g" "g_rows h = g_rows g" "active_grid h = active_grid g" "g_dirty h = g_dirty g"
    by (simp_all add: h_def)
  have r: "g_scroll_top g \<le> g_scroll_bottom g" "g_scroll_bottom g < g_rows g" "g_cursor_row g < g_rows g"
    using inv by (auto simp: grid_inv_def region_ok_def cursor_ok_def)
  note st = active_ok [OF h(1), unfolded same]
  have eq: "reverse_index g = (if g_cursor_row g = g_scroll_top g then do {
        s \<leftarrow> push_down_once (g_scroll_top g) (g_scroll_bottom g) (g_cols g) (active_grid g);
        Some (grid_mark_all (put_active s (record_scroll (ScrollDown (g_scroll_top g) (g_scroll_bottom g) 1) h)))
      } else Some (h\<lparr>g_cursor_row := g_cursor_row g - 1\<rparr>))"
    by (simp add: reverse_index_def h_def [symmetric] same)
  show ?thesis
  proof (cases "g_cursor_row g = g_scroll_top g")
    case True
    have "store_ok (g_rows h) (g_cols h) (shift_store_down (g_scroll_top g) (g_scroll_bottom g) 1 (g_cols g) (active_grid g))"
      unfolding same using r by (intro store_ok_shift_store [OF st]) auto
    note rep = replace_screen_step [OF h(1) this]
    show ?thesis
      using True push_down_once_eq [OF st r(1,2)] rep step_ok_trans [OF h(2) rep(1)] by (simp add: eq)
  next
    case False
    have "grid_inv (h\<lparr>g_cursor_row := g_cursor_row g - 1\<rparr>)"
      using h r by (intro move_cursor_inv(3)) (auto simp: same)
    then have "step_ok h (h\<lparr>g_cursor_row := g_cursor_row g - 1\<rparr>)" by (rule step_ok_frame) simp_all
    with False step_ok_trans [OF h(2)] show ?thesis by (simp add: eq same)
  qed
qed

subsection \<open>Cells\<close>

lemma repaired_good_row:
  assumes "list_all not_both row" "list_all cell_ok row" "length row = n"
  shows "good_row n (repair_wide_pairs row)"
proof -
  note r = repair_wide_pairs_ok [OF assms(1)]
  have "cell_ok (repair_wide_pairs row ! j)" if "j < length row" for j
    using r(3) [OF that] assms(2) that by (auto simp: list_all_length)
  then show ?thesis using r assms(3) by (simp add: good_row_def list_all_length)
qed

lemma good_row_cells: "good_row n row \<Longrightarrow> i < n \<Longrightarrow> not_both (row ! i) \<and> cell_ok (row ! i)"
  using row_ok_not_both_all [of row] by (auto simp: good_row_def list_all_length)

lemma not_both_default [simp]: "not_both cell_default"
  by (simp add: not_both_def)

text \<open>The rows that ICH and DCH leave, before and after the repair of split pairs.\<close>

definition ich_shifted :: "row \<Rightarrow> usize \<Rightarrow> usize \<Rightarrow> row" where
  "ich_shifted row col n = map (\<lambda>i. if col \<le> i then (if i < col + n then cell_default else row ! (i - n)) else row ! i)
     [0..<length row]"

definition dch_shifted :: "row \<Rightarrow> usize \<Rightarrow> usize \<Rightarrow> row" where
  "dch_shifted row col n = map (\<lambda>i. if length row \<le> i + n then cell_default else if col \<le> i then row ! (i + n) else row ! i)
     [0..<length row]"

lemma shifted_good:
  assumes "good_row n row"
  shows "good_row n (repair_wide_pairs (ich_shifted row c k))" "good_row n (repair_wide_pairs (dch_shifted row c k))"
proof -
  have len: "length row = n" using assms by (simp add: good_row_def)
  note cells = good_row_cells [OF assms]
  show "good_row n (repair_wide_pairs (ich_shifted row c k))"
    by (rule repaired_good_row) (use cells len in \<open>auto simp: ich_shifted_def list_all_length\<close>)
  show "good_row n (repair_wide_pairs (dch_shifted row c k))"
    by (rule repaired_good_row) (use cells len in \<open>auto simp: dch_shifted_def list_all_length\<close>)
qed

lemma insert_characters_spec:
  assumes inv: "grid_inv g"
  defines "row \<equiv> rs_rows (active_grid g) ! g_cursor_row g"
  shows "ok (insert_characters p0 g) (\<lambda>g'. step_ok g g' \<and> rs_rows (active_grid g') =
    (if g_cursor_col g < g_cols g
     then (rs_rows (active_grid g))[g_cursor_row g := repair_wide_pairs (ich_shifted row (g_cursor_col g) (max p0 1))]
     else rs_rows (active_grid g)))"
proof -
  let ?r = "g_cursor_row g" and ?c = "g_cursor_col g" and ?n = "max p0 1"
  have d: "?r < g_rows g" "?c \<le> g_cols g" using inv by (auto simp: grid_inv_def cursor_ok_def)
  note rw = active_row [OF inv d(1), folded row_def]
  define row1 where "row1 = map (\<lambda>i. if ?c + ?n \<le> i \<and> i < g_cols g - ?n + ?n then row ! (i - ?n) else row ! i) [0..<length row]"
  have sh: "shift_right ?c (g_cols g) ?n row = Some row1"
    unfolding shift_right_def row1_def using rw(3) by (intro fold_shift_right) auto
  define row2 where "row2 = map (\<lambda>i. if ?c \<le> i \<and> i < min (?c + ?n) (g_cols g) then cell_default else row1 ! i) [0..<length row1]"
  have row2: "row2 = (if ?c < g_cols g then ich_shifted row ?c ?n else row)"
    using d(2) rw(3) by (intro nth_equalityI) (auto simp: row2_def row1_def ich_shifted_def)
  define row3 where "row3 = (if ?c < g_cols g then repair_wide_pairs (ich_shifted row ?c ?n) else row)"
  have good: "good_row (g_cols g) row3" using rw(2) shifted_good(1) [OF rw(2)] by (simp add: row3_def)
  have mark: "?c < g_cols g \<or> row3 = rs_rows (active_grid g) ! ?r" by (simp add: row3_def row_def)
  obtain g1 t where g1: "set_active_row ?r row3 g = Some g1"
    "g1 = put_active (active_grid g\<lparr>rs_rows := (rs_rows (active_grid g))[?r := row3]\<rparr>) g"
    "grid_mark_range ?r ?c (g_cols g) g1 = Some (g1\<lparr>g_dirty := t\<rparr>)" "step_ok g (g1\<lparr>g_dirty := t\<rparr>)"
    by (rule edit_row_step [OF inv d(1) good mark])
  have get: "vec_get (rs_rows (active_grid g)) ?r = Some row" using rw(1) by (simp add: row_def)
  have fields: "g_cursor_row g1 = ?r" "g_cursor_col g1 = ?c" "g_cols g1 = g_cols g" by (simp_all add: g1(2))
  have "insert_characters p0 g = Some (g1\<lparr>g_dirty := t\<rparr>)"
  proof -
    have "(if ?c < g_cols g then repair_wide_pairs row2 else row2) = row3" by (simp add: row2 row3_def)
    moreover have stop: "min (g_cols g) (length row) = g_cols g" using rw(3) by simp
    ultimately show ?thesis
      using g1(1,3) fields
      unfolding insert_characters_def get Option.bind.bind_lunit Let_def stop sh row2_def [symmetric] by simp
  qed
  with g1(2,4) show ?thesis by (simp add: row3_def row_def)
qed

lemma delete_characters_spec:
  assumes inv: "grid_inv g"
  defines "row \<equiv> rs_rows (active_grid g) ! g_cursor_row g"
  shows "ok (delete_characters p0 g) (\<lambda>g'. grid_inv g' \<and> g_rows g' = g_rows g \<and> g_cols g' = g_cols g
    \<and> (g_cursor_col g < g_cols g \<longrightarrow> step_ok g g')
    \<and> (g_cursor_col g = g_cols g \<longrightarrow> g_dirty g' = g_dirty g)
    \<and> rs_rows (active_grid g') =
      (rs_rows (active_grid g))[g_cursor_row g := repair_wide_pairs (dch_shifted row (g_cursor_col g) (max p0 1))])"
proof -
  let ?r = "g_cursor_row g" and ?c = "g_cursor_col g" and ?n = "max p0 1"
  have d: "?r < g_rows g" "?c \<le> g_cols g" using inv by (auto simp: grid_inv_def cursor_ok_def)
  note rw = active_row [OF inv d(1), folded row_def]
  define row1 where "row1 = map (\<lambda>i. if ?c \<le> i \<and> i < g_cols g - ?n
      then (if i + ?n < length row then row ! (i + ?n) else cell_default) else row ! i) [0..<length row]"
  have sh: "shift_left ?c (g_cols g) ?n row = Some row1"
    unfolding shift_left_def row1_def using rw(3) by (intro fold_shift_left) auto
  have fill: "slice_fill row1 (g_cols g - ?n) (g_cols g) cell_default = Some (dch_shifted row ?c ?n)"
  proof -
    have "take (g_cols g - ?n) row1 @ replicate (g_cols g - (g_cols g - ?n)) cell_default @ drop (g_cols g) row1
        = dch_shifted row ?c ?n"
      using rw(3) by (intro nth_equalityI) (auto simp: row1_def dch_shifted_def nth_append)
    then show ?thesis by (simp add: slice_fill_def row1_def rw(3))
  qed
  define row3 where "row3 = repair_wide_pairs (dch_shifted row ?c ?n)"
  have good: "good_row (g_cols g) row3" using shifted_good(2) [OF rw(2)] by (simp add: row3_def)
  have get: "vec_get (rs_rows (active_grid g)) ?r = Some row" using rw(1) by (simp add: row_def)
  obtain g1 where g1: "set_active_row ?r row3 g = Some g1" "grid_inv g1"
    "g1 = put_active (active_grid g\<lparr>rs_rows := (rs_rows (active_grid g))[?r := row3]\<rparr>) g"
    by (rule set_active_row_inv [OF inv d(1) good])
  have fields: "g_cursor_row g1 = ?r" "g_cursor_col g1 = ?c" "g_cols g1 = g_cols g" "g_rows g1 = g_rows g"
    "g_dirty g1 = g_dirty g" by (simp_all add: g1(3))
  have eq: "delete_characters p0 g = grid_mark_range ?r ?c (g_cols g) g1"
    using g1(1) fields by (simp add: delete_characters_def get sh fill row3_def Let_def del: One_nat_def)
  show ?thesis
  proof (cases "?c < g_cols g")
    case True
    have "rs_rows (active_grid g1) = (rs_rows (active_grid g))[?r := row3]" by (simp add: g1(3))
    then obtain t where "grid_mark_range ?r ?c (g_cols g) g1 = Some (g1\<lparr>g_dirty := t\<rparr>)" "step_ok g (g1\<lparr>g_dirty := t\<rparr>)"
      using True by (rule edit_then_mark [OF g1(2) fields(4,3,5)])
    with True show ?thesis
      by (simp add: eq step_ok_inv) (simp add: g1(3) row3_def row_def)
  next
    case False
    then have "grid_mark_range ?r ?c (g_cols g) g1 = Some g1"
      by (simp add: grid_mark_range_def mark_range_def)
    with False g1(2) fields show ?thesis by (simp add: eq) (simp add: g1(3) row3_def row_def)
  qed
qed

lemma erase_characters_spec:
  fixes g :: "grid" and p0 :: u16
  assumes inv: "grid_inv g"
  defines "row \<equiv> rs_rows (active_grid g) ! g_cursor_row g" and "stop \<equiv> min (g_cursor_col g + max p0 1) (g_cols g)"
  shows "ok (erase_characters p0 g) (\<lambda>g'. step_ok g g' \<and> rs_rows (active_grid g') =
    (rs_rows (active_grid g))[g_cursor_row g := erased_row row (g_cursor_col g) stop (blank_cell g)])"
proof -
  let ?r = "g_cursor_row g" and ?c = "g_cursor_col g" and ?b = "blank_cell g"
  have d: "?r < g_rows g" "?c \<le> g_cols g" "g_cols g \<le> MAX_COLS"
    using inv by (auto simp: grid_inv_def cursor_ok_def dims_ok_def)
  note rw = active_row [OF inv d(1), folded row_def]
  have pre: "?c < stop \<or> ?c = g_cols g" "stop \<le> g_cols g" "?c \<le> stop" using d(2) by (auto simp: stop_def)
  have stop16: "as_u16 stop = stop" using pre(2) d(3) by (simp add: MAX_COLS_def)
  obtain g1 t where g1: "erase_cells_bce row ?c stop ?b = Some (erased_row row ?c stop ?b)"
    "set_active_row ?r (erased_row row ?c stop ?b) g = Some g1"
    "g1 = put_active (active_grid g\<lparr>rs_rows := (rs_rows (active_grid g))[?r := erased_row row ?c stop ?b]\<rparr>) g"
    "grid_mark_range ?r ?c stop g1 = Some (g1\<lparr>g_dirty := t\<rparr>)" "step_ok g (g1\<lparr>g_dirty := t\<rparr>)"
    unfolding row_def by (rule erase_active_row [OF inv d(1) pre pre(1) blank_cell_simps(1-3)])
  have get: "vec_get (rs_rows (active_grid g)) ?r = Some row" using rw(1) by (simp add: row_def)
  have start: "min ?c stop = ?c" using pre(3) by simp
  have fields: "g_cursor_row g1 = ?r" "g_cursor_col g1 = ?c" by (simp_all add: g1(3))
  have "erase_characters p0 g = Some (g1\<lparr>g_dirty := t\<rparr>)"
    using g1(1,2,4) fields
    by (simp add: erase_characters_def get rw(3) stop_def [symmetric] start stop16 Let_def del: One_nat_def)
  with g1(3,5) show ?thesis by simp
qed

subsection \<open>Cursor, modes and resets\<close>

lemma state_step:
  assumes "grid_inv g'" "g_rows g' = g_rows g" "g_cols g' = g_cols g" "active_grid g' = active_grid g"
    "g_dirty g' = g_dirty g"
  shows "step_ok g g'"
  using assms by (intro step_ok_frame) simp_all

lemma move_cursor_step:
  assumes "grid_inv g" "\<not> has_flag g PENDING_WRAP" "r < g_rows g" "c < g_cols g"
  shows "step_ok g (g\<lparr>g_cursor_row := r, g_cursor_col := c\<rparr>)" "step_ok g (g\<lparr>g_cursor_col := c\<rparr>)"
    "step_ok g (g\<lparr>g_cursor_row := r\<rparr>)"
  using move_cursor_inv [OF assms] by (auto intro!: step_ok_frame)

lemma clamp_cursor_eq:
  "clamp_cursor (g\<lparr>g_cursor_row := r\<rparr>) = g\<lparr>g_cursor_row := min r (g_rows g - 1), g_cursor_col := min (g_cursor_col g) (g_cols g - 1)\<rparr>"
  "clamp_cursor (g\<lparr>g_cursor_col := c\<rparr>) = g\<lparr>g_cursor_row := min (g_cursor_row g) (g_rows g - 1), g_cursor_col := min c (g_cols g - 1)\<rparr>"
  by (simp_all add: clamp_cursor_def)

lemma set_alt_screen_step: "grid_inv g \<Longrightarrow> step_ok g (set_alt_screen on g)"
  by (rule step_ok_all_dirty)
     (simp_all add: set_alt_screen_inv, simp_all add: set_alt_screen_def flag_op_defs)

lemma restore_saved_cursor_step: "grid_inv g \<Longrightarrow> step_ok g (restore_saved_cursor g)"
  by (rule state_step)
     (simp_all add: restore_saved_cursor_inv,
      auto simp: restore_saved_cursor_def Let_def clamp_cursor_def active_grid_def flag_op_defs)

lemma save_cursor_step: "grid_inv g \<Longrightarrow> step_ok g (save_cursor g)"
  by (rule state_step) (simp_all add: save_cursor_inv, simp_all add: save_cursor_def active_grid_def has_flag_def)

lemma push_events_step: "grid_inv g \<Longrightarrow> step_ok g ((push_event e ^^ n) g)"
proof (induction n)
  case (Suc n)
  then have "step_ok g ((push_event e ^^ n) g)" by simp
  moreover have "step_ok ((push_event e ^^ n) g) (push_event e ((push_event e ^^ n) g))"
    using Suc.prems by (intro push_event_step) simp
  ultimately show ?case by (simp add: step_ok_trans)
qed simp

lemma flag_step:
  assumes "grid_inv g" "is_mask f" "f \<noteq> PENDING_WRAP" "f \<noteq> ALT_SCREEN"
  shows "step_ok g (set_flag f g)" "step_ok g (clear_flag f g)" "step_ok g (put_flag f on g)"
proof -
  show s: "step_ok g (set_flag f g)" "step_ok g (clear_flag f g)"
    using assms by (auto intro!: state_step simp: set_clear_flag_inv) (simp_all add: flag_op_defs)
  then show "step_ok g (put_flag f on g)" by (simp add: put_flag_def)
qed

lemma field_steps:
  assumes "grid_inv g"
  shows "step_ok g (g\<lparr>g_text_cursor_enable := t\<rparr>)" "step_ok g (g\<lparr>g_mouse_mode := m\<rparr>)"
    "step_ok g (g\<lparr>g_mouse_encoding := e\<rparr>)" "step_ok g (g\<lparr>g_kitty_kb_stack := []\<rparr>)"
    "step_ok g (g\<lparr>g_current_attrs := a\<rparr>)" "step_ok g (g\<lparr>g_cursor_style := st\<rparr>)"
  using assms
  by (auto intro!: state_step) (simp_all add: grid_inv_def inv_part_defs has_flag_def active_grid_def)

lemma set_dec_mode_step:
  assumes inv: "grid_inv g"
  shows "step_ok g (set_dec_mode mode enabled g)"
proof -
  have ev: "step_ok g (push_event e (put_flag f on g))"
    if "is_mask f" "f \<noteq> PENDING_WRAP" "f \<noteq> ALT_SCREEN" for e f on
    using flag_step(3) [OF inv that] push_event_step step_ok_inv step_ok_trans by blast
  have enter: "step_ok g (clear_pending_wrap (set_alt_screen True (save_cursor g)))"
    using save_cursor_step set_alt_screen_step clear_pending_wrap_step step_ok_inv step_ok_trans inv by metis
  have leave: "step_ok g ((push_event (UnhandledCsi (esc ''[<u'')) ^^ n)
      (restore_saved_cursor (set_alt_screen False g)\<lparr>g_kitty_kb_stack := []\<rparr>))" for n
  proof -
    have 1: "step_ok g (restore_saved_cursor (set_alt_screen False g))"
      using set_alt_screen_step [OF inv] restore_saved_cursor_step step_ok_inv step_ok_trans by metis
    note 2 = field_steps(4) [OF step_ok_inv [OF 1]]
    note 3 = push_events_step [OF step_ok_inv [OF 2]]
    show ?thesis by (rule step_ok_trans [OF step_ok_trans [OF 1 2] 3])
  qed
  show ?thesis
    using inv ev enter leave
    by (simp add: set_dec_mode_def Let_def flag_step field_steps set_alt_screen_step)
qed

lemma set_dec_modes_step: "grid_inv g \<Longrightarrow> step_ok g (foldl (\<lambda>g mode. set_dec_mode mode on g) g ms)"
proof (induction ms arbitrary: g)
  case (Cons m ms)
  have "step_ok g (set_dec_mode m on g)" using Cons.prems by (rule set_dec_mode_step)
  with Cons.IH [OF step_ok_inv [OF this]] show ?case by (auto intro: step_ok_trans)
qed simp

lemma set_scroll_region_step:
  assumes "grid_inv g" "\<not> has_flag g PENDING_WRAP"
  shows "step_ok g (set_scroll_region p0 p1 g)"
proof (rule state_step)
  show "grid_inv (set_scroll_region p0 p1 g)"
    using assms by (auto simp: set_scroll_region_def Let_def grid_inv_def inv_part_defs has_flag_def)
qed (auto simp: set_scroll_region_def Let_def)

lemma length_pops: "length ((butlast ^^ n) xs) = length xs - n"
  by (induction n) simp_all

lemma kitty_steps:
  assumes "grid_inv g"
  shows "step_ok g (kitty_push p0 g)" "step_ok g (kitty_pop p0 g)"
proof -
  have st: "step_ok g (g\<lparr>g_kitty_kb_stack := s\<rparr>)" if "length s \<le> KITTY_KB_STACK_CAP" for s
    using assms that by (auto intro!: state_step) (simp add: grid_inv_def inv_part_defs has_flag_def)
  have len: "length (g_kitty_kb_stack g) \<le> KITTY_KB_STACK_CAP" using assms by (simp add: grid_inv_def)
  note ev = step_ok_trans [OF _ push_event_step]
  show "step_ok g (kitty_push p0 g)"
    using assms len by (auto simp: kitty_push_def Let_def intro!: ev st step_ok_inv [OF st] push_event_step)
  show "step_ok g (kitty_pop p0 g)"
    unfolding kitty_pop_def Let_def
    by (intro ev st step_ok_inv [OF st]) (use len in \<open>simp_all add: length_pops\<close>)
qed

lemma soft_reset_step:
  assumes "grid_inv g"
  shows "step_ok g (soft_reset g)"
proof (rule state_step)
  show "grid_inv (soft_reset g)"
    using assms
    by (auto simp: soft_reset_def Let_def restore_autowrap_def clear_pending_wrap_def flag_op_defs
        grid_inv_def inv_part_defs)
qed (auto simp: soft_reset_def Let_def restore_autowrap_def clear_pending_wrap_def flag_op_defs active_grid_def)

lemma full_reset_step:
  assumes inv: "grid_inv g"
  shows "step_ok g (full_reset g)"
    "rs_rows (active_grid (full_reset g)) = replicate (g_rows g) (blank_row (g_cols g))"
proof -
  obtain blank pool where b: "make_blank_grid (g_rows g) (g_cols g) (g_arena g) = (blank, pool)" by fastforce
  have st: "store_ok (g_rows g) (g_cols g) blank" "arena_inv pool"
    "rs_rows blank = replicate (g_rows g) (blank_row (g_cols g))"
    using rs_blank_ok [where rows = "g_rows g" and cols = "g_cols g" and pool = "g_arena g"]
      rs_blank_rows [where rows = "g_rows g" and cols = "g_cols g" and pool = "g_arena g"] inv b
    by (auto simp: make_blank_grid_def grid_inv_def)
  have pool: "arena_inv (snd (rs_clear (g_alternate g) (snd (rs_clear (g_primary g) pool))))"
    using st(2) by (simp add: rs_clear_def pool.release_all_inv)
  show "step_ok g (full_reset g)"
  proof (rule step_ok_all_dirty)
    show "grid_inv (full_reset g)"
      using inv st(1) pool
      by (auto simp: full_reset_def b Let_def reset_modes_def grid_mark_all_def flag_op_defs grid_inv_def inv_part_defs)
  qed (simp_all add: full_reset_def b Let_def reset_modes_def flag_op_defs)
  show "rs_rows (active_grid (full_reset g)) = replicate (g_rows g) (blank_row (g_cols g))"
    using st(3)
    by (simp add: full_reset_def b Let_def reset_modes_def grid_mark_all_def flag_op_defs active_grid_def)
qed

subsection \<open>Dispatch\<close>

text \<open>
  DCH with a wrap pending is the one action whose damage is incomplete: it shifts the row but marks
  the empty range from the phantom column.
\<close>

definition dch_at_margin :: "perform_call \<Rightarrow> grid \<Rightarrow> bool" where
  "dch_at_margin call g \<longleftrightarrow> (case call of CsiDispatch ps intermediates ignore action \<Rightarrow>
     is_char action CHR ''P'' \<and> g_cursor_col g = g_cols g | _ \<Rightarrow> False)"

definition action_ok :: "bool \<Rightarrow> grid \<Rightarrow> grid \<Rightarrow> bool" where
  "action_ok lossy g g' \<longleftrightarrow> grid_inv g' \<and> g_rows g' = g_rows g \<and> g_cols g' = g_cols g
     \<and> (\<not> lossy \<longrightarrow> damage_sound g g')"

lemma step_action: "step_ok g g' \<Longrightarrow> action_ok lossy g g'"
  by (simp add: step_ok_def action_ok_def)

lemma ok_action: "ok r (step_ok g) \<Longrightarrow> ok r (action_ok lossy g)"
  by (erule ok_mono_all) (rule step_action)

lemma ok_ifI: "(b \<Longrightarrow> ok r P) \<Longrightarrow> (\<not> b \<Longrightarrow> ok s P) \<Longrightarrow> ok (if b then r else s) P"
  by simp

lemma execute_step:
  assumes inv: "grid_inv g"
  shows "ok (execute b g) (step_ok g)"
proof -
  define h where "h = clear_pending_wrap g"
  have h: "grid_inv h" "step_ok g h" "\<not> has_flag h PENDING_WRAP" "g_cursor_col h < g_cols g" "g_cols h = g_cols g"
    "g_rows h = g_rows g"
    using clear_pending_wrap_inv [OF inv] clear_pending_wrap_step [OF inv] by (simp_all add: h_def)
  have d: "g_cursor_row g < g_rows g" "1 \<le> g_cols g" "g_cols g \<le> MAX_COLS" "g_cursor_col g \<le> g_cols g"
    "has_flag g PENDING_WRAP \<longleftrightarrow> g_cursor_col g = g_cols g"
    using inv by (auto simp: grid_inv_def inv_part_defs)
  have col: "step_ok g (h\<lparr>g_cursor_col := c\<rparr>)" if "c < g_cols g" for c
    using step_ok_trans [OF h(2) move_cursor_step(2) [OF h(1,3) cursor_in [OF h(1)]]] that h(5) by simp
  have newline: "ok (newline_action h) (step_ok g)"
    unfolding newline_action_def
    by (rule ok_mono_all [OF newline_action_with_wrap_spec [OF h(1,3)]]) (auto intro: step_ok_trans [OF h(2)])
  have tab: "g_cursor_col h div 8 + 1 \<le> u16_max" "(g_cursor_col h div 8 + 1) * 8 \<le> u16_max"
    "min ((g_cursor_col h div 8 + 1) * 8) (g_cols g - 1) < g_cols g"
    using h(4) d(2,3) by (auto simp: u16_max_def MAX_COLS_def)
  have bs: "step_ok g (g\<lparr>g_cursor_col := g_cursor_col g - 1\<rparr>)" if "\<not> has_flag g PENDING_WRAP" "0 < g_cursor_col g"
    using that d by (intro move_cursor_step(2) [OF inv _ d(1)]) auto
  show ?thesis
    using inv newline col [of 0] d(2) tab col bs push_event_step [OF inv, of Bell] h(2,5)
    by (simp add: execute_def h_def [symmetric] u16_add_def u16_mul_def)
qed

lemma reply_steps:
  assumes inv: "grid_inv g"
  shows "step_ok g (status_report p0 dec g)" "step_ok g (mode_report p0 dec g)"
    "step_ok g (let bs = x in if bs \<noteq> [] then push_event (f bs) g else g)"
  using push_event_step [OF inv] inv by (simp_all add: status_report_def mode_report_def Let_def)

lemma csi_dispatch_step:
  assumes inv: "grid_inv g"
  shows "ok (csi_dispatch ps intermediates ignore action g)
    (action_ok (dch_at_margin (CsiDispatch ps intermediates ignore action) g) g)"
proof -
  define h where "h = (if char_in action ''ABCDEFGHfdr'' then clear_pending_wrap g else g)"
  let ?lossy = "dch_at_margin (CsiDispatch ps intermediates ignore action) g"
  have h: "grid_inv h" "step_ok g h"
    using inv clear_pending_wrap_inv [OF inv] clear_pending_wrap_step [OF inv] by (simp_all add: h_def)
  have moves: "\<not> has_flag h PENDING_WRAP" if "is_char action c" "c \<in> set ''ABCDEFGHfdr''" for c
    using that clear_pending_wrap_inv [OF inv] by (auto simp: h_def char_in_def is_char_def list_ex_iff)
  have d: "g_cursor_row h < g_rows h" "g_cursor_row h - k < g_rows h" "1 \<le> g_rows h" "1 \<le> g_cols h"
    "min r (g_rows h - 1) < g_rows h" "min c (g_cols h - 1) < g_cols h"
    "add_cursor_offset r k (g_rows h - 1) < g_rows h" for k r c
    using h(1) by (auto simp: grid_inv_def inv_part_defs add_cursor_offset_def)
  have mv: "step_ok h (h\<lparr>g_cursor_row := r, g_cursor_col := c\<rparr>)" "step_ok h (h\<lparr>g_cursor_col := c\<rparr>)"
    "step_ok h (h\<lparr>g_cursor_row := r\<rparr>)" if "\<not> has_flag h PENDING_WRAP" "r < g_rows h" "c < g_cols h" for r c
    using move_cursor_step [OF h(1) that] .
  have mv_col: "step_ok h (h\<lparr>g_cursor_col := c\<rparr>)" if "\<not> has_flag h PENDING_WRAP" "c < g_cols h" for c
    using mv(2) [OF that(1) d(1) that(2)] .
  have mv_row: "step_ok h (h\<lparr>g_cursor_row := r\<rparr>)" if "\<not> has_flag h PENDING_WRAP" "r < g_rows h" for r
    using mv(3) [OF that d(6) [of 0]] .
  have dch: "ok (delete_characters p0 h) (action_ok ?lossy h)" if "is_char action CHR ''P''" for p0
  proof -
    have eq: "h = g" using that by (simp add: h_def is_char_def char_in_def)
    have "g_cursor_col g < g_cols g \<or> g_cursor_col g = g_cols g"
      using inv by (auto simp: grid_inv_def cursor_ok_def)
    with that show ?thesis
      unfolding eq
      by (intro ok_mono_all [OF delete_characters_spec [OF inv]])
         (auto simp: action_ok_def dch_at_margin_def step_ok_def)
  qed
  have ops: "ok (insert_characters k h) (action_ok ?lossy h)" "ok (erase_display k h) (action_ok ?lossy h)"
    "ok (erase_line k h) (action_ok ?lossy h)" "ok (insert_lines k h) (action_ok ?lossy h)"
    "ok (delete_lines k h) (action_ok ?lossy h)" "ok (scroll_up k w h) (action_ok ?lossy h)"
    "ok (scroll_down k h) (action_ok ?lossy h)" "ok (erase_characters k h) (action_ok ?lossy h)" for k w
    by (rule ok_action, rule ok_mono_all [OF insert_characters_spec [OF h(1)]], simp)
       (rule ok_action, rule ok_mono_all [OF erase_display_spec [OF h(1)]], simp,
        rule ok_action, rule ok_mono_all [OF erase_line_spec [OF h(1)]], simp,
        rule ok_action, rule ok_mono_all [OF insert_lines_spec [OF h(1)]], simp,
        rule ok_action, rule ok_mono_all [OF delete_lines_spec [OF h(1)]], simp,
        rule ok_action, rule ok_mono_all [OF scroll_up_spec [OF h(1)]], simp,
        rule ok_action, rule ok_mono_all [OF scroll_down_spec [OF h(1)]], simp,
        rule ok_action, rule ok_mono_all [OF erase_characters_spec [OF h(1)]], simp)
  have "ok (csi_dispatch ps intermediates ignore action g) (action_ok ?lossy h)"
    unfolding csi_dispatch_def Let_def h_def [symmetric]
    by (intro ok_ifI ops dch; (simp only: ok_Some)?; (assumption | rule step_action)?)
       (use h(1) moves mv(1) mv_col mv_row d reply_steps [OF h(1)] in \<open>auto simp: clamp_cursor_eq field_steps set_dec_modes_step
          set_scroll_region_step save_cursor_step restore_saved_cursor_step kitty_steps push_event_step soft_reset_step Let_def\<close>)
  then show ?thesis
    by (rule ok_mono_all) (use h(2) in \<open>auto simp: action_ok_def step_ok_def damage_sound_def\<close>)
qed

lemma esc_dispatch_step:
  assumes inv: "grid_inv g"
  shows "ok (esc_dispatch intermediates ignore b g) (step_ok g)"
proof -
  have "ok (reverse_index g) (step_ok g)"
    by (rule ok_mono_all [OF reverse_index_spec [OF inv]]) simp
  then show ?thesis
    using inv
    by (simp add: esc_dispatch_def save_cursor_step restore_saved_cursor_step flag_step full_reset_step)
qed

text \<open>Every action of the parser on a well-formed grid.\<close>

lemma perform_ok:
  assumes inv: "grid_inv g"
  shows "ok (perform uw call g) (action_ok (dch_at_margin call g) g)"
proof (cases call)
  case (Print ch)
  then show ?thesis using ok_action [OF write_char_at_cursor_step [OF inv]] by simp
next
  case (Execute b)
  then show ?thesis using ok_action [OF execute_step [OF inv]] by simp
next
  case (CsiDispatch ps intermediates ignore action)
  then show ?thesis using csi_dispatch_step [OF inv] by simp
next
  case (EscDispatch intermediates ignore b)
  then show ?thesis using ok_action [OF esc_dispatch_step [OF inv]] by simp
next
  case (OscDispatch ps bell)
  then show ?thesis using step_action [OF handle_osc_step [OF inv]] by simp
qed (use inv in \<open>simp_all add: action_ok_def damage_sound_def\<close>)

section \<open>Correctness of the editing functions\<close>

text \<open>
  C14: IL inserts blank rows at the cursor inside the scroll region and DL deletes rows there, the rest of
  the region moving down and up; the count is clamped to the rows below, both do nothing outside the
  region, and the wrap flags move with their rows.
\<close>

theorem insert_delete_lines_correct:
  assumes "grid_inv g"
  shows "ok (insert_lines p0 g) (\<lambda>g'. step_ok g g' \<and> active_grid g' =
      (if g_scroll_top g \<le> g_cursor_row g \<and> g_cursor_row g \<le> g_scroll_bottom g
       then shift_store_down (g_cursor_row g) (g_scroll_bottom g)
              (lines_moved p0 (g_cursor_row g) (g_scroll_bottom g)) (g_cols g) (active_grid g)
       else active_grid g))
    \<and> ok (delete_lines p0 g) (\<lambda>g'. step_ok g g' \<and> active_grid g' =
      (if g_scroll_top g \<le> g_cursor_row g \<and> g_cursor_row g \<le> g_scroll_bottom g
       then shift_store_up (g_cursor_row g) (g_scroll_bottom g)
              (lines_moved p0 (g_cursor_row g) (g_scroll_bottom g)) (g_cols g) (active_grid g)
       else active_grid g))"
  using insert_lines_spec [OF assms, of p0] delete_lines_spec [OF assms, of p0] by simp

lemma insert_delete_lines_witness:
  "ok (insert_lines 0 example_grid) (\<lambda>g'. rs_rows (active_grid g') = [map letter ''abcd'', blank_row 4, map letter ''efgh''])
   \<and> ok (delete_lines 9 example_grid) (\<lambda>g'. rs_rows (active_grid g') = [map letter ''abcd'', blank_row 4, blank_row 4])"
  using insert_delete_lines_correct [OF example_grid_inv, of 0] insert_delete_lines_correct [OF example_grid_inv, of 9]
  by (auto simp: shift_store_down_def shift_store_up_def shift_down_def shift_up_def lines_moved_def
      numeral_2_eq_2 elim!: ok_mono_all)

text \<open>
  C15: SD moves the whole region down, and RI does the same by one row at the top of the region and
  otherwise moves the cursor up; neither changes the scrollback.
\<close>

theorem scroll_down_correct:
  assumes "grid_inv g"
  shows "ok (scroll_down p0 g) (\<lambda>g'. step_ok g g' \<and> g_scrollback g' = g_scrollback g
      \<and> active_grid g' = shift_store_down (g_scroll_top g) (g_scroll_bottom g)
          (lines_moved p0 (g_scroll_top g) (g_scroll_bottom g)) (g_cols g) (active_grid g))
    \<and> ok (reverse_index g) (\<lambda>g'. step_ok g g'
      \<and> active_grid g' = (if g_cursor_row g = g_scroll_top g
          then shift_store_down (g_scroll_top g) (g_scroll_bottom g) 1 (g_cols g) (active_grid g) else active_grid g)
      \<and> (g_cursor_row g \<noteq> g_scroll_top g \<longrightarrow> g_cursor_row g' = g_cursor_row g - 1))"
  using scroll_down_spec [OF assms, of p0] reverse_index_spec [OF assms] by blast

lemma scroll_down_witness:
  "ok (scroll_down 2 example_grid) (\<lambda>g'. rs_rows (active_grid g') = [blank_row 4, blank_row 4, map letter ''abcd''])
   \<and> ok (reverse_index example_grid) (\<lambda>g'. g_cursor_row g' = 0)"
  using scroll_down_correct [OF example_grid_inv, of 2]
  by (auto simp: shift_store_down_def shift_down_def lines_moved_def numeral_2_eq_2 elim!: ok_mono_all)

text \<open>
  ICH shifts the cells from the cursor to the right and blanks the gap, ECH blanks cells in place
  with the current background; both leave the row paired.
\<close>

lemma insert_erase_characters_correct:
  assumes "grid_inv g"
  shows "ok (insert_characters p0 g) (\<lambda>g'. step_ok g g' \<and> rs_rows (active_grid g') =
      (if g_cursor_col g < g_cols g
       then (rs_rows (active_grid g))[g_cursor_row g :=
         repair_wide_pairs (ich_shifted (rs_rows (active_grid g) ! g_cursor_row g) (g_cursor_col g) (max p0 1))]
       else rs_rows (active_grid g)))
    \<and> ok (erase_characters p0 g) (\<lambda>g'. step_ok g g' \<and> rs_rows (active_grid g') =
      (rs_rows (active_grid g))[g_cursor_row g := erased_row (rs_rows (active_grid g) ! g_cursor_row g)
         (g_cursor_col g) (min (g_cursor_col g + max p0 1) (g_cols g)) (blank_cell g)])"
  using insert_characters_spec [OF assms, of p0] erase_characters_spec [OF assms, of p0] by blast

lemma insert_erase_characters_witness:
  "ok (insert_characters 1 example_grid) (\<lambda>g'. rs_rows (active_grid g') ! 1 = map letter ''ef'' @ [cell_default, letter CHR ''g''])
   \<and> ok (erase_characters 1 example_grid) (\<lambda>g'. rs_rows (active_grid g') ! 1 = map letter ''ef'' @ [cell_default, letter CHR ''h''])"
proof -
  have blank: "blank_cell example_grid = cell_default" by (simp add: blank_cell_def cell_default_def)
  have ich: "repair_wide_pairs (ich_shifted (map letter ''efgh'') 2 1) = map letter ''ef'' @ [cell_default, letter CHR ''g'']"
    by (simp add: ich_shifted_def repair_wide_pairs_def repair_at_def Let_def upt_rec letter_def)
  have ech: "erased_row (map letter ''efgh'') 2 3 cell_default = map letter ''ef'' @ [cell_default, letter CHR ''h'']"
    by (simp add: erased_row_def erased_def letter_def upt_rec)
  show ?thesis
    using insert_erase_characters_correct [OF example_grid_inv, of 1] ich ech by (auto simp: blank elim!: ok_mono_all)
qed

text \<open>
  C16: DCH pulls the cells right of the cursor left and blanks the last \<open>n\<close> columns of the row, where \<open>n\<close>
  is not clamped to the columns right of the cursor: with \<open>n > cols - cursor_col\<close> it also blanks
  cells left of the cursor.
\<close>

theorem delete_characters_correct:
  assumes "grid_inv g"
  shows "ok (delete_characters p0 g) (\<lambda>g'. grid_inv g' \<and> rs_rows (active_grid g') =
    (rs_rows (active_grid g))[g_cursor_row g :=
      repair_wide_pairs (dch_shifted (rs_rows (active_grid g) ! g_cursor_row g) (g_cursor_col g) (max p0 1))])"
  by (rule ok_mono_all [OF delete_characters_spec [OF assms]]) simp

lemma delete_characters_witness:
  "ok (delete_characters 1 example_grid) (\<lambda>g'. rs_rows (active_grid g') ! 1 = map letter ''efh'' @ [cell_default])
   \<and> ok (delete_characters 3 example_grid) (\<lambda>g'. rs_rows (active_grid g') ! 1 = [letter CHR ''e'', cell_default, cell_default, cell_default])"
proof -
  have "repair_wide_pairs (dch_shifted (map letter ''efgh'') 2 1) = map letter ''efh'' @ [cell_default]"
    "repair_wide_pairs (dch_shifted (map letter ''efgh'') 2 3) = [letter CHR ''e'', cell_default, cell_default, cell_default]"
    by (simp_all add: dch_shifted_def repair_wide_pairs_def repair_at_def Let_def upt_rec letter_def)
  with delete_characters_correct [OF example_grid_inv, of 1] delete_characters_correct [OF example_grid_inv, of 3]
  show ?thesis by (auto elim!: ok_mono_all)
qed

text \<open>
  DCH at the phantom column (a wrap is pending) blanks the last columns of the row and marks nothing
  dirty, so a consumer that repaints the reported rows keeps the old text.
\<close>

lemma delete_characters_at_margin:
  assumes "grid_inv g" "g_cursor_col g = g_cols g"
  shows "ok (delete_characters p0 g) (\<lambda>g'. g_dirty g' = g_dirty g \<and> rs_rows (active_grid g') =
    (rs_rows (active_grid g))[g_cursor_row g :=
      repair_wide_pairs (dch_shifted (rs_rows (active_grid g) ! g_cursor_row g) (g_cols g) (max p0 1))])"
  by (rule ok_mono_all [OF delete_characters_spec [OF assms(1)]]) (use assms(2) in simp)

lemma delete_characters_at_margin_witness:
  "ok (delete_characters 2 (arm_wrap example_grid)) (\<lambda>g'. \<not> dirty_row (g_dirty g') 1
     \<and> rs_rows (active_grid g') ! 1 = map letter ''ef'' @ [cell_default, cell_default])"
proof -
  have same: "rs_rows (active_grid (arm_wrap example_grid)) = rs_rows (active_grid example_grid)"
    "g_cols (arm_wrap example_grid) = 4" "g_cursor_row (arm_wrap example_grid) = 1" "g_cursor_col (arm_wrap example_grid) = 4"
    "g_dirty (arm_wrap example_grid) = clean_tracker"
    by (simp_all add: arm_wrap_def flag_op_defs active_grid_def)
  have dch: "repair_wide_pairs (dch_shifted (map letter ''efgh'') 4 2) = map letter ''ef'' @ [cell_default, cell_default]"
    by (simp add: dch_shifted_def repair_wide_pairs_def repair_at_def Let_def upt_rec letter_def)
  have clean: "\<not> dirty_row clean_tracker 1"
    by (simp add: clean_tracker_def dt_take_def dt_new_def dirty_row_def dirty_rows_default_def dr_as_slice_def)
  show ?thesis
    using delete_characters_at_margin [OF arm_wrap_inv [OF example_grid_inv], of 2] dch clean
    by (auto simp: same numeral_2_eq_2 elim!: ok_mono_all)
qed

text \<open>
  The stack of Kitty keyboard flags: a push below the cap makes its flags current and a pop of one
  restores the previous flags; at the cap of 64 a push changes nothing, and a pop of more entries than
  there are empties the stack.
\<close>

lemma kitty_stack:
  assumes "length (g_kitty_kb_stack g) \<le> KITTY_KB_STACK_CAP"
  shows "length (g_kitty_kb_stack (kitty_push p0 g)) \<le> KITTY_KB_STACK_CAP
    \<and> kitty_kb_flags (kitty_push p0 g) = (if length (g_kitty_kb_stack g) < KITTY_KB_STACK_CAP then max p0 1 else kitty_kb_flags g)
    \<and> (length (g_kitty_kb_stack g) < KITTY_KB_STACK_CAP \<longrightarrow>
         g_kitty_kb_stack (kitty_pop 1 (kitty_push p0 g)) = g_kitty_kb_stack g)
    \<and> g_kitty_kb_stack (kitty_pop n g) = take (length (g_kitty_kb_stack g) - max n 1) (g_kitty_kb_stack g)"
proof -
  have pops: "(butlast ^^ k) xs = take (length xs - k) xs" for k and xs :: "nat list"
    by (induction k) (simp_all add: butlast_take)
  show ?thesis
    using assms by (auto simp: kitty_push_def kitty_pop_def kitty_kb_flags_def push_event_def Let_def pops min_def)
qed

lemma kitty_stack_witness:
  "kitty_kb_flags (kitty_push 5 example_grid) = 5 \<and> g_kitty_kb_stack (kitty_pop 1 (kitty_push 5 example_grid)) = []"
  using kitty_stack [of example_grid 5] by (simp add: KITTY_KB_STACK_CAP_def)

text \<open>
  C7: every action the parser can take on a well-formed grid returns (no index, slice or \<open>u16\<close> operation
  panics), keeps the invariant and the size, and marks every row it changes dirty, with the one
  exception of DCH at the phantom column.
\<close>

theorem perform_safe:
  assumes "grid_inv g"
  shows "ok (perform uw call g) (\<lambda>g'. grid_inv g' \<and> g_rows g' = g_rows g \<and> g_cols g' = g_cols g
    \<and> (\<not> dch_at_margin call g \<longrightarrow> damage_sound g g'))"
  using perform_ok [OF assms, of uw call] by (rule ok_mono_all) (simp add: action_ok_def)

lemma perform_safe_witness:
  "ok (perform example_width (CsiDispatch [[2]] [] False (of_char CHR ''P'')) example_grid) (\<lambda>g'. damage_sound example_grid g')"
  by (rule ok_mono_all [OF perform_safe [OF example_grid_inv]]) (simp add: dch_at_margin_def)

text \<open>
  The width bound of the invariant is sharp: on a grid wide enough for the cursor to stand at column
  65528, a horizontal tab overflows the \<open>u16\<close> computation of the next tab stop.
\<close>

lemma tab_overflows:
  assumes "65528 \<le> g_cursor_col g" "g_cursor_col g < g_cols g"
  shows "execute 0x09 g = None"
proof -
  have "g_cursor_col (clear_pending_wrap g) = g_cursor_col g"
    using assms by (simp add: clear_pending_wrap_def clear_flag_def Let_def)
  moreover have "8191 \<le> g_cursor_col g div 8" using div_le_mono [OF assms(1), of 8] by simp
  ultimately show ?thesis
    by (simp add: execute_def u16_add_def u16_mul_def u16_max_def Let_def Option.bind_eq_None_conv)
qed

lemma tab_overflows_witness:
  "execute 0x09 (example_grid\<lparr>g_cols := 65529, g_cursor_col := 65528\<rparr>) = None"
  using tab_overflows [of "example_grid\<lparr>g_cols := 65529, g_cursor_col := 65528\<rparr>"] by simp

text \<open>
  Construction does not clamp the size the way \<open>set_size\<close> does: a grid created with no rows panics on
  the first erase of a line.
\<close>

lemma zero_rows_panic:
  assumes "mode \<le> 2"
  shows "csi_dispatch [[mode]] [] False (of_char CHR ''K'') (with_row_arena 0 cols limit pool) = None"
proof -
  let ?g = "with_row_arena 0 cols limit pool"
  have "rs_rows (active_grid ?g) = []"
    by (simp add: with_row_arena_def make_blank_grid_def rs_blank_def active_grid_def has_flag_def split_beta Let_def)
  then have "erase_line mode ?g = None"
    using assms by (auto simp: erase_line_def vec_get_def active_grid_def set_flag_def has_flag_def Let_def set_active_row_def vec_set_def)
  then show ?thesis by (simp add: csi_dispatch_def is_char_def char_in_def first_or_0_def Let_def)
qed

lemma zero_rows_panic_witness:
  "csi_dispatch [[0]] [] False (of_char CHR ''K'') (with_row_arena 0 80 0 []) = None"
  using zero_rows_panic [of 0 80 0 "[]"] by simp

end
