(* ===== verification/Midseq.thy ===== *)
theory Midseq
  imports Termpane_Prelude
begin

text \<open>
  The ground-state tracker (\<open>src/src/grid/midseq.rs\<close>): a coarsening of the parser's states that
  is advanced over the same bytes. \<open>advance_bytes\<close> is the optimised loop, which jumps to the next
  ESC while at ground; \<open>seq_run\<close> is the byte-by-byte reference.
\<close>

datatype seq_state = Ground | Escape | EscapeIntermediate | Csi | Osc | Dcs | SosPmApc

instantiation seq_state :: default
begin

definition default_seq_state :: seq_state where
  "default_seq_state = Ground"

instance ..

end

definition is_ground :: "seq_state \<Rightarrow> bool" where
  "is_ground s \<longleftrightarrow> s = Ground"

definition anywhere :: "seq_state \<Rightarrow> u8 \<Rightarrow> seq_state" where
  "anywhere s b = (if b = 0x18 \<or> b = 0x1a then Ground else if b = 0x1b then Escape else s)"

text \<open>The C0 controls that execute in place inside a sequence.\<close>

definition c0_in_place :: "u8 \<Rightarrow> bool" where
  "c0_in_place b \<longleftrightarrow> b \<le> 0x17 \<or> b = 0x19 \<or> (0x1c \<le> b \<and> b \<le> 0x1f)"

fun seq_advance :: "seq_state \<Rightarrow> u8 \<Rightarrow> seq_state" where
  "seq_advance Ground b = (if b = 0x1b then Escape else Ground)"
| "seq_advance Escape b =
     (if c0_in_place b then Escape
      else if 0x20 \<le> b \<and> b \<le> 0x2f then EscapeIntermediate
      else if b = 0x50 then Dcs
      else if b = 0x58 \<or> b = 0x5e \<or> b = 0x5f then SosPmApc
      else if b = 0x5b then Csi
      else if b = 0x5d then Osc
      else if 0x30 \<le> b \<and> b \<le> 0x7e then Ground
      else anywhere Escape b)"
| "seq_advance EscapeIntermediate b =
     (if c0_in_place b then EscapeIntermediate
      else if 0x20 \<le> b \<and> b \<le> 0x2f then EscapeIntermediate
      else if 0x30 \<le> b \<and> b \<le> 0x7e then Ground
      else anywhere EscapeIntermediate b)"
| "seq_advance Csi b =
     (if c0_in_place b then Csi
      else if 0x20 \<le> b \<and> b \<le> 0x3f then Csi
      else if 0x40 \<le> b \<and> b \<le> 0x7e then Ground
      else anywhere Csi b)"
| "seq_advance Osc b =
     (if b = 0x07 then Ground
      else if b = 0x1b then Escape
      else if b = 0x18 \<or> b = 0x1a then Ground
      else Osc)"
| "seq_advance Dcs b =
     (if b = 0x1b then Escape
      else if b = 0x18 \<or> b = 0x1a then Ground
      else if b = 0x9c then Ground
      else Dcs)"
| "seq_advance SosPmApc b = anywhere SosPmApc b"

function advance_bytes :: "seq_state \<Rightarrow> u8 list \<Rightarrow> seq_state" where
  "advance_bytes s rest =
     (if rest = [] then s
      else if is_ground s then
        (case position (\<lambda>b. b = 0x1b) rest of
           Some idx \<Rightarrow> advance_bytes (seq_advance s 0x1b) (drop (idx + 1) rest)
         | None \<Rightarrow> s)
      else advance_bytes (seq_advance s (hd rest)) (tl rest))"
  by pat_completeness auto
termination
  by (relation "measure (\<lambda>(s, rest). length rest)") auto

declare advance_bytes.simps [simp del]

fun seq_run :: "seq_state \<Rightarrow> u8 list \<Rightarrow> seq_state" where
  "seq_run s [] = s"
| "seq_run s (b # bs) = seq_run (seq_advance s b) bs"

lemma seq_run_append: "seq_run s (xs @ ys) = seq_run (seq_run s xs) ys"
  by (induction xs arbitrary: s) simp_all

lemma seq_run_ground_no_esc: "0x1b \<notin> set bs \<Longrightarrow> seq_run Ground bs = Ground"
  by (induction bs) auto

lemma advance_bytes_run: "advance_bytes s bs = seq_run s bs"
proof (induction s bs rule: advance_bytes.induct)
  case (1 s bs)
  consider (empty) "bs = []" | (no_esc) "bs \<noteq> []" "is_ground s" "position (\<lambda>b. b = 0x1b) bs = None"
    | (esc) i where "bs \<noteq> []" "is_ground s" "position (\<lambda>b. b = 0x1b) bs = Some i"
    | (mid) b cs where "bs = b # cs" "\<not> is_ground s"
    by (cases bs; cases "position (\<lambda>b. b = 0x1b) bs") auto
  then show ?case
  proof cases
    case no_esc
    then have "0x1b \<notin> set bs" "s = Ground" by (auto simp: position_NoneD is_ground_def)
    with no_esc show ?thesis
      by (simp add: advance_bytes.simps [of s bs] seq_run_ground_no_esc is_ground_def
          del: One_nat_def) (simp add: advance_bytes.simps [of Ground bs] is_ground_def)
  next
    case esc
    have i: "i < length bs" "bs ! i = 0x1b" "\<forall>j < i. bs ! j \<noteq> 0x1b"
      using position_SomeD [OF esc(3)] by auto
    have "0x1b \<notin> set (take i bs)" using i by (auto simp: in_set_conv_nth)
    moreover have "bs = take i bs @ 0x1b # drop (Suc i) bs"
      using i by (metis id_take_nth_drop)
    ultimately have "seq_run s bs = seq_run (seq_advance s 0x1b) (drop (Suc i) bs)"
      using esc(2) seq_run_append [of s "take i bs" "0x1b # drop (Suc i) bs"]
      by (simp add: is_ground_def seq_run_ground_no_esc)
    with "1.IH"(1) [OF esc] esc show ?thesis
      by (simp add: advance_bytes.simps [of s bs])
  next
    case mid
    with "1.IH"(2) show ?thesis by (simp add: advance_bytes.simps [of s "b # cs"])
  qed (simp add: advance_bytes.simps)
qed

lemma advance_bytes_append: "advance_bytes s (xs @ ys) = advance_bytes (advance_bytes s xs) ys"
  by (simp add: advance_bytes_run seq_run_append)

text \<open>CAN and SUB abort every sequence, whatever the tracker's state.\<close>

lemma can_sub_abort: "b = 0x18 \<or> b = 0x1a \<Longrightarrow> seq_advance s b = Ground"
  by (cases s) (auto simp: anywhere_def c0_in_place_def)

lemma esc_restarts: "seq_advance s 0x1b = Escape"
  by (cases s) (auto simp: anywhere_def c0_in_place_def)

section \<open>The optimised scan\<close>

text \<open>
  C22: the tracker's scan, which jumps from ESC to ESC while at ground, computes the same state as
  advancing byte by byte, and CAN, SUB and ESC act from every state.
\<close>

theorem advance_bytes_equiv:
  "advance_bytes s bs = foldl seq_advance s bs
    \<and> seq_advance s 0x18 = Ground \<and> seq_advance s 0x1a = Ground \<and> seq_advance s 0x1b = Escape"
proof -
  have "seq_run s bs = foldl seq_advance s bs" by (induction bs arbitrary: s) simp_all
  then show ?thesis by (simp add: advance_bytes_run can_sub_abort esc_restarts)
qed

end
