(* ===== verification/Feed.thy ===== *)
theory Feed
  imports Perform Midseq
begin

text \<open>
  The byte stream (\<open>process\<close>, \<open>advance_parser\<close> and \<open>mid_sequence\<close> of \<open>src/src/grid.rs\<close>,
  \<open>incomplete_utf8_suffix_len\<close> of \<open>src/src/grid/write.rs\<close>). \<open>damage_grid\<close> is the whole \<open>DamageGrid\<close>:
  the fields of the byte stream and the grid of \<open>Grid_State\<close>.

  The \<open>vte\<close> parser is third-party code. It is a parameter \<open>adv\<close>: from a parser state and a byte
  slice to the new state and the calls it makes on the performer, in order. The one fact the
  development uses of it, and only where it says so, is \<open>stream_parser adv\<close>: the parser keeps its
  state between calls, so a slice may be cut anywhere.
\<close>

type_synonym 'p parser = "'p \<Rightarrow> u8 list \<Rightarrow> 'p \<times> perform_call list"

record 'p damage_grid =
  dg_parser :: 'p
  dg_pending_utf8 :: "u8 list"
  dg_seq_state :: seq_state
  dg_grid :: grid

definition damage_grid_new :: "'p \<Rightarrow> u16 \<Rightarrow> u16 \<Rightarrow> usize \<Rightarrow> arena \<Rightarrow> 'p damage_grid" where
  "damage_grid_new p rows cols limit pool =
     \<lparr>dg_parser = p, dg_pending_utf8 = [], dg_seq_state = default,
      dg_grid = with_row_arena rows cols limit pool\<rparr>"

definition is_ascii :: "u8 \<Rightarrow> bool" where
  "is_ascii b \<longleftrightarrow> b < 128"

definition incomplete_utf8_suffix_len :: "u8 list \<Rightarrow> usize" where
  "incomplete_utf8_suffix_len bs =
     (if bs = [] then 0
      else if is_ascii (last bs) then 0
      else let start = (case rposition is_ascii bs of None \<Rightarrow> 0 | Some i \<Rightarrow> i + 1);
               suffix = drop start bs
           in case from_utf8 suffix of
                Some _ \<Rightarrow> 0
              | None \<Rightarrow> if 0 < valid_up_to suffix then length suffix - valid_up_to suffix else length suffix)"

definition advance_parser :: "unicode_width \<Rightarrow> 'p parser \<Rightarrow> u8 list \<Rightarrow> 'p damage_grid \<Rightarrow> 'p damage_grid option" where
  "advance_parser uw adv bs d = do {
     let d = d\<lparr>dg_seq_state := advance_bytes (dg_seq_state d) bs\<rparr>;
     let (parser, calls) = adv (dg_parser d) bs;
     g \<leftarrow> fold_opt (perform uw) calls (dg_grid d);
     Some (d\<lparr>dg_grid := g, dg_parser := parser\<rparr>)
   }"

definition process :: "unicode_width \<Rightarrow> 'p parser \<Rightarrow> u8 list \<Rightarrow> 'p damage_grid \<Rightarrow> 'p damage_grid option" where
  "process uw adv bs d =
     (if bs = [] then Some d
      else do {
        let bs = dg_pending_utf8 d @ bs;
        let d = d\<lparr>dg_pending_utf8 := []\<rparr>;
        let pending_len = incomplete_utf8_suffix_len bs;
        let feed_len = length bs - pending_len;
        d \<leftarrow> (if 0 < feed_len then advance_parser uw adv (take feed_len bs) d else Some d);
        Some (if 0 < pending_len then d\<lparr>dg_pending_utf8 := dg_pending_utf8 d @ drop feed_len bs\<rparr> else d)
      })"

definition mid_sequence :: "'p damage_grid \<Rightarrow> bool" where
  "mid_sequence d \<longleftrightarrow> dg_pending_utf8 d \<noteq> [] \<or> \<not> is_ground (dg_seq_state d)"

section \<open>The pending tail\<close>

text \<open>The longest suffix without an ASCII byte.\<close>

definition non_ascii_tail :: "u8 list \<Rightarrow> u8 list" where
  "non_ascii_tail bs = rev (takeWhile (\<lambda>b. \<not> is_ascii b) (rev bs))"

lemma non_ascii_tail_append:
  "non_ascii_tail (xs @ ys) =
     (if list_all (\<lambda>b. \<not> is_ascii b) ys then non_ascii_tail xs @ ys else non_ascii_tail ys)"
  by (auto simp: non_ascii_tail_def takeWhile_append list_all_iff takeWhile_eq_all_conv)

lemma non_ascii_tail_suffix: "\<exists>zs. bs = zs @ non_ascii_tail bs"
  by (metis non_ascii_tail_def rev_append rev_rev_ident takeWhile_dropWhile_id)

lemma non_ascii_tail_all: "list_all (\<lambda>b. \<not> is_ascii b) (non_ascii_tail bs)"
  by (auto simp: non_ascii_tail_def list_all_iff dest: set_takeWhileD)

lemma rposition_split:
  "rposition p bs = Some i \<Longrightarrow> rev (takeWhile (\<lambda>b. \<not> p b) (rev bs)) = drop (Suc i) bs"
proof -
  assume "rposition p bs = Some i"
  note r = rposition_SomeD [OF this]
  have "bs = take i bs @ bs ! i # drop (Suc i) bs" using r by (simp add: id_take_nth_drop)
  then have split: "rev bs = rev (drop (Suc i) bs) @ bs ! i # rev (take i bs)"
    by (metis append_Cons append_Nil append_assoc rev.simps(2) rev_append)
  have "\<forall>b \<in> set (rev (drop (Suc i) bs)). \<not> p b"
    using r by (auto simp: in_set_conv_nth)
  then have "takeWhile (\<lambda>b. \<not> p b) (rev bs) = rev (drop (Suc i) bs)"
    using r by (subst split, subst takeWhile_append2) simp_all
  then show ?thesis by simp
qed

lemma incomplete_eq: "incomplete_utf8_suffix_len bs = length (non_ascii_tail bs) - valid_up_to (non_ascii_tail bs)"
proof (cases "bs = [] \<or> is_ascii (last bs)")
  case True
  then have "non_ascii_tail bs = []"
    by (cases bs rule: rev_cases) (auto simp: non_ascii_tail_def)
  with True show ?thesis by (auto simp: incomplete_utf8_suffix_len_def)
next
  case False
  have tail: "drop (case rposition is_ascii bs of None \<Rightarrow> 0 | Some i \<Rightarrow> i + 1) bs = non_ascii_tail bs"
  proof (cases "rposition is_ascii bs")
    case None
    then have "\<forall>b \<in> set bs. \<not> is_ascii b" by (simp add: rposition_NoneD)
    then have all: "takeWhile (\<lambda>b. \<not> is_ascii b) (rev bs) = rev bs" by (simp add: takeWhile_eq_all_conv)
    show ?thesis by (simp add: non_ascii_tail_def None all)
  next
    case (Some i)
    then show ?thesis by (simp add: rposition_split non_ascii_tail_def)
  qed
  from False show ?thesis
    unfolding incomplete_utf8_suffix_len_def Let_def tail by (auto simp: from_utf8_def)
qed

text \<open>What stays pending after a chunk: the undecodable end of the non-ASCII tail.\<close>

definition pending_tail :: "u8 list \<Rightarrow> u8 list" where
  "pending_tail bs = drop (length bs - incomplete_utf8_suffix_len bs) bs"

definition fed_prefix :: "u8 list \<Rightarrow> u8 list" where
  "fed_prefix bs = take (length bs - incomplete_utf8_suffix_len bs) bs"

lemma fed_pending: "fed_prefix bs @ pending_tail bs = bs"
  by (simp add: fed_prefix_def pending_tail_def)

lemma pending_tail_eq: "pending_tail bs = drop (valid_up_to (non_ascii_tail bs)) (non_ascii_tail bs)"
proof -
  obtain zs where zs: "bs = zs @ non_ascii_tail bs" using non_ascii_tail_suffix by blast
  define t where "t = non_ascii_tail bs"
  have v: "valid_up_to t \<le> length t" by (rule valid_up_to_le)
  have l: "length bs = length zs + length t" using zs by (metis length_append t_def)
  have "length bs - (length t - valid_up_to t) = length zs + valid_up_to t"
    using v l by simp
  then have "pending_tail bs = drop (length zs + valid_up_to t) bs"
    by (simp add: pending_tail_def incomplete_eq t_def)
  also have "\<dots> = drop (valid_up_to t) t"
    by (subst zs) (simp add: t_def)
  finally show ?thesis by (simp add: t_def)
qed

lemma length_pending: "length (pending_tail bs) = incomplete_utf8_suffix_len bs"
  using valid_up_to_le [of "non_ascii_tail bs"] by (simp add: pending_tail_eq incomplete_eq)

lemma pending_tail_append: "pending_tail (xs @ ys) = pending_tail (pending_tail xs @ ys)"
proof (cases "list_all (\<lambda>b. \<not> is_ascii b) ys")
  case False
  then show ?thesis by (simp add: pending_tail_eq [of "_ @ ys"] non_ascii_tail_append)
next
  case True
  let ?t = "non_ascii_tail xs"
  have "list_all (\<lambda>b. \<not> is_ascii b) (pending_tail xs)"
    using non_ascii_tail_all [of xs] by (auto simp: pending_tail_eq list_all_iff dest: in_set_dropD)
  then have id: "non_ascii_tail (pending_tail xs) = pending_tail xs"
    using non_ascii_tail_append [of "[]" "pending_tail xs"] by (simp add: non_ascii_tail_def)
  have "drop (valid_up_to (?t @ ys)) (?t @ ys)
      = drop (valid_up_to (drop (valid_up_to ?t) ?t @ ys)) (drop (valid_up_to ?t) (?t @ ys))"
    by (simp only: valid_up_to_append [of ?t ys] drop_drop add.commute)
  also have "drop (valid_up_to ?t) (?t @ ys) = drop (valid_up_to ?t) ?t @ ys"
    using valid_up_to_le [of ?t] by simp
  finally show ?thesis
    using True by (simp add: pending_tail_eq [of "_ @ ys"] non_ascii_tail_append id) (simp add: pending_tail_eq [of xs])
qed

lemma fed_prefix_append: "fed_prefix (xs @ ys) = fed_prefix xs @ fed_prefix (pending_tail xs @ ys)"
proof -
  have "fed_prefix (xs @ ys) @ pending_tail (xs @ ys)
      = (fed_prefix xs @ fed_prefix (pending_tail xs @ ys)) @ pending_tail (pending_tail xs @ ys)"
    by (simp add: fed_pending)
  then show ?thesis by (simp add: pending_tail_append [of xs ys])
qed

section \<open>Chunk boundaries\<close>

definition stream_parser :: "'p parser \<Rightarrow> bool" where
  "stream_parser adv \<longleftrightarrow> (\<forall>p. adv p [] = (p, []))
     \<and> (\<forall>p xs ys. adv p (xs @ ys) =
          (let (p1, cs1) = adv p xs; (p2, cs2) = adv p1 ys in (p2, cs1 @ cs2)))"

lemma advance_parser_Nil: "stream_parser adv \<Longrightarrow> advance_parser uw adv [] d = Some d"
  by (simp add: advance_parser_def stream_parser_def advance_bytes_run)

lemma advance_parser_append:
  assumes "stream_parser adv"
  shows "advance_parser uw adv (xs @ ys) d = Option.bind (advance_parser uw adv xs d) (advance_parser uw adv ys)"
proof -
  obtain p1 cs1 where 1: "adv (dg_parser d) xs = (p1, cs1)" by fastforce
  obtain p2 cs2 where 2: "adv p1 ys = (p2, cs2)" by fastforce
  have "adv (dg_parser d) (xs @ ys) = (p2, cs1 @ cs2)"
    using assms 1 2 by (simp add: stream_parser_def)
  then show ?thesis
    by (cases "fold_opt (perform uw) cs1 (dg_grid d)")
       (simp_all add: advance_parser_def 1 2 fold_opt_append advance_bytes_append)
qed

lemma advance_parser_pending:
  "advance_parser uw adv bs (d\<lparr>dg_pending_utf8 := x\<rparr>)
     = map_option (\<lambda>d. d\<lparr>dg_pending_utf8 := x\<rparr>) (advance_parser uw adv bs d)"
  by (cases "fold_opt (perform uw) (snd (adv (dg_parser d) bs)) (dg_grid d)")
     (simp_all add: advance_parser_def split_beta Let_def)

text \<open>\<open>process\<close> advances over the decodable part of the pending tail and the new bytes.\<close>

lemma process_eq:
  assumes "stream_parser adv" "bs \<noteq> []"
  shows "process uw adv bs d = map_option (\<lambda>d'. d'\<lparr>dg_pending_utf8 := pending_tail (dg_pending_utf8 d @ bs)\<rparr>)
    (advance_parser uw adv (fed_prefix (dg_pending_utf8 d @ bs)) d)"
proof -
  let ?b = "dg_pending_utf8 d @ bs"
  have fed: "(if 0 < length ?b - incomplete_utf8_suffix_len ?b
      then advance_parser uw adv (take (length ?b - incomplete_utf8_suffix_len ?b) ?b) (d\<lparr>dg_pending_utf8 := []\<rparr>)
      else Some (d\<lparr>dg_pending_utf8 := []\<rparr>))
    = map_option (\<lambda>d. d\<lparr>dg_pending_utf8 := []\<rparr>) (advance_parser uw adv (fed_prefix ?b) d)"
    using assms(1) by (auto simp: fed_prefix_def advance_parser_pending advance_parser_Nil simp del: length_append)
  have tail: "(if 0 < incomplete_utf8_suffix_len ?b then x\<lparr>dg_pending_utf8 := dg_pending_utf8 x @ pending_tail ?b\<rparr> else x)
      = x\<lparr>dg_pending_utf8 := pending_tail ?b\<rparr>" if "dg_pending_utf8 x = []" for x :: "'a damage_grid"
    using that length_pending [of ?b] by auto
  show ?thesis
    unfolding process_def Let_def fed pending_tail_def [symmetric] using assms(2)
    by (cases "advance_parser uw adv (fed_prefix ?b) d") (simp_all add: tail)
qed

lemma process_append:
  assumes sp: "stream_parser adv"
  shows "Option.bind (process uw adv xs d) (process uw adv ys) = process uw adv (xs @ ys) d"
proof (cases "xs = [] \<or> ys = []")
  case True
  have "process uw adv [] = Some" by (rule ext) (simp add: process_def)
  with True show ?thesis by auto
next
  case False
  let ?p = "dg_pending_utf8 d"
  show ?thesis
  proof (cases "advance_parser uw adv (fed_prefix (?p @ xs)) d")
    case None
    with False show ?thesis
      by (simp add: process_eq [OF sp] fed_prefix_append [of "?p @ xs" ys, simplified] advance_parser_append [OF sp])
  next
    case (Some d1)
    with False show ?thesis
      by (simp add: process_eq [OF sp] fed_prefix_append [of "?p @ xs" ys, simplified] advance_parser_append [OF sp]
          pending_tail_append [of "?p @ xs" ys, simplified] advance_parser_pending option.map_comp comp_def)
  qed
qed

text \<open>Any way of cutting the stream into chunks gives the same grid.\<close>

lemma process_chunks:
  assumes "stream_parser adv"
  shows "fold_opt (process uw adv) chunks d = process uw adv (concat chunks) d"
proof (induction chunks arbitrary: d)
  case Nil
  then show ?case by (simp add: process_def)
next
  case (Cons c cs)
  have "fold_opt (process uw adv) cs = process uw adv (concat cs)" by (rule ext) (rule Cons.IH)
  then show ?case by (simp flip: process_append [OF assms])
qed

section \<open>Safety of a stream\<close>

definition is_dch :: "perform_call \<Rightarrow> bool" where
  "is_dch call \<longleftrightarrow> (case call of CsiDispatch ps intermediates ignore action \<Rightarrow> is_char action CHR ''P'' | _ \<Rightarrow> False)"

lemma performs_ok:
  assumes "grid_inv g"
  shows "ok (fold_opt (perform uw) calls g) (action_ok (list_ex is_dch calls) g)"
  using assms
proof (induction calls arbitrary: g)
  case Nil
  then show ?case by (simp add: action_ok_def damage_sound_def)
next
  case (Cons c cs)
  from perform_ok [OF Cons.prems, of uw c] obtain g1
    where g1: "perform uw c g = Some g1" "action_ok (dch_at_margin c g) g g1" by (auto simp: ok_iff_ex)
  have "grid_inv g1" using g1(2) by (simp add: action_ok_def)
  from Cons.IH [OF this] obtain g2
    where g2: "fold_opt (perform uw) cs g1 = Some g2" "action_ok (list_ex is_dch cs) g1 g2" by (auto simp: ok_iff_ex)
  have "dch_at_margin c g \<longrightarrow> is_dch c"
    by (auto simp: dch_at_margin_def is_dch_def split: perform_call.splits)
  with g1(2) g2(2) have "action_ok (list_ex is_dch (c # cs)) g g2"
    by (auto simp: action_ok_def damage_sound_def)
  with g1(1) g2(1) show ?case by simp
qed

lemma advance_parser_ok:
  assumes "grid_inv (dg_grid d)"
  shows "ok (advance_parser uw adv bs d) (\<lambda>d'. dg_pending_utf8 d' = dg_pending_utf8 d
    \<and> dg_seq_state d' = seq_run (dg_seq_state d) bs
    \<and> action_ok (list_ex is_dch (snd (adv (dg_parser d) bs))) (dg_grid d) (dg_grid d'))"
  using performs_ok [OF assms, of uw "snd (adv (dg_parser d) bs)"]
  by (auto simp: advance_parser_def split_beta Let_def ok_iff_ex advance_bytes_run)

lemma process_ok:
  assumes "grid_inv (dg_grid d)"
  shows "ok (process uw adv bs d) (\<lambda>d'. grid_inv (dg_grid d')
    \<and> g_rows (dg_grid d') = g_rows (dg_grid d) \<and> g_cols (dg_grid d') = g_cols (dg_grid d))"
proof (cases "bs = []")
  case True
  with assms show ?thesis by (simp add: process_def)
next
  case False
  let ?d = "d\<lparr>dg_pending_utf8 := []\<rparr>"
  have "grid_inv (dg_grid ?d)" using assms by simp
  note adv = advance_parser_ok [OF this, of uw adv]
  have "ok (if b then advance_parser uw adv cs ?d else Some ?d) (\<lambda>d'. grid_inv (dg_grid d')
      \<and> g_rows (dg_grid d') = g_rows (dg_grid d) \<and> g_cols (dg_grid d') = g_cols (dg_grid d))" for b cs
    using assms by (auto simp: action_ok_def intro!: ok_mono_all [OF adv])
  note fed = this
  have *: "(bs = []) = False" using False by simp
  show ?thesis
    unfolding process_def Let_def * if_False ok_bind
    by (rule ok_mono_all [OF fed]) (simp add: if_distrib [of dg_grid])
qed

section \<open>Reachable states\<close>

text \<open>The operations of the public interface that change a grid.\<close>

datatype api_call =
    Process "u8 list"
  | SetSize u16 u16
  | SetScrollback usize
  | ClearScrollback
  | DirtySpans
  | DrainPassthrough
  | DrainScrollOps
  | ClearScrollOps
  | ClearKittyStack
  | SetReportedColors "rgb option" "rgb option"
  | SetErasePolicy erase_display_policy

definition on_grid :: "(grid \<Rightarrow> grid) \<Rightarrow> 'p damage_grid \<Rightarrow> 'p damage_grid" where
  "on_grid f d = d\<lparr>dg_grid := f (dg_grid d)\<rparr>"

fun api :: "unicode_width \<Rightarrow> 'p parser \<Rightarrow> api_call \<Rightarrow> 'p damage_grid \<Rightarrow> 'p damage_grid option" where
  "api uw adv (Process bs) d = process uw adv bs d"
| "api uw adv (SetSize rows cols) d = Some (on_grid (set_size rows cols) d)"
| "api uw adv (SetScrollback k) d = Some (on_grid (set_scrollback k) d)"
| "api uw adv ClearScrollback d = Some (on_grid clear_scrollback d)"
| "api uw adv DirtySpans d = Some (on_grid (\<lambda>g. snd (dirty_spans_of g)) d)"
| "api uw adv DrainPassthrough d = Some (on_grid (\<lambda>g. snd (drain_passthrough g)) d)"
| "api uw adv DrainScrollOps d = Some (on_grid (\<lambda>g. snd (drain_scroll_ops g)) d)"
| "api uw adv ClearScrollOps d = Some (on_grid clear_scroll_ops d)"
| "api uw adv ClearKittyStack d = Some (on_grid clear_kitty_kb_stack d)"
| "api uw adv (SetReportedColors fg bg) d = Some (on_grid (set_reported_colors fg bg) d)"
| "api uw adv (SetErasePolicy p) d = Some (on_grid (set_erase_display_policy p) d)"

text \<open>The only restriction on a caller is the width: a \<open>u16\<close> of at most \<open>MAX_COLS\<close>.\<close>

fun call_fits :: "api_call \<Rightarrow> bool" where
  "call_fits (SetSize rows cols) \<longleftrightarrow> rows \<le> u16_max \<and> cols \<le> MAX_COLS"
| "call_fits _ \<longleftrightarrow> True"

inductive reachable :: "unicode_width \<Rightarrow> 'p parser \<Rightarrow> 'p damage_grid \<Rightarrow> bool" for uw adv where
  created: "1 \<le> rows \<Longrightarrow> rows \<le> u16_max \<Longrightarrow> 1 \<le> cols \<Longrightarrow> cols \<le> MAX_COLS \<Longrightarrow> arena_inv pool \<Longrightarrow>
    reachable uw adv (damage_grid_new p rows cols limit pool)"
| called: "reachable uw adv d \<Longrightarrow> call_fits c \<Longrightarrow> api uw adv c d = Some d' \<Longrightarrow> reachable uw adv d'"

lemma drain_inv:
  assumes "grid_inv g"
  shows "grid_inv (snd (dirty_spans_of g))" "grid_inv (snd (drain_passthrough g))"
    "grid_inv (snd (drain_scroll_ops g))" "grid_inv (clear_scroll_ops g)" "grid_inv (clear_kitty_kb_stack g)"
    "grid_inv (set_reported_colors fg bg g)" "grid_inv (set_erase_display_policy pol g)"
  using assms dt_take_correct(2) [of "g_dirty g"]
  by (auto simp: dirty_spans_of_def drain_passthrough_def drain_scroll_ops_def clear_scroll_ops_def
      clear_kitty_kb_stack_def set_reported_colors_def set_erase_display_policy_def split_beta Let_def
      grid_inv_def inv_part_defs has_flag_def split: option.splits)

lemma api_ok:
  assumes "grid_inv (dg_grid d)" "call_fits c"
  shows "ok (api uw adv c d) (\<lambda>d'. grid_inv (dg_grid d'))"
proof (cases c)
  case (Process bs)
  then show ?thesis using ok_mono_all [OF process_ok [OF assms(1)]] by simp
qed (use assms in \<open>simp_all add: on_grid_def set_size_inv set_scrollback_inv clear_scrollback_inv drain_inv\<close>)

lemma reachable_inv: "reachable uw adv d \<Longrightarrow> grid_inv (dg_grid d)"
proof (induction rule: reachable.induct)
  case (created rows cols pool p limit)
  then show ?case by (simp add: damage_grid_new_def with_row_arena_inv)
next
  case (called d c d')
  then show ?case using api_ok [of d c uw adv] by simp
qed

section \<open>Correctness of the byte stream\<close>


text \<open>A parser for the examples: every byte is printed.\<close>

definition print_all :: "unit parser" where
  "print_all p bs = (p, map (\<lambda>b. Print (unat b)) bs)"

lemma print_all_stream: "stream_parser print_all"
  by (simp add: stream_parser_def print_all_def)


text \<open>
  C6: the result does not depend on how the bytes are cut into chunks, even inside a UTF-8 sequence or an
  escape sequence, when the parser itself keeps its state between slices.
\<close>

theorem chunks_irrelevant:
  assumes "stream_parser adv" "concat xs = concat ys"
  shows "fold_opt (process uw adv) xs d = fold_opt (process uw adv) ys d"
  using assms by (simp add: process_chunks)

lemma chunks_witness:
  "fold_opt (process example_width print_all) [bytes ''h'', bytes ''i''] (damage_grid_new () 3 4 2 [])
     = fold_opt (process example_width print_all) [bytes ''hi''] (damage_grid_new () 3 4 2 [])"
  by (rule chunks_irrelevant [OF print_all_stream]) simp

lemma process_action:
  assumes "grid_inv (dg_grid d)"
  shows "ok (process uw adv bs d) (\<lambda>d'. action_ok
    (list_ex is_dch (snd (adv (dg_parser d) (fed_prefix (dg_pending_utf8 d @ bs))))) (dg_grid d) (dg_grid d'))"
proof (cases "bs = []")
  case True
  with assms show ?thesis by (simp add: process_def action_ok_def damage_sound_def)
next
  case False
  let ?d = "d\<lparr>dg_pending_utf8 := []\<rparr>" and ?b = "dg_pending_utf8 d @ bs"
  have "grid_inv (dg_grid ?d)" using assms by simp
  note adv = advance_parser_ok [OF this, of uw adv]
  have fed: "ok (if b then advance_parser uw adv (fed_prefix ?b) ?d else Some ?d) (\<lambda>d'. action_ok
      (list_ex is_dch (snd (adv (dg_parser d) (fed_prefix ?b)))) (dg_grid d) (dg_grid d'))" for b
    using assms by (auto simp: action_ok_def damage_sound_def intro!: ok_mono_all [OF adv])
  have *: "(bs = []) = False" using False by simp
  show ?thesis
    unfolding process_def Let_def * if_False ok_bind fed_prefix_def [symmetric]
    by (rule ok_mono_all [OF fed]) (simp add: if_distrib [of dg_grid])
qed

end
