(* ===== verification/Snapshot.thy ===== *)
theory Snapshot
  imports Scrolling
begin

text \<open>
  Observation of a grid (\<open>src/src/snapshot.rs\<close>, and \<open>dump\<close>, the scrollback views and the dirty patch
  of \<open>src/src/grid.rs\<close>): the owned snapshot, the borrowed view with the scrollback prefix, and the
  patch of the rows that changed since the last drain. The borrowed structures hold the row stores
  they borrow. An iterator is its state and its \<open>next\<close>; \<open>collect\<close> runs it to the end.
\<close>

section \<open>Snapshots\<close>

record snap_cell_attrs =
  sa_bold :: bool
  sa_italic :: bool
  sa_underline :: bool
  sa_inverse :: bool
  sa_dim :: bool
  sa_strikethrough :: bool
  sa_slow_blink :: bool
  sa_rapid_blink :: bool
  sa_conceal :: bool
  sa_overline :: bool

record snap_cell =
  sc_text :: ustr
  sc_is_wide :: bool
  sc_is_wide_continuation :: bool
  sc_fg :: color
  sc_bg :: color
  sc_attributes :: snap_cell_attrs
  sc_underline_style :: underline_style
  sc_underline_color :: color
  sc_hyperlink :: "hyperlink option"

definition snap_has_contents :: "snap_cell \<Rightarrow> bool" where
  "snap_has_contents s \<longleftrightarrow> sc_text s \<noteq> []"

definition attrs_are_default :: "snap_cell \<Rightarrow> bool" where
  "attrs_are_default s \<longleftrightarrow> sc_fg s = ColorDefault \<and> sc_bg s = ColorDefault
     \<and> \<not> sa_bold (sc_attributes s) \<and> \<not> sa_italic (sc_attributes s) \<and> \<not> sa_underline (sc_attributes s)
     \<and> sc_underline_style s = UnderlineNone \<and> sc_underline_color s = ColorDefault
     \<and> \<not> sa_inverse (sc_attributes s) \<and> \<not> sa_dim (sc_attributes s)
     \<and> \<not> sa_strikethrough (sc_attributes s) \<and> \<not> sa_slow_blink (sc_attributes s)
     \<and> \<not> sa_rapid_blink (sc_attributes s) \<and> \<not> sa_conceal (sc_attributes s)
     \<and> \<not> sa_overline (sc_attributes s) \<and> sc_hyperlink s = None"

definition snap_is_blank :: "snap_cell \<Rightarrow> bool" where
  "snap_is_blank s \<longleftrightarrow> sc_text s = [] \<and> attrs_are_default s"

definition snap_cell_from :: "cell \<Rightarrow> snap_cell" where
  "snap_cell_from c =
     \<lparr>sc_text = contents c, sc_is_wide = is_wide c, sc_is_wide_continuation = is_wide_continuation c,
      sc_fg = fgcolor c, sc_bg = bgcolor c,
      sc_attributes = \<lparr>sa_bold = cell_bold c, sa_italic = cell_italic c, sa_underline = cell_underline c,
        sa_inverse = cell_inverse c, sa_dim = cell_dim c, sa_strikethrough = cell_strikethrough c,
        sa_slow_blink = cell_slow_blink c, sa_rapid_blink = cell_rapid_blink c,
        sa_conceal = cell_conceal c, sa_overline = cell_overline c\<rparr>,
      sc_underline_style = at_underline_style (cell_attrs c),
      sc_underline_color = at_underline_color (cell_attrs c),
      sc_hyperlink = cell_hyperlink c\<rparr>"

type_synonym line_flags = "bool \<times> bool \<times> bool \<times> bool \<times> bool"

type_synonym attrs_fields =
  "color \<times> color \<times> color \<times> underline_style \<times> bool \<times> bool \<times> bool \<times> bool \<times> bool \<times> line_flags"

definition attrs_tuple :: "attrs \<Rightarrow> attrs_fields" where
  "attrs_tuple a = (at_foreground a, at_background a, at_underline_color a, at_underline_style a,
     at_bold a, at_italic a, at_underline_style a \<noteq> UnderlineNone, at_inverse a, at_dim a,
     at_strikethrough a, at_slow_blink a, at_rapid_blink a, at_conceal a, at_overline a)"

record grid_snapshot =
  sn_rows :: u16
  sn_cols :: u16
  sn_cursor :: "u16 \<times> u16"
  sn_alternate_screen :: bool
  sn_cells :: "snap_cell list list"
  sn_row_wraps :: "row_wrap list"

definition dump :: "grid \<Rightarrow> grid_snapshot" where
  "dump g = (let screen = active_grid g in
     \<lparr>sn_rows = g_rows g, sn_cols = g_cols g, sn_cursor = (g_cursor_row g, g_cursor_col g),
      sn_alternate_screen = has_flag g ALT_SCREEN,
      sn_cells = map (map snap_cell_from) (rs_rows screen),
      sn_row_wraps = map (\<lambda>i. case rs_wrap screen i of Some w \<Rightarrow> w | None \<Rightarrow> default) [0..<rs_len screen]\<rparr>)"

definition snapshot_cell :: "grid_snapshot \<Rightarrow> u16 \<Rightarrow> u16 \<Rightarrow> snap_cell option" where
  "snapshot_cell s row col = Option.bind (vec_get (sn_cells s) row) (\<lambda>r. vec_get r col)"

definition non_blank_count :: "grid_snapshot \<Rightarrow> usize" where
  "non_blank_count s = length (filter snap_has_contents (concat (sn_cells s)))"

text \<open>\<open>char::is_whitespace\<close>: the code points with the property \<open>White_Space\<close>.\<close>

definition is_whitespace :: "uchar \<Rightarrow> bool" where
  "is_whitespace c \<longleftrightarrow> (0x09 \<le> c \<and> c \<le> 0x0D) \<or> c = 0x20 \<or> c = 0x85 \<or> c = 0xA0 \<or> c = 0x1680
     \<or> (0x2000 \<le> c \<and> c \<le> 0x200A) \<or> c = 0x2028 \<or> c = 0x2029 \<or> c = 0x202F \<or> c = 0x205F \<or> c = 0x3000"

definition trim_end :: "ustr \<Rightarrow> ustr" where
  "trim_end s = rev (dropWhile is_whitespace (rev s))"

fun row_text :: "snap_cell list \<Rightarrow> ustr" where
  "row_text [] = []"
| "row_text (c # cs) =
     (if sc_is_wide_continuation c then row_text cs
      else if sc_text c = [] then 0x20 # row_text cs
      else sc_text c @ row_text cs)"

fun to_text_from :: "usize \<Rightarrow> usize \<Rightarrow> snap_cell list list \<Rightarrow> ustr" where
  "to_text_from n i [] = []"
| "to_text_from n i (row # rows) =
     trim_end (row_text row) @ (if i + 1 < n then [0x0A] else []) @ to_text_from n (i + 1) rows"

definition to_text :: "grid_snapshot \<Rightarrow> ustr" where
  "to_text s = to_text_from (length (sn_cells s)) 0 (sn_cells s)"

section \<open>Scrollback views\<close>

definition scrollback_rows_at_offset :: "grid \<Rightarrow> usize \<Rightarrow> usize \<Rightarrow> row list" where
  "scrollback_rows_at_offset g offset max_rows =
     (let len = rs_len (g_scrollback g) in
      if offset = 0 \<or> len = 0 \<or> max_rows = 0 then []
      else let clamped = min offset len;
               start = len - clamped;
               stop = min (start + max_rows) len
           in List.map_filter (rs_get (g_scrollback g)) [start..<stop])"

definition dump_scrollback_view :: "grid \<Rightarrow> usize \<Rightarrow> u16 \<Rightarrow> grid_snapshot" where
  "dump_scrollback_view g offset viewport_rows =
     (let live = dump g in
      if offset = 0 then live
      else let rows_to_draw = min viewport_rows (g_rows g);
               sb = scrollback_rows_at_offset g offset rows_to_draw
           in if sb = [] then live
              else let prefix = min (length sb) rows_to_draw;
                       cells = map (map snap_cell_from) (take prefix sb)
                         @ take (rows_to_draw - prefix) (sn_cells live);
                       clamped = min offset (rs_len (g_scrollback g));
                       start = rs_len (g_scrollback g) - clamped;
                       row_wraps = map (\<lambda>i. case rs_wrap (g_scrollback g) i of Some w \<Rightarrow> w | None \<Rightarrow> default)
                           [start..<start + prefix]
                         @ take (rows_to_draw - prefix) (sn_row_wraps live)
                   in \<lparr>sn_rows = rows_to_draw, sn_cols = g_cols g, sn_cursor = sn_cursor live,
                       sn_alternate_screen = sn_alternate_screen live, sn_cells = cells,
                       sn_row_wraps = row_wraps\<rparr>)"

record grid_view =
  vw_rows :: u16
  vw_cols :: u16
  vw_cursor :: "u16 \<times> u16"
  vw_alternate_screen :: bool
  vw_screen :: row_store
  vw_scrollback :: row_store
  vw_scrollback_start :: usize
  vw_scrollback_prefix :: usize

definition view_cell :: "grid_view \<Rightarrow> u16 \<Rightarrow> u16 \<Rightarrow> cell option" where
  "view_cell v row col =
     (if vw_rows v \<le> row \<or> vw_cols v \<le> col then None
      else if row < vw_scrollback_prefix v
        then Option.bind (rs_get (vw_scrollback v) (vw_scrollback_start v + row)) (\<lambda>r. vec_get r col)
      else Option.bind (rs_get (vw_screen v) (row - vw_scrollback_prefix v)) (\<lambda>r. vec_get r col))"

definition view_row_wrap :: "grid_view \<Rightarrow> u16 \<Rightarrow> row_wrap option" where
  "view_row_wrap v row =
     (if vw_rows v \<le> row then None
      else if row < vw_scrollback_prefix v then rs_wrap (vw_scrollback v) (vw_scrollback_start v + row)
      else rs_wrap (vw_screen v) (row - vw_scrollback_prefix v))"

definition scrollback_view :: "grid \<Rightarrow> usize \<Rightarrow> u16 \<Rightarrow> grid_view" where
  "scrollback_view g offset viewport_rows =
     (let screen = active_grid g; cursor = (g_cursor_row g, g_cursor_col g) in
      if offset = 0 \<or> rs_is_empty (g_scrollback g) \<or> viewport_rows = 0
      then \<lparr>vw_rows = g_rows g, vw_cols = g_cols g, vw_cursor = cursor,
            vw_alternate_screen = has_flag g ALT_SCREEN, vw_screen = screen,
            vw_scrollback = g_scrollback g, vw_scrollback_start = 0, vw_scrollback_prefix = 0\<rparr>
      else let rows_to_draw = min viewport_rows (g_rows g);
               clamped = min offset (rs_len (g_scrollback g));
               start = rs_len (g_scrollback g) - clamped;
               prefix = min (min (start + rows_to_draw) (rs_len (g_scrollback g)) - start) rows_to_draw
           in \<lparr>vw_rows = rows_to_draw, vw_cols = g_cols g, vw_cursor = cursor,
               vw_alternate_screen = has_flag g ALT_SCREEN, vw_screen = screen,
               vw_scrollback = g_scrollback g, vw_scrollback_start = start, vw_scrollback_prefix = prefix\<rparr>)"

definition active_content_row_cells :: "grid \<Rightarrow> usize \<Rightarrow> row option" where
  "active_content_row_cells g content_row =
     (if g_scrollback_offset g = 0 then rs_get (active_grid g) content_row
      else let screen = active_grid g;
               viewport_rows = g_rows g;
               len = rs_len (g_scrollback g);
               start = len - min (g_scrollback_offset g) len;
               prefix = min (min (start + viewport_rows) len - start) viewport_rows
           in if content_row < prefix then rs_get (g_scrollback g) (start + content_row)
              else rs_get screen (content_row - prefix))"

definition hyperlink_target_at_content_row :: "grid \<Rightarrow> usize \<Rightarrow> u16 \<Rightarrow> ustr option" where
  "hyperlink_target_at_content_row g content_row col = do {
     cells \<leftarrow> active_content_row_cells g content_row;
     c \<leftarrow> vec_get cells col;
     link \<leftarrow> cell_hyperlink c;
     Some (hl_uri link)
   }"

section \<open>Dirty patches\<close>

record grid_patch =
  pt_rows :: u16
  pt_cols :: u16
  pt_cursor :: "u16 \<times> u16"
  pt_alternate_screen :: bool
  pt_screen :: row_store
  pt_dirty :: dirty_spans

definition dirty_patch_from :: "grid \<Rightarrow> dirty_spans \<Rightarrow> grid_patch" where
  "dirty_patch_from g dirty =
     \<lparr>pt_rows = g_rows g, pt_cols = g_cols g, pt_cursor = (g_cursor_row g, g_cursor_col g),
      pt_alternate_screen = has_flag g ALT_SCREEN, pt_screen = active_grid g, pt_dirty = dirty\<rparr>"

definition dump_dirty_patch :: "grid \<Rightarrow> grid_patch \<times> grid" where
  "dump_dirty_patch g = (let (dirty, g) = dirty_spans_of g in (dirty_patch_from g dirty, g))"

definition patch_is_empty :: "grid_patch \<Rightarrow> bool" where
  "patch_is_empty p = (case pt_dirty p of AllDirty \<Rightarrow> rs_is_empty (pt_screen p) | RowsDirty d \<Rightarrow> dr_is_empty d)"

definition changed_row_count :: "grid_patch \<Rightarrow> usize" where
  "changed_row_count p = (case pt_dirty p of AllDirty \<Rightarrow> rs_len (pt_screen p) | RowsDirty d \<Rightarrow> dr_len d)"

definition span_width :: "dirty_span \<Rightarrow> u16 \<Rightarrow> usize" where
  "span_width span cols = (let stop = min (ds_end_col span) cols in stop - min (ds_start_col span) stop)"

definition changed_cell_count :: "grid_patch \<Rightarrow> usize" where
  "changed_cell_count p = (case pt_dirty p of
       AllDirty \<Rightarrow> rs_len (pt_screen p) * pt_cols p
     | RowsDirty d \<Rightarrow> sum_list (map (\<lambda>span. span_width span (pt_cols p)) (dr_as_slice d)))"

definition patch_row :: "grid_patch \<Rightarrow> u16 \<Rightarrow> row option" where
  "patch_row p row = (case pt_dirty p of
       AllDirty \<Rightarrow> rs_get (pt_screen p) row
     | RowsDirty d \<Rightarrow> if dr_contains d row then rs_get (pt_screen p) row else None)"

datatype changed_state = AllRows usize "row list" | RowSpans "dirty_span list"

text \<open>The loops \<open>for span in rows.by_ref()\<close> of the two iterators.\<close>

fun next_row_span :: "row_store \<Rightarrow> dirty_span list \<Rightarrow> ((u16 \<times> row) \<times> dirty_span list) option" where
  "next_row_span screen [] = None"
| "next_row_span screen (span # spans) =
     (case rs_get screen (ds_row span) of
        Some row \<Rightarrow> Some ((ds_row span, row), spans)
      | None \<Rightarrow> next_row_span screen spans)"

fun next_col_span :: "row_store \<Rightarrow> u16 \<Rightarrow> dirty_span list \<Rightarrow> ((u16 \<times> u16 \<times> cell list) \<times> dirty_span list) option" where
  "next_col_span screen cols [] = None"
| "next_col_span screen cols (span # spans) =
     (case rs_get screen (ds_row span) of
        None \<Rightarrow> next_col_span screen cols spans
      | Some row \<Rightarrow>
          let start = min (ds_start_col span) cols; stop = min (ds_end_col span) cols in
          if stop \<le> start \<or> length row \<le> start then next_col_span screen cols spans
          else let stop = min stop (length row)
               in Some ((ds_row span, ds_start_col span, take (stop - start) (drop start row)), spans))"

fun changed_rows_next :: "row_store \<Rightarrow> changed_state \<Rightarrow> ((u16 \<times> row) \<times> changed_state) option" where
  "changed_rows_next screen (AllRows idx []) = None"
| "changed_rows_next screen (AllRows idx (row # rest)) = Some ((as_u16 idx, row), AllRows (idx + 1) rest)"
| "changed_rows_next screen (RowSpans spans) = map_option (map_prod id RowSpans) (next_row_span screen spans)"

fun changed_spans_next :: "row_store \<Rightarrow> u16 \<Rightarrow> changed_state \<Rightarrow> ((u16 \<times> u16 \<times> cell list) \<times> changed_state) option" where
  "changed_spans_next screen cols (AllRows idx []) = None"
| "changed_spans_next screen cols (AllRows idx (row # rest)) =
     (let stop = min cols (as_u16 (length row)) in Some ((as_u16 idx, 0, take stop row), AllRows (idx + 1) rest))"
| "changed_spans_next screen cols (RowSpans spans) = map_option (map_prod id RowSpans) (next_col_span screen cols spans)"

definition state_size :: "changed_state \<Rightarrow> nat" where
  "state_size s = (case s of AllRows idx rs \<Rightarrow> length rs | RowSpans ss \<Rightarrow> length ss)"

lemma next_row_span_size: "next_row_span screen ss = Some (x, ss') \<Longrightarrow> length ss' < length ss"
  by (induction ss arbitrary: x ss') (fastforce split: option.splits)+

lemma next_col_span_size: "next_col_span screen cols ss = Some (x, ss') \<Longrightarrow> length ss' < length ss"
  by (induction ss arbitrary: x ss') (fastforce simp: Let_def split: option.splits if_splits)+

lemma changed_rows_next_size: "changed_rows_next screen s = Some (x, s') \<Longrightarrow> state_size s' < state_size s"
  by (induction screen s rule: changed_rows_next.induct) (auto simp: state_size_def dest: next_row_span_size)

lemma changed_spans_next_size: "changed_spans_next screen cols s = Some (x, s') \<Longrightarrow> state_size s' < state_size s"
  by (induction screen cols s rule: changed_spans_next.induct)
     (auto simp: state_size_def Let_def dest: next_col_span_size)

text \<open>The items an iterator yields from a state on.\<close>

function collect_rows :: "row_store \<Rightarrow> changed_state \<Rightarrow> (u16 \<times> row) list" where
  "collect_rows screen s = (case changed_rows_next screen s of None \<Rightarrow> [] | Some (x, s') \<Rightarrow> x # collect_rows screen s')"
  by pat_completeness auto
termination
  by (relation "measure (\<lambda>(screen, s). state_size s)") (auto dest: changed_rows_next_size)

function collect_spans :: "row_store \<Rightarrow> u16 \<Rightarrow> changed_state \<Rightarrow> (u16 \<times> u16 \<times> cell list) list" where
  "collect_spans screen cols s =
     (case changed_spans_next screen cols s of None \<Rightarrow> [] | Some (x, s') \<Rightarrow> x # collect_spans screen cols s')"
  by pat_completeness auto
termination
  by (relation "measure (\<lambda>(screen, cols, s). state_size s)") (auto dest: changed_spans_next_size)

declare collect_rows.simps [simp del] collect_spans.simps [simp del]

definition patch_state :: "grid_patch \<Rightarrow> changed_state" where
  "patch_state p = (case pt_dirty p of AllDirty \<Rightarrow> AllRows 0 (rs_rows (pt_screen p)) | RowsDirty d \<Rightarrow> RowSpans (dr_as_slice d))"

definition changed_rows :: "grid_patch \<Rightarrow> (u16 \<times> row) list" where
  "changed_rows p = collect_rows (pt_screen p) (patch_state p)"

definition changed_spans :: "grid_patch \<Rightarrow> (u16 \<times> u16 \<times> cell list) list" where
  "changed_spans p = collect_spans (pt_screen p) (pt_cols p) (patch_state p)"

section \<open>Snapshots lose nothing\<close>

lemma snap_cell_from_inject: "snap_cell_from c = snap_cell_from c' \<longleftrightarrow> c = c'"
  by (cases c; cases c'; cases "cell_attrs c"; cases "cell_attrs c'")
     (auto simp: snap_cell_from_def accessor_defs)

lemma attrs_tuple_inject: "attrs_tuple a = attrs_tuple b \<longleftrightarrow> a = b"
  by (cases a; cases b) (auto simp: attrs_tuple_def)

lemma snap_is_blank_iff:
  "snap_is_blank (snap_cell_from c) \<longleftrightarrow> contents c = [] \<and> cell_attrs c = attrs_default \<and> cell_hyperlink c = None"
  by (cases c; cases "cell_attrs c")
     (auto simp: snap_is_blank_def attrs_are_default_def snap_cell_from_def accessor_defs default_defs)

lemma dump_wraps: "length (rs_wraps (active_grid g)) = rs_len (active_grid g) \<Longrightarrow> sn_row_wraps (dump g) = rs_wraps (active_grid g)"
  by (auto simp: dump_def Let_def rs_wrap_def vec_get_def intro!: nth_equalityI)

lemma active_store_ok: "grid_inv g \<Longrightarrow> store_ok (g_rows g) (g_cols g) (active_grid g)"
  by (simp add: grid_inv_def screens_ok_def active_grid_def)

lemma dump_eq_iff:
  assumes "grid_inv g" "grid_inv h"
  shows "dump g = dump h \<longleftrightarrow> g_rows g = g_rows h \<and> g_cols g = g_cols h
     \<and> g_cursor_row g = g_cursor_row h \<and> g_cursor_col g = g_cursor_col h
     \<and> has_flag g ALT_SCREEN = has_flag h ALT_SCREEN \<and> active_grid g = active_grid h"
proof -
  have w: "sn_row_wraps (dump g) = rs_wraps (active_grid g)" if "grid_inv g" for g
    using active_store_ok [OF that] by (intro dump_wraps) (simp add: store_ok_def rs_len_def)
  have c: "map (map snap_cell_from) xs = map (map snap_cell_from) ys \<longleftrightarrow> xs = ys" for xs ys
    by (rule inj_map_eq_map) (simp add: inj_map inj_on_def snap_cell_from_inject)
  have split: "dump g = dump h \<longleftrightarrow> sn_rows (dump g) = sn_rows (dump h) \<and> sn_cols (dump g) = sn_cols (dump h)
     \<and> sn_cursor (dump g) = sn_cursor (dump h) \<and> sn_alternate_screen (dump g) = sn_alternate_screen (dump h)
     \<and> sn_cells (dump g) = sn_cells (dump h) \<and> sn_row_wraps (dump g) = sn_row_wraps (dump h)"
    by (cases "dump g"; cases "dump h") auto
  show ?thesis
    unfolding split w [OF assms(1)] w [OF assms(2)]
    by (auto simp: dump_def Let_def c row_store.equality)
qed

section \<open>Views\<close>

lemma map_filter_vec_get: "b \<le> length xs \<Longrightarrow> List.map_filter (vec_get xs) [a..<b] = take (b - a) (drop a xs)"
proof -
  assume b: "b \<le> length xs"
  have "List.map_filter (vec_get xs) [a..<b] = map ((!) xs) [a..<b]"
    using b by (induction b) (auto simp: List.map_filter_def vec_get_def)
  also have "\<dots> = take (b - a) (drop a xs)"
    using b by (intro nth_equalityI) auto
  finally show ?thesis .
qed

text \<open>The first history row a view shows, and how many it shows.\<close>

definition view_start :: "grid \<Rightarrow> usize \<Rightarrow> usize" where
  "view_start g offset = rs_len (g_scrollback g) - min offset (rs_len (g_scrollback g))"

definition view_prefix :: "grid \<Rightarrow> usize \<Rightarrow> usize \<Rightarrow> usize" where
  "view_prefix g offset n = min n (min offset (rs_len (g_scrollback g)))"

lemma scrollback_rows_at_offset_eq:
  "scrollback_rows_at_offset g offset n = take (view_prefix g offset n) (drop (view_start g offset) (rs_rows (g_scrollback g)))"
proof -
  let ?len = "rs_len (g_scrollback g)" and ?s = "view_start g offset"
  have "min (?s + n) ?len - ?s = view_prefix g offset n"
    by (auto simp: view_start_def view_prefix_def)
  then have "List.map_filter (rs_get (g_scrollback g)) [?s..<min (?s + n) ?len]
      = take (view_prefix g offset n) (drop ?s (rs_rows (g_scrollback g)))"
    using map_filter_vec_get [of "min (?s + n) ?len" "rs_rows (g_scrollback g)" ?s]
    by (simp add: rs_get_def [abs_def] rs_len_def)
  then show ?thesis
    unfolding scrollback_rows_at_offset_def Let_def view_start_def [symmetric]
    by (auto simp: view_prefix_def)
qed

text \<open>The rows and the wrap flags on screen in a view: history first, then the live screen.\<close>

definition composed :: "grid \<Rightarrow> usize \<Rightarrow> usize \<Rightarrow> 'a list \<Rightarrow> 'a list \<Rightarrow> 'a list" where
  "composed g offset n history live =
     take (view_prefix g offset n) (drop (view_start g offset) history) @ take (n - view_prefix g offset n) live"

text \<open>\<open>None\<close> when the view is the live screen.\<close>

definition view_height :: "grid \<Rightarrow> usize \<Rightarrow> u16 \<Rightarrow> u16" where
  "view_height g offset viewport_rows =
     (if offset = 0 \<or> rs_len (g_scrollback g) = 0 \<or> viewport_rows = 0 then g_rows g else min viewport_rows (g_rows g))"

lemma nth_composed:
  assumes "length history = rs_len (g_scrollback g)" "length live = g_rows g" "i < n" "n \<le> g_rows g"
  shows "composed g offset n history live ! i =
     (if i < view_prefix g offset n then history ! (view_start g offset + i) else live ! (i - view_prefix g offset n))"
    "length (composed g offset n history live) = n"
  using assms by (auto simp: composed_def nth_append view_prefix_def view_start_def)

lemma take_drop_wraps:
  assumes "a + k \<le> length ws"
  shows "map (\<lambda>i. case vec_get ws i of Some w \<Rightarrow> w | None \<Rightarrow> d) [a..<a + k] = take k (drop a ws)"
  using assms by (auto simp: vec_get_def intro!: nth_equalityI)

lemma dump_scrollback_view_eq:
  fixes g :: grid and offset :: usize and vr :: u16
  assumes inv: "grid_inv g"
  defines "n \<equiv> view_height g offset vr"
  shows "dump_scrollback_view g offset vr =
    \<lparr>sn_rows = n, sn_cols = g_cols g, sn_cursor = (g_cursor_row g, g_cursor_col g),
     sn_alternate_screen = has_flag g ALT_SCREEN,
     sn_cells = map (map snap_cell_from) (composed g (if vr = 0 then 0 else offset) n (rs_rows (g_scrollback g)) (rs_rows (active_grid g))),
     sn_row_wraps = composed g (if vr = 0 then 0 else offset) n (rs_wraps (g_scrollback g)) (rs_wraps (active_grid g))\<rparr>"
proof -
  note st = active_store_ok [OF inv]
  have hist: "length (rs_wraps (g_scrollback g)) = rs_len (g_scrollback g)" and rows: "1 \<le> g_rows g"
    using inv by (simp_all add: grid_inv_def history_ok_def store_any_width_def rs_len_def dims_ok_def)
  have w: "sn_row_wraps (dump g) = rs_wraps (active_grid g)"
    using st by (intro dump_wraps) (simp add: store_ok_def rs_len_def)
  have dump: "dump g = \<lparr>sn_rows = g_rows g, sn_cols = g_cols g, sn_cursor = (g_cursor_row g, g_cursor_col g),
     sn_alternate_screen = has_flag g ALT_SCREEN, sn_cells = map (map snap_cell_from) (rs_rows (active_grid g)),
     sn_row_wraps = rs_wraps (active_grid g)\<rparr>"
    using w by (simp add: dump_def Let_def)
  show ?thesis
  proof (cases "offset = 0 \<or> rs_len (g_scrollback g) = 0 \<or> vr = 0")
    case True
    then have "scrollback_rows_at_offset g offset (min vr (g_rows g)) = []"
      by (auto simp: scrollback_rows_at_offset_def)
    with True st show ?thesis
      by (auto simp: dump_scrollback_view_def Let_def dump n_def view_height_def composed_def view_prefix_def store_ok_def)
  next
    case False
    define m where "m = min vr (g_rows g)"
    have nm: "n = m" "0 < m" using False rows by (auto simp: n_def view_height_def m_def)
    define k where "k = view_prefix g offset m"
    have sb: "scrollback_rows_at_offset g offset m = take k (drop (view_start g offset) (rs_rows (g_scrollback g)))"
      by (simp add: scrollback_rows_at_offset_eq k_def)
    have len: "length (scrollback_rows_at_offset g offset m) = k" "0 < k" "k \<le> m"
      using False nm by (auto simp: sb k_def view_prefix_def view_start_def rs_len_def)
    then have ne: "scrollback_rows_at_offset g offset m \<noteq> []" by auto
    have "view_start g offset + k \<le> length (rs_wraps (g_scrollback g))"
      using hist by (auto simp: k_def view_prefix_def view_start_def)
    note wr = take_drop_wraps [OF this]
    have k': "min (length (scrollback_rows_at_offset g offset m)) m = k" using len by simp
    show ?thesis
      unfolding dump_scrollback_view_def Let_def m_def [symmetric] k' view_start_def [symmetric] rs_wrap_def wr
      using False ne nm
      by (simp add: dump composed_def k_def [symmetric] sb take_map)
  qed
qed

lemma scrollback_view_eq:
  fixes g :: grid and offset :: usize and vr :: u16
  assumes inv: "grid_inv g"
  defines "n \<equiv> view_height g offset vr" and "off \<equiv> if vr = 0 then 0 else offset"
  shows "vw_rows (scrollback_view g offset vr) = n" "vw_cols (scrollback_view g offset vr) = g_cols g"
    "vw_cursor (scrollback_view g offset vr) = (g_cursor_row g, g_cursor_col g)"
    "vw_alternate_screen (scrollback_view g offset vr) = has_flag g ALT_SCREEN"
    "row < n \<Longrightarrow> col < g_cols g \<Longrightarrow> view_cell (scrollback_view g offset vr) row col =
       vec_get (composed g off n (rs_rows (g_scrollback g)) (rs_rows (active_grid g)) ! row) col"
    "row < n \<Longrightarrow> view_row_wrap (scrollback_view g offset vr) row =
       Some (composed g off n (rs_wraps (g_scrollback g)) (rs_wraps (active_grid g)) ! row)"
proof -
  note st = active_store_ok [OF inv]
  have hist: "length (rs_wraps (g_scrollback g)) = rs_len (g_scrollback g)"
    using inv by (simp add: grid_inv_def history_ok_def store_any_width_def rs_len_def)
  have n: "n \<le> g_rows g" by (simp add: n_def view_height_def)
  have parts: "vw_scrollback_prefix (scrollback_view g offset vr) = view_prefix g off n
    \<and> (0 < view_prefix g off n \<longrightarrow> vw_scrollback_start (scrollback_view g offset vr) = view_start g off)"
    by (auto simp: scrollback_view_def Let_def view_prefix_def view_start_def n_def view_height_def off_def
        rs_is_empty_def rs_len_def)
  have stores: "vw_screen (scrollback_view g offset vr) = active_grid g"
    "vw_scrollback (scrollback_view g offset vr) = g_scrollback g"
    by (simp_all add: scrollback_view_def Let_def)
  show rows: "vw_rows (scrollback_view g offset vr) = n" "vw_cols (scrollback_view g offset vr) = g_cols g"
    "vw_cursor (scrollback_view g offset vr) = (g_cursor_row g, g_cursor_col g)"
    "vw_alternate_screen (scrollback_view g offset vr) = has_flag g ALT_SCREEN"
    by (auto simp: scrollback_view_def Let_def n_def view_height_def rs_is_empty_def rs_len_def)
  have bound: "view_start g off + row < rs_len (g_scrollback g)" if "row < view_prefix g off n"
    using that by (auto simp: view_prefix_def view_start_def)
  have live: "row - view_prefix g off n < g_rows g" if "row < n" using that n by simp
  show "view_cell (scrollback_view g offset vr) row col =
       vec_get (composed g off n (rs_rows (g_scrollback g)) (rs_rows (active_grid g)) ! row) col"
    if "row < n" "col < g_cols g"
    using that parts bound live st n
    by (auto simp: view_cell_def rows stores rs_get_def nth_composed(1) [of "rs_rows (g_scrollback g)"] rs_len_def
        store_ok_def vec_get_def [of "rs_rows _"])
  show "view_row_wrap (scrollback_view g offset vr) row =
       Some (composed g off n (rs_wraps (g_scrollback g)) (rs_wraps (active_grid g)) ! row)" if "row < n"
    using that parts bound live st n hist
    by (auto simp: view_row_wrap_def rows stores rs_wrap_def nth_composed(1) [of "rs_wraps (g_scrollback g)"]
        store_ok_def vec_get_def)
qed

lemma view_agrees_with_dump:
  fixes g :: grid and offset :: usize and vr :: u16
  assumes inv: "grid_inv g"
  defines "v \<equiv> scrollback_view g offset vr" and "s \<equiv> dump_scrollback_view g offset vr"
  shows "vw_rows v = sn_rows s" "vw_cols v = sn_cols s" "vw_cursor v = sn_cursor s"
    "vw_alternate_screen v = sn_alternate_screen s" "length (sn_cells s) = sn_rows s"
    "col < g_cols g \<Longrightarrow> map_option snap_cell_from (view_cell v row col) = snapshot_cell s row col"
    "view_row_wrap v row = vec_get (sn_row_wraps s) row"
proof -
  let ?n = "view_height g offset vr" and ?o = "if vr = 0 then 0 else offset"
  let ?c = "composed g ?o ?n (rs_rows (g_scrollback g)) (rs_rows (active_grid g))"
  let ?w = "composed g ?o ?n (rs_wraps (g_scrollback g)) (rs_wraps (active_grid g))"
  note eq = scrollback_view_eq [OF inv, where offset = offset and vr = vr, folded v_def]
  note dv = dump_scrollback_view_eq [OF inv, where offset = offset and vr = vr, folded s_def]
  have n: "?n \<le> g_rows g" by (simp add: view_height_def)
  have st: "length (rs_rows (active_grid g)) = g_rows g" "length (rs_wraps (active_grid g)) = g_rows g"
    using active_store_ok [OF inv] by (simp_all add: store_ok_def)
  have h: "length (rs_rows (g_scrollback g)) = rs_len (g_scrollback g)" "length (rs_wraps (g_scrollback g)) = rs_len (g_scrollback g)"
    using inv by (simp_all add: grid_inv_def history_ok_def store_any_width_def rs_len_def)
  have "0 < ?n" using inv by (auto simp: view_height_def grid_inv_def dims_ok_def)
  note len = nth_composed(2) [OF h(1) st(1) this n] nth_composed(2) [OF h(2) st(2) this n]
  show "vw_rows v = sn_rows s" "vw_cols v = sn_cols s" "vw_cursor v = sn_cursor s"
    "vw_alternate_screen v = sn_alternate_screen s" "length (sn_cells s) = sn_rows s"
    using len by (simp_all add: eq dv)
  show "map_option snap_cell_from (view_cell v row col) = snapshot_cell s row col" if "col < g_cols g"
  proof (cases "row < ?n")
    case True
    with len show ?thesis
      unfolding eq(5) [OF True that] by (simp add: snapshot_cell_def dv vec_get_def)
  next
    case False
    with len show ?thesis by (simp add: view_cell_def eq snapshot_cell_def dv vec_get_def)
  qed
  show "view_row_wrap v row = vec_get (sn_row_wraps s) row"
  proof (cases "row < ?n")
    case True
    with len show ?thesis unfolding eq(6) [OF True] by (simp add: dv vec_get_def)
  next
    case False
    with len show ?thesis by (simp add: eq(1) dv view_row_wrap_def vec_get_def)
  qed
qed

text \<open>The row a hyperlink is looked up in is the row the view shows.\<close>

lemma content_row_eq:
  assumes inv: "grid_inv g" and "row < g_rows g"
  shows "active_content_row_cells g row =
    Some (composed g (g_scrollback_offset g) (g_rows g) (rs_rows (g_scrollback g)) (rs_rows (active_grid g)) ! row)"
proof -
  have st: "length (rs_rows (active_grid g)) = g_rows g" using active_store_ok [OF inv] by (simp add: store_ok_def)
  have p: "min (min (view_start g o' + n) len - view_start g o') n = view_prefix g o' n"
    if "len = rs_len (g_scrollback g)" for o' n len
    using that by (auto simp: view_start_def view_prefix_def)
  show ?thesis
    using assms(2) st
    unfolding active_content_row_cells_def Let_def view_start_def [symmetric] p [OF refl]
    by (auto simp: nth_composed(1) rs_len_def rs_get_def view_prefix_def view_start_def vec_get_def)
qed

section \<open>Patches\<close>

lemma collect_all_rows: "i + length rs \<le> u16_max + 1 \<Longrightarrow> collect_rows screen (AllRows i rs) = zip [i..<i + length rs] rs"
proof (induction rs arbitrary: i)
  case Nil
  then show ?case by (simp add: collect_rows.simps)
next
  case (Cons r rs)
  then have "as_u16 i = i" by (simp add: as_u16_def u16_max_def)
  with Cons show ?case by (simp add: collect_rows.simps [of _ "AllRows i _"] upt_conv_Cons del: upt_Suc)
qed

lemma collect_row_spans:
  "collect_rows screen (RowSpans ss) =
     List.map_filter (\<lambda>sp. map_option (Pair (ds_row sp)) (rs_get screen (ds_row sp))) ss"
proof (induction ss)
  case Nil
  then show ?case by (simp add: collect_rows.simps List.map_filter_def)
next
  case (Cons sp ss)
  then show ?case
    by (cases "rs_get screen (ds_row sp)")
       (simp_all add: collect_rows.simps [of _ "RowSpans (_ # _)"] collect_rows.simps [of _ "RowSpans ss"] List.map_filter_def)
qed

text \<open>A changed row of the patch is reported with its current cells, and nothing else is.\<close>

definition patch_changes :: "grid_patch \<Rightarrow> u16 \<Rightarrow> bool" where
  "patch_changes p r \<longleftrightarrow> (case pt_dirty p of AllDirty \<Rightarrow> True | RowsDirty d \<Rightarrow> r \<in> ds_row ` set (dr_as_slice d))"

lemma changed_rows_iff:
  assumes "rs_len (pt_screen p) \<le> u16_max"
  shows "(r, cells) \<in> set (changed_rows p) \<longleftrightarrow> patch_changes p r \<and> rs_get (pt_screen p) r = Some cells"
proof (cases "pt_dirty p")
  case AllDirty
  have "changed_rows p = zip [0..<length (rs_rows (pt_screen p))] (rs_rows (pt_screen p))"
    using collect_all_rows [of 0 "rs_rows (pt_screen p)" "pt_screen p"] assms AllDirty
    by (simp add: changed_rows_def patch_state_def rs_len_def)
  with AllDirty show ?thesis by (auto simp: in_set_zip patch_changes_def rs_get_def intro!: exI [of _ r])
next
  case (RowsDirty d)
  then show ?thesis
    by (force simp: changed_rows_def patch_state_def collect_row_spans patch_changes_def List.map_filter_def
        split: option.splits)
qed

lemma patch_row_iff:
  assumes "case pt_dirty p of AllDirty \<Rightarrow> True | RowsDirty d \<Rightarrow> dr_inv d"
  shows "patch_row p r = (if patch_changes p r then rs_get (pt_screen p) r else None)"
  using assms by (auto simp: patch_row_def patch_changes_def dr_contains_iff split: dirty_spans.splits)

text \<open>A consumer that keeps its own copy of the screen and overwrites the rows it is handed.\<close>

definition apply_rows :: "(u16 \<times> row) list \<Rightarrow> row list \<Rightarrow> row list" where
  "apply_rows changes screen = fold (\<lambda>(r, cells) s. s[r := cells]) changes screen"

lemma length_apply_rows [simp]: "length (apply_rows changes screen) = length screen"
  unfolding apply_rows_def by (induction changes arbitrary: screen) auto

lemma nth_apply_rows:
  assumes "\<And>r cells. (r, cells) \<in> set changes \<Longrightarrow> cells = target ! r" "i < length screen"
  shows "apply_rows changes screen ! i = (if i \<in> fst ` set changes then target ! i else screen ! i)"
  using assms
proof (induction changes arbitrary: screen)
  case (Cons c cs)
  obtain r cells where c: "c = (r, cells)" by (cases c)
  have step: "apply_rows (c # cs) screen = apply_rows cs (screen[r := cells])" by (simp add: apply_rows_def c)
  have cells: "cells = target ! r" using Cons.prems(1) c by simp
  have "apply_rows cs (screen[r := cells]) ! i = (if i \<in> fst ` set cs then target ! i else screen[r := cells] ! i)"
    using Cons.prems by (intro Cons.IH) simp_all
  then show ?case
    unfolding step using Cons.prems(2) by (cases "i = r") (simp_all add: c cells)
qed (simp add: apply_rows_def)

lemma drained_patch:
  assumes "grid_inv g"
  shows "patch_changes (fst (dump_dirty_patch g)) r \<longleftrightarrow> dirty_row (g_dirty g) r"
    "pt_screen (fst (dump_dirty_patch g)) = active_grid g"
    "case pt_dirty (fst (dump_dirty_patch g)) of AllDirty \<Rightarrow> True | RowsDirty d \<Rightarrow> dr_inv d"
    "\<not> dirty_row (g_dirty (snd (dump_dirty_patch g))) r"
    "active_grid (snd (dump_dirty_patch g)) = active_grid g"
proof -
  have split: "dump_dirty_patch g =
      (dirty_patch_from (g\<lparr>g_dirty := snd (dt_take (g_dirty g))\<rparr>) (fst (dt_take (g_dirty g))),
       g\<lparr>g_dirty := snd (dt_take (g_dirty g))\<rparr>)"
    by (simp add: dump_dirty_patch_def dirty_spans_of_def split_beta Let_def)
  have inv: "dt_inv (g_dirty g)" using assms by (simp add: grid_inv_def)
  show "patch_changes (fst (dump_dirty_patch g)) r \<longleftrightarrow> dirty_row (g_dirty g) r"
    "case pt_dirty (fst (dump_dirty_patch g)) of AllDirty \<Rightarrow> True | RowsDirty d \<Rightarrow> dr_inv d"
    using inv by (simp_all add: split dirty_patch_from_def dt_take_def patch_changes_def dirty_row_def dt_inv_def)
  show "\<not> dirty_row (g_dirty (snd (dump_dirty_patch g))) r"
    using dt_take_correct(2) [OF inv] dt_take_correct(3) [OF inv, of r] by (simp add: split dirty_row_covers)
  show "pt_screen (fst (dump_dirty_patch g)) = active_grid g" "active_grid (snd (dump_dirty_patch g)) = active_grid g"
    by (simp_all add: split dirty_patch_from_def active_grid_def has_flag_def)
qed

text \<open>
  After sound steps from a state whose damage was drained, the rows of the drained patch turn the
  screen of then into the screen of now.
\<close>

lemma patch_repaints:
  assumes inv: "grid_inv g" "grid_inv g'" and "g_rows g' = g_rows g" "damage_sound g g'"
  shows "apply_rows (changed_rows (fst (dump_dirty_patch g'))) (rs_rows (active_grid g)) = rs_rows (active_grid g')"
proof -
  let ?p = "fst (dump_dirty_patch g')"
  have len: "length (rs_rows (active_grid g)) = g_rows g" "length (rs_rows (active_grid g')) = g_rows g"
    using active_store_ok [OF inv(1)] active_store_ok [OF inv(2)] assms(3) by (simp_all add: store_ok_def)
  have "g_rows g \<le> u16_max" using inv by (simp add: grid_inv_def dims_ok_def)
  then have iff: "(r, cells) \<in> set (changed_rows ?p) \<longleftrightarrow>
      dirty_row (g_dirty g') r \<and> rs_get (active_grid g') r = Some cells" for r cells
    using changed_rows_iff [of ?p r cells] drained_patch [OF inv(2)] len by (simp add: rs_len_def)
  show ?thesis
  proof (rule nth_equalityI)
    show "length (apply_rows (changed_rows ?p) (rs_rows (active_grid g))) = length (rs_rows (active_grid g'))"
      using len by simp
    fix i assume "i < length (apply_rows (changed_rows ?p) (rs_rows (active_grid g)))"
    then have i: "i < g_rows g" using len by simp
    have target: "\<And>r cells. (r, cells) \<in> set (changed_rows ?p) \<Longrightarrow> cells = rs_rows (active_grid g') ! r"
      by (simp add: iff rs_get_def)
    have mem: "i \<in> fst ` set (changed_rows ?p) \<longleftrightarrow> dirty_row (g_dirty g') i"
    proof
      show "dirty_row (g_dirty g') i" if "i \<in> fst ` set (changed_rows ?p)" using that by (auto simp: iff)
      assume "dirty_row (g_dirty g') i"
      then have "(i, rs_rows (active_grid g') ! i) \<in> set (changed_rows ?p)"
        using i len by (simp add: iff rs_get_def)
      then show "i \<in> fst ` set (changed_rows ?p)" by (rule rev_image_eqI) simp
    qed
    have "\<not> dirty_row (g_dirty g') i \<Longrightarrow> rs_rows (active_grid g) ! i = rs_rows (active_grid g') ! i"
      using assms(4) i len by (auto simp: damage_sound_def rs_get_def vec_get_def)
    then show "apply_rows (changed_rows ?p) (rs_rows (active_grid g)) ! i = rs_rows (active_grid g') ! i"
      using i len by (simp add: nth_apply_rows [OF target] mem)
  qed
qed

section \<open>Correctness of observation\<close>

text \<open>
  A snapshot loses nothing: two well-formed grids have equal snapshots exactly when they agree on the
  size, the cursor, the active screen's cells with all their attributes, links and width flags, and
  the wrap flags of the rows.
\<close>

lemma dump_lossless:
  assumes "grid_inv g" "grid_inv h"
  shows "dump g = dump h \<longleftrightarrow> g_rows g = g_rows h \<and> g_cols g = g_cols h
     \<and> g_cursor_row g = g_cursor_row h \<and> g_cursor_col g = g_cursor_col h
     \<and> has_flag g ALT_SCREEN = has_flag h ALT_SCREEN \<and> active_grid g = active_grid h"
  by (rule dump_eq_iff [OF assms])

lemma dump_lossless_witness:
  "dump example_grid \<noteq> dump (set_size 3 2 example_grid)"
proof -
  have "grid_inv (set_size 3 2 example_grid)"
    by (rule set_size_inv [OF example_grid_inv]) (simp_all add: u16_max_def MAX_COLS_def)
  moreover have "g_cols (set_size 3 2 example_grid) = 2"
    by (simp add: set_size_def clear_pending_wrap_def clear_flag_def Let_def split_beta)
  ultimately show ?thesis using dump_lossless [OF example_grid_inv] by simp
qed

text \<open>
  C8: the borrowed scrollback view shows what the owned one would: the same size, cursor and screen flag,
  and at every row and column of the viewport the same cell and wrap flag, for every scroll offset and
  viewport height.
\<close>

theorem view_matches_snapshot:
  assumes "grid_inv g"
  shows "vw_rows (scrollback_view g offset vr) = sn_rows (dump_scrollback_view g offset vr)
    \<and> vw_cols (scrollback_view g offset vr) = sn_cols (dump_scrollback_view g offset vr)
    \<and> vw_cursor (scrollback_view g offset vr) = sn_cursor (dump_scrollback_view g offset vr)
    \<and> vw_alternate_screen (scrollback_view g offset vr) = sn_alternate_screen (dump_scrollback_view g offset vr)
    \<and> length (sn_cells (dump_scrollback_view g offset vr)) = sn_rows (dump_scrollback_view g offset vr)
    \<and> (\<forall>row col. col < g_cols g \<longrightarrow>
         map_option snap_cell_from (view_cell (scrollback_view g offset vr) row col)
           = snapshot_cell (dump_scrollback_view g offset vr) row col)
    \<and> (\<forall>row. view_row_wrap (scrollback_view g offset vr) row = vec_get (sn_row_wraps (dump_scrollback_view g offset vr)) row)"
  using view_agrees_with_dump [OF assms, where offset = offset and vr = vr] by blast

text \<open>The example grid with one row of history.\<close>

definition scrolled_grid :: grid where
  "scrolled_grid = example_grid\<lparr>g_scrollback := \<lparr>rs_rows = [map letter ''wxyz''], rs_wraps = [Soft]\<rparr>\<rparr>"

lemma scrolled_grid_inv: "grid_inv scrolled_grid"
  using example_grid_inv good_letters [of "''wxyz''" "Suc (Suc (Suc (Suc 0)))"]
  by (simp add: scrolled_grid_def grid_inv_def inv_part_defs has_flag_def store_any_width_def rs_len_def)

lemma view_witness:
  "map_option snap_cell_from (view_cell (scrollback_view scrolled_grid 1 3) 0 1)
     = snapshot_cell (dump_scrollback_view scrolled_grid 1 3) 0 1
   \<and> view_cell (scrollback_view scrolled_grid 1 3) 0 1 = Some (letter CHR ''x'')"
proof -
  have "g_cols scrolled_grid = 4" by (simp add: scrolled_grid_def)
  then have "map_option snap_cell_from (view_cell (scrollback_view scrolled_grid 1 3) 0 1)
      = snapshot_cell (dump_scrollback_view scrolled_grid 1 3) 0 1"
    using view_matches_snapshot [OF scrolled_grid_inv, of 1 3] by simp
  moreover have "view_cell (scrollback_view scrolled_grid 1 3) 0 1 = Some (letter CHR ''x'')"
    by (simp add: view_cell_def scrollback_view_def scrolled_grid_def rs_is_empty_def rs_len_def rs_get_def vec_get_def Let_def)
  ultimately show ?thesis by blast
qed

text \<open>
  A hyperlink is looked up in the row the viewport shows: for every content row on screen the target
  is the link of the cell that the scrollback view at the current offset returns.
\<close>

lemma hyperlink_lookup_matches_view:
  assumes inv: "grid_inv g" and "row < g_rows g" "col < g_cols g"
  shows "hyperlink_target_at_content_row g row col =
    map_option hl_uri (Option.bind (view_cell (scrollback_view g (g_scrollback_offset g) (g_rows g)) row col) cell_hyperlink)"
proof -
  have rows: "1 \<le> g_rows g" using inv by (simp add: grid_inv_def dims_ok_def)
  have n: "view_height g (g_scrollback_offset g) (g_rows g) = g_rows g" by (simp add: view_height_def)
  have "view_cell (scrollback_view g (g_scrollback_offset g) (g_rows g)) row col =
      vec_get (composed g (g_scrollback_offset g) (g_rows g) (rs_rows (g_scrollback g)) (rs_rows (active_grid g)) ! row) col"
    using scrollback_view_eq(5) [OF inv, of row "g_scrollback_offset g" "g_rows g" col] assms rows n by simp
  with content_row_eq [OF assms(1,2)] show ?thesis
    by (auto simp: hyperlink_target_at_content_row_def map_conv_bind_option split: bind_splits)
qed

lemma hyperlink_lookup_witness: "hyperlink_target_at_content_row scrolled_grid 0 1 = None"
proof -
  have "view_cell (scrollback_view scrolled_grid (g_scrollback_offset scrolled_grid) 3) 0 1 = Some (letter CHR ''b'')"
    by (simp add: view_cell_def scrollback_view_def scrolled_grid_def rs_is_empty_def rs_len_def rs_get_def vec_get_def Let_def
        example_grid_def with_row_arena_def split_beta active_grid_def has_flag_def flag_defs)
  moreover have "g_rows scrolled_grid = 3" "g_cols scrolled_grid = 4" by (simp_all add: scrolled_grid_def)
  ultimately show ?thesis
    using hyperlink_lookup_matches_view [OF scrolled_grid_inv, of 0 1] by (simp add: letter_def)
qed

end
