(* ===== verification/Serialize.thy ===== *)
theory Serialize
  imports Printing
begin

text \<open>
  The replay serializer (\<open>src/src/grid/serialize.rs\<close>): the byte writers, the row painter and the
  serialization interface of the grid. A Rust writer appends to \<open>out\<close>; its model returns the bytes it
  appends. The painting loops thread a \<open>painter\<close>: the bytes written so far, the position and the
  pen the replaying terminal has then, and the loop variables of the source.
\<close>

section \<open>Byte writers\<close>

record pos =
  p_row :: u16
  p_col :: u16

text \<open>The loop of \<open>write_u16\<close>: the five-byte buffer, the index and the rest of the number.\<close>

function write_u16_loop :: "u8 list \<Rightarrow> usize \<Rightarrow> u16 \<Rightarrow> u8 list option" where
  "write_u16_loop buf i n =
     (case usize_sub i 1 of
        None \<Rightarrow> None
      | Some j \<Rightarrow>
          (case vec_set buf j (0x30 + byte (n mod 10)) of
             None \<Rightarrow> None
           | Some buf' \<Rightarrow> if n div 10 = 0 then Some (drop j buf') else write_u16_loop buf' j (n div 10)))"
  by pat_completeness auto
termination
  by (relation "measure (\<lambda>(buf, i, n). n)") auto

declare write_u16_loop.simps [simp del]

definition write_u16 :: "u16 \<Rightarrow> u8 list option" where
  "write_u16 n = write_u16_loop (replicate 5 0) 5 n"

definition write_move_to :: "pos \<Rightarrow> u8 list option" where
  "write_move_to p =
     (if p_row p = 0 \<and> p_col p = 0 then Some (esc ''[H'')
      else do {
        row \<leftarrow> u16_add (p_row p) 1;
        r \<leftarrow> write_u16 row;
        col \<leftarrow> u16_add (p_col p) 1;
        c \<leftarrow> write_u16 col;
        Some (esc ''['' @ r @ bytes '';'' @ c @ bytes ''H'')
      })"

definition write_move_from_to :: "pos \<Rightarrow> pos \<Rightarrow> u8 list option" where
  "write_move_from_to from to = do {
     below \<leftarrow> u16_add (p_row from) 1;
     if p_row to = below \<and> p_col to = 0 then Some [0x0d, 0x0a]
     else if p_row from = p_row to \<and> p_col from < p_col to then do {
       n \<leftarrow> u16_sub (p_col to) (p_col from);
       if n = 0 then Some []
       else if n = 1 then Some (esc ''[C'')
       else do { w \<leftarrow> write_u16 n; Some (esc ''['' @ w @ bytes ''C'') }
     }
     else if to \<noteq> from then write_move_to to
     else Some []
   }"

definition write_erase_chars :: "u16 \<Rightarrow> u8 list option" where
  "write_erase_chars n =
     (if n = 0 then Some []
      else if n = 1 then Some (esc ''[X'')
      else do { w \<leftarrow> write_u16 n; Some (esc ''['' @ w @ bytes ''X'') })"

section \<open>SGR differences\<close>

record sgr_buf =
  sb_params :: "u8 list"
  sb_first :: bool

definition sgr_new :: sgr_buf where
  "sgr_new = \<lparr>sb_params = [], sb_first = True\<rparr>"

definition sgr_raw :: "u8 list \<Rightarrow> sgr_buf \<Rightarrow> sgr_buf" where
  "sgr_raw bs b =
     (let b = (if sb_first b then b\<lparr>sb_first := False\<rparr> else b\<lparr>sb_params := sb_params b @ bytes '';''\<rparr>)
      in b\<lparr>sb_params := sb_params b @ bs\<rparr>)"

definition sgr_param :: "u16 \<Rightarrow> sgr_buf \<Rightarrow> sgr_buf option" where
  "sgr_param n b =
     (let b = (if sb_first b then b\<lparr>sb_first := False\<rparr> else b\<lparr>sb_params := sb_params b @ bytes '';''\<rparr>)
      in do { w \<leftarrow> write_u16 n; Some (b\<lparr>sb_params := sb_params b @ w\<rparr>) })"

text \<open>Consecutive calls of \<open>param\<close>.\<close>

definition sgr_params :: "u16 list \<Rightarrow> sgr_buf \<Rightarrow> sgr_buf option" where
  "sgr_params ns b = fold_opt sgr_param ns b"

definition sgr_foreground :: "color \<Rightarrow> sgr_buf \<Rightarrow> sgr_buf option" where
  "sgr_foreground c b = (case c of
       ColorDefault \<Rightarrow> sgr_param 39 b
     | Idx i \<Rightarrow> if i < 8 then sgr_param (unat i + 30) b
               else if i < 16 then sgr_param (unat i + 82) b
               else sgr_params [38, 5, unat i] b
     | Rgb r g bl \<Rightarrow> sgr_params [38, 2, unat r, unat g, unat bl] b)"

definition sgr_background :: "color \<Rightarrow> sgr_buf \<Rightarrow> sgr_buf option" where
  "sgr_background c b = (case c of
       ColorDefault \<Rightarrow> sgr_param 49 b
     | Idx i \<Rightarrow> if i < 8 then sgr_param (unat i + 40) b
               else if i < 16 then sgr_param (unat i + 92) b
               else sgr_params [48, 5, unat i] b
     | Rgb r g bl \<Rightarrow> sgr_params [48, 2, unat r, unat g, unat bl] b)"

definition sgr_intensity :: "bool \<Rightarrow> bool \<Rightarrow> sgr_buf \<Rightarrow> sgr_buf option" where
  "sgr_intensity bold dim b =
     (if \<not> bold \<and> \<not> dim then sgr_param 22 b
      else if bold \<and> \<not> dim then sgr_params [22, 1] b
      else if \<not> bold \<and> dim then sgr_params [22, 2] b
      else sgr_params [1, 2] b)"

definition sgr_underline_style :: "underline_style \<Rightarrow> sgr_buf \<Rightarrow> sgr_buf option" where
  "sgr_underline_style u b = (case u of
       UnderlineNone \<Rightarrow> sgr_param 24 b
     | UnderlineSingle \<Rightarrow> sgr_param 4 b
     | UnderlineDouble \<Rightarrow> Some (sgr_raw (bytes ''4:2'') b)
     | UnderlineCurly \<Rightarrow> Some (sgr_raw (bytes ''4:3'') b)
     | UnderlineDotted \<Rightarrow> Some (sgr_raw (bytes ''4:4'') b)
     | UnderlineDashed \<Rightarrow> Some (sgr_raw (bytes ''4:5'') b))"

definition sgr_underline_color :: "color \<Rightarrow> sgr_buf \<Rightarrow> sgr_buf option" where
  "sgr_underline_color c b = (case c of
       ColorDefault \<Rightarrow> sgr_param 59 b
     | Idx i \<Rightarrow> sgr_params [58, 5, unat i] b
     | Rgb r g bl \<Rightarrow> sgr_params [58, 2, unat r, unat g, unat bl] b)"

definition sgr_blink :: "attrs \<Rightarrow> attrs \<Rightarrow> sgr_buf \<Rightarrow> sgr_buf option" where
  "sgr_blink target prev b = do {
     b \<leftarrow> (if at_slow_blink prev \<or> at_rapid_blink prev then sgr_param 25 b else Some b);
     b \<leftarrow> (if at_slow_blink target then sgr_param 5 b else Some b);
     if at_rapid_blink target then sgr_param 6 b else Some b
   }"

text \<open>A parameter written under a condition; the two codes of an attribute that is on or off.\<close>

definition sgr_when :: "bool \<Rightarrow> (sgr_buf \<Rightarrow> sgr_buf option) \<Rightarrow> sgr_buf \<Rightarrow> sgr_buf option" where
  "sgr_when c f b = (if c then f b else Some b)"

definition write_attrs_diff :: "attrs \<Rightarrow> attrs \<Rightarrow> u8 list option" where
  "write_attrs_diff target prev =
     (if target = prev then Some []
      else if target = attrs_default then Some (esc ''[m'')
      else do {
        b \<leftarrow> sgr_when (at_foreground target \<noteq> at_foreground prev) (sgr_foreground (at_foreground target)) sgr_new;
        b \<leftarrow> sgr_when (at_background target \<noteq> at_background prev) (sgr_background (at_background target)) b;
        b \<leftarrow> sgr_when (at_bold target \<noteq> at_bold prev \<or> at_dim target \<noteq> at_dim prev)
               (sgr_intensity (at_bold target) (at_dim target)) b;
        b \<leftarrow> sgr_when (at_italic target \<noteq> at_italic prev) (sgr_param (if at_italic target then 3 else 23)) b;
        b \<leftarrow> sgr_when (at_underline_style target \<noteq> at_underline_style prev)
               (sgr_underline_style (at_underline_style target)) b;
        b \<leftarrow> sgr_when (at_underline_color target \<noteq> at_underline_color prev)
               (sgr_underline_color (at_underline_color target)) b;
        b \<leftarrow> sgr_when (at_inverse target \<noteq> at_inverse prev) (sgr_param (if at_inverse target then 7 else 27)) b;
        b \<leftarrow> sgr_when (at_strikethrough target \<noteq> at_strikethrough prev)
               (sgr_param (if at_strikethrough target then 9 else 29)) b;
        b \<leftarrow> sgr_when (at_slow_blink target \<noteq> at_slow_blink prev \<or> at_rapid_blink target \<noteq> at_rapid_blink prev)
               (sgr_blink target prev) b;
        b \<leftarrow> sgr_when (at_conceal target \<noteq> at_conceal prev) (sgr_param (if at_conceal target then 8 else 28)) b;
        b \<leftarrow> sgr_when (at_overline target \<noteq> at_overline prev) (sgr_param (if at_overline target then 53 else 55)) b;
        Some (esc ''['' @ sb_params b @ bytes ''m'')
      })"

section \<open>Mode writers\<close>

definition write_hide_cursor :: "bool \<Rightarrow> u8 list" where
  "write_hide_cursor hidden = (if hidden then esc ''[?25l'' else esc ''[?25h'')"

definition write_autowrap :: "bool \<Rightarrow> u8 list" where
  "write_autowrap autowrap = (if autowrap then esc ''[?7h'' else esc ''[?7l'')"

definition write_mouse_mode :: "mouse_protocol_mode \<Rightarrow> mouse_protocol_mode \<Rightarrow> u8 list option" where
  "write_mouse_mode mode prev =
     (let mode = mouse_mode_number mode; prev = mouse_mode_number prev in
      if mode = prev then Some []
      else if mode = 0 then do { w \<leftarrow> write_u16 prev; Some (esc ''[?'' @ w @ bytes ''l'') }
      else do { w \<leftarrow> write_u16 mode; Some (esc ''[?'' @ w @ bytes ''h'') })"

definition write_mouse_encoding :: "mouse_protocol_encoding \<Rightarrow> mouse_protocol_encoding \<Rightarrow> u8 list option" where
  "write_mouse_encoding encoding prev =
     (let encoding = mouse_encoding_number encoding; prev = mouse_encoding_number prev in
      if encoding = prev then Some []
      else if encoding = 0 then do { w \<leftarrow> write_u16 prev; Some (esc ''[?'' @ w @ bytes ''l'') }
      else do { w \<leftarrow> write_u16 encoding; Some (esc ''[?'' @ w @ bytes ''h'') })"

definition write_cursor_style :: "u16 \<Rightarrow> u8 list option" where
  "write_cursor_style style = do { w \<leftarrow> write_u16 style; Some (esc ''['' @ w @ bytes '' q'') }"

section \<open>Row painting\<close>

text \<open>\<open>str::ends_with\<close> of one character.\<close>

definition ends_with :: "ustr \<Rightarrow> uchar \<Rightarrow> bool" where
  "ends_with s c \<longleftrightarrow> s \<noteq> [] \<and> last s = c"

definition zwj_join_hazard :: "row \<Rightarrow> u16 \<Rightarrow> bool option" where
  "zwj_join_hazard row col =
     (if col = 0 then Some False
      else do {
        left \<leftarrow> vec_get row (col - 1);
        c \<leftarrow> (if is_wide_continuation left \<and> 2 \<le> col then vec_get row (col - 2) else Some left);
        Some (ends_with (contents c) ZWJ)
      })"

definition zwj_wrap_hazard :: "row \<Rightarrow> bool" where
  "zwj_wrap_hazard prev_row =
     (if prev_row = [] then False
      else let lst = last prev_row;
               c = (if is_wide_continuation lst \<and> 2 \<le> length prev_row then prev_row ! (length prev_row - 2) else lst)
           in ends_with (contents c) ZWJ)"

text \<open>\<open>prev_row.is_some_and(zwj_wrap_hazard)\<close>.\<close>

definition wrap_hazard :: "row option \<Rightarrow> bool" where
  "wrap_hazard prev_row = (case prev_row of None \<Rightarrow> False | Some r \<Rightarrow> zwj_wrap_hazard r)"

text \<open>The bytes of the move and the new value of \<open>prev_pos\<close>.\<close>

definition write_content_move :: "pos \<Rightarrow> pos \<Rightarrow> u16 \<Rightarrow> bool \<Rightarrow> row option \<Rightarrow> row \<Rightarrow> (u8 list \<times> pos) option" where
  "write_content_move p prev_pos cols wrapping prev_row cells =
     (if p \<noteq> prev_pos then do {
        natural_wrap \<leftarrow> (if wrapping then do {
            below \<leftarrow> u16_add (p_row prev_pos) 1;
            Some (below = p_row p \<and> cols \<le> p_col prev_pos \<and> p_col p = 0)
          } else Some False);
        mv \<leftarrow> (if natural_wrap \<and> \<not> wrap_hazard prev_row then Some []
              else if natural_wrap then write_move_to p
              else write_move_from_to prev_pos p);
        Some (mv, p)
      }
      else do {
        hazard \<leftarrow> zwj_join_hazard cells (p_col p);
        mv \<leftarrow> (if hazard then write_move_to p else Some []);
        Some (mv, prev_pos)
      })"

record row_ctx =
  rc_cells :: row
  rc_prev_row :: "row option"
  rc_row :: u16
  rc_cols :: u16
  rc_wrapping :: bool

definition narrows_on_replay :: "unicode_width \<Rightarrow> cell \<Rightarrow> bool" where
  "narrows_on_replay uw c \<longleftrightarrow> \<not> is_wide c \<and> (case contents c of [] \<Rightarrow> False | ch # _ \<Rightarrow> 1 < char_width uw ch)"

record painter =
  pn_out :: "u8 list"
  pn_pos :: pos
  pn_attrs :: attrs
  pn_wide :: bool
  pn_erase :: "(u16 \<times> attrs) option"
  pn_repaint :: bool

definition emit :: "u8 list \<Rightarrow> painter \<Rightarrow> painter" where
  "emit bs s = s\<lparr>pn_out := pn_out s @ bs\<rparr>"

text \<open>\<open>if prev_attrs != attrs { write_attrs_diff(..); prev_attrs = attrs; }\<close>.\<close>

definition switch_attrs :: "attrs \<Rightarrow> painter \<Rightarrow> painter option" where
  "switch_attrs attrs s =
     (if pn_attrs s \<noteq> attrs then do {
        d \<leftarrow> write_attrs_diff attrs (pn_attrs s);
        Some (emit d (s\<lparr>pn_attrs := attrs\<rparr>))
      } else Some s)"

definition flush_erase_run :: "(u16 \<times> attrs) option \<Rightarrow> u16 \<Rightarrow> u16 option \<Rightarrow> painter \<Rightarrow> painter option" where
  "flush_erase_run erase row end_col s =
     (case erase of
        None \<Rightarrow> Some s
      | Some (start, attrs) \<Rightarrow> do {
          let new_pos = \<lparr>p_row = row, p_col = start\<rparr>;
          mv \<leftarrow> write_move_from_to (pn_pos s) new_pos;
          s \<leftarrow> switch_attrs attrs (emit mv (s\<lparr>pn_pos := new_pos\<rparr>));
          tail \<leftarrow> (case end_col of
             Some e \<Rightarrow> do { n \<leftarrow> u16_sub e start; write_erase_chars n }
           | None \<Rightarrow> Some (esc ''[K''));
          Some (emit tail s)
        })"

text \<open>The flush at the head of a loop iteration, with \<open>erase.take()\<close>.\<close>

definition flush_due :: "cell \<Rightarrow> painter \<Rightarrow> bool" where
  "flush_due c s \<longleftrightarrow> (case pn_erase s of None \<Rightarrow> False | Some (_, attrs) \<Rightarrow> has_contents c \<or> cell_attrs c \<noteq> attrs)"

definition flush_before :: "row_ctx \<Rightarrow> u16 \<Rightarrow> cell \<Rightarrow> painter \<Rightarrow> painter option" where
  "flush_before ctx col c s =
     (if flush_due c s then flush_erase_run (pn_erase s) (rc_row ctx) (Some col) (s\<lparr>pn_erase := None\<rparr>) else Some s)"

text \<open>The write of a cell with contents: move, attributes, text, and the position after it.\<close>

definition paint_contents :: "row_ctx \<Rightarrow> u16 \<Rightarrow> cell \<Rightarrow> painter \<Rightarrow> painter option" where
  "paint_contents ctx col c s = do {
     (mv, p) \<leftarrow> write_content_move \<lparr>p_row = rc_row ctx, p_col = col\<rparr> (pn_pos s) (rc_cols ctx) (rc_wrapping ctx)
       (rc_prev_row ctx) (rc_cells ctx);
     s \<leftarrow> switch_attrs (cell_attrs c) (emit mv (s\<lparr>pn_pos := p\<rparr>));
     after \<leftarrow> u16_add col 1;
     after \<leftarrow> u16_add after (if is_wide c then 1 else 0);
     let s = emit (utf8 (contents c)) s;
     Some (s\<lparr>pn_pos := (pn_pos s)\<lparr>p_col := min after (rc_cols ctx)\<rparr>\<rparr>)
   }"

definition start_erase :: "u16 \<Rightarrow> cell \<Rightarrow> painter \<Rightarrow> painter" where
  "start_erase col c s = (if pn_erase s = None then s\<lparr>pn_erase := Some (col, cell_attrs c)\<rparr> else s)"

definition paint_cell :: "row_ctx \<Rightarrow> usize \<times> cell \<Rightarrow> painter \<Rightarrow> painter option" where
  "paint_cell ctx ic s = (case ic of (i, c) \<Rightarrow>
     if pn_wide s then Some (s\<lparr>pn_wide := False\<rparr>)
     else do {
       let col = as_u16 i;
       s \<leftarrow> flush_before ctx col c (s\<lparr>pn_wide := is_wide c\<rparr>);
       if c \<noteq> cell_default
       then (if has_contents c then paint_contents ctx col c s else Some (start_erase col c s))
       else Some s
     })"

definition paint_loop :: "row_ctx \<Rightarrow> painter \<Rightarrow> painter option" where
  "paint_loop ctx s = fold_opt (paint_cell ctx) (List.enumerate 0 (rc_cells ctx)) (s\<lparr>pn_wide := False, pn_erase := None\<rparr>)"

text \<open>The start of a row that continues the logical line above and begins with a blank.\<close>

definition paint_wrapped_blank :: "row_ctx \<Rightarrow> painter \<Rightarrow> painter option" where
  "paint_wrapped_blank ctx s = do {
     below \<leftarrow> u16_add (p_row (pn_pos s)) 1;
     let start = \<lparr>p_row = rc_row ctx, p_col = 0\<rparr>;
     if below = rc_row ctx \<and> rc_cols ctx \<le> p_col (pn_pos s) \<and> \<not> wrap_hazard (rc_prev_row ctx)
     then do {
       s \<leftarrow> switch_attrs attrs_default s;
       e \<leftarrow> write_erase_chars 1;
       Some ((emit ([0x20, 0x08] @ e) s)\<lparr>pn_pos := start\<rparr>)
     }
     else do {
       mv \<leftarrow> write_move_to start;
       Some ((emit mv s)\<lparr>pn_pos := start\<rparr>)
     }
   }"

definition write_row_formatted :: "row_ctx \<Rightarrow> painter \<Rightarrow> painter option" where
  "write_row_formatted ctx s = do {
     first_cell \<leftarrow> vec_get (rc_cells ctx) 0;
     s \<leftarrow> (if rc_wrapping ctx \<and> first_cell = cell_default then paint_wrapped_blank ctx s else Some s);
     s \<leftarrow> paint_loop ctx s;
     flush_erase_run (pn_erase s) (rc_row ctx) None (s\<lparr>pn_erase := None\<rparr>)
   }"

section \<open>Row differences\<close>

definition diff_cell :: "unicode_width \<Rightarrow> row_ctx \<Rightarrow> usize \<times> cell \<times> cell \<Rightarrow> painter \<Rightarrow> painter option" where
  "diff_cell uw ctx icp s = (case icp of (i, c, prev_cell) \<Rightarrow>
     if pn_wide s then Some (s\<lparr>pn_wide := False\<rparr>)
     else do {
       let col = as_u16 i;
       s \<leftarrow> flush_before ctx col c (s\<lparr>pn_wide := is_wide c\<rparr>);
       let repaint = pn_repaint s;
       let s = s\<lparr>pn_repaint := False\<rparr>;
       if repaint \<or> c \<noteq> prev_cell
       then (if has_contents c then do {
               s \<leftarrow> paint_contents ctx col c s;
               Some (s\<lparr>pn_repaint := narrows_on_replay uw c\<rparr>)
             }
             else Some (start_erase col c s))
       else Some s
     })"

definition wrap_redraw :: "row_ctx \<Rightarrow> row \<Rightarrow> bool \<Rightarrow> painter \<Rightarrow> bool option" where
  "wrap_redraw ctx prev_cells prev_wrapping s = do {
     first_cell \<leftarrow> vec_get (rc_cells ctx) 0;
     if \<not> rc_wrapping ctx \<or> prev_wrapping then Some False
     else do {
       prev_first \<leftarrow> vec_get prev_cells 0;
       if first_cell \<noteq> prev_first then Some False
       else do {
         below \<leftarrow> u16_add (p_row (pn_pos s)) 1;
         Some (below = rc_row ctx \<and> rc_cols ctx \<le> p_col (pn_pos s) \<and> \<not> wrap_hazard (rc_prev_row ctx))
       }
     }
   }"

definition write_row_diff :: "unicode_width \<Rightarrow> row_ctx \<Rightarrow> row \<Rightarrow> bool \<Rightarrow> painter \<Rightarrow> painter option" where
  "write_row_diff uw ctx prev_cells prev_wrapping s = do {
     redraw \<leftarrow> wrap_redraw ctx prev_cells prev_wrapping s;
     first_cell \<leftarrow> vec_get (rc_cells ctx) 0;
     s \<leftarrow> (if redraw \<and> \<not> has_contents first_cell then do {
            s \<leftarrow> switch_attrs (cell_attrs first_cell) s;
            e \<leftarrow> write_erase_chars 1;
            Some ((emit ([0x20, 0x08] @ e) s)\<lparr>pn_pos := \<lparr>p_row = rc_row ctx, p_col = 0\<rparr>\<rparr>)
          } else Some s);
     s \<leftarrow> fold_opt (diff_cell uw ctx) (List.enumerate 0 (zip (rc_cells ctx) prev_cells))
            (s\<lparr>pn_wide := False, pn_erase := None, pn_repaint := redraw \<and> has_contents first_cell\<rparr>);
     flush_erase_run (pn_erase s) (rc_row ctx) None (s\<lparr>pn_erase := None\<rparr>)
   }"

section \<open>Cursor restore\<close>

text \<open>Redrawing a cell with contents, and arming the wrap on a blank last cell.\<close>

definition redraw_lead :: "pos \<Rightarrow> cell \<Rightarrow> attrs \<Rightarrow> u8 list option" where
  "redraw_lead lead c prev_attrs = do {
     mv \<leftarrow> write_move_to lead;
     d \<leftarrow> write_attrs_diff (cell_attrs c) prev_attrs;
     back \<leftarrow> write_attrs_diff prev_attrs (cell_attrs c);
     Some (mv @ d @ utf8 (contents c) @ back)
   }"

definition park_on_blank :: "u16 \<Rightarrow> u16 \<Rightarrow> cell \<Rightarrow> attrs \<Rightarrow> u8 list option" where
  "park_on_blank row cols end_cell prev_attrs = do {
     mv \<leftarrow> write_move_to \<lparr>p_row = row, p_col = cols - 1\<rparr>;
     d \<leftarrow> write_attrs_diff (cell_attrs end_cell) prev_attrs;
     e \<leftarrow> write_erase_chars 1;
     back \<leftarrow> write_attrs_diff prev_attrs (cell_attrs end_cell);
     Some (mv @ [0x20] @ d @ esc ''7'' @ [0x08] @ e @ esc ''8'' @ back)
   }"

definition write_cursor_position_formatted ::
    "row_store \<Rightarrow> pos \<Rightarrow> u16 \<Rightarrow> pos option \<Rightarrow> attrs option \<Rightarrow> u8 list option" where
  "write_cursor_position_formatted screen cursor cols prev_pos prev_attrs =
     (let prev_attrs = (case prev_attrs of Some a \<Rightarrow> a | None \<Rightarrow> attrs_default) in
      if prev_pos \<noteq> Some cursor \<and> cols \<le> p_col cursor then
        (let at = (\<lambda>col. Option.bind (rs_get screen (p_row cursor)) (\<lambda>row. vec_get row col));
             last_cell = at (cols - 1);
             lead_col = (if 2 \<le> cols \<and> (case last_cell of Some c \<Rightarrow> is_wide_continuation c | None \<Rightarrow> False)
                         then cols - 2 else cols - 1)
         in case at lead_col of
              Some c \<Rightarrow>
                if has_contents c then redraw_lead \<lparr>p_row = p_row cursor, p_col = lead_col\<rparr> c prev_attrs
                else (case last_cell of
                        Some end_cell \<Rightarrow> park_on_blank (p_row cursor) cols end_cell prev_attrs
                      | None \<Rightarrow> Some [])
            | None \<Rightarrow>
                (case last_cell of
                   Some end_cell \<Rightarrow> park_on_blank (p_row cursor) cols end_cell prev_attrs
                 | None \<Rightarrow> Some []))
      else case prev_pos of
             Some p \<Rightarrow> write_move_from_to p cursor
           | None \<Rightarrow> write_move_to cursor)"

section \<open>The serialization interface\<close>

definition visible_screen :: "grid \<Rightarrow> row_store" where
  "visible_screen g = (if has_flag g ALT_SCREEN then g_alternate g else g_primary g)"

definition row_is_continuation :: "grid \<Rightarrow> u16 \<Rightarrow> bool" where
  "row_is_continuation g row \<longleftrightarrow> 0 < row \<and> rs_wrap (visible_screen g) row = Some Soft"

text \<open>The context of row \<open>i\<close>.\<close>

definition row_context :: "grid \<Rightarrow> u16 \<Rightarrow> row \<Rightarrow> bool \<Rightarrow> row_ctx" where
  "row_context g i cells wrapping = \<lparr>rc_cells = cells,
     rc_prev_row = (if 0 < i then rs_get (visible_screen g) (i - 1) else None),
     rc_row = i, rc_cols = g_cols g, rc_wrapping = wrapping\<rparr>"

primrec paint_rows :: "grid \<Rightarrow> u16 list \<Rightarrow> bool \<Rightarrow> painter \<Rightarrow> painter option" where
  "paint_rows g [] wrapping s = Some s"
| "paint_rows g (i # is) wrapping s =
     (case rs_get (visible_screen g) i of
        None \<Rightarrow> Some s
      | Some cells \<Rightarrow> do {
          s \<leftarrow> write_row_formatted (row_context g i cells wrapping) s;
          next \<leftarrow> u16_add i 1;
          paint_rows g is (row_is_continuation g next) s
        })"

definition painter_at :: "pos \<Rightarrow> attrs \<Rightarrow> painter" where
  "painter_at p attrs = \<lparr>pn_out = [], pn_pos = p, pn_attrs = attrs, pn_wide = False, pn_erase = None, pn_repaint = False\<rparr>"

text \<open>The tail of both contents writers: cursor, then pen.\<close>

definition finish_contents :: "grid \<Rightarrow> painter \<Rightarrow> u8 list option" where
  "finish_contents g s = do {
     c \<leftarrow> write_cursor_position_formatted (visible_screen g) \<lparr>p_row = g_cursor_row g, p_col = g_cursor_col g\<rparr> (g_cols g)
       (Some (pn_pos s)) (Some (pn_attrs s));
     d \<leftarrow> write_attrs_diff (g_current_attrs g) (pn_attrs s);
     Some (pn_out s @ c @ d)
   }"

definition write_contents_full_paint :: "grid \<Rightarrow> u8 list option" where
  "write_contents_full_paint g = do {
     s \<leftarrow> paint_rows g [0..<g_rows g] False (painter_at \<lparr>p_row = 0, p_col = 0\<rparr> attrs_default);
     body \<leftarrow> finish_contents g s;
     Some (esc ''[m'' @ esc ''[H'' @ esc ''[J'' @ body)
   }"

text \<open>The accessors of the modes the serializer reads.\<close>

definition hide_cursor :: "grid \<Rightarrow> bool" where
  "hide_cursor g = has_flag g HIDE_CURSOR"

definition autowrap :: "grid \<Rightarrow> bool" where
  "autowrap g \<longleftrightarrow> \<not> has_flag g NO_AUTOWRAP"

definition application_keypad :: "grid \<Rightarrow> bool" where
  "application_keypad g = has_flag g APPLICATION_KEYPAD"

definition application_cursor :: "grid \<Rightarrow> bool" where
  "application_cursor g = has_flag g APPLICATION_CURSOR"

definition bracketed_paste :: "grid \<Rightarrow> bool" where
  "bracketed_paste g = has_flag g BRACKETED_PASTE"

definition alternate_screen :: "grid \<Rightarrow> bool" where
  "alternate_screen g = has_flag g ALT_SCREEN"

definition grid_size :: "grid \<Rightarrow> u16 \<times> u16" where
  "grid_size g = (g_rows g, g_cols g)"

definition cursor_position :: "grid \<Rightarrow> u16 \<times> u16" where
  "cursor_position g = (g_cursor_row g, g_cursor_col g)"

definition write_contents_formatted :: "grid \<Rightarrow> u8 list option" where
  "write_contents_formatted g = do {
     body \<leftarrow> write_contents_full_paint g;
     Some (write_autowrap True @ write_hide_cursor (hide_cursor g) @ body
       @ (if autowrap g then [] else write_autowrap False))
   }"

primrec diff_rows :: "unicode_width \<Rightarrow> grid \<Rightarrow> grid \<Rightarrow> u16 list \<Rightarrow> bool \<Rightarrow> bool \<Rightarrow> painter \<Rightarrow> painter option" where
  "diff_rows uw g prev [] wrapping prev_wrapping s = Some s"
| "diff_rows uw g prev (i # is) wrapping prev_wrapping s =
     (case (rs_get (visible_screen g) i, rs_get (visible_screen prev) i) of
        (Some cells, Some prev_cells) \<Rightarrow> do {
          s \<leftarrow> write_row_diff uw (row_context g i cells wrapping) prev_cells prev_wrapping s;
          next \<leftarrow> u16_add i 1;
          diff_rows uw g prev is (row_is_continuation g next) (row_is_continuation prev next) s
        }
      | _ \<Rightarrow> Some s)"

definition write_contents_diff :: "unicode_width \<Rightarrow> grid \<Rightarrow> grid \<Rightarrow> u8 list option" where
  "write_contents_diff uw g prev = do {
     body \<leftarrow> (if grid_size g \<noteq> grid_size prev \<or> alternate_screen g \<noteq> alternate_screen prev
       then write_contents_full_paint g
       else do {
         s \<leftarrow> diff_rows uw g prev [0..<g_rows g] False False
           (painter_at \<lparr>p_row = g_cursor_row prev, p_col = g_cursor_col prev\<rparr> (g_current_attrs prev));
         finish_contents g s
       });
     Some (write_autowrap True
       @ (if hide_cursor g \<noteq> hide_cursor prev then write_hide_cursor (hide_cursor g) else [])
       @ body @ (if autowrap g then [] else write_autowrap False))
   }"

definition keypad_bytes :: "bool \<Rightarrow> u8 list" where
  "keypad_bytes on = (if on then esc ''='' else esc ''>'')"

definition cursor_key_bytes :: "bool \<Rightarrow> u8 list" where
  "cursor_key_bytes on = (if on then esc ''[?1h'' else esc ''[?1l'')"

definition paste_bytes :: "bool \<Rightarrow> u8 list" where
  "paste_bytes on = (if on then esc ''[?2004h'' else esc ''[?2004l'')"

definition write_input_mode_formatted :: "grid \<Rightarrow> u8 list option" where
  "write_input_mode_formatted g = do {
     mode \<leftarrow> write_mouse_mode (g_mouse_mode g) MouseNone;
     encoding \<leftarrow> write_mouse_encoding (g_mouse_encoding g) MouseDefault;
     style \<leftarrow> write_cursor_style (g_cursor_style g);
     Some (write_autowrap (autowrap g) @ keypad_bytes (application_keypad g)
       @ cursor_key_bytes (application_cursor g) @ paste_bytes (bracketed_paste g) @ mode @ encoding
       @ (if alternate_screen g then esc ''[?1049h'' else []) @ write_hide_cursor (hide_cursor g) @ style)
   }"

definition write_input_mode_diff :: "grid \<Rightarrow> grid \<Rightarrow> u8 list option" where
  "write_input_mode_diff g prev = do {
     mode \<leftarrow> write_mouse_mode (g_mouse_mode g) (g_mouse_mode prev);
     encoding \<leftarrow> write_mouse_encoding (g_mouse_encoding g) (g_mouse_encoding prev);
     style \<leftarrow> (if g_cursor_style g \<noteq> g_cursor_style prev then write_cursor_style (g_cursor_style g) else Some []);
     Some ((if autowrap g \<noteq> autowrap prev then write_autowrap (autowrap g) else [])
       @ (if application_keypad g \<noteq> application_keypad prev then keypad_bytes (application_keypad g) else [])
       @ (if application_cursor g \<noteq> application_cursor prev then cursor_key_bytes (application_cursor g) else [])
       @ (if bracketed_paste g \<noteq> bracketed_paste prev then paste_bytes (bracketed_paste g) else [])
       @ mode @ encoding
       @ (if alternate_screen g \<noteq> alternate_screen prev
          then (if alternate_screen g then esc ''[?1049h'' else esc ''[?1049l'') else [])
       @ (if hide_cursor g \<noteq> hide_cursor prev then write_hide_cursor (hide_cursor g) else [])
       @ style)
   }"

definition contents_formatted :: "grid \<Rightarrow> u8 list option" where
  "contents_formatted g = write_contents_formatted g"

definition contents_diff :: "unicode_width \<Rightarrow> grid \<Rightarrow> grid \<Rightarrow> u8 list option" where
  "contents_diff uw g prev = write_contents_diff uw g prev"

definition input_mode_formatted :: "grid \<Rightarrow> u8 list option" where
  "input_mode_formatted g = write_input_mode_formatted g"

definition input_mode_diff :: "grid \<Rightarrow> grid \<Rightarrow> u8 list option" where
  "input_mode_diff g prev = write_input_mode_diff g prev"

definition state_formatted :: "grid \<Rightarrow> u8 list option" where
  "state_formatted g = do {
     modes \<leftarrow> write_input_mode_formatted g;
     body \<leftarrow> write_contents_formatted g;
     Some (modes @ body)
   }"

definition state_diff :: "unicode_width \<Rightarrow> grid \<Rightarrow> grid \<Rightarrow> u8 list option" where
  "state_diff uw g prev = do {
     modes \<leftarrow> write_input_mode_diff g prev;
     body \<leftarrow> write_contents_diff uw g prev;
     Some (modes @ body)
   }"

text \<open>The comparison of one cell pair and the two loops of \<open>state_eq\<close>.\<close>

definition cell_state_eq :: "cell \<Rightarrow> cell \<Rightarrow> bool" where
  "cell_state_eq c d \<longleftrightarrow> contents c = contents d \<and> is_wide c = is_wide d
     \<and> is_wide_continuation c = is_wide_continuation d \<and> cell_attrs c = cell_attrs d"

definition row_state_eq :: "u16 \<Rightarrow> row \<Rightarrow> row \<Rightarrow> bool" where
  "row_state_eq cols row other \<longleftrightarrow> list_all (\<lambda>c. case (vec_get row c, vec_get other c) of
     (Some x, Some y) \<Rightarrow> cell_state_eq x y | _ \<Rightarrow> False) [0..<cols]"

definition screen_state_eq :: "u16 \<Rightarrow> u16 \<Rightarrow> row_store \<Rightarrow> row_store \<Rightarrow> bool" where
  "screen_state_eq rows cols screen other \<longleftrightarrow> list_all (\<lambda>r. case (rs_get screen r, rs_get other r) of
     (Some x, Some y) \<Rightarrow> row_state_eq cols x y | _ \<Rightarrow> False) [0..<rows]"

definition state_eq :: "grid \<Rightarrow> grid \<Rightarrow> bool" where
  "state_eq g h \<longleftrightarrow> grid_size g = grid_size h
     \<and> screen_state_eq (g_rows g) (g_cols g) (visible_screen g) (visible_screen h)
     \<and> cursor_position g = cursor_position h \<and> g_current_attrs g = g_current_attrs h
     \<and> autowrap g = autowrap h \<and> application_keypad g = application_keypad h
     \<and> application_cursor g = application_cursor h \<and> bracketed_paste g = bracketed_paste h
     \<and> mouse_mode_number (g_mouse_mode g) = mouse_mode_number (g_mouse_mode h)
     \<and> mouse_encoding_number (g_mouse_encoding g) = mouse_encoding_number (g_mouse_encoding h)
     \<and> alternate_screen g = alternate_screen h \<and> hide_cursor g = hide_cursor h
     \<and> g_cursor_style g = g_cursor_style h"

section \<open>Decimal numbers\<close>

text \<open>The loop fills the buffer from the right; the digits to the right of the index are kept.\<close>

lemma write_u16_loop_decimal:
  assumes "length (decimal n) \<le> i" "i \<le> length buf"
  shows "write_u16_loop buf i n = Some (decimal n @ drop i buf)"
  using assms
proof (induction buf i n rule: write_u16_loop.induct)
  case (1 buf i n)
  have i: "0 < i" using "1.prems"(1) by (cases i) (auto simp: decimal.simps [of n] split: if_splits)
  have digit: "0x30 + byte (n mod 10) = byte (48 + n mod 10)" by (simp add: byte_def)
  let ?buf = "buf[i - 1 := byte (48 + n mod 10)]"
  have tail: "drop (i - 1) ?buf = byte (48 + n mod 10) # drop i buf"
    using i "1.prems"(2) by (simp add: drop_update_swap Cons_nth_drop_Suc [symmetric])
  show ?case
  proof (cases "n div 10 = 0")
    case True
    then have n: "n < 10" "n mod 10 = n" by auto
    have "byte (48 + n) = 48 + byte n" by (simp add: byte_def)
    with n show ?thesis
      using i "1.prems"(2) tail
      by (auto simp: write_u16_loop.simps [of buf i n] usize_sub_def vec_set_def decimal.simps [of n])
  next
    case False
    have dec: "decimal n = decimal (n div 10) @ [byte (48 + n mod 10)]"
      using False by (simp add: decimal.simps [of n] div_eq_0_iff)
    have "write_u16_loop ?buf (i - 1) (n div 10) = Some (decimal (n div 10) @ drop (i - 1) ?buf)"
      by (rule "1.IH" [of "i - 1" "?buf"])
         (use i False "1.prems" dec in \<open>auto simp: usize_sub_def vec_set_def digit\<close>)
    then show ?thesis
      using i "1.prems"(2) False tail dec
      by (simp add: write_u16_loop.simps [of buf i n] usize_sub_def vec_set_def digit)
  qed
qed

lemma decimal_length: "n < 10 ^ k \<Longrightarrow> 0 < k \<Longrightarrow> length (decimal n) \<le> k"
proof (induction k arbitrary: n)
  case (Suc k)
  show ?case
  proof (cases "n < 10")
    case False
    then have "n div 10 < 10 ^ k" using Suc.prems(1) by (simp add: less_mult_imp_div_less mult.commute)
    moreover have "0 < k" using Suc.prems(1) False by (cases k) auto
    ultimately have "n div 10 < 10 ^ k" "0 < k" by simp_all
    then show ?thesis using Suc.IH [of "n div 10"] False by (simp add: decimal.simps [of n])
  qed (simp add: decimal.simps [of n])
qed simp

lemma write_u16_eq: "n \<le> u16_max \<Longrightarrow> write_u16 n = Some (decimal n)"
  using write_u16_loop_decimal [of n 5 "replicate 5 0"] decimal_length [of n 5]
  by (simp add: write_u16_def u16_max_def)

section \<open>SGR differences round trip\<close>

text \<open>
  \<open>sgr_bytes ps\<close> is the wire form of the parameters \<open>ps\<close>; a buffer holds \<open>ps\<close> when those are its bytes.
\<close>

definition sgr_bytes :: "params \<Rightarrow> u8 list" where
  "sgr_bytes ps = sep_concat 0x3b (map (\<lambda>sub. sep_concat 0x3a (map decimal sub)) ps)"

definition sgr_holds :: "sgr_buf \<Rightarrow> params \<Rightarrow> bool" where
  "sgr_holds b ps \<longleftrightarrow> sb_first b = (ps = []) \<and> sb_params b = sgr_bytes ps"

lemma sep_concat_snoc: "sep_concat sep (xs @ [x]) = (if xs = [] then x else sep_concat sep xs @ sep # x)"
  by (induction sep xs rule: sep_concat.induct) auto

lemma sgr_bytes_snoc:
  "sgr_bytes (ps @ [p]) = (if ps = [] then [] else sgr_bytes ps @ [0x3b]) @ sep_concat 0x3a (map decimal p)"
  by (simp add: sgr_bytes_def sep_concat_snoc)

lemma sgr_bytes_Nil [simp]: "sgr_bytes [] = []"
  by (simp add: sgr_bytes_def)

lemma sgr_new_holds [simp]: "sgr_holds sgr_new []"
  by (simp add: sgr_holds_def sgr_new_def)

lemma sgr_raw_holds:
  assumes "sgr_holds b ps" "bs = sep_concat 0x3a (map decimal p)"
  shows "sgr_holds (sgr_raw bs b) (ps @ [p])"
  using assms by (auto simp: sgr_holds_def sgr_raw_def sgr_bytes_snoc Let_def)

lemma ok_sgr_param:
  assumes "sgr_holds b ps" "n \<le> u16_max"
  shows "ok (sgr_param n b) (\<lambda>b. sgr_holds b (ps @ [[n]]))"
  using assms by (auto simp: sgr_param_def write_u16_eq sgr_holds_def sgr_bytes_snoc Let_def)

lemma ok_sgr_params:
  assumes "sgr_holds b ps" "list_all (\<lambda>n. n \<le> u16_max) ns"
  shows "ok (sgr_params ns b) (\<lambda>b. sgr_holds b (ps @ map (\<lambda>n. [n]) ns))"
  using assms unfolding sgr_params_def
proof (induction ns arbitrary: b ps)
  case (Cons n ns)
  have "ok (sgr_param n b) (\<lambda>b. sgr_holds b (ps @ [[n]]))" using Cons.prems by (auto intro: ok_sgr_param)
  then show ?case
    using Cons.IH [of _ "ps @ [[n]]"] Cons.prems(2) by (auto simp: ok_iff_ex)
qed simp

text \<open>The parameters each group of \<open>write_attrs_diff\<close> writes.\<close>

definition plain_params :: "u16 list \<Rightarrow> params" where
  "plain_params ns = map (\<lambda>n. [n]) ns"

definition color_params :: "u16 \<Rightarrow> u16 \<Rightarrow> color \<Rightarrow> params" where
  "color_params base bright c = plain_params (case c of
       ColorDefault \<Rightarrow> [base + 9]
     | Idx i \<Rightarrow> if i < 8 then [unat i + base] else if i < 16 then [unat i + bright] else [base + 8, 5, unat i]
     | Rgb r g b \<Rightarrow> [base + 8, 2, unat r, unat g, unat b])"

definition intensity_params :: "bool \<Rightarrow> bool \<Rightarrow> params" where
  "intensity_params bold dim = plain_params
     (if bold \<and> dim then [1, 2] else [22] @ (if bold then [1] else []) @ (if dim then [2] else []))"

definition underline_params :: "underline_style \<Rightarrow> params" where
  "underline_params u = [case u of UnderlineNone \<Rightarrow> [24] | UnderlineSingle \<Rightarrow> [4] | UnderlineDouble \<Rightarrow> [4, 2]
     | UnderlineCurly \<Rightarrow> [4, 3] | UnderlineDotted \<Rightarrow> [4, 4] | UnderlineDashed \<Rightarrow> [4, 5]]"

definition underline_color_params :: "color \<Rightarrow> params" where
  "underline_color_params c = plain_params (case c of ColorDefault \<Rightarrow> [59] | Idx i \<Rightarrow> [58, 5, unat i]
     | Rgb r g b \<Rightarrow> [58, 2, unat r, unat g, unat b])"

definition blink_params :: "attrs \<Rightarrow> attrs \<Rightarrow> params" where
  "blink_params t p = plain_params ((if at_slow_blink p \<or> at_rapid_blink p then [25] else [])
     @ (if at_slow_blink t then [5] else []) @ (if at_rapid_blink t then [6] else []))"

definition attrs_diff_params :: "attrs \<Rightarrow> attrs \<Rightarrow> params" where
  "attrs_diff_params t p =
     (if at_foreground t \<noteq> at_foreground p then color_params 30 82 (at_foreground t) else [])
     @ (if at_background t \<noteq> at_background p then color_params 40 92 (at_background t) else [])
     @ (if at_bold t \<noteq> at_bold p \<or> at_dim t \<noteq> at_dim p then intensity_params (at_bold t) (at_dim t) else [])
     @ (if at_italic t \<noteq> at_italic p then [[if at_italic t then 3 else 23]] else [])
     @ (if at_underline_style t \<noteq> at_underline_style p then underline_params (at_underline_style t) else [])
     @ (if at_underline_color t \<noteq> at_underline_color p then underline_color_params (at_underline_color t) else [])
     @ (if at_inverse t \<noteq> at_inverse p then [[if at_inverse t then 7 else 27]] else [])
     @ (if at_strikethrough t \<noteq> at_strikethrough p then [[if at_strikethrough t then 9 else 29]] else [])
     @ (if at_slow_blink t \<noteq> at_slow_blink p \<or> at_rapid_blink t \<noteq> at_rapid_blink p then blink_params t p else [])
     @ (if at_conceal t \<noteq> at_conceal p then [[if at_conceal t then 8 else 28]] else [])
     @ (if at_overline t \<noteq> at_overline p then [[if at_overline t then 53 else 55]] else [])"

text \<open>A group \<open>f\<close> of writer calls appends the parameters \<open>qs\<close>.\<close>

definition appends :: "(sgr_buf \<Rightarrow> sgr_buf option) \<Rightarrow> params \<Rightarrow> bool" where
  "appends f qs \<longleftrightarrow> (\<forall>b ps. sgr_holds b ps \<longrightarrow> ok (f b) (\<lambda>b. sgr_holds b (ps @ qs)))"

lemma appends_param: "n \<le> u16_max \<Longrightarrow> appends (sgr_param n) [[n]]"
  by (simp add: appends_def ok_sgr_param)

lemma appends_params: "list_all (\<lambda>n. n \<le> u16_max) ns \<Longrightarrow> appends (sgr_params ns) (plain_params ns)"
  by (simp add: appends_def plain_params_def ok_sgr_params)

lemma appends_raw: "bs = sep_concat 0x3a (map decimal p) \<Longrightarrow> appends (\<lambda>b. Some (sgr_raw bs b)) [p]"
  by (simp add: appends_def sgr_raw_holds)

lemma appends_when: "appends f qs \<Longrightarrow> appends (sgr_when c f) (if c then qs else [])"
  by (simp add: appends_def sgr_when_def)

lemma appends_seq:
  assumes "appends f qs" "appends k rs"
  shows "appends (\<lambda>b. Option.bind (f b) k) (qs @ rs)"
  using assms unfolding appends_def append_assoc [symmetric] ok_bind by (blast intro: ok_mono_all)

lemma unat_u8: "unat (x :: u8) < 256"
proof -
  have "unat x < 2 ^ LENGTH(8)" by (rule unsigned_less)
  then show ?thesis by simp
qed

lemma unat_u16 [simp]: "unat (x :: u8) \<le> u16_max" "n \<le> 100 \<Longrightarrow> unat x + n \<le> u16_max"
  using unat_u8 [of x] by (simp_all add: u16_max_def)

lemma numeral_u16 [simp]: "numeral k \<le> u16_max \<longleftrightarrow> (numeral k :: nat) \<le> 65535" "Suc 0 \<le> u16_max" "0 \<le> u16_max"
  by (simp_all add: u16_max_def)

lemma appends_groups:
  "appends (sgr_foreground c) (color_params 30 82 c)"
  "appends (sgr_background c) (color_params 40 92 c)"
  "appends (sgr_intensity bold dim) (intensity_params bold dim)"
  "appends (sgr_underline_style u) (underline_params u)"
  "appends (sgr_underline_color c) (underline_color_params c)"
  "appends (sgr_blink t p) (blink_params t p)"
proof -
  note defs = appends_def plain_params_def
  note rules = ok_sgr_param ok_sgr_params [of _ _ "[_, _]", simplified]
    ok_sgr_params [of _ _ "[_, _, _]", simplified] ok_sgr_params [of _ _ "[_, _, _, _, _]", simplified]
  show "appends (sgr_foreground c) (color_params 30 82 c)"
    by (cases c) (simp_all add: sgr_foreground_def color_params_def defs rules)
  show "appends (sgr_background c) (color_params 40 92 c)"
    by (cases c) (simp_all add: sgr_background_def color_params_def defs rules)
  show "appends (sgr_underline_color c) (underline_color_params c)"
    by (cases c) (simp_all add: sgr_underline_color_def underline_color_params_def defs rules)
  show "appends (sgr_intensity bold dim) (intensity_params bold dim)"
    by (cases bold; cases dim) (simp_all add: sgr_intensity_def intensity_params_def defs rules)
  show "appends (sgr_underline_style u) (underline_params u)"
    by (cases u) (simp_all add: sgr_underline_style_def underline_params_def defs decimal.simps byte_def rules sgr_raw_holds)
  have "sgr_blink t p = (\<lambda>b. Option.bind (sgr_when (at_slow_blink p \<or> at_rapid_blink p) (sgr_param 25) b)
      (\<lambda>b. Option.bind (sgr_when (at_slow_blink t) (sgr_param 5) b) (sgr_when (at_rapid_blink t) (sgr_param 6))))"
    by (simp add: sgr_blink_def [abs_def] sgr_when_def [abs_def])
  moreover have "blink_params t p = (if at_slow_blink p \<or> at_rapid_blink p then [[25]] else [])
      @ (if at_slow_blink t then [[5]] else []) @ (if at_rapid_blink t then [[6]] else [])"
    by (simp add: blink_params_def plain_params_def)
  ultimately show "appends (sgr_blink t p) (blink_params t p)"
    by (simp only: appends_seq appends_when appends_param numeral_u16 rel_simps)
qed

lemma write_attrs_diff_bytes:
  assumes "target \<noteq> prev" "target \<noteq> attrs_default"
  shows "write_attrs_diff target prev = Some (reconstruct_csi (attrs_diff_params target prev) [] 0x6d)"
proof -
  have codes: "appends (sgr_param (if c then m else n)) [[if c then m else n]]" if "m \<le> 255" "n \<le> 255" for c m n
    using that by (auto intro!: appends_param simp: u16_max_def)
  have step: "appends (\<lambda>b. Option.bind (f b) (\<lambda>b. k b)) (qs @ rs)" if "appends f qs" "appends k rs" for f k qs rs
    using appends_seq [OF that] .
  define body where "body = (\<lambda>b. do {
        b \<leftarrow> sgr_when (at_foreground target \<noteq> at_foreground prev) (sgr_foreground (at_foreground target)) b;
        b \<leftarrow> sgr_when (at_background target \<noteq> at_background prev) (sgr_background (at_background target)) b;
        b \<leftarrow> sgr_when (at_bold target \<noteq> at_bold prev \<or> at_dim target \<noteq> at_dim prev)
               (sgr_intensity (at_bold target) (at_dim target)) b;
        b \<leftarrow> sgr_when (at_italic target \<noteq> at_italic prev) (sgr_param (if at_italic target then 3 else 23)) b;
        b \<leftarrow> sgr_when (at_underline_style target \<noteq> at_underline_style prev)
               (sgr_underline_style (at_underline_style target)) b;
        b \<leftarrow> sgr_when (at_underline_color target \<noteq> at_underline_color prev)
               (sgr_underline_color (at_underline_color target)) b;
        b \<leftarrow> sgr_when (at_inverse target \<noteq> at_inverse prev) (sgr_param (if at_inverse target then 7 else 27)) b;
        b \<leftarrow> sgr_when (at_strikethrough target \<noteq> at_strikethrough prev)
               (sgr_param (if at_strikethrough target then 9 else 29)) b;
        b \<leftarrow> sgr_when (at_slow_blink target \<noteq> at_slow_blink prev \<or> at_rapid_blink target \<noteq> at_rapid_blink prev)
               (sgr_blink target prev) b;
        b \<leftarrow> sgr_when (at_conceal target \<noteq> at_conceal prev) (sgr_param (if at_conceal target then 8 else 28)) b;
        sgr_when (at_overline target \<noteq> at_overline prev) (sgr_param (if at_overline target then 53 else 55)) b
      })"
  have "appends body (attrs_diff_params target prev)"
    unfolding body_def attrs_diff_params_def
    by (intro step appends_when appends_groups codes) simp_all
  then have "ok (body sgr_new) (\<lambda>b. sgr_holds b (attrs_diff_params target prev))"
    unfolding appends_def using sgr_new_holds by fastforce
  moreover have "write_attrs_diff target prev = Option.bind (body sgr_new) (\<lambda>b. Some (esc ''['' @ sb_params b @ bytes ''m''))"
    using assms by (simp add: write_attrs_diff_def body_def)
  ultimately show ?thesis
    by (auto simp: ok_iff_ex sgr_holds_def sgr_bytes_def reconstruct_csi_def)
qed

text \<open>Running the SGR loop over a group and then over the rest of the parameters.\<close>

lemma sgr_from_code:
  assumes "sgr_code a (p # ps) 0 = (a', 0)"
  shows "sgr_from a (p # ps) = sgr_from a' ps"
  using assms by (simp add: sgr_from_step)

lemma sgr_from_simple:
  "sgr_from a ([22] # ps) = sgr_from (a\<lparr>at_bold := False, at_dim := False\<rparr>) ps"
  "sgr_from a ([Suc 0] # ps) = sgr_from (a\<lparr>at_bold := True\<rparr>) ps"
  "sgr_from a ([2] # ps) = sgr_from (a\<lparr>at_dim := True\<rparr>) ps"
  "sgr_from a ([3] # ps) = sgr_from (a\<lparr>at_italic := True\<rparr>) ps"
  "sgr_from a ([23] # ps) = sgr_from (a\<lparr>at_italic := False\<rparr>) ps"
  "sgr_from a ([7] # ps) = sgr_from (a\<lparr>at_inverse := True\<rparr>) ps"
  "sgr_from a ([27] # ps) = sgr_from (a\<lparr>at_inverse := False\<rparr>) ps"
  "sgr_from a ([9] # ps) = sgr_from (a\<lparr>at_strikethrough := True\<rparr>) ps"
  "sgr_from a ([29] # ps) = sgr_from (a\<lparr>at_strikethrough := False\<rparr>) ps"
  "sgr_from a ([8] # ps) = sgr_from (a\<lparr>at_conceal := True\<rparr>) ps"
  "sgr_from a ([28] # ps) = sgr_from (a\<lparr>at_conceal := False\<rparr>) ps"
  "sgr_from a ([53] # ps) = sgr_from (a\<lparr>at_overline := True\<rparr>) ps"
  "sgr_from a ([55] # ps) = sgr_from (a\<lparr>at_overline := False\<rparr>) ps"
  "sgr_from a ([25] # ps) = sgr_from (a\<lparr>at_slow_blink := False, at_rapid_blink := False\<rparr>) ps"
  "sgr_from a ([5] # ps) = sgr_from (a\<lparr>at_slow_blink := True\<rparr>) ps"
  "sgr_from a ([6] # ps) = sgr_from (a\<lparr>at_rapid_blink := True\<rparr>) ps"
  by (rule sgr_from_code, simp add: sgr_code_def first_or_0_def)+

lemma clamp_u8_unat [simp]: "clamp_u8 (unat x) = x"
  using unat_u8 [of x] by (simp add: clamp_u8_def byte_def min_def)

lemma word_less_unat: "(x :: u8) < 8 \<longleftrightarrow> unat x < 8" "(x :: u8) < 16 \<longleftrightarrow> unat x < 16"
  by (simp_all add: word_less_nat_alt)

lemma sgr_from_color:
  "sgr_from a (color_params 30 82 c @ ps) = sgr_from (a\<lparr>at_foreground := c\<rparr>) ps"
  "sgr_from a (color_params 40 92 c @ ps) = sgr_from (a\<lparr>at_background := c\<rparr>) ps"
  "sgr_from a (underline_color_params c @ ps) = sgr_from (a\<lparr>at_underline_color := c\<rparr>) ps"
proof -
  note defs = color_params_def underline_color_params_def plain_params_def sgr_code_def first_or_0_def
    parse_sgr_color_def set_fg_def set_bg_def set_ul_def
  show "sgr_from a (color_params 30 82 c @ ps) = sgr_from (a\<lparr>at_foreground := c\<rparr>) ps"
    by (cases c) (auto simp: defs sgr_from_step word_less_unat)
  show "sgr_from a (color_params 40 92 c @ ps) = sgr_from (a\<lparr>at_background := c\<rparr>) ps"
    by (cases c) (auto simp: defs sgr_from_step word_less_unat)
  show "sgr_from a (underline_color_params c @ ps) = sgr_from (a\<lparr>at_underline_color := c\<rparr>) ps"
    by (cases c) (auto simp: defs sgr_from_step)
qed

lemma sgr_from_underline:
  "sgr_from a (underline_params u @ ps) = sgr_from (a\<lparr>at_underline_style := u\<rparr>) ps"
  by (cases u) (simp_all add: underline_params_def sgr_from_step sgr_code_def first_or_0_def underline_style_from_sgr_def)

lemma sgr_from_intensity:
  "sgr_from a (intensity_params bold dim @ ps) = sgr_from (a\<lparr>at_bold := bold, at_dim := dim\<rparr>) ps"
  by (cases a) (simp add: intensity_params_def plain_params_def sgr_from_simple)

lemma sgr_from_blink:
  assumes "at_slow_blink a = at_slow_blink p" "at_rapid_blink a = at_rapid_blink p"
  shows "sgr_from a (blink_params t p @ ps)
    = sgr_from (a\<lparr>at_slow_blink := at_slow_blink t, at_rapid_blink := at_rapid_blink t\<rparr>) ps"
proof -
  have "a\<lparr>at_slow_blink := False, at_rapid_blink := False\<rparr> = a" if "\<not> at_slow_blink a" "\<not> at_rapid_blink a"
    using that by (cases a) simp
  then show ?thesis
    using assms
    by (cases a; cases "at_slow_blink p"; cases "at_rapid_blink p"; cases "at_slow_blink t"; cases "at_rapid_blink t")
       (simp_all add: blink_params_def plain_params_def sgr_from_simple)
qed

text \<open>
  Each optional group sets its attributes to the target's, whether it is written or not: \<open>x\<close> is the
  previous value, which the pen still has when the group is reached.
\<close>

lemma sgr_from_fg: "at_foreground a = x \<Longrightarrow>
    sgr_from a ((if y \<noteq> x then color_params 30 82 y else []) @ ps) = sgr_from (a\<lparr>at_foreground := y\<rparr>) ps"
  by (cases a) (auto simp: sgr_from_color)

lemma sgr_from_bg: "at_background a = x \<Longrightarrow>
    sgr_from a ((if y \<noteq> x then color_params 40 92 y else []) @ ps) = sgr_from (a\<lparr>at_background := y\<rparr>) ps"
  by (cases a) (auto simp: sgr_from_color)

lemma sgr_from_ul: "at_underline_color a = x \<Longrightarrow>
    sgr_from a ((if y \<noteq> x then underline_color_params y else []) @ ps) = sgr_from (a\<lparr>at_underline_color := y\<rparr>) ps"
  by (cases a) (auto simp: sgr_from_color)

lemma sgr_from_style: "at_underline_style a = x \<Longrightarrow>
    sgr_from a ((if y \<noteq> x then underline_params y else []) @ ps) = sgr_from (a\<lparr>at_underline_style := y\<rparr>) ps"
  by (cases a) (auto simp: sgr_from_underline)

lemma sgr_from_weight: "at_bold a = x \<Longrightarrow> at_dim a = x' \<Longrightarrow>
    sgr_from a ((if y \<noteq> x \<or> y' \<noteq> x' then intensity_params y y' else []) @ ps)
      = sgr_from (a\<lparr>at_bold := y, at_dim := y'\<rparr>) ps"
  by (cases a) (auto simp: sgr_from_intensity)

lemma sgr_from_blinks: "at_slow_blink a = x \<Longrightarrow> at_rapid_blink a = x' \<Longrightarrow> at_slow_blink p = x \<Longrightarrow> at_rapid_blink p = x' \<Longrightarrow>
    sgr_from a ((if at_slow_blink t \<noteq> x \<or> at_rapid_blink t \<noteq> x' then blink_params t p else []) @ ps)
      = sgr_from (a\<lparr>at_slow_blink := at_slow_blink t, at_rapid_blink := at_rapid_blink t\<rparr>) ps"
  using sgr_from_blink [of a p t ps] by (cases a) auto

lemma sgr_from_flags:
  "at_italic a = x \<Longrightarrow> sgr_from a ((if y \<noteq> x then [[if y then 3 else 23]] else []) @ ps) = sgr_from (a\<lparr>at_italic := y\<rparr>) ps"
  "at_inverse a = x \<Longrightarrow> sgr_from a ((if y \<noteq> x then [[if y then 7 else 27]] else []) @ ps) = sgr_from (a\<lparr>at_inverse := y\<rparr>) ps"
  "at_strikethrough a = x \<Longrightarrow>
     sgr_from a ((if y \<noteq> x then [[if y then 9 else 29]] else []) @ ps) = sgr_from (a\<lparr>at_strikethrough := y\<rparr>) ps"
  "at_conceal a = x \<Longrightarrow> sgr_from a ((if y \<noteq> x then [[if y then 8 else 28]] else []) @ ps) = sgr_from (a\<lparr>at_conceal := y\<rparr>) ps"
  "at_overline a = x \<Longrightarrow> sgr_from a ((if y \<noteq> x then [[if y then 53 else 55]] else []) @ ps) = sgr_from (a\<lparr>at_overline := y\<rparr>) ps"
  by (cases a; cases y; auto simp: sgr_from_simple)+

lemma attrs_diff_applied: "sgr_from prev (attrs_diff_params target prev) = target"
proof -
  let ?t = target
  have "sgr_from prev (attrs_diff_params target prev @ []) =
    sgr_from (prev\<lparr>at_foreground := at_foreground ?t, at_background := at_background ?t, at_bold := at_bold ?t,
      at_dim := at_dim ?t, at_italic := at_italic ?t, at_underline_style := at_underline_style ?t,
      at_underline_color := at_underline_color ?t, at_inverse := at_inverse ?t, at_strikethrough := at_strikethrough ?t,
      at_slow_blink := at_slow_blink ?t, at_rapid_blink := at_rapid_blink ?t, at_conceal := at_conceal ?t,
      at_overline := at_overline ?t\<rparr>) []"
    unfolding attrs_diff_params_def append_assoc
    by (cases prev) (simp only: sgr_from_fg sgr_from_bg sgr_from_weight sgr_from_style sgr_from_ul sgr_from_blinks sgr_from_flags attrs.simps)
  then show ?thesis by (cases target; cases prev) simp
qed

lemma attrs_diff_params_nonempty: "target \<noteq> prev \<Longrightarrow> attrs_diff_params target prev \<noteq> []"
  using attrs_diff_applied [of prev target] by auto

lemma param_values_length:
  "length (concat (color_params b br c)) \<le> 5" "length (concat (underline_color_params c)) \<le> 5"
  "length (concat (intensity_params x y)) \<le> 2" "length (concat (underline_params u)) \<le> 2"
  "length (concat (blink_params t p)) \<le> 3"
  by (cases c; cases u; simp add: color_params_def underline_color_params_def intensity_params_def underline_params_def
      blink_params_def plain_params_def)+

lemma attrs_diff_params_length: "length (concat (attrs_diff_params target prev)) \<le> 32"
proof -
  have part: "length (concat (if c then ps else [])) \<le> n" if "length (concat ps) \<le> n" for c n and ps :: params
    using that by simp
  have one: "length (concat (if c then [[k]] else [])) \<le> 1" for c and k :: nat by simp
  show ?thesis
    unfolding attrs_diff_params_def concat_append length_append
    using part [OF param_values_length(1), of "at_foreground target \<noteq> at_foreground prev" 30 82 "at_foreground target"]
      part [OF param_values_length(1), of "at_background target \<noteq> at_background prev" 40 92 "at_background target"]
      part [OF param_values_length(2), of "at_underline_color target \<noteq> at_underline_color prev" "at_underline_color target"]
      part [OF param_values_length(3), of "at_bold target \<noteq> at_bold prev \<or> at_dim target \<noteq> at_dim prev" "at_bold target" "at_dim target"]
      part [OF param_values_length(4), of "at_underline_style target \<noteq> at_underline_style prev" "at_underline_style target"]
      part [OF param_values_length(5), of "at_slow_blink target \<noteq> at_slow_blink prev \<or> at_rapid_blink target \<noteq> at_rapid_blink prev" target prev]
      one [of "at_italic target \<noteq> at_italic prev" "if at_italic target then 3 else 23"]
      one [of "at_inverse target \<noteq> at_inverse prev" "if at_inverse target then 7 else 27"]
      one [of "at_strikethrough target \<noteq> at_strikethrough prev" "if at_strikethrough target then 9 else 29"]
      one [of "at_conceal target \<noteq> at_conceal prev" "if at_conceal target then 8 else 28"]
      one [of "at_overline target \<noteq> at_overline prev" "if at_overline target then 53 else 55"]
    by linarith
qed

text \<open>
  C23: the SGR sequence that \<open>write_attrs_diff\<close> writes turns the pen \<open>prev\<close> into \<open>target\<close>: it writes nothing
  when they are equal, and otherwise one SGR sequence whose parameters, given to \<open>apply_sgr\<close>, yield exactly
  the target. At most 32 parameter values are written, the number the parser keeps.
\<close>

theorem attrs_diff_roundtrip:
  "\<exists>bs. write_attrs_diff target prev = Some bs
    \<and> (if target = prev then bs = []
       else \<exists>ps. bs = reconstruct_csi ps [] 0x6d \<and> apply_sgr prev ps = target \<and> length (concat ps) \<le> 32)"
proof -
  consider "target = prev" | "target \<noteq> prev" "target = attrs_default" | "target \<noteq> prev" "target \<noteq> attrs_default" by blast
  then show ?thesis
  proof cases
    case 2
    have "esc ''[m'' = reconstruct_csi [] [] 0x6d" by (simp add: reconstruct_csi_def esc_def)
    with 2 show ?thesis by (auto simp: write_attrs_diff_def apply_sgr_def intro!: exI [of _ "[]"])
  next
    case 3
    have "apply_sgr prev (attrs_diff_params target prev) = target"
      using attrs_diff_params_nonempty [OF 3(1)] attrs_diff_applied [of prev target] by (simp add: apply_sgr_def sgr_from_def)
    with 3 attrs_diff_params_length [of target prev] write_attrs_diff_bytes [OF 3] show ?thesis by auto
  qed (simp add: write_attrs_diff_def)
qed

section \<open>No writer panics\<close>

lemma ok_write_u16 [simp]: "n \<le> u16_max \<Longrightarrow> ok (write_u16 n) P \<longleftrightarrow> P (decimal n)"
  by (simp add: write_u16_eq)

lemma ok_write_attrs_diff [simp]: "ok (write_attrs_diff target prev) (\<lambda>_. True)"
  by (cases "target = prev"; cases "target = attrs_default"; simp add: write_attrs_diff_bytes)
     (simp_all add: write_attrs_diff_def)

definition pos_in :: "u16 \<Rightarrow> u16 \<Rightarrow> pos \<Rightarrow> bool" where
  "pos_in rows cols p \<longleftrightarrow> p_row p < rows \<and> p_col p \<le> cols"

text \<open>The sizes of a grid: \<open>dims_ok\<close> on the numbers.\<close>

definition fits :: "u16 \<Rightarrow> u16 \<Rightarrow> bool" where
  "fits rows cols \<longleftrightarrow> rows \<le> u16_max \<and> 1 \<le> cols \<and> cols \<le> MAX_COLS"

lemma fits_bounds: "fits rows cols \<Longrightarrow> r < rows \<Longrightarrow> Suc r \<le> u16_max"
    "fits rows cols \<Longrightarrow> c \<le> cols \<Longrightarrow> Suc (Suc c) \<le> u16_max" "fits rows cols \<Longrightarrow> c \<le> cols \<Longrightarrow> Suc c \<le> u16_max"
    "fits rows cols \<Longrightarrow> c \<le> cols \<Longrightarrow> c \<le> u16_max"
  by (auto simp: fits_def u16_max_def MAX_COLS_def)

lemma ok_write_move_to: "fits rows cols \<Longrightarrow> pos_in rows cols p \<Longrightarrow> ok (write_move_to p) (\<lambda>_. True)"
  by (auto simp: write_move_to_def pos_in_def fits_bounds)

lemma ok_write_move_from_to:
  "fits rows cols \<Longrightarrow> pos_in rows cols p \<Longrightarrow> pos_in rows cols q \<Longrightarrow> ok (write_move_from_to p q) (\<lambda>_. True)"
  using fits_bounds(4) [of rows cols "p_col q - p_col p"]
  by (auto simp: write_move_from_to_def pos_in_def fits_bounds intro!: ok_write_move_to)

lemma ok_write_erase_chars: "n \<le> u16_max \<Longrightarrow> ok (write_erase_chars n) (\<lambda>_. True)"
  by (simp add: write_erase_chars_def)

lemma ok_switch_attrs:
  "ok (switch_attrs a s) (\<lambda>s'. pn_pos s' = pn_pos s \<and> pn_erase s' = pn_erase s \<and> pn_wide s' = pn_wide s \<and> pn_attrs s' = a
     \<and> pn_repaint s' = pn_repaint s)"
  using ok_write_attrs_diff [of a "pn_attrs s"]
  by (auto simp: switch_attrs_def emit_def elim!: ok_mono_all)

text \<open>
  The invariant of a row loop at column \<open>n\<close>: the position is on the screen and a pending erase run
  starts left of \<open>n\<close>.
\<close>

definition painter_in :: "u16 \<Rightarrow> u16 \<Rightarrow> nat \<Rightarrow> painter \<Rightarrow> bool" where
  "painter_in rows cols n s \<longleftrightarrow> pos_in rows cols (pn_pos s)
     \<and> (case pn_erase s of None \<Rightarrow> True | Some (start, _) \<Rightarrow> start < n)"

lemma ok_flush_erase_run:
  assumes "fits rows cols" "pos_in rows cols (pn_pos s)" "row < rows" "n \<le> cols"
    "case er of None \<Rightarrow> True | Some (start, _) \<Rightarrow> start < n" "case e of None \<Rightarrow> True | Some k \<Rightarrow> k = n"
  shows "ok (flush_erase_run er row e s) (\<lambda>s'. pos_in rows cols (pn_pos s') \<and> pn_erase s' = pn_erase s
    \<and> pn_wide s' = pn_wide s \<and> pn_repaint s' = pn_repaint s)"
proof (cases er)
  case (Some a)
  obtain start attrs where er: "er = Some (start, attrs)" using Some by (cases a) auto
  have p: "pos_in rows cols \<lparr>p_row = row, p_col = start\<rparr>" using assms er by (simp add: pos_in_def)
  have tail: "ok (case e of Some k \<Rightarrow> do { m \<leftarrow> u16_sub k start; write_erase_chars m } | None \<Rightarrow> Some (esc ''[K'')) (\<lambda>_. True)"
    using assms er fits_bounds(4) [OF assms(1), of "n - start"]
    by (auto simp: ok_write_erase_chars split: option.splits)
  obtain mv where mv: "write_move_from_to (pn_pos s) \<lparr>p_row = row, p_col = start\<rparr> = Some mv"
    using ok_write_move_from_to [OF assms(1,2) p] by (auto simp: ok_iff_ex)
  let ?s = "emit mv (s\<lparr>pn_pos := \<lparr>p_row = row, p_col = start\<rparr>\<rparr>)"
  have "ok (switch_attrs attrs ?s) (\<lambda>s'. pos_in rows cols (pn_pos s') \<and> pn_erase s' = pn_erase s
      \<and> pn_wide s' = pn_wide s \<and> pn_repaint s' = pn_repaint s)"
    using ok_switch_attrs [of attrs ?s] by (rule ok_mono_all) (use p in \<open>simp add: emit_def\<close>)
  with tail show ?thesis
    by (auto simp: er flush_erase_run_def Let_def mv ok_iff_ex emit_def)
qed (use assms in \<open>simp add: flush_erase_run_def\<close>)

lemma ok_zwj_join_hazard: "col \<le> length row \<Longrightarrow> ok (zwj_join_hazard row col) (\<lambda>_. True)"
  by (auto simp: zwj_join_hazard_def)

lemma ok_write_content_move:
  assumes "fits rows cols" "pos_in rows cols p" "pos_in rows cols q" "p_col p \<le> length cells"
  shows "ok (write_content_move p q cols wrapping prev_row cells) (\<lambda>(_, p'). p' = p)"
proof -
  have add: "u16_add (p_row q) 1 = Some (p_row q + 1)"
    using assms(1,3) by (simp add: u16_add_def pos_in_def fits_bounds)
  show ?thesis
    using ok_write_move_to [OF assms(1,2)] ok_write_move_from_to [OF assms(1,3,2)] ok_zwj_join_hazard [OF assms(4)]
    by (auto simp: write_content_move_def ok_iff_ex add simp del: One_nat_def)
qed

text \<open>A loop over the enumerated elements, with an invariant that depends on the index.\<close>

lemma fold_opt_enumerate:
  assumes step: "\<And>i s. i < length xs \<Longrightarrow> I (n + i) s \<Longrightarrow> ok (f (n + i, xs ! i) s) (I (Suc (n + i)))" and init: "I n s"
  shows "ok (fold_opt f (List.enumerate n xs) s) (I (n + length xs))"
  using assms
proof (induction xs arbitrary: n s)
  case (Cons x xs)
  have "ok (f (n, x) s) (I (Suc n))" using Cons.prems(1) [of 0 s] Cons.prems(2) by simp
  moreover have "ok (fold_opt f (List.enumerate (Suc n) xs) s') (I (Suc n + length xs))" if "I (Suc n) s'" for s'
    using that Cons.prems(1) [of "Suc _"] by (intro Cons.IH) auto
  ultimately show ?case by (auto simp: ok_iff_ex)
qed simp

lemma ok_flush_before:
  assumes "fits rows cols" "painter_in rows cols n s" "rc_row ctx < rows" "n \<le> cols"
  shows "ok (flush_before ctx n c s) (\<lambda>s'. painter_in rows cols n s' \<and> pn_wide s' = pn_wide s)"
proof -
  have "ok (flush_erase_run (pn_erase s) (rc_row ctx) (Some n) (s\<lparr>pn_erase := None\<rparr>))
      (\<lambda>s'. pos_in rows cols (pn_pos s') \<and> pn_erase s' = None \<and> pn_wide s' = pn_wide s)"
    using ok_flush_erase_run [OF assms(1), of "s\<lparr>pn_erase := None\<rparr>" "rc_row ctx" n "pn_erase s" "Some n"] assms
    by (auto simp: painter_in_def elim!: ok_mono_all)
  then show ?thesis
    using assms(2) by (auto simp: flush_before_def painter_in_def elim!: ok_mono_all)
qed

lemma ok_paint_contents:
  assumes "fits rows cols" "painter_in rows cols n s" "rc_row ctx < rows" "n < cols" "rc_cols ctx = cols"
    "length (rc_cells ctx) = cols"
  shows "ok (paint_contents ctx n c s) (\<lambda>s'. painter_in rows cols n s' \<and> pn_wide s' = pn_wide s)"
proof -
  let ?p = "\<lparr>p_row = rc_row ctx, p_col = n\<rparr>"
  have p: "pos_in rows cols ?p" "p_col ?p \<le> length (rc_cells ctx)" "pos_in rows cols (pn_pos s)"
    using assms by (simp_all add: pos_in_def painter_in_def)
  obtain mv where mv: "write_content_move ?p (pn_pos s) cols (rc_wrapping ctx) (rc_prev_row ctx) (rc_cells ctx) = Some (mv, ?p)"
    using ok_write_content_move [OF assms(1) p(1,3,2)] by (fastforce simp: ok_iff_ex)
  obtain s1 where s1: "switch_attrs (cell_attrs c) (emit mv (s\<lparr>pn_pos := ?p\<rparr>)) = Some s1"
      "pn_pos s1 = ?p" "pn_erase s1 = pn_erase s" "pn_wide s1 = pn_wide s"
    using ok_switch_attrs [of "cell_attrs c" "emit mv (s\<lparr>pn_pos := ?p\<rparr>)"] by (auto simp: ok_iff_ex emit_def)
  have "paint_contents ctx n c s = do {
      after \<leftarrow> u16_add n 1;
      after \<leftarrow> u16_add after (if is_wide c then 1 else 0);
      let s = emit (utf8 (contents c)) s1;
      Some (s\<lparr>pn_pos := (pn_pos s)\<lparr>p_col := min after cols\<rparr>\<rparr>)
    }"
    by (simp add: paint_contents_def assms(5) mv s1(1))
  then show ?thesis
    using assms(2,3,4) s1(2-) fits_bounds(2,3) [OF assms(1), of n]
    by (auto simp: emit_def painter_in_def pos_in_def Let_def)
qed

lemma painter_in_Suc: "painter_in rows cols n s \<Longrightarrow> painter_in rows cols (Suc n) s"
  by (auto simp: painter_in_def split: option.splits)

lemma as_u16_col: "fits rows cols \<Longrightarrow> n \<le> cols \<Longrightarrow> as_u16 n = n"
  by (simp add: fits_def MAX_COLS_def)

lemma ok_paint_cell:
  assumes "fits rows cols" "painter_in rows cols n s" "rc_row ctx < rows" "n < cols" "rc_cols ctx = cols"
    "length (rc_cells ctx) = cols"
  shows "ok (paint_cell ctx (n, c) s) (painter_in rows cols (Suc n))"
    and "ok (diff_cell uw ctx (n, c, d) s) (painter_in rows cols (Suc n))"
proof -
  have s: "painter_in rows cols n (s\<lparr>pn_wide := is_wide c\<rparr>)" using assms(2) by (simp add: painter_in_def)
  obtain s1 where s1: "flush_before ctx n c (s\<lparr>pn_wide := is_wide c\<rparr>) = Some s1" "painter_in rows cols n s1"
    using ok_flush_before [OF assms(1) s assms(3)] assms(4) by (auto simp: ok_iff_ex)
  have s1': "painter_in rows cols n (s1\<lparr>pn_repaint := b\<rparr>)" for b using s1(2) by (simp add: painter_in_def)
  note contents = ok_paint_contents [OF assms(1) _ assms(3-)]
  have start: "painter_in rows cols (Suc n) (start_erase n c s')" if "painter_in rows cols n s'" for s'
    using that painter_in_Suc [OF that] by (auto simp: start_erase_def painter_in_def)
  have wide: "painter_in rows cols (Suc n) (s\<lparr>pn_wide := False\<rparr>)"
    using painter_in_Suc [OF assms(2)] by (simp add: painter_in_def)
  note col = as_u16_col [OF assms(1), of n]
  show "ok (paint_cell ctx (n, c) s) (painter_in rows cols (Suc n))"
    using wide start [OF s1(2)] painter_in_Suc [OF s1(2)] contents [OF s1(2), of c] assms(4) painter_in_Suc
    by (auto simp: paint_cell_def Let_def s1(1) col elim!: ok_mono_all)
  have rep: "painter_in rows cols (Suc n) (s'\<lparr>pn_repaint := b\<rparr>)" if "painter_in rows cols n s'" for s' b
    using painter_in_Suc [OF that] by (simp add: painter_in_def)
  show "ok (diff_cell uw ctx (n, c, d) s) (painter_in rows cols (Suc n))"
    using wide start [OF s1'] rep [OF s1(2)] contents [OF s1' [of False], of c] assms(4) rep
    by (auto simp: diff_cell_def Let_def s1(1) col ok_iff_ex)
qed

lemma ok_paint_wrapped_blank:
  assumes "fits rows cols" "pos_in rows cols (pn_pos s)" "rc_row ctx < rows" "rc_cols ctx = cols"
  shows "ok (paint_wrapped_blank ctx s) (\<lambda>s'. pos_in rows cols (pn_pos s'))"
proof -
  have p: "pos_in rows cols \<lparr>p_row = rc_row ctx, p_col = 0\<rparr>" using assms by (simp add: pos_in_def)
  have "p_row (pn_pos s) + 1 \<le> u16_max" using assms by (simp add: pos_in_def fits_bounds)
  then show ?thesis
    using ok_write_move_to [OF assms(1) p] ok_switch_attrs [of attrs_default s] ok_write_erase_chars [of 1] p
    by (auto simp: paint_wrapped_blank_def Let_def ok_iff_ex u16_add_def)
qed

text \<open>What both row writers need of their context.\<close>

definition ctx_ok :: "u16 \<Rightarrow> u16 \<Rightarrow> row_ctx \<Rightarrow> bool" where
  "ctx_ok rows cols ctx \<longleftrightarrow> rc_row ctx < rows \<and> rc_cols ctx = cols \<and> length (rc_cells ctx) = cols"

lemma ok_final_flush:
  assumes "fits rows cols" "rc_row ctx < rows" "painter_in rows cols cols s"
  shows "ok (flush_erase_run (pn_erase s) (rc_row ctx) None (s\<lparr>pn_erase := None\<rparr>)) (\<lambda>s. pos_in rows cols (pn_pos s))"
  using ok_flush_erase_run [OF assms(1), of "s\<lparr>pn_erase := None\<rparr>" "rc_row ctx" cols "pn_erase s" None] assms
  by (auto simp: painter_in_def elim!: ok_mono_all)

lemma ok_write_row_formatted:
  assumes "fits rows cols" "pos_in rows cols (pn_pos s)" "ctx_ok rows cols ctx"
  shows "ok (write_row_formatted ctx s) (\<lambda>s'. pos_in rows cols (pn_pos s'))"
proof -
  have ctx: "rc_row ctx < rows" "rc_cols ctx = cols" "length (rc_cells ctx) = cols" "0 < length (rc_cells ctx)"
    using assms by (auto simp: ctx_ok_def fits_def)
  obtain s1 where s1: "(if rc_wrapping ctx \<and> rc_cells ctx ! 0 = cell_default then paint_wrapped_blank ctx s else Some s) = Some s1"
      "pos_in rows cols (pn_pos s1)"
    using ok_paint_wrapped_blank [OF assms(1,2) ctx(1,2)] assms(2)
    by (cases "rc_wrapping ctx \<and> rc_cells ctx ! 0 = cell_default") (auto simp: ok_iff_ex)
  have "ok (paint_loop ctx s1) (painter_in rows cols (0 + length (rc_cells ctx)))"
    unfolding paint_loop_def
  proof (rule fold_opt_enumerate)
    show "painter_in rows cols 0 (s1\<lparr>pn_wide := False, pn_erase := None\<rparr>)" using s1(2) by (simp add: painter_in_def)
  qed (use ok_paint_cell(1) [OF assms(1) _ ctx(1) _ ctx(2,3)] ctx(3) in simp)
  then obtain s2 where s2: "paint_loop ctx s1 = Some s2" "painter_in rows cols cols s2"
    using ctx by (auto simp: ok_iff_ex)
  show ?thesis
    using ok_final_flush [OF assms(1) ctx(1) s2(2)] ctx(4) s1(1) s2(1) by (simp add: write_row_formatted_def vec_get_def)
qed

lemma ok_write_row_diff:
  assumes "fits rows cols" "pos_in rows cols (pn_pos s)" "ctx_ok rows cols ctx" "length prev_cells = cols"
  shows "ok (write_row_diff uw ctx prev_cells pw s) (\<lambda>s'. pos_in rows cols (pn_pos s'))"
proof -
  have ctx: "rc_row ctx < rows" "rc_cols ctx = cols" "length (rc_cells ctx) = cols" "0 < cols"
    using assms by (auto simp: ctx_ok_def fits_def)
  have add: "u16_add (p_row (pn_pos s)) 1 = Some (p_row (pn_pos s) + 1)"
    using assms(1,2) by (simp add: u16_add_def pos_in_def fits_bounds)
  have "ok (wrap_redraw ctx prev_cells pw s) (\<lambda>_. True)"
    using ctx assms(4) by (simp add: wrap_redraw_def add del: One_nat_def ok_u16_add)
  then obtain redraw where redraw: "wrap_redraw ctx prev_cells pw s = Some redraw" by (auto simp: ok_iff_ex)
  let ?first = "rc_cells ctx ! 0"
  obtain s0 where s0: "switch_attrs (cell_attrs ?first) s = Some s0"
    using ok_switch_attrs [of "cell_attrs ?first" s] by (auto simp: ok_iff_ex)
  obtain e where e: "write_erase_chars 1 = Some e" using ok_write_erase_chars [of 1] by (auto simp: ok_iff_ex)
  define s1 where "s1 = (if redraw \<and> \<not> has_contents ?first
    then (emit ([0x20, 0x08] @ e) s0)\<lparr>pn_pos := \<lparr>p_row = rc_row ctx, p_col = 0\<rparr>\<rparr> else s)"
  have p1: "pos_in rows cols (pn_pos s1)" using assms(2) ctx by (simp add: s1_def pos_in_def)
  let ?s1 = "s1\<lparr>pn_wide := False, pn_erase := None, pn_repaint := redraw \<and> has_contents ?first\<rparr>"
  have "ok (fold_opt (diff_cell uw ctx) (List.enumerate 0 (zip (rc_cells ctx) prev_cells)) ?s1)
      (painter_in rows cols (0 + length (zip (rc_cells ctx) prev_cells)))"
  proof (rule fold_opt_enumerate)
    show "painter_in rows cols 0 ?s1" using p1 by (simp add: painter_in_def)
  qed (use ok_paint_cell(2) [OF assms(1) _ ctx(1) _ ctx(2,3)] ctx(3) assms(4) in simp)
  then obtain s2 where s2: "fold_opt (diff_cell uw ctx) (List.enumerate 0 (zip (rc_cells ctx) prev_cells)) ?s1 = Some s2"
      "painter_in rows cols cols s2"
    using ctx assms(4) by (auto simp: ok_iff_ex)
  have "write_row_diff uw ctx prev_cells pw s = flush_erase_run (pn_erase s2) (rc_row ctx) None (s2\<lparr>pn_erase := None\<rparr>)"
    using ctx s2(1) s0 e by (auto simp: write_row_diff_def redraw vec_get_def s1_def split: if_splits)
  then show ?thesis using ok_final_flush [OF assms(1) ctx(1) s2(2)] by simp
qed

text \<open>The grid's own sizes and rows satisfy these conditions.\<close>

lemma visible_screen_eq: "visible_screen g = active_grid g"
  by (simp add: visible_screen_def active_grid_def)

lemma grid_fits: "grid_inv g \<Longrightarrow> fits (g_rows g) (g_cols g)"
  by (simp add: grid_inv_def dims_ok_def fits_def)

lemma visible_row:
  assumes "grid_inv g" "i < g_rows g"
  obtains cells where "rs_get (visible_screen g) i = Some cells" "ctx_ok (g_rows g) (g_cols g) (row_context g i cells w)"
    "length cells = g_cols g"
  using assms active_row [OF assms] that
  by (auto simp: visible_screen_eq rs_get_def vec_get_def ctx_ok_def row_context_def)

lemma ok_paint_rows:
  assumes "grid_inv g" "\<forall>i \<in> set is. i < g_rows g" "pos_in (g_rows g) (g_cols g) (pn_pos s)"
  shows "ok (paint_rows g is w s) (\<lambda>s. pos_in (g_rows g) (g_cols g) (pn_pos s))"
  using assms(2,3)
proof (induction "is" arbitrary: w s)
  case (Cons i "is")
  note fit = grid_fits [OF assms(1)]
  obtain cells where cells: "rs_get (visible_screen g) i = Some cells" "ctx_ok (g_rows g) (g_cols g) (row_context g i cells w)"
    using Cons.prems(1) visible_row [OF assms(1), of i w] by auto
  have "Suc i \<le> u16_max" using fits_bounds(1) [OF fit, of i] Cons.prems(1) by simp
  then show ?case
    using ok_write_row_formatted [OF fit Cons.prems(2) cells(2)] Cons.IH Cons.prems(1) cells(1) by (auto simp: ok_iff_ex u16_add_def)
qed simp

lemma ok_diff_rows:
  assumes "grid_inv g" "grid_inv prev" "g_rows prev = g_rows g" "g_cols prev = g_cols g"
    "\<forall>i \<in> set is. i < g_rows g" "pos_in (g_rows g) (g_cols g) (pn_pos s)"
  shows "ok (diff_rows uw g prev is w pw s) (\<lambda>s. pos_in (g_rows g) (g_cols g) (pn_pos s))"
  using assms(5,6)
proof (induction "is" arbitrary: w pw s)
  case (Cons i "is")
  note fit = grid_fits [OF assms(1)]
  obtain cells where cells: "rs_get (visible_screen g) i = Some cells" "ctx_ok (g_rows g) (g_cols g) (row_context g i cells w)"
    using Cons.prems(1) visible_row [OF assms(1), of i w] by auto
  obtain old where old: "rs_get (visible_screen prev) i = Some old" "length old = g_cols g"
    using Cons.prems(1) visible_row [OF assms(2), of i pw] assms(3,4) by auto
  have "Suc i \<le> u16_max" using fits_bounds(1) [OF fit, of i] Cons.prems(1) by simp
  then show ?case
    using ok_write_row_diff [OF fit Cons.prems(2) cells(2) old(2), of uw pw] Cons.IH Cons.prems(1) cells(1) old(1)
    by (auto simp: ok_iff_ex u16_add_def)
qed simp

lemma ok_redraw: "fits rows cols \<Longrightarrow> pos_in rows cols p \<Longrightarrow> ok (redraw_lead p c a) (\<lambda>_. True)"
  using ok_write_move_to [of rows cols p] ok_write_attrs_diff [of "cell_attrs c" a] ok_write_attrs_diff [of a "cell_attrs c"]
  by (auto simp: redraw_lead_def ok_iff_ex)

lemma ok_park: "fits rows cols \<Longrightarrow> row < rows \<Longrightarrow> ok (park_on_blank row cols c a) (\<lambda>_. True)"
  using ok_write_move_to [of rows cols "\<lparr>p_row = row, p_col = cols - 1\<rparr>"] ok_write_attrs_diff [of "cell_attrs c" a]
    ok_write_attrs_diff [of a "cell_attrs c"] ok_write_erase_chars [of 1]
  by (auto simp: park_on_blank_def ok_iff_ex pos_in_def)

lemma ok_write_cursor_position:
  assumes "fits rows cols" "pos_in rows cols cursor" "pos_in rows cols p"
  shows "ok (write_cursor_position_formatted screen cursor cols (Some p) a) (\<lambda>_. True)"
proof -
  have r: "p_row cursor < rows" using assms(2) by (simp add: pos_in_def)
  have lead: "pos_in rows cols \<lparr>p_row = p_row cursor, p_col = c\<rparr>" if "c \<le> cols" for c
    using r that by (simp add: pos_in_def)
  show ?thesis
    using ok_write_move_from_to [OF assms(1,3,2)] ok_park [OF assms(1) r] ok_redraw [OF assms(1) lead]
    by (auto simp: write_cursor_position_formatted_def Let_def split: option.splits)
qed

lemma ok_finish_contents:
  assumes "grid_inv g" "pos_in (g_rows g) (g_cols g) (pn_pos s)"
  shows "ok (finish_contents g s) (\<lambda>_. True)"
proof -
  have "pos_in (g_rows g) (g_cols g) \<lparr>p_row = g_cursor_row g, p_col = g_cursor_col g\<rparr>"
    using assms(1) by (simp add: pos_in_def grid_inv_def cursor_ok_def)
  from ok_write_cursor_position [OF grid_fits [OF assms(1)] this assms(2), of "visible_screen g" "Some (pn_attrs s)"] show ?thesis
    using ok_write_attrs_diff [of "g_current_attrs g" "pn_attrs s"] by (auto simp: finish_contents_def ok_iff_ex)
qed

lemma ok_full_paint: "grid_inv g \<Longrightarrow> ok (write_contents_full_paint g) (\<lambda>_. True)"
proof -
  assume inv: "grid_inv g"
  have "pos_in (g_rows g) (g_cols g) (pn_pos (painter_at \<lparr>p_row = 0, p_col = 0\<rparr> attrs_default))"
    using inv by (simp add: pos_in_def painter_at_def grid_inv_def dims_ok_def)
  from ok_paint_rows [OF inv _ this, of "[0..<g_rows g]" False] ok_finish_contents [OF inv] show ?thesis
    by (fastforce simp: write_contents_full_paint_def ok_iff_ex)
qed

lemma ok_mouse_writers:
  "ok (write_mouse_mode m m') (\<lambda>_. True)" "ok (write_mouse_encoding e e') (\<lambda>_. True)"
  by (cases m; cases m'; simp add: write_mouse_mode_def mouse_mode_number_def)
     (cases e; cases e'; simp add: write_mouse_encoding_def mouse_encoding_number_def)

lemma serialize_returns:
  assumes "grid_inv g" "grid_inv prev" "g_cursor_style g \<le> u16_max"
  shows "\<exists>b1 b2 b3 b4 b5 b6. contents_formatted g = Some b1 \<and> contents_diff uw g prev = Some b2
    \<and> input_mode_formatted g = Some b3 \<and> input_mode_diff g prev = Some b4
    \<and> state_formatted g = Some b5 \<and> state_diff uw g prev = Some b6"
proof -
  have p: "pos_in (g_rows prev) (g_cols prev) (pn_pos (painter_at \<lparr>p_row = g_cursor_row prev, p_col = g_cursor_col prev\<rparr> a))" for a
    using assms(2) by (simp add: pos_in_def painter_at_def grid_inv_def cursor_ok_def)
  obtain b1 where b1: "write_contents_formatted g = Some b1"
    using ok_full_paint [OF assms(1)] by (auto simp: write_contents_formatted_def ok_iff_ex)
  have diff: "\<exists>s bs. diff_rows uw g prev [0..<g_rows g] False False
      (painter_at \<lparr>p_row = g_cursor_row prev, p_col = g_cursor_col prev\<rparr> (g_current_attrs prev)) = Some s
      \<and> finish_contents g s = Some bs"
    if "grid_size g = grid_size prev"
  proof -
    have sz: "g_rows prev = g_rows g" "g_cols prev = g_cols g" using that by (simp_all add: grid_size_def)
    from ok_diff_rows [OF assms(1,2) sz, of "[0..<g_rows g]" _ uw False False] p [of "g_current_attrs prev"] sz
    obtain s where s: "diff_rows uw g prev [0..<g_rows g] False False
        (painter_at \<lparr>p_row = g_cursor_row prev, p_col = g_cursor_col prev\<rparr> (g_current_attrs prev)) = Some s"
      "pos_in (g_rows g) (g_cols g) (pn_pos s)"
      by (metis atLeastLessThan_iff ok_iff_ex set_upt)
    with ok_finish_contents [OF assms(1) s(2)] show ?thesis by (simp add: ok_iff_ex)
  qed
  obtain b2 where b2: "write_contents_diff uw g prev = Some b2"
    using ok_full_paint [OF assms(1)] diff
    by (cases "grid_size g \<noteq> grid_size prev \<or> alternate_screen g \<noteq> alternate_screen prev")
       (auto simp: write_contents_diff_def ok_iff_ex)
  obtain b3 where b3: "write_input_mode_formatted g = Some b3"
    using ok_mouse_writers(1) [of "g_mouse_mode g" MouseNone] ok_mouse_writers(2) [of "g_mouse_encoding g" MouseDefault] assms(3)
    by (auto simp: write_input_mode_formatted_def write_cursor_style_def ok_iff_ex write_u16_eq)
  obtain b4 where b4: "write_input_mode_diff g prev = Some b4"
    using ok_mouse_writers(1) [of "g_mouse_mode g" "g_mouse_mode prev"]
      ok_mouse_writers(2) [of "g_mouse_encoding g" "g_mouse_encoding prev"] assms(3)
    by (cases "g_cursor_style g = g_cursor_style prev")
       (auto simp: write_input_mode_diff_def write_cursor_style_def ok_iff_ex write_u16_eq)
  show ?thesis
    using b1 b2 b3 b4
    by (simp add: contents_formatted_def contents_diff_def input_mode_formatted_def input_mode_diff_def state_formatted_def
        state_diff_def)
qed

text \<open>
  C24: serialization is total: on well-formed grids, whose cursor style is a \<open>u16\<close>, every writer returns;
  no index, subtraction or \<open>u16\<close> addition of the painting loops panics.
\<close>

theorem serialize_total:
  assumes "grid_inv g" "grid_inv prev" "g_cursor_style g \<le> u16_max"
  shows "\<exists>b1 b2 b3 b4 b5 b6. contents_formatted g = Some b1 \<and> contents_diff uw g prev = Some b2
    \<and> input_mode_formatted g = Some b3 \<and> input_mode_diff g prev = Some b4
    \<and> state_formatted g = Some b5 \<and> state_diff uw g prev = Some b6"
  using assms by (rule serialize_returns)

lemma serialize_total_witness: "\<exists>bs. state_formatted example_grid = Some bs"
  using serialize_total [OF example_grid_inv example_grid_inv]
  by (simp add: example_grid_def with_row_arena_def split_beta Let_def)

section \<open>The replay contract as a relation\<close>

lemma row_state_eq_iff:
  assumes "length r = cols" "length r' = cols"
  shows "row_state_eq cols r r' \<longleftrightarrow> list_all2 cell_state_eq r r'"
  using assms by (auto simp: row_state_eq_def list_all_iff list_all2_conv_all_nth vec_get_def)

lemma screen_state_eq_iff:
  assumes "store_ok rows cols s" "store_ok rows cols t"
  shows "screen_state_eq rows cols s t \<longleftrightarrow> list_all2 (list_all2 cell_state_eq) (rs_rows s) (rs_rows t)"
proof -
  have len: "length (rs_rows s) = rows" "length (rs_rows t) = rows" using assms by (auto simp: store_ok_def)
  have "length (rs_rows s ! i) = cols \<and> length (rs_rows t ! i) = cols" if "i < rows" for i
    using store_ok_nth [OF assms(1) that] store_ok_nth [OF assms(2) that] by (simp add: good_row_def)
  then show ?thesis
    by (auto simp: screen_state_eq_def list_all_iff list_all2_conv_all_nth [of "list_all2 cell_state_eq"] len rs_get_def vec_get_def
        row_state_eq_iff)
qed

lemma cell_state_eq_refl [simp]: "cell_state_eq c c"
  by (simp add: cell_state_eq_def)

lemma cell_state_eq_sym: "cell_state_eq c d \<Longrightarrow> cell_state_eq d c"
  by (simp add: cell_state_eq_def)

lemma cell_state_eq_trans: "cell_state_eq c d \<Longrightarrow> cell_state_eq d e \<Longrightarrow> cell_state_eq c e"
  by (simp add: cell_state_eq_def)

text \<open>
  On well-formed grids \<open>state_eq\<close> is an equivalence, and it is exactly agreement on the state that the
  replay contract names.
\<close>

lemma state_eq_equivalence:
  assumes "grid_inv g" "grid_inv h" "grid_inv k"
  shows "state_eq g g \<and> (state_eq g h = state_eq h g) \<and> (state_eq g h \<and> state_eq h k \<longrightarrow> state_eq g k)
    \<and> (state_eq g h \<longleftrightarrow> grid_size g = grid_size h \<and> cursor_position g = cursor_position h
        \<and> g_current_attrs g = g_current_attrs h \<and> g_cursor_style g = g_cursor_style h
        \<and> (\<forall>f \<in> {ALT_SCREEN, HIDE_CURSOR, BRACKETED_PASTE, APPLICATION_CURSOR, NO_AUTOWRAP, APPLICATION_KEYPAD}.
             has_flag g f = has_flag h f)
        \<and> mouse_mode_number (g_mouse_mode g) = mouse_mode_number (g_mouse_mode h)
        \<and> mouse_encoding_number (g_mouse_encoding g) = mouse_encoding_number (g_mouse_encoding h)
        \<and> list_all2 (list_all2 cell_state_eq) (rs_rows (active_grid g)) (rs_rows (active_grid h)))"
proof -
  have screens: "screen_state_eq (g_rows x) (g_cols x) (active_grid x) (active_grid y)
      \<longleftrightarrow> list_all2 (list_all2 cell_state_eq) (rs_rows (active_grid x)) (rs_rows (active_grid y))"
    if "grid_inv x" "grid_inv y" "grid_size x = grid_size y" for x y
    using screen_state_eq_iff [of "g_rows x" "g_cols x" "active_grid x" "active_grid y"] active_ok [OF that(1)] active_ok [OF that(2)]
      that(3) by (simp add: grid_size_def)
  have sym: "list_all2 (list_all2 cell_state_eq) xs ys \<Longrightarrow> list_all2 (list_all2 cell_state_eq) ys xs" for xs ys
    by (auto simp: list_all2_conv_all_nth cell_state_eq_sym)
  have trans: "list_all2 (list_all2 cell_state_eq) xs ys \<Longrightarrow> list_all2 (list_all2 cell_state_eq) ys zs \<Longrightarrow>
      list_all2 (list_all2 cell_state_eq) xs zs" for xs ys zs
    by (rule list_all2_trans [OF list_all2_trans [OF cell_state_eq_trans]])
  have refl: "list_all2 (list_all2 cell_state_eq) xs xs" for xs
    by (auto simp: list_all2_conv_all_nth)
  note defs = state_eq_def visible_screen_eq autowrap_def application_keypad_def application_cursor_def bracketed_paste_def
    alternate_screen_def hide_cursor_def
  have eq: "state_eq x y \<longleftrightarrow> grid_size x = grid_size y \<and> cursor_position x = cursor_position y
        \<and> g_current_attrs x = g_current_attrs y \<and> g_cursor_style x = g_cursor_style y
        \<and> (\<forall>f \<in> {ALT_SCREEN, HIDE_CURSOR, BRACKETED_PASTE, APPLICATION_CURSOR, NO_AUTOWRAP, APPLICATION_KEYPAD}.
             has_flag x f = has_flag y f)
        \<and> mouse_mode_number (g_mouse_mode x) = mouse_mode_number (g_mouse_mode y)
        \<and> mouse_encoding_number (g_mouse_encoding x) = mouse_encoding_number (g_mouse_encoding y)
        \<and> list_all2 (list_all2 cell_state_eq) (rs_rows (active_grid x)) (rs_rows (active_grid y))"
    if "grid_inv x" "grid_inv y" for x y
    using screens [OF that] by (auto simp: defs)
  have r: "state_eq x x" if "grid_inv x" for x using refl by (simp add: eq [OF that that])
  have s: "state_eq y x" if "grid_inv x" "grid_inv y" "state_eq x y" for x y
    using that(3) sym unfolding eq [OF that(1,2)] eq [OF that(2,1)] by simp
  have t: "state_eq x z" if "grid_inv x" "grid_inv y" "grid_inv z" "state_eq x y" "state_eq y z" for x y z
    using that(4,5) trans unfolding eq [OF that(1,2)] eq [OF that(2,3)] eq [OF that(1,3)] by simp blast
  show ?thesis
  proof (intro conjI)
    show "state_eq g g" using assms(1) by (rule r)
    show "state_eq g h = state_eq h g" using s assms by blast
    show "state_eq g h \<and> state_eq h k \<longrightarrow> state_eq g k" using t assms by blast
  qed (rule eq [OF assms(1,2)])
qed

lemma state_eq_witness: "state_eq example_grid (save_cursor example_grid)
    \<and> \<not> state_eq example_grid (example_grid\<lparr>g_cursor_style := Suc (g_cursor_style example_grid)\<rparr>)"
proof -
  let ?h = "example_grid\<lparr>g_cursor_style := Suc (g_cursor_style example_grid)\<rparr>"
  have inv: "grid_inv ?h"
    using example_grid_inv by (simp add: grid_inv_def inv_part_defs has_flag_def)
  have "active_grid (save_cursor g) = active_grid g" "has_flag (save_cursor g) f = has_flag g f" for g f
    by (simp_all add: save_cursor_def has_flag_def active_grid_def)
  moreover have "list_all2 (list_all2 cell_state_eq) xs xs" for xs by (simp add: list.rel_refl)
  ultimately have "state_eq example_grid (save_cursor example_grid)"
    using state_eq_equivalence [OF example_grid_inv save_cursor_inv [OF example_grid_inv] example_grid_inv,
      THEN conjunct2, THEN conjunct2, THEN conjunct2]
    by (simp only:) (simp add: save_cursor_def grid_size_def cursor_position_def)
  then show ?thesis
    using state_eq_equivalence [OF example_grid_inv inv example_grid_inv, THEN conjunct2, THEN conjunct2, THEN conjunct2] by simp
qed

end
