(* ===== verification/Replay_Calls.thy ===== *)
theory Replay_Calls
  imports Serialize Perform
begin

text \<open>
  What the serializer's bytes do to a grid. \<open>wire\<close> relates a parser call to the bytes it is read from; \<open>sends\<close> is
  the contract of a byte string (from every grid of \<open>P\<close> its calls lead to \<open>Q\<close>); \<open>replay_at\<close> is the state while the
  screen is painted, hyperlinks apart; the last section gives the contracts of the small writers.
\<close>

section \<open>Calls on the wire\<close>

text \<open>
  The bytes from which a parser in its ground state makes one call: printable text, the control characters
  the serializer uses, CSI sequences with at most 32 parameter values, and two-byte escapes. An empty
  parameter list arrives as one zero.
\<close>

definition is_text :: "uchar \<Rightarrow> bool" where
  "is_text c \<longleftrightarrow> is_scalar c \<and> 0x20 \<le> c \<and> \<not> (0x7f \<le> c \<and> c \<le> 0x9f)"

inductive wire :: "perform_call \<Rightarrow> u8 list \<Rightarrow> bool" where
  printed: "is_text c \<Longrightarrow> wire (Print c) (utf8_enc c)"
| control: "b \<in> {0x08, 0x0a, 0x0d} \<Longrightarrow> wire (Execute b) [b]"
| csi: "ps \<noteq> [] \<Longrightarrow> [] \<notin> set ps \<Longrightarrow> length (concat ps) \<le> 32 \<Longrightarrow> \<forall>n \<in> set (concat ps). n \<le> u16_max \<Longrightarrow>
    private \<in> {[], bytes ''?''} \<Longrightarrow> 0x40 \<le> final \<Longrightarrow> final \<le> 0x7e \<Longrightarrow>
    wire (CsiDispatch ps private False final) (reconstruct_csi ps private (byte final))"
| csi_empty: "0x40 \<le> final \<Longrightarrow> final \<le> 0x7e \<Longrightarrow> wire (CsiDispatch [[0]] [] False final) (esc ''['' @ [byte final])"
| csi_space: "n \<le> u16_max \<Longrightarrow> wire (CsiDispatch [[n]] (bytes '' '') False (of_char CHR ''q'')) (esc ''['' @ decimal n @ bytes '' q'')"
| escape: "b \<in> set (bytes ''78=>'') \<Longrightarrow> wire (EscDispatch [] False b) [0x1b, b]"

inductive wires :: "perform_call list \<Rightarrow> u8 list \<Rightarrow> bool" where
  none: "wires [] []"
| more: "wire c bs \<Longrightarrow> wires cs bs' \<Longrightarrow> wires (c # cs) (bs @ bs')"

lemma wires_append: "wires cs bs \<Longrightarrow> wires ds bs' \<Longrightarrow> wires (cs @ ds) (bs @ bs')"
  by (induction rule: wires.induct) (auto intro: wires.intros)

lemma wires_one: "wire c bs \<Longrightarrow> wires [c] bs"
  using wires.more [OF _ wires.none] by fastforce

text \<open>
  \<open>sends uw P bs Q\<close>: the bytes are calls on the wire which, performed on any grid that satisfies \<open>P\<close>, do
  not panic and lead to \<open>Q\<close>.
\<close>

definition sends :: "unicode_width \<Rightarrow> (grid \<Rightarrow> bool) \<Rightarrow> u8 list \<Rightarrow> (grid \<Rightarrow> bool) \<Rightarrow> bool" where
  "sends uw P bs Q \<longleftrightarrow> (\<exists>cs. wires cs bs \<and> (\<forall>h. P h \<longrightarrow> ok (fold_opt (perform uw) cs h) Q))"

lemma sends_nothing: "(\<And>h. P h \<Longrightarrow> Q h) \<Longrightarrow> sends uw P [] Q"
  unfolding sends_def by (rule exI [of _ "[]"]) (auto intro: wires.none)

lemma sends_call: "wire c bs \<Longrightarrow> (\<And>h. P h \<Longrightarrow> ok (perform uw c h) Q) \<Longrightarrow> sends uw P bs Q"
  unfolding sends_def by (rule exI [of _ "[c]"]) (auto intro: wires_one)

lemma sends_append:
  assumes "sends uw P bs Q" "sends uw Q bs' R"
  shows "sends uw P (bs @ bs') R"
proof -
  obtain cs ds where "wires cs bs" "wires ds bs'"
    and c: "\<And>h. P h \<Longrightarrow> ok (fold_opt (perform uw) cs h) Q" and d: "\<And>h. Q h \<Longrightarrow> ok (fold_opt (perform uw) ds h) R"
    using assms by (auto simp: sends_def)
  moreover have "ok (fold_opt (perform uw) (cs @ ds) h) R" if "P h" for h
    using c [OF that] d by (auto simp: fold_opt_append ok_iff_ex)
  ultimately show ?thesis unfolding sends_def by (blast intro: wires_append)
qed

lemma sends_weaken: "sends uw P bs Q \<Longrightarrow> (\<And>h. P' h \<Longrightarrow> P h) \<Longrightarrow> (\<And>h. Q h \<Longrightarrow> Q' h) \<Longrightarrow> sends uw P' bs Q'"
  unfolding sends_def by (blast intro: ok_mono_all)

section \<open>The replaying grid\<close>

text \<open>What painting leaves alone.\<close>

type_synonym setting = "(u16 \<times> u16 \<times> u16 \<times> u16) \<times> mouse_protocol_mode \<times> mouse_protocol_encoding \<times> u16 \<times> hyperlink option \<times> bool list"

definition setting_of :: "grid \<Rightarrow> setting" where
  "setting_of g = ((g_rows g, g_cols g, g_scroll_top g, g_scroll_bottom g), g_mouse_mode g, g_mouse_encoding g,
     g_cursor_style g, g_active_hyperlink g, map (has_flag g)
       [ALT_SCREEN, HIDE_CURSOR, BRACKETED_PASTE, APPLICATION_CURSOR, NO_AUTOWRAP, APPLICATION_KEYPAD])"

text \<open>Replay leaves hyperlinks out.\<close>

definition unlinked :: "cell \<Rightarrow> cell" where
  "unlinked c = c\<lparr>cell_hyperlink := None\<rparr>"

lemma unlinked_simps [simp]:
  "contents (unlinked c) = contents c" "is_wide (unlinked c) = is_wide c" "is_wide_continuation (unlinked c) = is_wide_continuation c"
  "cell_attrs (unlinked c) = cell_attrs c" "unlinked cell_default = cell_default"
  by (simp_all add: unlinked_def)

text \<open>The screen a grid shows.\<close>

definition shown :: "grid \<Rightarrow> row list" where
  "shown g = map (map unlinked) (rs_rows (active_grid g))"

lemma length_shown [simp]: "length (shown g) = length (rs_rows (active_grid g))"
  by (simp add: shown_def)

lemma shown_nth [simp]: "i < length (rs_rows (active_grid g)) \<Longrightarrow> shown g ! i = map unlinked (rs_rows (active_grid g) ! i)"
  by (simp add: shown_def)

lemma shown_update:
  assumes "grid_inv h" "r < g_rows h" "rs_rows (active_grid h') = (rs_rows (active_grid h))[r := row]"
  shows "shown h' = (shown h)[r := map unlinked row]" "shown h ! r = map unlinked (rs_rows (active_grid h) ! r)"
  using assms active_ok [of h] by (simp_all add: shown_def map_update store_ok_def)

lemma shown_cong: "active_grid g = active_grid h \<Longrightarrow> shown g = shown h"
  by (simp add: shown_def)

lemma unlinked_glyph_row:
  assumes "k < length row"
  shows "map unlinked (glyph_row row k c) = glyph_row (map unlinked row) k (unlinked c)"
proof (rule nth_equalityI)
  fix i assume "i < length (map unlinked (glyph_row row k c))"
  then have "i < length row" by (simp add: glyph_row_def)
  moreover have "unlinked (continuation_cell a l) = continuation_cell a (cell_hyperlink (unlinked c))" for a l
    by (simp add: unlinked_def continuation_cell_def)
  ultimately show "map unlinked (glyph_row row k c) ! i = glyph_row (map unlinked row) k (unlinked c) ! i"
    using assms by (auto simp: glyph_row_def glyph_nth_def)
qed (simp add: glyph_row_def)

lemma unlinked_erased_row:
  assumes "stop \<le> length row" "unlinked b = b"
  shows "map unlinked (erased_row row start stop b) = erased_row (map unlinked row) start stop b"
  using assms by (intro nth_equalityI) (auto simp: erased_row_def erased_def)

text \<open>
  \<open>replay_at h0 rows p a\<close>: a well-formed grid with the setting of \<open>h0\<close>, which shows those rows, with its cursor
  at \<open>p\<close> and the pen \<open>a\<close>.
\<close>

definition replay_at :: "grid \<Rightarrow> row list \<Rightarrow> pos \<Rightarrow> attrs \<Rightarrow> grid \<Rightarrow> bool" where
  "replay_at h0 rows p a h \<longleftrightarrow> grid_inv h \<and> setting_of h = setting_of h0 \<and> shown h = rows
     \<and> g_cursor_row h = p_row p \<and> g_cursor_col h = p_col p \<and> g_current_attrs h = a"

text \<open>The setting of a fresh grid on which rows are painted.\<close>

definition canvas :: "grid \<Rightarrow> bool" where
  "canvas h \<longleftrightarrow> grid_inv h \<and> g_scroll_top h = 0 \<and> g_scroll_bottom h = g_rows h - 1 \<and> \<not> has_flag h NO_AUTOWRAP"

lemma setting_eqD:
  assumes "setting_of h = setting_of h0"
  shows "g_rows h = g_rows h0" "g_cols h = g_cols h0" "g_scroll_top h = g_scroll_top h0" "g_scroll_bottom h = g_scroll_bottom h0"
    "g_active_hyperlink h = g_active_hyperlink h0" "has_flag h NO_AUTOWRAP = has_flag h0 NO_AUTOWRAP"
    "has_flag h ALT_SCREEN = has_flag h0 ALT_SCREEN"
  using assms by (auto simp: setting_of_def)

lemma setting_simps [simp]:
  "setting_of (g\<lparr>g_dirty := x0\<rparr>) = setting_of g" "setting_of (g\<lparr>g_cursor_row := x1\<rparr>) = setting_of g"
  "setting_of (g\<lparr>g_cursor_col := x2\<rparr>) = setting_of g" "setting_of (g\<lparr>g_last_print := x3\<rparr>) = setting_of g"
  "setting_of (g\<lparr>g_current_attrs := x4\<rparr>) = setting_of g" "setting_of (g\<lparr>g_arena := x5\<rparr>) = setting_of g"
  "setting_of (g\<lparr>g_scrollback := x6\<rparr>) = setting_of g" "setting_of (g\<lparr>g_last_preserved_block := x7\<rparr>) = setting_of g"
  "setting_of (g\<lparr>g_saved_cursor_row := x8\<rparr>) = setting_of g" "setting_of (g\<lparr>g_saved_cursor_col := x9\<rparr>) = setting_of g"
  by (simp_all add: setting_of_def has_flag_def)

lemma setting_flags [simp]:
  "setting_of (set_flag PENDING_WRAP g) = setting_of g" "setting_of (clear_flag PENDING_WRAP g) = setting_of g"
  "setting_of (set_flag MUTATED_SINCE_PRESERVE g) = setting_of g" "setting_of (clear_flag MUTATED_SINCE_PRESERVE g) = setting_of g"
  by (simp_all add: setting_of_def) (simp_all add: flag_op_defs)

lemma setting_put_active [simp]: "setting_of (put_active s g) = setting_of g"
  by (simp add: setting_of_def) (simp add: put_active_def)

lemma setting_clear_pending_wrap [simp]: "setting_of (clear_pending_wrap g) = setting_of g"
  by (simp add: clear_pending_wrap_def Let_def)

lemma pen_simps [simp]:
  "g_current_attrs (set_flag f g) = g_current_attrs g" "g_current_attrs (clear_flag f g) = g_current_attrs g"
  "g_current_attrs (clear_pending_wrap g) = g_current_attrs g"
  by (simp_all add: flag_op_defs clear_pending_wrap_def Let_def)

section \<open>One call at a time\<close>

abbreviation at_pos :: "u16 \<Rightarrow> u16 \<Rightarrow> pos" where
  "at_pos r c \<equiv> \<lparr>p_row = r, p_col = c\<rparr>"

lemma replay_atD:
  assumes "replay_at h0 rows p a h"
  shows "grid_inv h" "setting_of h = setting_of h0" "shown h = rows" "g_cursor_row h = p_row p"
    "g_cursor_col h = p_col p" "g_current_attrs h = a" "g_rows h = g_rows h0" "g_cols h = g_cols h0"
  using assms by (auto simp: replay_at_def shown_def dest: setting_eqD)

lemma replay_at_bounds:
  assumes "replay_at h0 rows p a h"
  shows "p_row p < g_rows h0" "p_col p \<le> g_cols h0" "0 < g_cols h0" "g_cols h0 \<le> MAX_COLS" "g_rows h0 \<le> u16_max"
    "has_flag h PENDING_WRAP \<longleftrightarrow> p_col p = g_cols h0" "length rows = g_rows h0"
  using replay_atD [OF assms] active_ok [of h] by (auto simp: grid_inv_def cursor_ok_def dims_ok_def store_ok_def)

text \<open>Unparking the cursor, and moving an unparked one.\<close>

lemma replay_unpark:
  assumes "replay_at h0 rows p a h"
  shows "replay_at h0 rows (at_pos (p_row p) (min (p_col p) (g_cols h0 - 1))) a (clear_pending_wrap h)"
proof -
  have "g_cursor_col (clear_pending_wrap h) = min (p_col p) (g_cols h0 - 1)"
    using replay_atD [OF assms] replay_at_bounds [OF assms] by (auto simp: clear_pending_wrap_def Let_def flag_op_defs)
  then show ?thesis
    using replay_atD [OF assms] clear_pending_wrap_inv [of h] by (simp add: replay_at_def shown_def)
qed

lemma replay_goto:
  assumes "replay_at h0 rows p a h" "p_col p < g_cols h0" "r < g_rows h0" "c < g_cols h0"
  shows "replay_at h0 rows (at_pos r c) a (h\<lparr>g_cursor_row := r, g_cursor_col := c\<rparr>)"
    "replay_at h0 rows (at_pos (p_row p) c) a (h\<lparr>g_cursor_col := c\<rparr>)"
proof -
  note d = replay_atD [OF assms(1)]
  have "\<not> has_flag h PENDING_WRAP" "p_row p < g_rows h" using replay_at_bounds [OF assms(1)] assms(2) d by simp_all
  with d assms(3,4) move_cursor_inv [OF d(1), of r c] move_cursor_inv [OF d(1), of "p_row p" c]
  show "replay_at h0 rows (at_pos r c) a (h\<lparr>g_cursor_row := r, g_cursor_col := c\<rparr>)"
    "replay_at h0 rows (at_pos (p_row p) c) a (h\<lparr>g_cursor_col := c\<rparr>)"
    by (simp_all add: replay_at_def shown_def)
qed

lemma unparked_bound: "0 < g_cols h0 \<Longrightarrow> p_col (at_pos r (min c (g_cols h0 - 1))) < g_cols h0"
  by auto

lemmas replay_move = replay_goto [OF replay_unpark unparked_bound]

lemma csi_cup: "csi_dispatch ps [] False 0x48 h = Some ((clear_pending_wrap h)
    \<lparr>g_cursor_row := min ((if ps = [] then 0 else first_or_0 (ps ! 0)) - 1) (g_rows h - 1),
     g_cursor_col := min ((if length ps < 2 then 0 else first_or_0 (ps ! 1)) - 1) (g_cols h - 1)\<rparr>)"
  by (simp add: csi_dispatch_def is_char_def char_in_def Let_def)

lemma perform_cup:
  assumes "replay_at h0 rows p a h" "r < g_rows h0" "c < g_cols h0"
  shows "ok (perform uw (CsiDispatch [[r + 1], [c + 1]] [] False 0x48) h) (replay_at h0 rows (at_pos r c) a)"
    "ok (perform uw (CsiDispatch [[0]] [] False 0x48) h) (replay_at h0 rows (at_pos 0 0) a)"
proof -
  have "min r (g_rows h0 - 1) = r" "min c (g_cols h0 - 1) = c" using assms(2,3) by auto
  then show "ok (perform uw (CsiDispatch [[r + 1], [c + 1]] [] False 0x48) h) (replay_at h0 rows (at_pos r c) a)"
    "ok (perform uw (CsiDispatch [[0]] [] False 0x48) h) (replay_at h0 rows (at_pos 0 0) a)"
    using replay_move(1) [OF assms(1) _ assms(2,3)] replay_move(1) [OF assms(1), of 0 0] replay_atD(7,8) [OF assms(1)] assms(2,3)
    by (simp_all add: csi_cup first_or_0_def)
qed

lemma csi_cuf: "csi_dispatch [[n]] [] False 0x43 h = (let h = clear_pending_wrap h in
    Some (clamp_cursor (h\<lparr>g_cursor_col := add_cursor_offset (g_cursor_col h) (max n 1) (g_cols h - 1)\<rparr>)))"
  by (simp add: csi_dispatch_def is_char_def char_in_def Let_def first_or_0_def)

lemma clamp_cursor_id: "g_cursor_row h < g_rows h \<Longrightarrow> g_cursor_col h < g_cols h \<Longrightarrow> clamp_cursor h = h"
  by (simp add: clamp_cursor_def min_def)

lemma perform_cuf:
  assumes "replay_at h0 rows p a h" "max n 1 = k" "p_col p + k < g_cols h0"
  shows "ok (perform uw (CsiDispatch [[n]] [] False 0x43) h) (replay_at h0 rows (at_pos (p_row p) (p_col p + k)) a)"
proof -
  note b = replay_at_bounds [OF assms(1)]
  have col: "g_cursor_col (clear_pending_wrap h) = p_col p"
    using replay_atD(5) [OF replay_unpark [OF assms(1)]] assms(3) by simp
  have "add_cursor_offset (p_col p) k (g_cols h - 1) = p_col p + k"
    using assms(3) replay_atD(8) [OF assms(1)] b(4) by (simp add: add_cursor_offset_def u16_sat_add_def u16_max_def MAX_COLS_def)
  moreover have r: "replay_at h0 rows (at_pos (p_row p) (p_col p + k)) a ((clear_pending_wrap h)\<lparr>g_cursor_col := p_col p + k\<rparr>)"
    using replay_move(2) [OF assms(1) b(3) b(1) assms(3)] by simp
  moreover have "clamp_cursor ((clear_pending_wrap h)\<lparr>g_cursor_col := p_col p + k\<rparr>) = (clear_pending_wrap h)\<lparr>g_cursor_col := p_col p + k\<rparr>"
    using replay_atD [OF assms(1)] b assms(3) by (intro clamp_cursor_id) simp_all
  ultimately show ?thesis
    using assms(2) by (simp add: csi_cuf Let_def col)
qed

lemma perform_cr:
  assumes "replay_at h0 rows p a h"
  shows "ok (perform uw (Execute 0x0d) h) (replay_at h0 rows (at_pos (p_row p) 0) a)"
  using replay_move(2) [OF assms, of _ 0] replay_at_bounds [OF assms] by (auto simp: execute_def)

lemma replay_newline:
  assumes "replay_at h0 rows p a h" "canvas h0" "p_col p < g_cols h0" "p_row p + 1 < g_rows h0"
  shows "ok (newline_action_with_wrap w h) (\<lambda>h'. replay_at h0 rows (at_pos (p_row p + 1) (p_col p)) a h')"
proof -
  note d = replay_atD [OF assms(1)]
  have pw: "\<not> has_flag h PENDING_WRAP" using replay_at_bounds(6) [OF assms(1)] assms(3) by simp
  have "g_cursor_row h \<noteq> g_scroll_bottom h" "g_rows h \<le> u16_max"
    using d assms(2,4) setting_eqD(4) [OF d(2)] by (auto simp: canvas_def grid_inv_def dims_ok_def)
  then have eq: "newline_action_with_wrap w h
      = Some (set_active_row_wrap (p_row p + 1) w (h\<lparr>g_cursor_row := p_row p + 1\<rparr>))"
    using assms(4) d(4,7) by (simp add: newline_action_with_wrap_def add_cursor_offset_def u16_sat_add_def Let_def min_def)
  then have "grid_inv (set_active_row_wrap (p_row p + 1) w (h\<lparr>g_cursor_row := p_row p + 1\<rparr>))"
    using newline_action_with_wrap_spec [OF d(1) pw, of w] by (auto simp: step_ok_def)
  with d show ?thesis
    unfolding eq by (auto simp: replay_at_def shown_def set_active_row_wrap_def)
qed

lemma perform_lf:
  assumes "replay_at h0 rows p a h" "canvas h0" "p_col p < g_cols h0" "p_row p + 1 < g_rows h0"
  shows "ok (perform uw (Execute 0x0a) h) (replay_at h0 rows (at_pos (p_row p + 1) (p_col p)) a)"
  using replay_newline [OF replay_unpark [OF assms(1)] assms(2), of Hard] assms(3,4)
  by (simp add: execute_def newline_action_def)

lemma perform_sgr:
  assumes "replay_at h0 rows p a h" "apply_sgr a ps = b"
  shows "ok (perform uw (CsiDispatch ps [] False 0x6d) h) (replay_at h0 rows p b)"
proof -
  have "csi_dispatch ps [] False 0x6d h = Some (h\<lparr>g_current_attrs := apply_sgr (g_current_attrs h) ps\<rparr>)"
    by (simp add: csi_dispatch_def is_char_def char_in_def Let_def)
  with assms show ?thesis
    by (auto simp: replay_at_def shown_def grid_inv_def inv_part_defs has_flag_def)
qed

lemma perform_bs:
  assumes "replay_at h0 rows p a h"
  shows "ok (perform uw (Execute 0x08) h) (replay_at h0 rows (at_pos (p_row p) (p_col p - 1)) a)"
proof -
  note d = replay_atD [OF assms] and b = replay_at_bounds [OF assms]
  consider "p_col p = g_cols h0" | "p_col p < g_cols h0" "0 < p_col p" | "p_col p = 0" using b by linarith
  then show ?thesis
  proof cases
    case 1
    then show ?thesis using replay_unpark [OF assms] b by (simp add: execute_def)
  next
    case 2
    then show ?thesis using replay_goto(2) [OF assms 2(1) b(1), of "p_col p - 1"] b d by (simp add: execute_def)
  next
    case 3
    then show ?thesis using assms b d by (cases p) (simp add: execute_def)
  qed
qed

section \<open>Calls that change cells\<close>

definition no_joiner :: "row list \<Rightarrow> bool" where
  "no_joiner rows \<longleftrightarrow> list_all (list_all (\<lambda>c. \<not> ends_with (contents c) ZWJ)) rows"

text \<open>The cell a printed character makes on a canvas.\<close>

definition printed_cell :: "uchar \<Rightarrow> u16 \<Rightarrow> attrs \<Rightarrow> cell" where
  "printed_cell ch w a = \<lparr>contents = [ch], is_wide = 1 < w, is_wide_continuation = False, cell_attrs = a, cell_hyperlink = None\<rparr>"

lemma set_active_row_keeps:
  "set_active_row i row g = Some g' \<Longrightarrow> setting_of g' = setting_of g \<and> g_current_attrs g' = g_current_attrs g"
  by (auto simp: set_active_row_def bind_eq_Some_conv)

lemma grid_mark_range_keeps:
  "grid_mark_range r s e g = Some g' \<Longrightarrow> setting_of g' = setting_of g \<and> g_current_attrs g' = g_current_attrs g"
  by (auto simp: grid_mark_range_def)

lemma write_glyph_keeps:
  assumes "write_glyph ch w g = Some g'"
  shows "setting_of g' = setting_of g \<and> g_current_attrs g' = g_current_attrs g"
proof -
  obtain row row1 s e row2 g1 g2 c where "set_active_row (g_cursor_row g) row2 g = Some g1"
      "grid_mark_range (g_cursor_row g1) s e g1 = Some g2"
      and g': "g' = (if g_cols g2 \<le> c then arm_wrap g2 else g2\<lparr>g_cursor_col := c\<rparr>)
        \<lparr>g_last_print := Some (g_cursor_row (if g_cols g2 \<le> c then arm_wrap g2 else g2\<lparr>g_cursor_col := c\<rparr>),
          g_cursor_col (if g_cols g2 \<le> c then arm_wrap g2 else g2\<lparr>g_cursor_col := c\<rparr>))\<rparr>"
    using assms by (auto simp: write_glyph_def bind_eq_Some_conv Let_def split: prod.splits)
  then show ?thesis
    by (auto simp: arm_wrap_def dest!: set_active_row_keeps grid_mark_range_keeps)
qed

lemma no_join:
  assumes "no_joiner (shown g)" "0 < width" "g_cursor_row g < length (shown g)"
  shows "append_to_previous_cluster uw ch width g = Some (False, g)"
proof -
  let ?row = "rs_rows (active_grid g) ! g_cursor_row g"
  have nz: "\<not> ends_with (contents (?row ! i)) ZWJ" if "i < length ?row" for i
    using assms(1,3) that by (simp add: no_joiner_def list_all_length)
  have "cluster_lead ?row t False = Inl False" for t
    using nz [of t] nz [of "t - 1"] by (cases "t < length ?row") (auto simp: cluster_lead_def Let_def ends_with_def)
  then show ?thesis
    using assms(2,3) by (auto simp: append_to_previous_cluster_def Let_def cluster_target_def vec_get_def)
qed

lemma replay_glyph:
  assumes "replay_at h0 rows p a h" "p_col p < g_cols h0" "w = 1 \<or> w = 2"
  shows "ok (write_glyph ch w h) (replay_at h0 (rows[p_row p := glyph_row (rows ! p_row p) (p_col p) (printed_cell ch w a)])
    (at_pos (p_row p) (min (p_col p + w) (g_cols h0))) a)"
proof -
  note d = replay_atD [OF assms(1)]
  have cell: "unlinked (glyph_cell ch w h) = printed_cell ch w a"
    using d(6) by (simp add: glyph_cell_def printed_cell_def unlinked_def)
  from write_glyph_spec [OF d(1) _ assms(3), of ch] assms(2) d obtain h'
    where h': "write_glyph ch w h = Some h'" "step_ok h h'" "g_cursor_row h' = p_row p"
      "rs_rows (active_grid h') = (rs_rows (active_grid h))[p_row p :=
        glyph_row (rs_rows (active_grid h) ! p_row p) (p_col p) (glyph_cell ch w h)]"
      "g_cursor_col h' = min (p_col p + w) (g_cols h0)"
    by (auto simp: ok_iff_ex)
  have "shown h' = rows[p_row p := glyph_row (rows ! p_row p) (p_col p) (printed_cell ch w a)]"
    using h'(4) shown_update [OF d(1), of "p_row p" h'] unlinked_glyph_row [of "p_col p"] active_row [OF d(1), of "p_row p"]
      replay_at_bounds [OF assms(1)] d(3,7,8) assms(2) cell by simp
  with write_glyph_keeps [OF h'(1)] d(2,6) h'(3,5) step_ok_inv [OF h'(2)] show ?thesis
    by (simp add: h'(1) replay_at_def)
qed

lemma replay_mutated: "replay_at h0 rows p a h \<Longrightarrow> replay_at h0 rows p a (set_flag MUTATED_SINCE_PRESERVE h)"
  by (simp add: replay_at_def shown_def set_clear_flag_inv)
     (simp add: set_flag_def)

lemma perform_print:
  assumes "replay_at h0 rows p a h" "p_col p < g_cols h0" "char_width uw ch = w" "0 < w" "canvas h0" "no_joiner rows"
  shows "ok (perform uw (Print ch) h) (replay_at h0 (rows[p_row p := glyph_row (rows ! p_row p) (p_col p) (printed_cell ch w a)])
    (at_pos (p_row p) (min (p_col p + w) (g_cols h0))) a)"
proof -
  define h1 where "h1 = set_flag MUTATED_SINCE_PRESERVE h"
  have r: "replay_at h0 rows p a h1" unfolding h1_def by (rule replay_mutated [OF assms(1)])
  note d = replay_atD [OF r] and b = replay_at_bounds [OF r]
  have w: "w = 1 \<or> w = 2" using char_width_le [of uw ch] assms(3,4) by linarith
  have j: "append_to_previous_cluster uw ch w h1 = Some (False, h1)"
    by (rule no_join) (use assms(4,6) d b in simp_all)
  have "write_clamped ch w h1 = write_glyph ch w h1" "deferred_wrap h1 = Some h1"
    using b assms(2,5) d setting_eqD(6) [OF d(2)] by (simp_all add: write_clamped_def deferred_wrap_def canvas_def Let_def)
  then have "perform uw (Print ch) h = write_glyph ch w h1"
    using assms(3) j by (simp add: write_char_at_cursor_def h1_def Let_def)
  then show ?thesis using replay_glyph [OF r assms(2) w] by simp
qed

lemma replay_clear_pending:
  assumes "replay_at h0 rows p a h"
  shows "replay_at h0 rows (at_pos (p_row p) 0) a ((clear_flag PENDING_WRAP h)\<lparr>g_cursor_col := 0\<rparr>)"
  using assms replay_at_bounds(3) [OF assms] replay_atD(8) [OF assms]
  by (auto simp: replay_at_def shown_def grid_inv_def inv_part_defs) (simp_all add: clear_flag_def flag_op_defs)

lemma perform_print_wrapped:
  assumes "replay_at h0 rows p a h" "p_col p = g_cols h0" "p_row p + 1 < g_rows h0" "char_width uw ch = w" "0 < w"
    "canvas h0" "no_joiner rows"
  shows "ok (perform uw (Print ch) h) (replay_at h0 (rows[p_row p + 1 := glyph_row (rows ! (p_row p + 1)) 0 (printed_cell ch w a)])
    (at_pos (p_row p + 1) (min w (g_cols h0))) a)"
proof -
  define h1 where "h1 = set_flag MUTATED_SINCE_PRESERVE h"
  have r: "replay_at h0 rows p a h1" unfolding h1_def by (rule replay_mutated [OF assms(1)])
  note d = replay_atD [OF r] and b = replay_at_bounds [OF r]
  have w: "w = 1 \<or> w = 2" using char_width_le [of uw ch] assms(4,5) by linarith
  have j: "append_to_previous_cluster uw ch w h1 = Some (False, h1)"
    by (rule no_join) (use assms(5,7) d b in simp_all)
  have "deferred_wrap h1 = newline_action_with_wrap Soft ((clear_flag PENDING_WRAP h1)\<lparr>g_cursor_col := 0\<rparr>)"
    using b assms(2,6) d setting_eqD(6) [OF d(2)] by (simp add: deferred_wrap_def canvas_def)
  moreover have "ok (newline_action_with_wrap Soft ((clear_flag PENDING_WRAP h1)\<lparr>g_cursor_col := 0\<rparr>))
      (replay_at h0 rows (at_pos (p_row p + 1) 0) a)"
    using replay_newline [OF replay_clear_pending [OF r] assms(6)] b(3) assms(3) by simp
  ultimately obtain h2 where h2: "deferred_wrap h1 = Some h2" "replay_at h0 rows (at_pos (p_row p + 1) 0) a h2"
    by (auto simp: ok_iff_ex)
  note d2 = replay_atD [OF h2(2)]
  have "write_clamped ch w h2 = write_glyph ch w h2"
    using d2 assms(3,6) b(3) setting_eqD(6) [OF d2(2)] by (simp add: write_clamped_def canvas_def Let_def)
  then have "perform uw (Print ch) h = write_glyph ch w h2"
    using assms(4) j h2(1) by (simp add: write_char_at_cursor_def h1_def Let_def)
  then show ?thesis using replay_glyph [OF h2(2) _ w] b(3) by simp
qed

text \<open>The blank cell an erase leaves under the pen \<open>a\<close>.\<close>

definition bce :: "attrs \<Rightarrow> cell" where
  "bce a = cell_default\<lparr>cell_attrs := attrs_default\<lparr>at_background := at_background a\<rparr>\<rparr>"

lemma blank_cell_bce: "blank_cell h = bce (g_current_attrs h)"
  by (simp add: blank_cell_def bce_def)

lemma erase_characters_keeps:
  assumes "erase_characters n g = Some g'"
  shows "setting_of g' = setting_of g \<and> g_current_attrs g' = g_current_attrs g \<and> g_cursor_row g' = g_cursor_row g
    \<and> g_cursor_col g' = g_cursor_col g"
  using assms
  by (auto simp: erase_characters_def bind_eq_Some_conv Let_def set_active_row_def grid_mark_range_def)

lemma erase_line_keeps:
  assumes "erase_line 0 g = Some g'"
  shows "setting_of g' = setting_of g \<and> g_current_attrs g' = g_current_attrs g \<and> g_cursor_row g' = g_cursor_row g
    \<and> g_cursor_col g' = g_cursor_col g"
  using assms
  by (auto simp: erase_line_def bind_eq_Some_conv Let_def set_active_row_def grid_mark_range_def)

lemma shown_erased:
  assumes "replay_at h0 rows p a h" "stop \<le> g_cols h0"
    and "rs_rows (active_grid h') = (rs_rows (active_grid h))[p_row p := erased_row (rs_rows (active_grid h) ! p_row p) start stop (bce b)]"
  shows "shown h' = rows[p_row p := erased_row (rows ! p_row p) start stop (bce b)]"
proof -
  note d = replay_atD [OF assms(1)] and r = replay_at_bounds(1) [OF assms(1)]
  have "unlinked (bce b) = bce b" by (simp add: bce_def unlinked_def cell_default_def)
  then show ?thesis
    using shown_update [OF d(1) _ assms(3)] active_row [OF d(1), of "p_row p"] unlinked_erased_row [of stop] r assms(2) d(3,7,8)
    by simp
qed

lemma perform_ech:
  assumes "replay_at h0 rows p a h"
  shows "ok (perform uw (CsiDispatch [[n]] [] False 0x58) h) (replay_at h0
    (rows[p_row p := erased_row (rows ! p_row p) (p_col p) (min (p_col p + max n 1) (g_cols h0)) (bce a)]) p a)"
proof -
  note d = replay_atD [OF assms]
  have "csi_dispatch [[n]] [] False 0x58 h = erase_characters n h"
    by (simp add: csi_dispatch_def is_char_def char_in_def Let_def first_or_0_def)
  moreover from erase_characters_spec [OF d(1), of n] obtain h' where h': "erase_characters n h = Some h'" "step_ok h h'"
      "rs_rows (active_grid h') = (rs_rows (active_grid h))[p_row p :=
        erased_row (rs_rows (active_grid h) ! p_row p) (p_col p) (min (p_col p + max n 1) (g_cols h0)) (bce a)]"
    using d by (auto simp: ok_iff_ex blank_cell_bce)
  ultimately show ?thesis
    using erase_characters_keeps [OF h'(1)] step_ok_inv [OF h'(2)] shown_erased [OF assms _ h'(3)] d by (simp add: replay_at_def)
qed

lemma perform_el:
  assumes "replay_at h0 rows p a h"
  shows "ok (perform uw (CsiDispatch [[0]] [] False 0x4b) h) (replay_at h0
    (rows[p_row p := erased_row (rows ! p_row p) (p_col p) (g_cols h0) (bce a)]) p a)"
proof -
  note d = replay_atD [OF assms]
  have "csi_dispatch [[0]] [] False 0x4b h = erase_line 0 h"
    by (simp add: csi_dispatch_def is_char_def char_in_def Let_def first_or_0_def)
  moreover from erase_line_spec [OF d(1), of 0] obtain h' where h': "erase_line 0 h = Some h'" "step_ok h h'"
      "rs_rows (active_grid h') = (rs_rows (active_grid h))[p_row p :=
        erased_row (rs_rows (active_grid h) ! p_row p) (p_col p) (g_cols h0) (bce a)]"
    using d by (auto simp: ok_iff_ex blank_cell_bce Let_def)
  ultimately show ?thesis
    using erase_line_keeps [OF h'(1)] step_ok_inv [OF h'(2)] shown_erased [OF assms _ h'(3)] d by (simp add: replay_at_def)
qed

text \<open>DECSC, then calls that keep the saved position, then DECRC.\<close>

definition saved_at :: "pos \<Rightarrow> grid \<Rightarrow> bool" where
  "saved_at p h \<longleftrightarrow> g_saved_cursor_row h = p_row p \<and> g_saved_cursor_col h = p_col p"

lemma perform_decsc:
  assumes "replay_at h0 rows p a h"
  shows "ok (perform uw (EscDispatch [] False 0x37) h) (\<lambda>h. replay_at h0 rows p a h \<and> saved_at p h)"
proof -
  have "esc_dispatch [] False 0x37 h = Some (save_cursor h)" by (simp add: esc_dispatch_def)
  moreover have "active_grid (save_cursor h) = active_grid h" by (simp add: save_cursor_def active_grid_def has_flag_def)
  ultimately show ?thesis
    using assms save_cursor_inv [of h] by (auto simp: replay_at_def shown_def saved_at_def) (simp_all add: save_cursor_def)
qed

lemma perform_decrc:
  assumes "replay_at h0 rows p a h" "saved_at q h" "p_row q < g_rows h0" "p_col q \<le> g_cols h0"
  shows "ok (perform uw (EscDispatch [] False 0x38) h) (replay_at h0 rows q a)"
proof -
  note d = replay_atD [OF assms(1)] and b = replay_at_bounds [OF assms(1)]
  let ?h = "restore_saved_cursor h"
  have "esc_dispatch [] False 0x38 h = Some ?h" by (simp add: esc_dispatch_def)
  moreover have "g_cursor_row ?h = p_row q" "g_cursor_col ?h = p_col q"
    using assms(2-) b d(7,8) by (auto simp: restore_saved_cursor_def Let_def clamp_cursor_def saved_at_def flag_op_defs)
  moreover have "setting_of ?h = setting_of h" "g_current_attrs ?h = g_current_attrs h" "active_grid ?h = active_grid h"
    by (simp_all add: restore_saved_cursor_def Let_def clamp_cursor_def)
  ultimately show ?thesis using d restore_saved_cursor_inv [OF d(1)] by (simp add: replay_at_def shown_def)
qed

lemma saved_at_keeps:
  "saved_at p h \<Longrightarrow> ok (perform uw (Execute 0x08) h) (saved_at p)"
  "saved_at p h \<Longrightarrow> replay_at h0 rows q a h \<Longrightarrow> ok (perform uw (CsiDispatch [[n]] [] False 0x58) h) (saved_at p)"
proof -
  show "saved_at p h \<Longrightarrow> ok (perform uw (Execute 0x08) h) (saved_at p)"
    by (simp add: execute_def saved_at_def clear_pending_wrap_def Let_def flag_op_defs)
  assume s: "saved_at p h" and r: "replay_at h0 rows q a h"
  have "csi_dispatch [[n]] [] False 0x58 h = erase_characters n h"
    by (simp add: csi_dispatch_def is_char_def char_in_def Let_def first_or_0_def)
  moreover from erase_characters_spec [OF replay_atD(1) [OF r], of n] obtain h' where h': "erase_characters n h = Some h'"
    by (auto simp: ok_iff_ex)
  moreover have "saved_at p h'"
    using h' s by (auto simp: erase_characters_def bind_eq_Some_conv Let_def set_active_row_def grid_mark_range_def saved_at_def
        put_active_def)
  ultimately show "ok (perform uw (CsiDispatch [[n]] [] False 0x58) h) (saved_at p)" by simp
qed

section \<open>What the writers send\<close>

lemma pos_eta [simp]: "at_pos (p_row q) (p_col q) = q"
  by simp

lemma wire_csi1:
  assumes "n \<le> u16_max" "0x40 \<le> final" "final \<le> 0x7e"
  shows "wire (CsiDispatch [[n]] [] False final) (esc ''['' @ decimal n @ [byte final])"
  using wire.csi [of "[[n]]" "[]" final] assms by (simp add: reconstruct_csi_def)

lemma wire_cup:
  assumes "m \<le> u16_max" "n \<le> u16_max"
  shows "wire (CsiDispatch [[m], [n]] [] False 0x48) (esc ''['' @ decimal m @ bytes '';'' @ decimal n @ bytes ''H'')"
  using wire.csi [of "[[m], [n]]" "[]" "0x48"] assms by (simp add: reconstruct_csi_def byte_def)

lemma sends_move_to:
  assumes "write_move_to q = Some bs" "p_row q < g_rows h0" "p_col q < g_cols h0"
  shows "sends uw (replay_at h0 rows p a) bs (replay_at h0 rows q a)"
proof (cases "p_row q = 0 \<and> p_col q = 0")
  case True
  then have q: "q = at_pos 0 0" by (cases q) simp
  have "wire (CsiDispatch [[0]] [] False 0x48) bs"
    using wire.csi_empty [of "0x48"] assms(1) True by (simp add: write_move_to_def esc_def byte_def)
  then show ?thesis
    by (rule sends_call) (use perform_cup(2) assms(2,3) q in simp)
next
  case False
  obtain h where h: "p_row q + 1 \<le> u16_max" "p_col q + 1 \<le> u16_max"
    using assms(1) False by (auto simp: write_move_to_def u16_add_def bind_eq_Some_conv split: if_splits)
  then have "bs = esc ''['' @ decimal (p_row q + 1) @ bytes '';'' @ decimal (p_col q + 1) @ bytes ''H''"
    using assms(1) False by (auto simp: write_move_to_def u16_add_def write_u16_eq)
  with wire_cup [OF h] have "wire (CsiDispatch [[p_row q + 1], [p_col q + 1]] [] False 0x48) bs" by simp
  then show ?thesis
    by (rule sends_call) (use perform_cup(1) assms(2,3) in \<open>cases q; simp\<close>)
qed

lemma sends_crlf:
  assumes "canvas h0" "p_row p + 1 < g_rows h0" "0 < g_cols h0"
  shows "sends uw (replay_at h0 rows p a) [0x0d, 0x0a] (replay_at h0 rows (at_pos (p_row p + 1) 0) a)"
proof -
  have "sends uw (replay_at h0 rows p a) [0x0d] (replay_at h0 rows (at_pos (p_row p) 0) a)"
    by (rule sends_call [OF wire.control]) (simp_all add: perform_cr del: perform.simps)
  moreover have "sends uw (replay_at h0 rows (at_pos (p_row p) 0) a) [0x0a] (replay_at h0 rows (at_pos (p_row p + 1) 0) a)"
    by (rule sends_call [OF wire.control])
       (use perform_lf [of h0 rows "at_pos (p_row p) 0"] assms in \<open>simp_all del: perform.simps\<close>)
  ultimately show ?thesis using sends_append by fastforce
qed

lemma sends_cuf:
  assumes "p_row p = p_row q" "p_col p < p_col q" "p_col q < g_cols h0" "p_col q \<le> u16_max"
    and bs: "bs = (if p_col q - p_col p = 1 then esc ''[C'' else esc ''['' @ decimal (p_col q - p_col p) @ bytes ''C'')"
  shows "sends uw (replay_at h0 rows p a) bs (replay_at h0 rows q a)"
proof -
  let ?n = "p_col q - p_col p"
  have q: "q = at_pos (p_row p) (p_col p + ?n)" using assms by (cases q) simp
  have w: "wire (CsiDispatch [[if ?n = 1 then 0 else ?n]] [] False 0x43) bs"
    using wire.csi_empty [of "0x43"] wire_csi1 [of ?n "0x43"] assms(4) by (auto simp: bs esc_def byte_def)
  have "ok (perform uw (CsiDispatch [[if ?n = 1 then 0 else ?n]] [] False 0x43) h) (replay_at h0 rows q a)"
    if "replay_at h0 rows p a h" for h
    using perform_cuf [OF that, of "if ?n = 1 then 0 else ?n" ?n] assms q by (simp del: perform.simps split: if_splits)
  with w show ?thesis by (rule sends_call)
qed

lemma sends_move_from_to:
  assumes "write_move_from_to p q = Some bs" "canvas h0" "p_row q < g_rows h0" "p_col q < g_cols h0"
  shows "sends uw (replay_at h0 rows p a) bs (replay_at h0 rows q a)"
proof -
  have u: "p_col q \<le> u16_max" using assms(2,4) by (auto simp: canvas_def grid_inv_def dims_ok_def u16_max_def MAX_COLS_def)
  have add: "u16_add (p_row p) 1 = Some (p_row p + 1)"
    using assms(1) by (cases "p_row p + 1 \<le> u16_max") (simp_all add: write_move_from_to_def u16_add_def)
  note bs = assms(1) [unfolded write_move_from_to_def add bind.bind_lunit]
  consider "p_row q = p_row p + 1 \<and> p_col q = 0" | "\<not> (p_row q = p_row p + 1 \<and> p_col q = 0)" "p_row p = p_row q \<and> p_col p < p_col q"
    | "\<not> (p_row q = p_row p + 1 \<and> p_col q = 0)" "\<not> (p_row p = p_row q \<and> p_col p < p_col q)" by blast
  then show ?thesis
  proof cases
    case 1
    then have q: "at_pos (p_row p + 1) 0 = q" by (cases q) simp
    show ?thesis using sends_crlf [OF assms(2), of p uw rows a, unfolded q] assms(3,4) bs 1 by auto
  next
    case 2
    then have "bs = (if p_col q - p_col p = 1 then esc ''[C'' else esc ''['' @ decimal (p_col q - p_col p) @ bytes ''C'')"
      using bs u by (auto simp: u16_sub_def write_u16_eq split: if_splits)
    then show ?thesis using 2 assms(4) u by (intro sends_cuf) simp_all
  next
    case 3
    then have "q = p \<and> bs = [] \<or> write_move_to q = Some bs" using bs by (auto split: if_splits)
    then show ?thesis using assms(3,4) by (auto intro: sends_nothing sends_move_to)
  qed
qed

lemma small_u16: "n \<le> 255 \<Longrightarrow> n \<le> u16_max"
  by (simp add: u16_max_def)

lemma color_values: "b \<le> 40 \<Longrightarrow> br \<le> 92 \<Longrightarrow> \<forall>n \<in> set (concat (color_params b br c)). n \<le> u16_max"
  by (cases c) (auto simp: color_params_def plain_params_def intro!: small_u16)

lemma underline_values: "\<forall>n \<in> set (concat (underline_color_params c)). n \<le> u16_max"
    "\<forall>n \<in> set (concat (underline_params u)). n \<le> u16_max"
  by (cases c; auto simp: underline_color_params_def plain_params_def)
     (cases u; auto simp: underline_params_def)

lemma flag_values: "\<forall>n \<in> set (concat (intensity_params x y)). n \<le> u16_max" "\<forall>n \<in> set (concat (blink_params t p)). n \<le> u16_max"
    "\<forall>n \<in> set (concat [[if x then 3 else 23]]). n \<le> u16_max" "\<forall>n \<in> set (concat [[if x then 7 else 27]]). n \<le> u16_max"
    "\<forall>n \<in> set (concat [[if x then 9 else 29]]). n \<le> u16_max" "\<forall>n \<in> set (concat [[if x then 8 else 28]]). n \<le> u16_max"
    "\<forall>n \<in> set (concat [[if x then 53 else 55]]). n \<le> u16_max"
  by (auto simp: intensity_params_def blink_params_def plain_params_def)

lemma attrs_diff_params_values: "\<forall>n \<in> set (concat (attrs_diff_params t p)). n \<le> u16_max"
proof -
  have app: "\<forall>n \<in> set (concat (xs @ ys)). n \<le> u16_max" if "\<forall>n \<in> set (concat xs). n \<le> u16_max" "\<forall>n \<in> set (concat ys). n \<le> u16_max"
    for xs ys using that by auto
  have opt: "\<forall>n \<in> set (concat (if c then xs else [])). n \<le> u16_max" if "\<forall>n \<in> set (concat xs). n \<le> u16_max" for c xs
    using that by (cases c) auto
  show ?thesis
    unfolding attrs_diff_params_def
    by (intro app opt color_values underline_values flag_values) simp_all
qed

lemma attrs_diff_params_no_Nil: "[] \<notin> set (attrs_diff_params t p)"
proof -
  have "[] \<notin> set (plain_params ns)" for ns by (auto simp: plain_params_def)
  then show ?thesis
    by (simp add: attrs_diff_params_def color_params_def underline_color_params_def intensity_params_def underline_params_def
        blink_params_def split: underline_style.splits)
qed

lemma sends_attrs:
  assumes "write_attrs_diff t a = Some bs"
  shows "sends uw (replay_at h0 rows p a) bs (replay_at h0 rows p t)"
proof -
  consider "t = a" | "t \<noteq> a" "t = attrs_default" | "t \<noteq> a" "t \<noteq> attrs_default" by blast
  then show ?thesis
  proof cases
    case 1
    then show ?thesis using assms by (auto simp: write_attrs_diff_def intro: sends_nothing)
  next
    case 2
    then have "wire (CsiDispatch [[0]] [] False 0x6d) bs"
      using assms wire.csi_empty [of "0x6d"] by (simp add: write_attrs_diff_def esc_def byte_def)
    moreover have "apply_sgr a [[0]] = t"
      using 2 by (simp add: apply_sgr_def sgr_loop.simps sgr_code_def first_or_0_def)
    ultimately show ?thesis by (intro sends_call) (auto intro: perform_sgr simp del: perform.simps)
  next
    case 3
    let ?ps = "attrs_diff_params t a"
    have ps: "?ps \<noteq> []" using 3 by (simp add: attrs_diff_params_nonempty)
    have "wire (CsiDispatch ?ps [] False 0x6d) bs"
      using wire.csi [OF ps attrs_diff_params_no_Nil attrs_diff_params_length attrs_diff_params_values, of "[]" "0x6d"]
        write_attrs_diff_bytes [OF 3] assms by (simp add: byte_def)
    moreover have "apply_sgr a ?ps = t" using ps attrs_diff_applied [of a t] by (simp add: apply_sgr_def sgr_from_def)
    ultimately show ?thesis by (intro sends_call) (auto intro: perform_sgr simp del: perform.simps)
  qed
qed

lemma sends_erase_chars:
  assumes "write_erase_chars n = Some bs" "0 < n" "n \<le> u16_max"
  shows "sends uw (replay_at h0 rows p a) bs (replay_at h0
    (rows[p_row p := erased_row (rows ! p_row p) (p_col p) (min (p_col p + n) (g_cols h0)) (bce a)]) p a)"
proof -
  have "wire (CsiDispatch [[if n = 1 then 0 else n]] [] False 0x58) bs"
    using wire.csi_empty [of "0x58"] wire_csi1 [of n "0x58"] assms
    by (auto simp: write_erase_chars_def write_u16_eq esc_def byte_def)
  moreover have "max (if n = 1 then 0 else n) 1 = n" using assms(2) by auto
  ultimately show ?thesis
    using perform_ech [of h0 rows p a _ uw "if n = 1 then 0 else n"] by (intro sends_call) (simp_all del: perform.simps)
qed

lemma sends_erase_line:
  "sends uw (replay_at h0 rows p a) (esc ''[K'') (replay_at h0
    (rows[p_row p := erased_row (rows ! p_row p) (p_col p) (g_cols h0) (bce a)]) p a)"
  by (rule sends_call [of "CsiDispatch [[0]] [] False 0x4b"])
     (use wire.csi_empty [of "0x4b"] perform_el in \<open>simp_all add: esc_def byte_def del: perform.simps\<close>)

end
