(* ===== verification/Replay_Modes.thy ===== *)
theory Replay_Modes
  imports Replay_Calls
begin

text \<open>
  The mode writers of \<open>grid/serialize.rs\<close> on a replaying grid: the full mode bytes restore every mode the contract
  names, the differential ones take the modes of the previous state to those of the new one.
\<close>

section \<open>Restoring the modes\<close>

text \<open>The modes the contract names, and a well-formed grid of the size of \<open>g\<close> that has them.\<close>

record modes =
  md_autowrap :: bool
  md_keypad :: bool
  md_cursor_keys :: bool
  md_paste :: bool
  md_mouse :: u16
  md_encoding :: u16
  md_alternate :: bool
  md_hidden :: bool
  md_style :: u16

definition modes_of :: "grid \<Rightarrow> modes" where
  "modes_of g = \<lparr>md_autowrap = \<not> has_flag g NO_AUTOWRAP, md_keypad = has_flag g APPLICATION_KEYPAD,
     md_cursor_keys = has_flag g APPLICATION_CURSOR, md_paste = has_flag g BRACKETED_PASTE,
     md_mouse = mouse_mode_number (g_mouse_mode g), md_encoding = mouse_encoding_number (g_mouse_encoding g),
     md_alternate = has_flag g ALT_SCREEN, md_hidden = has_flag g HIDE_CURSOR, md_style = g_cursor_style g\<rparr>"

definition moded :: "grid \<Rightarrow> modes \<Rightarrow> grid \<Rightarrow> bool" where
  "moded g m h \<longleftrightarrow> grid_inv h \<and> g_rows h = g_rows g \<and> g_cols h = g_cols g \<and> g_scroll_top h = 0
     \<and> g_scroll_bottom h = g_rows h - 1 \<and> modes_of h = m"

text \<open>What the mode sequences leave alone, the switch of the screen excepted; \<open>I\<close> is what is known of it.\<close>

definition seen :: "grid \<Rightarrow> row list \<times> u16 \<times> u16 \<times> attrs" where
  "seen h = (shown h, g_cursor_row h, g_cursor_col h, g_current_attrs h)"

definition moded_seen :: "(row list \<times> u16 \<times> u16 \<times> attrs \<Rightarrow> bool) \<Rightarrow> grid \<Rightarrow> modes \<Rightarrow> grid \<Rightarrow> bool" where
  "moded_seen I g m h \<longleftrightarrow> moded g m h \<and> I (seen h)"

lemma seen_put_flag [simp]: "is_mask f \<Longrightarrow> f \<noteq> ALT_SCREEN \<Longrightarrow> seen (put_flag f on h) = seen h"
  by (simp add: seen_def shown_def put_flag_def active_grid_def) (simp add: set_flag_def clear_flag_def)

lemma seen_fields [simp]:
  "seen (h\<lparr>g_mouse_mode := x\<rparr>) = seen h" "seen (h\<lparr>g_mouse_encoding := y\<rparr>) = seen h" "seen (h\<lparr>g_cursor_style := n\<rparr>) = seen h"
  "seen (h\<lparr>g_text_cursor_enable := t\<rparr>) = seen h" "seen (push_event e h) = seen h"
  by (simp_all add: seen_def shown_def active_grid_def has_flag_def) (simp_all add: push_event_def active_grid_def has_flag_def)

lemma seen_mode: "n \<notin> {47, 1047, 1049} \<Longrightarrow> seen (set_dec_mode n on h) = seen h"
  by (simp add: set_dec_mode_def)

definition mode_bytes :: "u16 \<Rightarrow> bool \<Rightarrow> u8 list" where
  "mode_bytes n on = esc ''[?'' @ decimal n @ (if on then bytes ''h'' else bytes ''l'')"

lemma wire_mode:
  "n \<le> u16_max \<Longrightarrow> wire (CsiDispatch [[n]] (bytes ''?'') False (if on then 0x68 else 0x6c)) (mode_bytes n on)"
  using wire.csi [of "[[n]]" "bytes ''?''" "if on then 0x68 else 0x6c"]
  by (cases on) (simp_all add: mode_bytes_def reconstruct_csi_def esc_def byte_def)

lemma perform_mode:
  "perform uw (CsiDispatch [[n]] (bytes ''?'') False (if on then 0x68 else 0x6c)) h = Some (set_dec_mode n on h)"
  by (cases on) (simp_all add: csi_dispatch_def is_char_def char_in_def Let_def first_or_0_def)

lemma sends_mode:
  assumes "n \<le> u16_max" "n \<notin> {47, 1047, 1049}" "\<And>h. moded g m h \<Longrightarrow> moded g m' (set_dec_mode n on h)"
  shows "sends uw (moded_seen I g m) (mode_bytes n on) (moded_seen I g m')"
  by (rule sends_call [OF wire_mode [OF assms(1)]]) (unfold perform_mode, use assms(2,3) in \<open>simp add: moded_seen_def seen_mode\<close>)

lemma put_flag_fields [simp]:
  "g_rows (put_flag f on g) = g_rows g" "g_cols (put_flag f on g) = g_cols g" "g_scroll_top (put_flag f on g) = g_scroll_top g"
  "g_scroll_bottom (put_flag f on g) = g_scroll_bottom g" "g_active_hyperlink (put_flag f on g) = g_active_hyperlink g"
  "g_mouse_mode (put_flag f on g) = g_mouse_mode g" "g_mouse_encoding (put_flag f on g) = g_mouse_encoding g"
  "g_cursor_style (put_flag f on g) = g_cursor_style g"
  "is_mask f \<Longrightarrow> is_mask m \<Longrightarrow> has_flag (put_flag f on g) m = (if f = m then on else has_flag g m)"
  by (simp_all add: put_flag_def) (simp_all add: flag_op_defs)

lemma moded_push_event [simp]: "moded g m (push_event e h) \<longleftrightarrow> moded g m h"
  by (simp add: moded_def modes_of_def) (simp add: push_event_def)

lemma modes_flag:
  "modes_of (put_flag NO_AUTOWRAP (\<not> on) h) = (modes_of h)\<lparr>md_autowrap := on\<rparr>"
  "modes_of (put_flag HIDE_CURSOR on h) = (modes_of h)\<lparr>md_hidden := on\<rparr>"
  "modes_of (put_flag APPLICATION_CURSOR on h) = (modes_of h)\<lparr>md_cursor_keys := on\<rparr>"
  "modes_of (put_flag BRACKETED_PASTE on h) = (modes_of h)\<lparr>md_paste := on\<rparr>"
  "modes_of (put_flag APPLICATION_KEYPAD on h) = (modes_of h)\<lparr>md_keypad := on\<rparr>"
  "modes_of (put_flag ALT_SCREEN on h) = (modes_of h)\<lparr>md_alternate := on\<rparr>"
  by (simp_all add: modes_of_def)

lemma moded_flag:
  "moded g m h \<Longrightarrow> is_mask f \<Longrightarrow> f \<noteq> PENDING_WRAP \<Longrightarrow> modes_of (put_flag f on h) = m' \<Longrightarrow> moded g m' (put_flag f on h)"
  by (simp add: moded_def put_flag_inv)

lemma moded_fields:
  "moded g m h \<Longrightarrow> moded g (m\<lparr>md_mouse := mouse_mode_number x\<rparr>) (h\<lparr>g_mouse_mode := x\<rparr>)"
  "moded g m h \<Longrightarrow> moded g (m\<lparr>md_encoding := mouse_encoding_number y\<rparr>) (h\<lparr>g_mouse_encoding := y\<rparr>)"
  "moded g m h \<Longrightarrow> moded g (m\<lparr>md_style := n\<rparr>) (h\<lparr>g_cursor_style := n\<rparr>)"
  by (auto simp: moded_def modes_of_def grid_inv_def inv_part_defs has_flag_def)

lemma moded_modes: "moded g m h \<Longrightarrow> modes_of h = m"
  by (simp add: moded_def)

lemma mode_updates:
  assumes "moded g m h"
  shows "moded g (m\<lparr>md_autowrap := on\<rparr>) (set_dec_mode 7 on h)"
    "moded g (m\<lparr>md_hidden := \<not> on\<rparr>) (set_dec_mode 25 on h)"
    "moded g (m\<lparr>md_cursor_keys := on\<rparr>) (set_dec_mode 1 on h)"
    "moded g (m\<lparr>md_paste := on\<rparr>) (set_dec_mode 2004 on h)"
    "n \<in> {1000, 1002, 1003} \<Longrightarrow> moded g (m\<lparr>md_mouse := if on then n else 0\<rparr>) (set_dec_mode n on h)"
    "n \<in> {1005, 1006, 1015} \<Longrightarrow> moded g (m\<lparr>md_encoding := if on then n else 0\<rparr>) (set_dec_mode n on h)"
proof -
  note fl = moded_flag [OF assms] and md = moded_modes [OF assms]
  show "moded g (m\<lparr>md_autowrap := on\<rparr>) (set_dec_mode 7 on h)" "moded g (m\<lparr>md_hidden := \<not> on\<rparr>) (set_dec_mode 25 on h)"
    "moded g (m\<lparr>md_cursor_keys := on\<rparr>) (set_dec_mode 1 on h)" "moded g (m\<lparr>md_paste := on\<rparr>) (set_dec_mode 2004 on h)"
    by (simp_all add: set_dec_mode_def fl modes_flag md)
  have mouse: "moded g (m\<lparr>md_mouse := k\<rparr>) (h\<lparr>g_mouse_mode := x\<rparr>)" if "mouse_mode_number x = k" for x k
    using moded_fields(1) [OF assms, of x] that by simp
  have enc: "moded g (m\<lparr>md_encoding := k\<rparr>) (h\<lparr>g_mouse_encoding := x\<rparr>)" if "mouse_encoding_number x = k" for x k
    using moded_fields(2) [OF assms, of x] that by simp
  show "n \<in> {1000, 1002, 1003} \<Longrightarrow> moded g (m\<lparr>md_mouse := if on then n else 0\<rparr>) (set_dec_mode n on h)"
    by (cases on) (auto simp: set_dec_mode_def mouse_mode_number_def intro!: mouse)
  show "n \<in> {1005, 1006, 1015} \<Longrightarrow> moded g (m\<lparr>md_encoding := if on then n else 0\<rparr>) (set_dec_mode n on h)"
    by (cases on) (auto simp: set_dec_mode_def mouse_encoding_number_def intro!: enc)
qed

lemma mode_alternate:
  assumes "moded g m h"
  shows "moded g (m\<lparr>md_alternate := on\<rparr>) (set_dec_mode 1049 on h)"
proof -
  let ?h = "set_dec_mode 1049 on h"
  have inv: "grid_inv ?h" using set_dec_mode_inv [of h] assms by (simp add: moded_def)
  have parts: "modes_of (clear_pending_wrap x) = modes_of x" "modes_of (grid_mark_all x) = modes_of x"
    "modes_of (save_cursor x) = modes_of x" "modes_of (x\<lparr>g_active_hyperlink := y\<rparr>) = modes_of x"
    "modes_of (restore_saved_cursor x) = modes_of x" "modes_of (x\<lparr>g_kitty_kb_stack := z\<rparr>) = modes_of x"
    "modes_of (push_event e x) = modes_of x" for x y z e
    by (simp_all add: clear_pending_wrap_def grid_mark_all_def save_cursor_def restore_saved_cursor_def clamp_cursor_def
          push_event_def modes_of_def Let_def)
       (simp_all add: flag_op_defs)
  have events: "modes_of ((push_event e ^^ n) x) = modes_of x" "g_rows ((push_event e ^^ n) x) = g_rows x"
      "g_cols ((push_event e ^^ n) x) = g_cols x" "g_scroll_top ((push_event e ^^ n) x) = g_scroll_top x"
      "g_scroll_bottom ((push_event e ^^ n) x) = g_scroll_bottom x" for e n x
    by (induction n) (simp_all add: parts, simp_all add: push_event_def)
  have "modes_of ?h = m\<lparr>md_alternate := on\<rparr>"
    by (simp add: set_dec_mode_def set_alt_screen_def parts events(1) modes_flag moded_modes [OF assms] Let_def)
  moreover have "(g_rows ?h, g_cols ?h, g_scroll_top ?h, g_scroll_bottom ?h) = (g_rows h, g_cols h, g_scroll_top h, g_scroll_bottom h)"
    by (simp add: set_dec_mode_def set_alt_screen_def events Let_def)
       (simp add: grid_mark_all_def save_cursor_def clear_pending_wrap_def restore_saved_cursor_def clamp_cursor_def Let_def flag_op_defs)
  ultimately show ?thesis using assms inv by (simp add: moded_def)
qed

text \<open>The mode writers on the wire.\<close>

lemma modes_same:
  "md_mouse m = n \<Longrightarrow> m\<lparr>md_mouse := n\<rparr> = m" "md_encoding m = n \<Longrightarrow> m\<lparr>md_encoding := n\<rparr> = m"
  "md_alternate m = b \<Longrightarrow> m\<lparr>md_alternate := b\<rparr> = m" "md_hidden m = b \<Longrightarrow> m\<lparr>md_hidden := b\<rparr> = m"
  "md_autowrap m = b \<Longrightarrow> m\<lparr>md_autowrap := b\<rparr> = m"
  by auto

lemma sends_autowrap: "sends uw (moded_seen I g m) (write_autowrap on) (moded_seen I g (m\<lparr>md_autowrap := on\<rparr>))"
proof -
  have "write_autowrap on = mode_bytes 7 on"
    by (simp add: write_autowrap_def mode_bytes_def esc_def decimal.simps byte_def)
  then show ?thesis by (simp add: sends_mode mode_updates u16_max_def)
qed

lemma sends_hide_cursor: "sends uw (moded_seen I g m) (write_hide_cursor hidden) (moded_seen I g (m\<lparr>md_hidden := hidden\<rparr>))"
proof -
  have "write_hide_cursor hidden = mode_bytes 25 (\<not> hidden)"
    by (simp add: write_hide_cursor_def mode_bytes_def esc_def decimal.simps byte_def)
  then show ?thesis
    using mode_updates(2) [of g m _ "\<not> hidden"] by (auto intro!: sends_mode simp: u16_max_def)
qed

lemma sends_cursor_keys: "sends uw (moded_seen I g m) (cursor_key_bytes on) (moded_seen I g (m\<lparr>md_cursor_keys := on\<rparr>))"
proof -
  have "cursor_key_bytes on = mode_bytes 1 on"
    by (simp add: cursor_key_bytes_def mode_bytes_def esc_def decimal.simps byte_def)
  then show ?thesis by (simp add: sends_mode mode_updates [simplified] u16_max_def)
qed

lemma sends_paste: "sends uw (moded_seen I g m) (paste_bytes on) (moded_seen I g (m\<lparr>md_paste := on\<rparr>))"
proof -
  have "paste_bytes on = mode_bytes 2004 on"
    by (simp add: paste_bytes_def mode_bytes_def esc_def decimal.simps byte_def)
  then show ?thesis by (simp add: sends_mode mode_updates u16_max_def)
qed

lemma sends_keypad: "sends uw (moded_seen I g m) (keypad_bytes on) (moded_seen I g (m\<lparr>md_keypad := on\<rparr>))"
proof (rule sends_call)
  show "wire (EscDispatch [] False (if on then 0x3d else 0x3e)) (keypad_bytes on)"
    using wire.escape [of "0x3d"] wire.escape [of "0x3e"] by (simp add: keypad_bytes_def esc_def byte_def)
  fix h assume h: "moded_seen I g m h"
  have "perform uw (EscDispatch [] False (if on then 0x3d else 0x3e)) h = Some (put_flag APPLICATION_KEYPAD on h)"
    by (simp add: esc_dispatch_def put_flag_def)
  then show "ok (perform uw (EscDispatch [] False (if on then 0x3d else 0x3e)) h) (moded_seen I g (m\<lparr>md_keypad := on\<rparr>))"
    using h moded_flag [of g m h APPLICATION_KEYPAD] by (auto simp: moded_seen_def modes_flag dest: moded_modes simp del: perform.simps)
qed

lemma sends_alternate:
  "sends uw (moded_seen I g m) (if on then esc ''[?1049h'' else esc ''[?1049l'') (moded_seen (\<lambda>_. True) g (m\<lparr>md_alternate := on\<rparr>))"
proof -
  have "(if on then esc ''[?1049h'' else esc ''[?1049l'') = mode_bytes 1049 on"
    by (simp add: mode_bytes_def esc_def decimal.simps byte_def)
  moreover have "sends uw (moded_seen I g m) (mode_bytes 1049 on) (moded_seen (\<lambda>_. True) g (m\<lparr>md_alternate := on\<rparr>))"
    by (rule sends_call [OF wire_mode]) (unfold perform_mode, simp_all add: moded_seen_def mode_alternate u16_max_def)
  ultimately show ?thesis by simp
qed

lemma sends_style:
  assumes "write_cursor_style n = Some bs" "n \<le> u16_max"
  shows "sends uw (moded_seen I g m) bs (moded_seen I g (m\<lparr>md_style := n\<rparr>))"
proof (rule sends_call)
  show "wire (CsiDispatch [[n]] (bytes '' '') False (of_char CHR ''q'')) bs"
    using assms wire.csi_space [of n] by (simp add: write_cursor_style_def write_u16_eq esc_def)
  fix h assume h: "moded_seen I g m h"
  have "csi_dispatch [[n]] (bytes '' '') False (of_char CHR ''q'') h = Some (h\<lparr>g_cursor_style := n\<rparr>)"
    by (simp add: csi_dispatch_def is_char_def char_in_def Let_def first_or_0_def)
  then show "ok (perform uw (CsiDispatch [[n]] (bytes '' '') False (of_char CHR ''q'')) h) (moded_seen I g (m\<lparr>md_style := n\<rparr>))"
    using h moded_fields(3) [of g m h n] by (simp add: moded_seen_def)
qed

lemma sends_mouse_mode:
  assumes "write_mouse_mode x y = Some bs" "md_mouse m = mouse_mode_number y"
  shows "sends uw (moded_seen I g m) bs (moded_seen I g (m\<lparr>md_mouse := mouse_mode_number x\<rparr>))"
proof (cases "mouse_mode_number x = mouse_mode_number y")
  case True
  with assms show ?thesis by (auto simp: write_mouse_mode_def modes_same intro!: sends_nothing)
next
  case False
  have n: "mouse_mode_number z \<in> {0, 1000, 1002, 1003}" for z by (cases z) (simp_all add: mouse_mode_number_def)
  let ?on = "mouse_mode_number x \<noteq> 0"
  let ?n = "if ?on then mouse_mode_number x else mouse_mode_number y"
  have k: "?n \<in> {1000, 1002, 1003}" using n [of x] n [of y] False by auto
  then have u: "?n \<le> u16_max" "?n \<notin> {47, 1047, 1049}" by (auto simp: u16_max_def)
  have "bs = mode_bytes ?n ?on"
    using assms(1) False u(1) by (auto simp: write_mouse_mode_def write_u16_eq mode_bytes_def Let_def esc_def split: if_splits)
  moreover have "(if ?on then ?n else 0) = mouse_mode_number x" by simp
  ultimately show ?thesis using sends_mode [OF u mode_updates(5) [OF _ k, of g m _ ?on]] by simp
qed

lemma sends_mouse_encoding:
  assumes "write_mouse_encoding x y = Some bs" "md_encoding m = mouse_encoding_number y"
  shows "sends uw (moded_seen I g m) bs (moded_seen I g (m\<lparr>md_encoding := mouse_encoding_number x\<rparr>))"
proof (cases "mouse_encoding_number x = mouse_encoding_number y")
  case True
  with assms show ?thesis by (auto simp: write_mouse_encoding_def modes_same intro!: sends_nothing)
next
  case False
  have n: "mouse_encoding_number z \<in> {0, 1005, 1006, 1015}" for z by (cases z) (simp_all add: mouse_encoding_number_def)
  let ?on = "mouse_encoding_number x \<noteq> 0"
  let ?n = "if ?on then mouse_encoding_number x else mouse_encoding_number y"
  have k: "?n \<in> {1005, 1006, 1015}" using n [of x] n [of y] False by auto
  then have u: "?n \<le> u16_max" "?n \<notin> {47, 1047, 1049}" by (auto simp: u16_max_def)
  have "bs = mode_bytes ?n ?on"
    using assms(1) False u(1) by (auto simp: write_mouse_encoding_def write_u16_eq mode_bytes_def Let_def esc_def split: if_splits)
  moreover have "(if ?on then ?n else 0) = mouse_encoding_number x" by simp
  ultimately show ?thesis using sends_mode [OF u mode_updates(6) [OF _ k, of g m _ ?on]] by simp
qed

lemma modes_of_accessors:
  "modes_of g = \<lparr>md_autowrap = autowrap g, md_keypad = application_keypad g, md_cursor_keys = application_cursor g,
     md_paste = bracketed_paste g, md_mouse = mouse_mode_number (g_mouse_mode g),
     md_encoding = mouse_encoding_number (g_mouse_encoding g), md_alternate = alternate_screen g, md_hidden = hide_cursor g,
     md_style = g_cursor_style g\<rparr>"
  by (simp add: modes_of_def autowrap_def application_keypad_def application_cursor_def bracketed_paste_def
      alternate_screen_def hide_cursor_def)

text \<open>On a grid with the default mouse modes and the primary screen, the mode bytes restore every mode.\<close>

lemma sends_input_modes:
  assumes bs: "write_input_mode_formatted g = Some bs" and style: "g_cursor_style g \<le> u16_max"
    and m: "md_mouse m = 0" "md_encoding m = 0" "\<not> md_alternate m"
  shows "sends uw (moded_seen (\<lambda>_. True) g m) bs (moded_seen (\<lambda>_. True) g (modes_of g))"
proof -
  obtain x y z where b: "write_mouse_mode (g_mouse_mode g) MouseNone = Some x"
      "write_mouse_encoding (g_mouse_encoding g) MouseDefault = Some y" "write_cursor_style (g_cursor_style g) = Some z"
      "bs = write_autowrap (autowrap g) @ keypad_bytes (application_keypad g) @ cursor_key_bytes (application_cursor g)
       @ paste_bytes (bracketed_paste g) @ x @ y @ (if alternate_screen g then esc ''[?1049h'' else [])
       @ write_hide_cursor (hide_cursor g) @ z"
    using bs by (auto simp: write_input_mode_formatted_def bind_eq_Some_conv)
  have alt: "sends uw (moded_seen (\<lambda>_. True) g k) (if alternate_screen g then esc ''[?1049h'' else [])
      (moded_seen (\<lambda>_. True) g (k\<lparr>md_alternate := alternate_screen g\<rparr>))" if "\<not> md_alternate k" for k
    using that sends_alternate [of uw _ g k True] by (cases "alternate_screen g") (auto simp: modes_same intro!: sends_nothing)
  let ?m = "m\<lparr>md_autowrap := autowrap g, md_keypad := application_keypad g, md_cursor_keys := application_cursor g,
     md_paste := bracketed_paste g\<rparr>"
  let ?x = "?m\<lparr>md_mouse := mouse_mode_number (g_mouse_mode g)\<rparr>"
  let ?y = "?x\<lparr>md_encoding := mouse_encoding_number (g_mouse_encoding g)\<rparr>"
  let ?a = "?y\<lparr>md_alternate := alternate_screen g\<rparr>"
  let ?h = "?a\<lparr>md_hidden := hide_cursor g\<rparr>"
  have "?h\<lparr>md_style := g_cursor_style g\<rparr> = modes_of g" by (simp add: modes_of_accessors)
  moreover have "sends uw (moded_seen (\<lambda>_. True) g m) bs (moded_seen (\<lambda>_. True) g (?h\<lparr>md_style := g_cursor_style g\<rparr>))"
    unfolding b(4)
    by (rule sends_append [OF sends_autowrap sends_append [OF sends_keypad sends_append [OF sends_cursor_keys
        sends_append [OF sends_paste sends_append [OF sends_mouse_mode [OF b(1)] sends_append [OF sends_mouse_encoding [OF b(2)]
        sends_append [OF alt sends_append [OF sends_hide_cursor sends_style [OF b(3) style]]]]]]]]])
       (simp_all add: m mouse_mode_number_def mouse_encoding_number_def)
  ultimately show ?thesis by simp
qed

text \<open>The differential mode bytes take the modes of \<open>prev\<close> to those of \<open>g\<close>, and keep the screen unless they switch it.\<close>

lemma sends_if: "(b \<Longrightarrow> sends uw P bs Q) \<Longrightarrow> (\<not> b \<Longrightarrow> P = Q) \<Longrightarrow> sends uw P (if b then bs else []) Q"
  by (cases b) (simp_all add: sends_nothing)

lemma sends_input_diff:
  fixes I :: "row list \<times> u16 \<times> u16 \<times> attrs \<Rightarrow> bool"
  assumes bs: "write_input_mode_diff g prev = Some bs" and style: "g_cursor_style g \<le> u16_max"
  defines "J \<equiv> \<lambda>x. alternate_screen g = alternate_screen prev \<longrightarrow> I x"
  shows "sends uw (moded_seen I g (modes_of prev)) bs (moded_seen J g (modes_of g))"
proof -
  obtain x y z where b: "write_mouse_mode (g_mouse_mode g) (g_mouse_mode prev) = Some x"
      "write_mouse_encoding (g_mouse_encoding g) (g_mouse_encoding prev) = Some y"
      "(if g_cursor_style g \<noteq> g_cursor_style prev then write_cursor_style (g_cursor_style g) else Some []) = Some z"
      "bs = (if autowrap g \<noteq> autowrap prev then write_autowrap (autowrap g) else [])
       @ (if application_keypad g \<noteq> application_keypad prev then keypad_bytes (application_keypad g) else [])
       @ (if application_cursor g \<noteq> application_cursor prev then cursor_key_bytes (application_cursor g) else [])
       @ (if bracketed_paste g \<noteq> bracketed_paste prev then paste_bytes (bracketed_paste g) else []) @ x @ y
       @ (if alternate_screen g \<noteq> alternate_screen prev
          then (if alternate_screen g then esc ''[?1049h'' else esc ''[?1049l'') else [])
       @ (if hide_cursor g \<noteq> hide_cursor prev then write_hide_cursor (hide_cursor g) else []) @ z"
    using bs by (auto simp: write_input_mode_diff_def bind_eq_Some_conv)
  let ?m1 = "(modes_of prev)\<lparr>md_autowrap := autowrap g\<rparr>"
  let ?m2 = "?m1\<lparr>md_keypad := application_keypad g\<rparr>"
  let ?m3 = "?m2\<lparr>md_cursor_keys := application_cursor g\<rparr>"
  let ?m4 = "?m3\<lparr>md_paste := bracketed_paste g\<rparr>"
  let ?m5 = "?m4\<lparr>md_mouse := mouse_mode_number (g_mouse_mode g)\<rparr>"
  let ?m6 = "?m5\<lparr>md_encoding := mouse_encoding_number (g_mouse_encoding g)\<rparr>"
  let ?m7 = "?m6\<lparr>md_alternate := alternate_screen g\<rparr>"
  let ?m8 = "?m7\<lparr>md_hidden := hide_cursor g\<rparr>"
  have S: "sends uw (moded_seen I g (modes_of prev)) (if autowrap g \<noteq> autowrap prev then write_autowrap (autowrap g) else []) (moded_seen I g ?m1)"
    "sends uw (moded_seen I g ?m1) (if application_keypad g \<noteq> application_keypad prev then keypad_bytes (application_keypad g) else [])
      (moded_seen I g ?m2)"
    "sends uw (moded_seen I g ?m2) (if application_cursor g \<noteq> application_cursor prev then cursor_key_bytes (application_cursor g) else [])
      (moded_seen I g ?m3)"
    "sends uw (moded_seen I g ?m3) (if bracketed_paste g \<noteq> bracketed_paste prev then paste_bytes (bracketed_paste g) else [])
      (moded_seen I g ?m4)"
    "sends uw (moded_seen J g ?m7) (if hide_cursor g \<noteq> hide_cursor prev then write_hide_cursor (hide_cursor g) else []) (moded_seen J g ?m8)"
    by (rule sends_if, rule sends_autowrap sends_keypad sends_cursor_keys sends_paste sends_hide_cursor, simp add: modes_of_accessors)+
  have M: "sends uw (moded_seen I g ?m4) x (moded_seen I g ?m5)" "sends uw (moded_seen I g ?m5) y (moded_seen I g ?m6)"
    by (rule sends_mouse_mode [OF b(1)] sends_mouse_encoding [OF b(2)], simp add: modes_of_accessors)+
  have A: "sends uw (moded_seen I g ?m6) (if alternate_screen g \<noteq> alternate_screen prev
      then (if alternate_screen g then esc ''[?1049h'' else esc ''[?1049l'') else []) (moded_seen J g ?m7)"
  proof (rule sends_if)
    assume "alternate_screen g \<noteq> alternate_screen prev"
    then have "J = (\<lambda>_. True)" by (simp add: J_def)
    then show "sends uw (moded_seen I g ?m6) (if alternate_screen g then esc ''[?1049h'' else esc ''[?1049l'') (moded_seen J g ?m7)"
      using sends_alternate by simp
  next
    assume "\<not> alternate_screen g \<noteq> alternate_screen prev"
    then show "moded_seen I g ?m6 = moded_seen J g ?m7" by (simp add: J_def modes_of_accessors)
  qed
  have Z: "sends uw (moded_seen J g ?m8) z (moded_seen J g (modes_of g))"
  proof (cases "g_cursor_style g = g_cursor_style prev")
    case True
    then show ?thesis using b(3) by (auto simp: modes_of_accessors intro!: sends_nothing)
  next
    case False
    then show ?thesis using sends_style [OF _ style, of z uw J g ?m8] b(3) by (simp add: modes_of_accessors)
  qed
  show ?thesis
    unfolding b(4) by (intro sends_append [OF S(1)] sends_append [OF S(2)] sends_append [OF S(3)] sends_append [OF S(4)]
        sends_append [OF M(1)] sends_append [OF M(2)] sends_append [OF A] sends_append [OF S(5)] Z)
qed

end
