(* ===== verification/Replay_Paint.thy ===== *)
theory Replay_Paint
  imports Replay_Calls
begin

text \<open>
  The painters of \<open>grid/serialize.rs\<close> on a replaying grid: \<open>drawn\<close> ties a painter to the screen its bytes make, cell by
  cell and row by row, and \<open>sends_full_paint\<close> is the contract of the full paint with its cursor restore.
\<close>

section \<open>Painting a row\<close>

text \<open>
  The screens for which exact replay is shown: every cell is a blank left by an erase, or one printable
  character whose width the cell shows (a joiner excepted), with the continuation of a wide one.
\<close>

definition plain_cell :: "unicode_width \<Rightarrow> cell \<Rightarrow> bool" where
  "plain_cell uw c \<longleftrightarrow> \<not> is_wide_continuation c \<and> (case contents c of
       [] \<Rightarrow> \<not> is_wide c \<and> cell_attrs c = attrs_default\<lparr>at_background := at_background (cell_attrs c)\<rparr>
     | [ch] \<Rightarrow> is_text ch \<and> ch \<noteq> ZWJ \<and> char_width uw ch = (if is_wide c then 2 else 1)
     | _ \<Rightarrow> False)"

definition plain_row :: "unicode_width \<Rightarrow> row \<Rightarrow> bool" where
  "plain_row uw row \<longleftrightarrow> list_all (\<lambda>i.
     if 0 < i \<and> is_wide (row ! (i - 1))
     then contents (row ! i) = [] \<and> \<not> is_wide (row ! i) \<and> is_wide_continuation (row ! i)
       \<and> cell_attrs (row ! i) = cell_attrs (row ! (i - 1))
     else plain_cell uw (row ! i)) [0..<length row]"

lemma plain_rowD:
  assumes "plain_row uw row" "i < length row"
  shows "0 < i \<Longrightarrow> is_wide (row ! (i - 1)) \<Longrightarrow> \<not> is_wide (row ! i) \<and> unlinked (row ! i) = continuation_cell (cell_attrs (row ! (i - 1))) None"
    "\<not> (0 < i \<and> is_wide (row ! (i - 1))) \<Longrightarrow> plain_cell uw (row ! i)"
  using assms by (auto simp: plain_row_def list_all_iff unlinked_def continuation_cell_def)

lemma plain_blank: "plain_cell uw c \<Longrightarrow> contents c = [] \<Longrightarrow> unlinked c = bce (cell_attrs c) \<and> \<not> is_wide c"
  by (cases c) (auto simp: plain_cell_def unlinked_def bce_def cell_default_def)

lemma plain_glyph:
  assumes "plain_cell uw c" "contents c \<noteq> []"
  obtains ch where "contents c = [ch]" "is_text ch" "ch \<noteq> ZWJ" "char_width uw ch = (if is_wide c then 2 else 1)"
    "unlinked c = printed_cell ch (if is_wide c then 2 else 1) (cell_attrs c)"
  using assms by (cases c) (auto simp: plain_cell_def unlinked_def printed_cell_def split: list.splits)

text \<open>A row painted up to column \<open>k\<close>.\<close>

definition painted :: "row \<Rightarrow> nat \<Rightarrow> row" where
  "painted row k = map (\<lambda>i. if i < k then unlinked (row ! i) else cell_default) [0..<length row]"

lemma length_painted [simp]: "length (painted row k) = length row"
  by (simp add: painted_def)

lemma nth_painted [simp]: "i < length row \<Longrightarrow> painted row k ! i = (if i < k then unlinked (row ! i) else cell_default)"
  by (simp add: painted_def)

lemma painted_0: "painted row 0 = blank_row (length row)"
  by (intro nth_equalityI) (simp_all add: blank_row_def)

lemma painted_all: "length row \<le> k \<Longrightarrow> painted row k = map unlinked row"
  by (intro nth_equalityI) simp_all

lemma erase_painted:
  assumes "s < e" "e \<le> length row" "\<forall>i. s \<le> i \<and> i < e \<longrightarrow> unlinked (row ! i) = b"
  shows "erased_row (painted row s) s e b = painted row e"
proof (rule nth_equalityI)
  fix i assume "i < length (erased_row (painted row s) s e b)"
  then have i: "i < length row" by (simp add: erased_row_def)
  have "erased (painted row s) s e i \<longleftrightarrow> s \<le> i \<and> i < e"
    using assms(1,2) by (auto simp: erased_def)
  with i assms show "erased_row (painted row s) s e b ! i = painted row e ! i"
    by (auto simp: erased_row_def)
qed (simp add: erased_row_def)

lemma glyph_painted:
  assumes "plain_row uw row" "k < length row" "\<not> (0 < k \<and> is_wide (row ! (k - 1)))" "c = unlinked (row ! k)"
  shows "glyph_row (painted row k) k c = painted row (if is_wide c then k + 2 else k + 1)"
proof (rule nth_equalityI)
  fix i assume "i < length (glyph_row (painted row k) k c)"
  then have i: "i < length row" by (simp add: glyph_row_def)
  have cont: "unlinked (row ! (k + 1)) = continuation_cell (cell_attrs c) None" if "is_wide c" "k + 1 < length row"
    using plain_rowD(1) [OF assms(1) that(2)] that assms(4) by simp
  have "glyph_row (painted row k) k c ! i = (if i = k then c
      else if i = k + 1 \<and> is_wide c then continuation_cell (cell_attrs c) (cell_hyperlink c) else painted row k ! i)"
    using i assms(2) by (simp add: glyph_row_def glyph_nth_def)
  with i assms(4) cont show "glyph_row (painted row k) k c ! i = painted row (if is_wide c then k + 2 else k + 1) ! i"
    by (auto simp: unlinked_def less_Suc_eq)
qed (simp add: glyph_row_def)

text \<open>
  \<open>drawn uw P h0 rows s\<close>: the bytes the painter has written take every grid of \<open>P\<close> to the screen \<open>rows\<close>, with
  the cursor and the pen where the painter assumes them.
\<close>

definition drawn :: "unicode_width \<Rightarrow> (grid \<Rightarrow> bool) \<Rightarrow> grid \<Rightarrow> row list \<Rightarrow> painter \<Rightarrow> bool" where
  "drawn uw P h0 rows s \<longleftrightarrow> sends uw P (pn_out s) (replay_at h0 rows (pn_pos s) (pn_attrs s))"

lemma drawn_more:
  assumes "drawn uw P h0 rows s" "sends uw (replay_at h0 rows (pn_pos s) (pn_attrs s)) bs (replay_at h0 rows' p a)"
    "pn_out s' = pn_out s @ bs" "pn_pos s' = p" "pn_attrs s' = a"
  shows "drawn uw P h0 rows' s'"
  using sends_append [OF assms(1) [unfolded drawn_def] assms(2)] assms(3-) by (simp add: drawn_def)

lemma drawn_cong:
  "drawn uw P h0 rows s \<Longrightarrow> pn_out s' = pn_out s \<Longrightarrow> pn_pos s' = pn_pos s \<Longrightarrow> pn_attrs s' = pn_attrs s \<Longrightarrow> drawn uw P h0 rows s'"
  by (simp add: drawn_def)

lemma switch_attrs_bytes:
  obtains d where "write_attrs_diff a (pn_attrs s) = Some d" "switch_attrs a s = Some (emit d (s\<lparr>pn_attrs := a\<rparr>))"
proof -
  obtain d where d: "write_attrs_diff a (pn_attrs s) = Some d" using ok_write_attrs_diff [of a "pn_attrs s"] by (auto simp: ok_iff_ex)
  show thesis
  proof (cases "pn_attrs s = a")
    case True
    then have "d = []" using d by (simp add: write_attrs_diff_def)
    then show ?thesis using True d by (intro that [of d]) (auto simp: switch_attrs_def emit_def)
  next
    case False
    then show ?thesis using d by (intro that [of d]) (simp_all add: switch_attrs_def)
  qed
qed

lemma plain_no_joiner:
  assumes "plain_row uw row" "j < length row"
  shows "\<not> ends_with (contents (row ! j)) ZWJ"
proof (cases "0 < j \<and> is_wide (row ! (j - 1))")
  case True
  then have "contents (row ! j) = []" using assms by (auto simp: plain_row_def list_all_iff)
  then show ?thesis by (simp add: ends_with_def)
next
  case False
  from plain_rowD(2) [OF assms this] show ?thesis
    by (auto simp: plain_cell_def ends_with_def split: list.splits)
qed

lemma no_joiner_painted:
  assumes "no_joiner rows" "plain_row uw row"
  shows "no_joiner (rows[i := painted row k])"
proof -
  have "list_all (\<lambda>c. \<not> ends_with (contents c) ZWJ) (painted row k)"
    using plain_no_joiner [OF assms(2)] by (simp add: list_all_length) (simp add: ends_with_def)
  with assms(1) show ?thesis by (simp add: no_joiner_def list_all_update)
qed

lemma no_hazard: "plain_row uw row \<Longrightarrow> c \<le> length row \<Longrightarrow> zwj_join_hazard row c = Some False"
  using plain_no_joiner [of uw row "c - 1"] plain_no_joiner [of uw row "c - 2"]
  by (auto simp: zwj_join_hazard_def vec_get_def)

text \<open>The row being painted, and what surrounds it.\<close>

definition row_job :: "unicode_width \<Rightarrow> grid \<Rightarrow> row list \<Rightarrow> row_ctx \<Rightarrow> bool" where
  "row_job uw h0 rows ctx \<longleftrightarrow> canvas h0 \<and> length rows = g_rows h0 \<and> no_joiner rows \<and> plain_row uw (rc_cells ctx)
     \<and> ctx_ok (g_rows h0) (g_cols h0) ctx \<and> char_width uw 0x20 = 1"

lemma row_jobD:
  assumes "row_job uw h0 rows ctx"
  shows "canvas h0" "length rows = g_rows h0" "no_joiner rows" "plain_row uw (rc_cells ctx)" "rc_row ctx < g_rows h0"
    "rc_cols ctx = g_cols h0" "length (rc_cells ctx) = g_cols h0" "fits (g_rows h0) (g_cols h0)" "char_width uw 0x20 = 1" "0 < g_cols h0"
  using assms by (auto simp: row_job_def ctx_ok_def canvas_def grid_fits) (auto simp: grid_inv_def dims_ok_def)

lemma sends_glyph:
  assumes job: "row_job uw h0 rows ctx" and c: "c < g_cols h0" and row: "row = rc_cells ctx"
    and lead: "\<not> (0 < c \<and> is_wide (row ! (c - 1)))" and full: "contents (row ! c) \<noteq> []"
    and start: "p = at_pos (rc_row ctx) c \<or> c = 0 \<and> p_row p + 1 = rc_row ctx \<and> p_col p = g_cols h0"
    and nj: "no_joiner (rows[rc_row ctx := cur])"
  shows "sends uw (replay_at h0 (rows[rc_row ctx := cur]) p (cell_attrs (row ! c))) (utf8 (contents (row ! c)))
    (replay_at h0 (rows[rc_row ctx := glyph_row cur c (unlinked (row ! c))])
      (at_pos (rc_row ctx) (min (c + 1 + (if is_wide (row ! c) then 1 else 0)) (g_cols h0))) (cell_attrs (row ! c)))"
proof -
  note j = row_jobD [OF job]
  let ?i = "rc_row ctx" and ?w = "if is_wide (row ! c) then 2 else 1 :: nat" and ?a = "cell_attrs (row ! c)"
  let ?D = "rows[?i := cur]"
  have pl: "plain_row uw row" "c < length row" using j c row by simp_all
  obtain ch where ch: "contents (row ! c) = [ch]" "is_text ch" "char_width uw ch = ?w" "unlinked (row ! c) = printed_cell ch ?w ?a"
    using plain_glyph [OF plain_rowD(2) [OF pl lead] full] by metis
  have D: "?D ! ?i = cur" "?D[?i := x] = rows[?i := x]" for x using j by simp_all
  have wid: "min (c + ?w) (g_cols h0) = min (c + 1 + (if is_wide (row ! c) then 1 else 0)) (g_cols h0)" by simp
  have "utf8 (contents (row ! c)) = utf8_enc ch" by (simp add: ch(1) utf8_def)
  moreover have "sends uw (replay_at h0 ?D p ?a) (utf8_enc ch) (replay_at h0
      (rows[?i := glyph_row cur c (unlinked (row ! c))]) (at_pos ?i (min (c + ?w) (g_cols h0))) ?a)"
  proof (rule sends_call [OF wire.printed [OF ch(2)]])
    fix h assume h: "replay_at h0 ?D p ?a h"
    from start show "ok (perform uw (Print ch) h) (replay_at h0
        (rows[?i := glyph_row cur c (unlinked (row ! c))]) (at_pos ?i (min (c + ?w) (g_cols h0))) ?a)"
    proof
      assume p: "p = at_pos ?i c"
      show ?thesis
        using perform_print [OF h _ ch(3) _ j(1) nj] c p D ch(4) by (simp del: perform.simps)
    next
      assume p: "c = 0 \<and> p_row p + 1 = ?i \<and> p_col p = g_cols h0"
      show ?thesis
        using perform_print_wrapped [OF h _ _ ch(3) _ j(1) nj] j(5) p D ch(4) by (simp del: perform.simps)
    qed
  qed
  ultimately show ?thesis by (simp only: wid)
qed

text \<open>What the move before a cell achieves: the cursor is at the cell, or parked so that printing wraps to it.\<close>

lemma content_move:
  assumes job: "row_job uw h0 rows ctx" and c: "c < g_cols h0" and q: "pos_in (g_rows h0) (g_cols h0) q"
  obtains mv p where "write_content_move (at_pos (rc_row ctx) c) q (rc_cols ctx) (rc_wrapping ctx) (rc_prev_row ctx) (rc_cells ctx)
      = Some (mv, at_pos (rc_row ctx) c)"
    "\<And>D a. sends uw (replay_at h0 D q a) mv (replay_at h0 D p a)"
    "p = at_pos (rc_row ctx) c \<or> c = 0 \<and> p_row p + 1 = rc_row ctx \<and> p_col p = g_cols h0"
proof -
  note j = row_jobD [OF job]
  let ?t = "at_pos (rc_row ctx) c"
  have t: "pos_in (g_rows h0) (g_cols h0) ?t" "p_col ?t \<le> length (rc_cells ctx)" using j c by (simp_all add: pos_in_def)
  have ok: "ok (write_content_move ?t q (rc_cols ctx) (rc_wrapping ctx) (rc_prev_row ctx) (rc_cells ctx)) (\<lambda>(_, p'). p' = ?t)"
    using ok_write_content_move [OF j(8) t(1) q t(2)] j(6) by simp
  then obtain mv where mv: "write_content_move ?t q (rc_cols ctx) (rc_wrapping ctx) (rc_prev_row ctx) (rc_cells ctx) = Some (mv, ?t)"
    by (auto simp: ok_iff_ex)
  have add: "u16_add (p_row q) 1 = Some (p_row q + 1)" using q j(8) by (simp add: u16_add_def pos_in_def fits_bounds)
  have hz: "zwj_join_hazard (rc_cells ctx) c = Some False" using j(4,7) c by (intro no_hazard) simp_all
  define natural where "natural \<longleftrightarrow> rc_wrapping ctx \<and> p_row q + 1 = rc_row ctx \<and> g_cols h0 \<le> p_col q \<and> c = 0"
  have nat: "(if rc_wrapping ctx then do { below \<leftarrow> u16_add (p_row q) 1;
      Some (below = p_row ?t \<and> rc_cols ctx \<le> p_col q \<and> p_col ?t = 0) } else Some False) = Some natural"
    by (simp add: natural_def add j(6) del: One_nat_def)
  have row: "p_row ?t < g_rows h0" "p_col ?t < g_cols h0" using j(5) c by simp_all
  consider "?t = q" "mv = []" | "natural" "mv = []" | "write_move_to ?t = Some mv" | "write_move_from_to q ?t = Some mv"
  proof (cases "?t = q")
    case True
    then have "zwj_join_hazard (rc_cells ctx) (p_col q) = Some False" using hz by auto
    then have "mv = []" using mv True unfolding write_content_move_def by simp
    then show thesis using True by (intro that(1))
  next
    case False
    have "do { mv \<leftarrow> (if natural \<and> \<not> wrap_hazard (rc_prev_row ctx) then Some []
              else if natural then write_move_to ?t else write_move_from_to q ?t);
        Some (mv, ?t) } = Some (mv, ?t)"
      using mv unfolding write_content_move_def nat if_P [OF False] bind.bind_lunit .
    then show thesis using that(2,3,4) by (auto simp only: bind_eq_Some_conv option.inject prod.inject split: if_splits)
  qed
  then show thesis
  proof cases
    case 1
    then show ?thesis using mv by (intro that [of mv ?t]) (auto intro: sends_nothing)
  next
    case 2
    then have "p_row q + 1 = rc_row ctx" "p_col q = g_cols h0" "c = 0" using q by (auto simp: natural_def pos_in_def)
    then show ?thesis using mv 2 by (intro that [of mv q]) (auto intro: sends_nothing)
  next
    case 3
    then show ?thesis using mv row by (intro that [of mv ?t]) (auto intro: sends_move_to)
  next
    case 4
    then show ?thesis using mv row j(1) by (intro that [of mv ?t]) (auto intro: sends_move_from_to)
  qed
qed

lemma drawn_glyph:
  assumes job: "row_job uw h0 rows ctx" and c: "c < g_cols h0" and row: "row = rc_cells ctx"
    and lead: "\<not> (0 < c \<and> is_wide (row ! (c - 1)))" and full: "contents (row ! c) \<noteq> []"
    and nj: "no_joiner (rows[rc_row ctx := cur])"
    and s: "drawn uw P h0 (rows[rc_row ctx := cur]) s" "pos_in (g_rows h0) (g_cols h0) (pn_pos s)"
  shows "ok (paint_contents ctx c (row ! c) s) (\<lambda>s'.
    drawn uw P h0 (rows[rc_row ctx := glyph_row cur c (unlinked (row ! c))]) s'
    \<and> pos_in (g_rows h0) (g_cols h0) (pn_pos s') \<and> pn_wide s' = pn_wide s \<and> pn_erase s' = pn_erase s)"
proof -
  note j = row_jobD [OF job]
  let ?t = "at_pos (rc_row ctx) c" and ?a = "cell_attrs (row ! c)" and ?D = "rows[rc_row ctx := cur]"
  obtain mv p where mv: "write_content_move ?t (pn_pos s) (rc_cols ctx) (rc_wrapping ctx) (rc_prev_row ctx) (rc_cells ctx) = Some (mv, ?t)"
    "\<And>D a. sends uw (replay_at h0 D (pn_pos s) a) mv (replay_at h0 D p a)"
    "p = ?t \<or> c = 0 \<and> p_row p + 1 = rc_row ctx \<and> p_col p = g_cols h0"
    by (rule content_move [OF job c s(2)]) blast
  let ?s1 = "emit mv (s\<lparr>pn_pos := ?t\<rparr>)"
  obtain d where d: "write_attrs_diff ?a (pn_attrs ?s1) = Some d" "switch_attrs ?a ?s1 = Some (emit d (?s1\<lparr>pn_attrs := ?a\<rparr>))"
    by (rule switch_attrs_bytes)
  let ?e = "c + 1 + (if is_wide (row ! c) then 1 else 0)"
  define s' where "s' = (emit (utf8 (contents (row ! c))) (emit d (?s1\<lparr>pn_attrs := ?a\<rparr>)))\<lparr>pn_pos := at_pos (rc_row ctx) (min ?e (g_cols h0))\<rparr>"
  have u: "u16_add c 1 = Some (c + 1)" "u16_add (c + 1) (if is_wide (row ! c) then 1 else 0) = Some ?e"
    using fits_bounds(2,3) [OF j(8), of c] c by (auto simp: u16_add_def)
  have eq: "paint_contents ctx c (row ! c) s = Some s'"
    unfolding paint_contents_def mv(1) bind.bind_lunit prod.case d(2)
    by (simp add: u j(6) s'_def emit_def del: One_nat_def)
  have "sends uw (replay_at h0 ?D p (pn_attrs s)) d (replay_at h0 ?D p ?a)"
    using d(1) by (intro sends_attrs) (simp add: emit_def)
  from sends_append [OF mv(2) sends_append [OF this sends_glyph [OF job c row lead full mv(3) nj]]]
  have "drawn uw P h0 (rows[rc_row ctx := glyph_row cur c (unlinked (row ! c))]) s'"
    by (rule drawn_more [OF s(1)]) (simp_all add: s'_def emit_def)
  then show ?thesis using j(5) by (simp add: eq) (simp add: s'_def emit_def pos_in_def)
qed

lemma drawn_contents:
  assumes job: "row_job uw h0 rows ctx" and c: "c < g_cols h0" and row: "row = rc_cells ctx"
    and lead: "\<not> (0 < c \<and> is_wide (row ! (c - 1)))" and full: "contents (row ! c) \<noteq> []"
    and s: "drawn uw P h0 (rows[rc_row ctx := painted row c]) s" "pos_in (g_rows h0) (g_cols h0) (pn_pos s)"
  shows "ok (paint_contents ctx c (row ! c) s) (\<lambda>s'.
    drawn uw P h0 (rows[rc_row ctx := painted row (if is_wide (row ! c) then c + 2 else c + 1)]) s'
    \<and> pos_in (g_rows h0) (g_cols h0) (pn_pos s') \<and> pn_wide s' = pn_wide s \<and> pn_erase s' = pn_erase s)"
proof -
  note j = row_jobD [OF job]
  have pl: "plain_row uw row" "c < length row" using j c row by simp_all
  have nj: "no_joiner (rows[rc_row ctx := painted row c])" using j(3) pl(1) by (rule no_joiner_painted)
  show ?thesis
    using drawn_glyph [OF job c row lead full nj s] glyph_painted [OF pl lead refl] by simp
qed

text \<open>A flushed run erases its columns; the painted part grows to the column it ends before.\<close>

lemma drawn_erased:
  assumes job: "row_job uw h0 rows ctx" and s: "drawn uw P h0 (rows[rc_row ctx := cur]) s" "pos_in (g_rows h0) (g_cols h0) (pn_pos s)"
    and run: "st < e" "e \<le> g_cols h0"
    and stop: "stop = Some e \<or> stop = None \<and> e = g_cols h0"
  shows "ok (flush_erase_run (Some (st, A)) (rc_row ctx) stop s) (\<lambda>s'. drawn uw P h0 (rows[rc_row ctx := erased_row cur st e (bce A)]) s'
    \<and> pos_in (g_rows h0) (g_cols h0) (pn_pos s') \<and> pn_wide s' = pn_wide s \<and> pn_erase s' = pn_erase s)"
proof -
  note j = row_jobD [OF job]
  let ?t = "at_pos (rc_row ctx) st" and ?D = "rows[rc_row ctx := cur]"
  have t: "pos_in (g_rows h0) (g_cols h0) ?t" "p_row ?t < g_rows h0" "p_col ?t < g_cols h0" using j run by (simp_all add: pos_in_def)
  obtain mv where mv: "write_move_from_to (pn_pos s) ?t = Some mv"
    using ok_write_move_from_to [OF j(8) s(2) t(1)] by (auto simp: ok_iff_ex)
  let ?s1 = "emit mv (s\<lparr>pn_pos := ?t\<rparr>)"
  obtain d where d: "write_attrs_diff A (pn_attrs ?s1) = Some d" "switch_attrs A ?s1 = Some (emit d (?s1\<lparr>pn_attrs := A\<rparr>))"
    by (rule switch_attrs_bytes)
  have u: "e - st \<le> u16_max" using fits_bounds(4) [OF j(8), of "e - st"] run(2) by simp
  obtain x where x: "write_erase_chars (e - st) = Some x" using ok_write_erase_chars [OF u] by (auto simp: ok_iff_ex)
  define tail where "tail = (if stop = None then esc ''[K'' else x)"
  have tl: "(case stop of Some e \<Rightarrow> do { n \<leftarrow> u16_sub e st; write_erase_chars n } | None \<Rightarrow> Some (esc ''[K'')) = Some tail"
    using stop run(1) x by (auto simp: tail_def u16_sub_def)
  define s' where "s' = emit tail (emit d (?s1\<lparr>pn_attrs := A\<rparr>))"
  have eq: "flush_erase_run (Some (st, A)) (rc_row ctx) stop s = Some s'"
    unfolding flush_erase_run_def option.case prod.case Let_def mv bind.bind_lunit d(2) tl by (simp add: s'_def)
  have upd: "?D ! rc_row ctx = cur" "?D[rc_row ctx := y] = rows[rc_row ctx := y]" for y using j by simp_all
  have "sends uw (replay_at h0 ?D ?t A) tail (replay_at h0 (rows[rc_row ctx := erased_row cur st e (bce A)]) ?t A)"
  proof (cases stop)
    case None
    then show ?thesis using sends_erase_line [of uw h0 ?D ?t A] stop upd by (simp add: tail_def)
  next
    case (Some e')
    then show ?thesis using sends_erase_chars [OF x _ u, of uw h0 ?D ?t A] stop upd run(1,2) by (simp add: tail_def min_def)
  qed
  moreover have "sends uw (replay_at h0 ?D ?t (pn_attrs s)) d (replay_at h0 ?D ?t A)"
    using d(1) by (intro sends_attrs) (simp add: emit_def)
  moreover have "sends uw (replay_at h0 ?D (pn_pos s) (pn_attrs s)) mv (replay_at h0 ?D ?t (pn_attrs s))"
    using mv j(1) t(2,3) by (rule sends_move_from_to)
  ultimately have "drawn uw P h0 (rows[rc_row ctx := erased_row cur st e (bce A)]) s'"
    by (intro drawn_more [OF s(1) sends_append [OF _ sends_append]]) (simp_all add: s'_def emit_def)
  then show ?thesis using t(1) by (simp add: eq) (simp add: s'_def emit_def)
qed

lemma drawn_flush:
  assumes job: "row_job uw h0 rows ctx" and row: "row = rc_cells ctx"
    and s: "drawn uw P h0 (rows[rc_row ctx := painted row st]) s" "pos_in (g_rows h0) (g_cols h0) (pn_pos s)"
    and run: "st < e" "e \<le> g_cols h0" "\<forall>i. st \<le> i \<and> i < e \<longrightarrow> unlinked (row ! i) = bce A"
    and stop: "stop = Some e \<or> stop = None \<and> e = g_cols h0"
  shows "ok (flush_erase_run (Some (st, A)) (rc_row ctx) stop s) (\<lambda>s'. drawn uw P h0 (rows[rc_row ctx := painted row e]) s'
    \<and> pos_in (g_rows h0) (g_cols h0) (pn_pos s') \<and> pn_wide s' = pn_wide s \<and> pn_erase s' = pn_erase s)"
  using drawn_erased [OF job s run(1,2) stop, of A] erase_painted [of st e row "bce A"] run row_jobD(7) [OF job] row by simp

section \<open>The cell loop\<close>

text \<open>
  Both painters run over the cells of a row with a pending erase run. \<open>blank_run\<close> says what such a run may erase;
  \<open>cells_inv\<close> is the invariant of the loop at column \<open>c\<close>, \<open>cells_ready\<close> what holds once the run has been flushed where
  the cell at \<open>c\<close> does not continue it. \<open>D k\<close> says that the row is done up to column \<open>k\<close>.
\<close>

definition blank_run :: "row \<Rightarrow> nat \<Rightarrow> nat \<Rightarrow> attrs \<Rightarrow> bool" where
  "blank_run row st c A \<longleftrightarrow> st < c \<and> (\<forall>i. st \<le> i \<and> i < c \<longrightarrow> unlinked (row ! i) = bce A) \<and> cell_attrs (bce A) = A"

definition cells_inv :: "(nat \<Rightarrow> painter \<Rightarrow> bool) \<Rightarrow> u16 \<Rightarrow> u16 \<Rightarrow> row \<Rightarrow> nat \<Rightarrow> painter \<Rightarrow> bool" where
  "cells_inv D H W row c s \<longleftrightarrow> pos_in H W (pn_pos s) \<and> (pn_wide s \<longleftrightarrow> 0 < c \<and> is_wide (row ! (c - 1)))
     \<and> (case pn_erase s of None \<Rightarrow> D (if pn_wide s then c + 1 else c) s
        | Some (st, A) \<Rightarrow> \<not> pn_wide s \<and> blank_run row st c A \<and> D st s)"

definition cells_ready :: "(nat \<Rightarrow> painter \<Rightarrow> bool) \<Rightarrow> u16 \<Rightarrow> u16 \<Rightarrow> row \<Rightarrow> nat \<Rightarrow> painter \<Rightarrow> bool" where
  "cells_ready D H W row c s \<longleftrightarrow> pos_in H W (pn_pos s) \<and> (pn_wide s \<longleftrightarrow> is_wide (row ! c)) \<and> \<not> (0 < c \<and> is_wide (row ! (c - 1)))
     \<and> (case pn_erase s of None \<Rightarrow> D c s
        | Some (st, A) \<Rightarrow> contents (row ! c) = [] \<and> cell_attrs (row ! c) = A \<and> blank_run row st c A \<and> D st s)"

text \<open>What a painter of a row promises: a cell with contents, and an erased run of blanks, advance it.\<close>

locale row_painter =
  fixes D :: "nat \<Rightarrow> painter \<Rightarrow> bool" and H W :: u16 and ctx :: row_ctx and uw :: unicode_width
  assumes same: "D k s \<Longrightarrow> pn_out s' = pn_out s \<Longrightarrow> pn_pos s' = pn_pos s \<Longrightarrow> pn_attrs s' = pn_attrs s \<Longrightarrow> D k s'"
    and plain: "D k s \<Longrightarrow> plain_row uw (rc_cells ctx) \<and> length (rc_cells ctx) = W"
    and contents: "D c s \<Longrightarrow> pos_in H W (pn_pos s) \<Longrightarrow> c < W \<Longrightarrow> \<not> (0 < c \<and> is_wide (rc_cells ctx ! (c - 1))) \<Longrightarrow>
      contents (rc_cells ctx ! c) \<noteq> [] \<Longrightarrow>
      ok (paint_contents ctx c (rc_cells ctx ! c) s) (\<lambda>s'. D (if is_wide (rc_cells ctx ! c) then c + 2 else c + 1) s'
        \<and> pos_in H W (pn_pos s') \<and> pn_wide s' = pn_wide s \<and> pn_erase s' = pn_erase s)"
    and flush: "D st s \<Longrightarrow> pos_in H W (pn_pos s) \<Longrightarrow> blank_run (rc_cells ctx) st e A \<Longrightarrow> e \<le> W \<Longrightarrow>
      stop = Some e \<or> stop = None \<and> e = W \<Longrightarrow>
      ok (flush_erase_run (Some (st, A)) (rc_row ctx) stop s) (\<lambda>s'. D e s' \<and> pos_in H W (pn_pos s')
        \<and> pn_wide s' = pn_wide s \<and> pn_erase s' = pn_erase s)"

context row_painter begin

lemma same_repaint [simp]: "D k (s\<lparr>pn_repaint := b\<rparr>) = D k s"
  by (rule iffI) (erule same; simp)+

lemma repaint_irrelevant [simp]:
  "cells_ready D H W row c (s\<lparr>pn_repaint := b\<rparr>) = cells_ready D H W row c s"
  "cells_inv D H W row c (s\<lparr>pn_repaint := b\<rparr>) = cells_inv D H W row c s"
  by (cases "pn_erase s"; auto simp: cells_ready_def cells_inv_def)+

lemma start: "D 0 s \<Longrightarrow> pos_in H W (pn_pos s) \<Longrightarrow> cells_inv D H W row 0 (s\<lparr>pn_wide := False, pn_erase := None\<rparr>)"
  by (auto simp: cells_inv_def intro: same)

lemma skip_wide:
  assumes "cells_inv D H W (rc_cells ctx) c s" "c < W" "pn_wide s"
  shows "cells_inv D H W (rc_cells ctx) (Suc c) (s\<lparr>pn_wide := False\<rparr>)"
proof -
  have s: "0 < c \<and> is_wide (rc_cells ctx ! (c - 1))" "pn_erase s = None" "D (c + 1) s"
    using assms(1,3) by (auto simp: cells_inv_def split: option.splits)
  then have "\<not> is_wide (rc_cells ctx ! c)" using plain [OF s(3)] plain_rowD(1) [of uw "rc_cells ctx" c] assms(2) by auto
  with s assms(1) show ?thesis by (auto simp: cells_inv_def intro: same)
qed

lemma flush_before:
  assumes inv: "cells_inv D H W (rc_cells ctx) c s" and c: "c < W" "\<not> pn_wide s"
  shows "ok (flush_before ctx c (rc_cells ctx ! c) (s\<lparr>pn_wide := is_wide (rc_cells ctx ! c)\<rparr>)) (cells_ready D H W (rc_cells ctx) c)"
proof (cases "pn_erase s")
  case None
  then show ?thesis
    using inv c(2) by (auto simp: cells_inv_def cells_ready_def flush_before_def flush_due_def intro: same)
next
  case (Some er)
  obtain st A where er: "pn_erase s = Some (st, A)" using Some by (cases er) auto
  note i = inv [unfolded cells_inv_def er option.case prod.case]
  show ?thesis
  proof (cases "has_contents (rc_cells ctx ! c) \<or> cell_attrs (rc_cells ctx ! c) \<noteq> A")
    case False
    then show ?thesis
      using i er by (auto simp: cells_ready_def flush_before_def flush_due_def has_contents_def intro: same)
  next
    case True
    let ?s = "s\<lparr>pn_wide := is_wide (rc_cells ctx ! c), pn_erase := None\<rparr>"
    have "D st ?s" using i by (auto intro: same)
    from flush [OF this, of c A "Some c"] i c True er show ?thesis
      by (auto simp: cells_ready_def flush_before_def flush_due_def elim!: ok_mono_all)
  qed
qed

lemma ready_plain:
  assumes "cells_ready D H W (rc_cells ctx) c s" "c < W"
  shows "plain_cell uw (rc_cells ctx ! c)"
proof -
  have "plain_row uw (rc_cells ctx) \<and> length (rc_cells ctx) = W"
    using assms(1) plain by (auto simp: cells_ready_def split: option.splits)
  with assms plain_rowD(2) [of uw "rc_cells ctx" c] show ?thesis by (auto simp: cells_ready_def)
qed

lemma glyph:
  assumes "cells_ready D H W (rc_cells ctx) c s" "c < W" "contents (rc_cells ctx ! c) \<noteq> []"
  shows "ok (paint_contents ctx c (rc_cells ctx ! c) s) (cells_inv D H W (rc_cells ctx) (Suc c))"
  using contents [of c s] assms
  by (auto simp: cells_ready_def cells_inv_def split: option.splits elim!: ok_mono_all)

lemma blank:
  assumes s: "cells_ready D H W (rc_cells ctx) c s" and c: "c < W" "contents (rc_cells ctx ! c) = []"
  shows "cells_inv D H W (rc_cells ctx) (Suc c) (start_erase c (rc_cells ctx ! c) s)"
proof -
  note bl = plain_blank [OF ready_plain [OF s c(1)] c(2)]
  have "cell_attrs (bce (cell_attrs (rc_cells ctx ! c))) = cell_attrs (rc_cells ctx ! c)" using bl by (metis unlinked_simps(4))
  then have one: "blank_run (rc_cells ctx) c (Suc c) (cell_attrs (rc_cells ctx ! c))"
    using bl by (auto simp: blank_run_def less_Suc_eq_le dest: le_antisym)
  have more: "blank_run (rc_cells ctx) st (Suc c) A" if "blank_run (rc_cells ctx) st c A" "cell_attrs (rc_cells ctx ! c) = A" for st A
    using that bl by (auto simp: blank_run_def less_Suc_eq)
  show ?thesis
    using s bl one more by (cases "pn_erase s") (auto simp: cells_ready_def cells_inv_def start_erase_def intro: same)
qed

text \<open>A cell that needs no painting, outside a run; inside one it is a blank of the run.\<close>

lemma keep:
  assumes s: "cells_ready D H W (rc_cells ctx) c s" and c: "c < W"
    and D: "pn_erase s = None \<Longrightarrow> D (if is_wide (rc_cells ctx ! c) then c + 2 else c + 1) s"
  shows "cells_inv D H W (rc_cells ctx) (Suc c) s"
proof (cases "pn_erase s")
  case None
  then show ?thesis using s D by (auto simp: cells_ready_def cells_inv_def)
next
  case (Some er)
  then have "contents (rc_cells ctx ! c) = []" "start_erase c (rc_cells ctx ! c) s = s"
    using s by (auto simp: cells_ready_def start_erase_def)
  then show ?thesis using blank [OF s c] by simp
qed

lemma finish:
  assumes inv: "cells_inv D H W (rc_cells ctx) W s"
  shows "ok (flush_erase_run (pn_erase s) (rc_row ctx) None (s\<lparr>pn_erase := None\<rparr>))
    (\<lambda>s'. (\<exists>k \<ge> W. D k s') \<and> pos_in H W (pn_pos s'))"
proof (cases "pn_erase s")
  case None
  then have "D (if pn_wide s then W + 1 else W) (s\<lparr>pn_erase := None\<rparr>)" "pos_in H W (pn_pos s)"
    using inv by (auto simp: cells_inv_def intro: same)
  then show ?thesis
    by (auto simp: None flush_erase_run_def split: if_splits intro: exI [of _ "W + 1"] exI [of _ W])
next
  case (Some er)
  obtain st A where er: "pn_erase s = Some (st, A)" using Some by (cases er) auto
  note i = inv [unfolded cells_inv_def er option.case prod.case]
  have "D st (s\<lparr>pn_erase := None\<rparr>)" using i by (auto intro: same)
  from flush [OF this, of W A None] i show ?thesis unfolding er by (auto elim!: ok_mono_all)
qed

end

text \<open>The full painter, on a blank row.\<close>

definition painting :: "unicode_width \<Rightarrow> (grid \<Rightarrow> bool) \<Rightarrow> grid \<Rightarrow> row list \<Rightarrow> row_ctx \<Rightarrow> nat \<Rightarrow> painter \<Rightarrow> bool" where
  "painting uw P h0 rows ctx k s \<longleftrightarrow> row_job uw h0 rows ctx \<and> drawn uw P h0 (rows[rc_row ctx := painted (rc_cells ctx) k]) s"

interpretation full: row_painter "painting uw P h0 rows ctx" "g_rows h0" "g_cols h0" ctx uw for uw P h0 rows ctx
proof (unfold_locales, goal_cases)
  case (1 k s s')
  then show ?case by (auto simp: painting_def intro: drawn_cong)
next
  case (2 k s)
  then show ?case using row_jobD(4,7) [of uw h0 rows ctx] by (simp add: painting_def)
next
  case (3 c s)
  then show ?case using drawn_contents [of uw h0 rows ctx c "rc_cells ctx" P s] by (auto simp: painting_def elim!: ok_mono_all)
next
  case (4 st s e A stop)
  then show ?case
    using drawn_flush [of uw h0 rows ctx "rc_cells ctx" P st s e A stop] by (auto simp: painting_def blank_run_def elim!: ok_mono_all)
qed

lemma paint_cell_inv:
  assumes job: "row_job uw h0 rows ctx" and c: "c < g_cols h0"
    and inv: "cells_inv (painting uw P h0 rows ctx) (g_rows h0) (g_cols h0) (rc_cells ctx) c s"
  shows "ok (paint_cell ctx (c, rc_cells ctx ! c) s) (cells_inv (painting uw P h0 rows ctx) (g_rows h0) (g_cols h0) (rc_cells ctx) (Suc c))"
proof (cases "pn_wide s")
  case True
  then show ?thesis using full.skip_wide [OF inv c] by (simp add: paint_cell_def)
next
  case False
  note j = row_jobD [OF job]
  let ?c = "rc_cells ctx ! c"
  have col: "as_u16 c = c" using as_u16_col [OF j(8), of c] c by simp
  from full.flush_before [OF inv c False] obtain s1
    where s1: "flush_before ctx c ?c (s\<lparr>pn_wide := is_wide ?c\<rparr>) = Some s1"
      "cells_ready (painting uw P h0 rows ctx) (g_rows h0) (g_cols h0) (rc_cells ctx) c s1"
    by (auto simp: ok_iff_ex)
  have eq: "paint_cell ctx (c, ?c) s = (if ?c \<noteq> cell_default
      then (if has_contents ?c then paint_contents ctx c ?c s1 else Some (start_erase c ?c s1)) else Some s1)"
    using False s1(1) col by (simp add: paint_cell_def Let_def)
  show ?thesis
  proof (cases "?c = cell_default")
    case True
    then have "painted (rc_cells ctx) (Suc c) = painted (rc_cells ctx) c"
      using c j(7) by (intro nth_equalityI) (auto simp: less_Suc_eq)
    then have "painting uw P h0 rows ctx (c + 1) s1" if "pn_erase s1 = None"
      using that s1(2) by (simp add: cells_ready_def painting_def)
    then have "cells_inv (painting uw P h0 rows ctx) (g_rows h0) (g_cols h0) (rc_cells ctx) (Suc c) s1"
      using full.keep [OF s1(2) c] True by simp
    then show ?thesis unfolding eq using True by simp
  next
    case False
    then show ?thesis
      using full.glyph [OF s1(2) c] full.blank [OF s1(2) c] unfolding eq by (auto simp: has_contents_def)
  qed
qed

text \<open>A space printed on a blank cell and erased again leaves the blank of the erase.\<close>

lemma space_erased:
  assumes "k < length row" "\<not> is_wide (row ! k)" "\<not> is_wide_continuation (row ! k)"
  shows "erased_row (glyph_row row k (printed_cell ch 1 a)) k (k + 1) b = row[k := b]"
proof (rule nth_equalityI)
  fix i assume "i < length (erased_row (glyph_row row k (printed_cell ch 1 a)) k (k + 1) b)"
  then have i: "i < length row" by (simp add: erased_row_def glyph_row_def)
  have g: "glyph_row row k (printed_cell ch 1 a) ! j = (if j = k then printed_cell ch 1 a else row ! j)" if "j < length row" for j
    using that assms by (simp add: glyph_row_def glyph_nth_def printed_cell_def)
  have "erased (glyph_row row k (printed_cell ch 1 a)) k (k + 1) i \<longleftrightarrow> i = k"
    using g [OF assms(1)] by (auto simp: erased_def printed_cell_def)
  then show "erased_row (glyph_row row k (printed_cell ch 1 a)) k (k + 1) b ! i = row[k := b] ! i"
    using i g [OF i] by (auto simp: erased_row_def glyph_row_def nth_list_update)
qed (simp add: erased_row_def glyph_row_def)

lemma no_joiner_glyph:
  assumes "no_joiner rows" "r < length rows" "ch \<noteq> ZWJ"
  shows "no_joiner (rows[r := glyph_row (rows ! r) k (printed_cell ch 1 a)])"
proof -
  have old: "\<not> ends_with (contents (rows ! r ! i)) ZWJ" if "i < length (rows ! r)" for i
    using assms(1,2) that by (simp add: no_joiner_def list_all_length)
  have "list_all (\<lambda>c. \<not> ends_with (contents c) ZWJ) (glyph_row (rows ! r) k (printed_cell ch 1 a))"
    using old assms(3) by (simp add: list_all_length glyph_row_def glyph_nth_def printed_cell_def) (simp add: ends_with_def continuation_cell_def)
  with assms(1) show ?thesis by (simp add: no_joiner_def list_all_update)
qed

lemma space_text: "is_text 0x20" "utf8_enc 0x20 = [0x20]" "(0x20 :: uchar) \<noteq> ZWJ"
  by (simp_all add: is_text_def is_scalar_def utf8_enc_def byte_def ZWJ_def)

lemma sends_bs: "sends uw (replay_at h0 rows p a) [0x08] (replay_at h0 rows (at_pos (p_row p) (p_col p - 1)) a)"
  by (rule sends_call [OF wire.control perform_bs]) simp_all

lemma bce_default [simp]: "bce attrs_default = cell_default"
  by (simp add: bce_def cell_default_def attrs_default_def)

lemma sends_wrapped_blank:
  assumes job: "row_job uw h0 rows ctx" and cur: "cur = rows ! rc_row ctx" "length cur = g_cols h0"
    and blank: "\<not> is_wide (cur ! 0)" "\<not> is_wide_continuation (cur ! 0)"
    and p: "p_row p + 1 = rc_row ctx" "p_col p = g_cols h0" and e: "write_erase_chars 1 = Some e"
  shows "sends uw (replay_at h0 rows p a) ([0x20, 0x08] @ e)
    (replay_at h0 (rows[rc_row ctx := cur[0 := bce a]]) (at_pos (rc_row ctx) 0) a)"
proof -
  note j = row_jobD [OF job]
  let ?r = "rc_row ctx"
  let ?D = "rows[?r := glyph_row cur 0 (printed_cell 0x20 1 a)]"
  have "sends uw (replay_at h0 rows p a) [0x20] (replay_at h0 ?D (at_pos ?r 1) a)"
  proof (rule sends_call [OF wire.printed [OF space_text(1)], unfolded space_text(2)])
    fix h assume "replay_at h0 rows p a h"
    from perform_print_wrapped [OF this p(2) _ j(9) _ j(1,3)] p(1) j(5,10)
    show "ok (perform uw (Print 0x20) h) (replay_at h0 ?D (at_pos ?r 1) a)"
      by (simp add: min_def cur(1) del: perform.simps)
  qed
  moreover have "sends uw (replay_at h0 ?D (at_pos ?r 1) a) [0x08] (replay_at h0 ?D (at_pos ?r 0) a)"
    using sends_bs [of uw h0 ?D "at_pos ?r 1" a] by simp
  moreover have "sends uw (replay_at h0 ?D (at_pos ?r 0) a) e (replay_at h0 (rows[?r := cur[0 := bce a]]) (at_pos ?r 0) a)"
  proof -
    have "erased_row (?D ! ?r) 0 1 (bce a) = cur[0 := bce a]"
      using space_erased [of 0 cur "0x20" a "bce a"] blank cur(2) j(2,5,10) by simp
    then have "?D[?r := erased_row (?D ! ?r) 0 (min (0 + 1) (g_cols h0)) (bce a)] = rows[?r := cur[0 := bce a]]"
      using j(10) by (simp add: min_def)
    then show ?thesis
      using sends_erase_chars [OF e, of uw h0 ?D "at_pos ?r 0" a] by (simp add: u16_max_def)
  qed
  ultimately show ?thesis
    using sends_append [of uw _ "[0x20]" _ "[0x08] @ e"] sends_append [of uw _ "[0x08]" _ e] by (metis append_Cons append_Nil)
qed

lemma drawn_wrapped_blank:
  assumes job: "row_job uw h0 rows ctx" and blank: "rows ! rc_row ctx = blank_row (g_cols h0)"
    and s: "drawn uw P h0 rows s" "pos_in (g_rows h0) (g_cols h0) (pn_pos s)"
  shows "ok (paint_wrapped_blank ctx s) (\<lambda>s'. drawn uw P h0 rows s' \<and> pos_in (g_rows h0) (g_cols h0) (pn_pos s'))"
proof -
  note j = row_jobD [OF job]
  let ?t = "at_pos (rc_row ctx) 0"
  have t: "pos_in (g_rows h0) (g_cols h0) ?t" "p_row ?t < g_rows h0" "p_col ?t < g_cols h0" using j by (simp_all add: pos_in_def)
  have add: "u16_add (p_row (pn_pos s)) 1 = Some (p_row (pn_pos s) + 1)"
    using s(2) j(8) by (simp add: u16_add_def pos_in_def fits_bounds)
  show ?thesis
  proof (cases "p_row (pn_pos s) + 1 = rc_row ctx \<and> rc_cols ctx \<le> p_col (pn_pos s) \<and> \<not> wrap_hazard (rc_prev_row ctx)")
    case True
    then have p: "p_row (pn_pos s) + 1 = rc_row ctx" "p_col (pn_pos s) = g_cols h0" using s(2) j(6) by (auto simp: pos_in_def)
    obtain d where d: "write_attrs_diff attrs_default (pn_attrs s) = Some d"
        "switch_attrs attrs_default s = Some (emit d (s\<lparr>pn_attrs := attrs_default\<rparr>))"
      by (rule switch_attrs_bytes)
    obtain e where e: "write_erase_chars 1 = Some e" using ok_write_erase_chars [of 1] by (auto simp: ok_iff_ex)
    let ?s' = "(emit ([0x20, 0x08] @ e) (emit d (s\<lparr>pn_attrs := attrs_default\<rparr>)))\<lparr>pn_pos := ?t\<rparr>"
    have eq: "paint_wrapped_blank ctx s = Some ?s'"
      unfolding paint_wrapped_blank_def add bind.bind_lunit Let_def if_P [OF True] d(2) e ..
    have row: "(blank_row (g_cols h0))[0 := bce attrs_default] = blank_row (g_cols h0)" "rows[rc_row ctx := blank_row (g_cols h0)] = rows"
      using blank j(2,5,10) by (simp_all add: list_update_same_conv) (simp add: blank_row_def list_update_same_conv)
    have "sends uw (replay_at h0 rows (pn_pos s) attrs_default) ([0x20, 0x08] @ e) (replay_at h0 rows ?t attrs_default)"
      using sends_wrapped_blank [OF job blank [symmetric] _ _ _ p e, of attrs_default] j(10) row by (simp add: blank_row_def)
    then have "drawn uw P h0 rows ?s'"
      by (rule drawn_more [OF s(1) sends_append [OF sends_attrs [OF d(1)]]]) (simp_all add: emit_def)
    then show ?thesis using t(1) by (simp add: eq)
  next
    case False
    obtain mv where mv: "write_move_to ?t = Some mv" using ok_write_move_to [OF j(8) t(1)] by (auto simp: ok_iff_ex)
    let ?s' = "(emit mv s)\<lparr>pn_pos := ?t\<rparr>"
    have eq: "paint_wrapped_blank ctx s = Some ?s'"
      unfolding paint_wrapped_blank_def add bind.bind_lunit Let_def if_not_P [OF False] mv ..
    have "drawn uw P h0 rows ?s'"
      by (rule drawn_more [OF s(1) sends_move_to [OF mv t(2,3)]]) (simp_all add: emit_def)
    then show ?thesis using t(1) by (simp add: eq)
  qed
qed

text \<open>A row written on a blank one is the row without its hyperlinks.\<close>

lemma drawn_row:
  assumes job: "row_job uw h0 rows ctx" and blank: "rows ! rc_row ctx = blank_row (g_cols h0)"
    and s: "drawn uw P h0 rows s" "pos_in (g_rows h0) (g_cols h0) (pn_pos s)"
  shows "ok (write_row_formatted ctx s) (\<lambda>s'. drawn uw P h0 (rows[rc_row ctx := map unlinked (rc_cells ctx)]) s'
    \<and> pos_in (g_rows h0) (g_cols h0) (pn_pos s'))"
proof -
  note j = row_jobD [OF job]
  let ?row = "rc_cells ctx" and ?n = "g_cols h0"
  obtain s1 where s1: "(if rc_wrapping ctx \<and> ?row ! 0 = cell_default then paint_wrapped_blank ctx s else Some s) = Some s1"
      "drawn uw P h0 rows s1" "pos_in (g_rows h0) ?n (pn_pos s1)"
    using drawn_wrapped_blank [OF job blank s] s
    by (cases "rc_wrapping ctx \<and> ?row ! 0 = cell_default") (auto simp: ok_iff_ex)
  have "rows[rc_row ctx := painted ?row 0] = rows"
    using blank j by (simp add: painted_0 list_update_same_conv)
  then have "painting uw P h0 rows ctx 0 s1" using s1(2) job by (simp add: painting_def)
  then have "ok (paint_loop ctx s1) (cells_inv (painting uw P h0 rows ctx) (g_rows h0) ?n ?row (0 + length ?row))"
    unfolding paint_loop_def using paint_cell_inv [OF job] j(7) full.start s1(3) by (intro fold_opt_enumerate) simp_all
  then obtain s2 where s2: "paint_loop ctx s1 = Some s2" "cells_inv (painting uw P h0 rows ctx) (g_rows h0) ?n ?row ?n s2"
    using j(7) by (auto simp: ok_iff_ex)
  have "painting uw P h0 rows ctx k s' \<Longrightarrow> ?n \<le> k \<Longrightarrow> drawn uw P h0 (rows[rc_row ctx := map unlinked ?row]) s'" for k s'
    using painted_all [of ?row k] j(7) by (simp add: painting_def)
  then have "ok (flush_erase_run (pn_erase s2) (rc_row ctx) None (s2\<lparr>pn_erase := None\<rparr>))
      (\<lambda>s'. drawn uw P h0 (rows[rc_row ctx := map unlinked ?row]) s' \<and> pos_in (g_rows h0) ?n (pn_pos s'))"
    using full.finish [OF s2(2)] by (auto elim!: ok_mono_all)
  then show ?thesis using s1(1) s2(1) j(7,10) by (simp add: write_row_formatted_def vec_get_def)
qed

section \<open>Painting the screen\<close>

definition screen_painted :: "row list \<Rightarrow> u16 \<Rightarrow> nat \<Rightarrow> row list" where
  "screen_painted rows cols k = map (\<lambda>i. if i < k then map unlinked (rows ! i) else blank_row cols) [0..<length rows]"

lemma screen_painted_simps [simp]:
  "length (screen_painted rows cols k) = length rows"
  "i < length rows \<Longrightarrow> screen_painted rows cols k ! i = (if i < k then map unlinked (rows ! i) else blank_row cols)"
  by (simp_all add: screen_painted_def)

lemma screen_painted_Suc:
  "k < length rows \<Longrightarrow> (screen_painted rows cols k)[k := map unlinked (rows ! k)] = screen_painted rows cols (Suc k)"
  by (intro nth_equalityI) (auto simp: nth_list_update less_Suc_eq)

lemma screen_painted_ends:
  "screen_painted rows cols 0 = replicate (length rows) (blank_row cols)"
  "length rows \<le> k \<Longrightarrow> screen_painted rows cols k = map (map unlinked) rows"
  by (intro nth_equalityI; simp)+

lemma no_joiner_screen:
  assumes "list_all (plain_row uw) rows"
  shows "no_joiner (screen_painted rows cols k)"
proof -
  have "list_all (\<lambda>c. \<not> ends_with (contents c) ZWJ) (map unlinked (rows ! i))" if "i < length rows" for i
    using assms that plain_no_joiner [of uw "rows ! i"] by (simp add: list_all_length)
  moreover have "list_all (\<lambda>c. \<not> ends_with (contents c) ZWJ) (blank_row cols)"
    by (simp add: blank_row_def list_all_iff) (simp add: ends_with_def)
  ultimately show ?thesis by (simp add: no_joiner_def list_all_length)
qed

text \<open>The grid whose screen is serialized, and the canvas it is painted on.\<close>

definition paint_job :: "unicode_width \<Rightarrow> grid \<Rightarrow> grid \<Rightarrow> bool" where
  "paint_job uw h0 g \<longleftrightarrow> canvas h0 \<and> grid_inv g \<and> g_rows g = g_rows h0 \<and> g_cols g = g_cols h0
     \<and> list_all (plain_row uw) (rs_rows (active_grid g)) \<and> char_width uw 0x20 = 1"

lemma paint_jobD:
  assumes "paint_job uw h0 g"
  shows "canvas h0" "grid_inv g" "g_rows g = g_rows h0" "g_cols g = g_cols h0" "list_all (plain_row uw) (rs_rows (active_grid g))"
    "char_width uw 0x20 = 1" "length (rs_rows (active_grid g)) = g_rows h0" "fits (g_rows h0) (g_cols h0)" "0 < g_cols h0"
    "0 < g_rows h0"
  using assms active_ok [of g] grid_fits [of g] by (auto simp: paint_job_def store_ok_def grid_inv_def dims_ok_def)

lemma paint_row_job:
  assumes job: "paint_job uw h0 g" and k: "k < g_rows h0"
  shows "row_job uw h0 (screen_painted (rs_rows (active_grid g)) (g_cols h0) k)
    (row_context g k (rs_rows (active_grid g) ! k) w)"
proof -
  note j = paint_jobD [OF job]
  let ?cells = "rs_rows (active_grid g) ! k"
  have "plain_row uw ?cells" "length ?cells = g_cols h0"
    using j(5,7) active_row [OF j(2), of k] k j(3,4) by (simp_all add: list_all_length)
  then show ?thesis
    using j k no_joiner_screen [OF j(5)] by (simp add: row_job_def ctx_ok_def row_context_def)
qed

lemma drawn_rows:
  assumes job: "paint_job uw h0 g" and k: "k + n \<le> g_rows h0"
    and s: "drawn uw P h0 (screen_painted (rs_rows (active_grid g)) (g_cols h0) k) s" "pos_in (g_rows h0) (g_cols h0) (pn_pos s)"
  shows "ok (paint_rows g [k..<k + n] w s) (\<lambda>s'. drawn uw P h0 (screen_painted (rs_rows (active_grid g)) (g_cols h0) (k + n)) s'
    \<and> pos_in (g_rows h0) (g_cols h0) (pn_pos s'))"
  using k s
proof (induction n arbitrary: k s w)
  case (Suc n)
  note j = paint_jobD [OF job]
  let ?rows = "rs_rows (active_grid g)"
  have k: "k < g_rows h0" using Suc.prems(1) by simp
  have get: "rs_get (visible_screen g) k = Some (?rows ! k)"
    using k j(7) by (simp add: visible_screen_eq rs_get_def vec_get_def)
  have blank: "screen_painted ?rows (g_cols h0) k ! rc_row (row_context g k (?rows ! k) w) = blank_row (g_cols h0)"
    using k j(7) by (simp add: row_context_def)
  have row: "ok (write_row_formatted (row_context g k (?rows ! k) w) s)
      (\<lambda>s'. drawn uw P h0 (screen_painted ?rows (g_cols h0) (Suc k)) s' \<and> pos_in (g_rows h0) (g_cols h0) (pn_pos s'))"
    using drawn_row [OF paint_row_job [OF job k] blank Suc.prems(2,3)] k j(7) screen_painted_Suc [of k ?rows]
    by (simp add: row_context_def)
  have nxt: "u16_add k 1 = Some (k + 1)" using fits_bounds(1) [OF j(8) k] by (simp add: u16_add_def)
  have list: "[k..<k + Suc n] = k # [Suc k..<Suc k + n]" by (simp add: upt_conv_Cons)
  obtain s1 where s1: "write_row_formatted (row_context g k (?rows ! k) w) s = Some s1"
      "drawn uw P h0 (screen_painted ?rows (g_cols h0) (Suc k)) s1" "pos_in (g_rows h0) (g_cols h0) (pn_pos s1)"
    using row by (auto simp: ok_iff_ex)
  have "paint_rows g [k..<k + Suc n] w s = paint_rows g [Suc k..<Suc k + n] (row_is_continuation g (k + 1)) s1"
    unfolding list paint_rows.simps get option.case s1(1) bind.bind_lunit nxt ..
  with Suc.IH [OF _ s1(2,3)] Suc.prems(1) show ?case by simp
qed simp

text \<open>Erasing the whole display from home, with the default pen.\<close>

lemma push_scrollback_row_keeps: "setting_of (push_scrollback_row row w g) = setting_of g"
  by (simp add: push_scrollback_row_def Let_def split_beta)

lemma preserve_keeps: "setting_of (preserve_visible_rows_to_scrollback g) = setting_of g"
proof -
  have "setting_of (foldl (\<lambda>g row. push_scrollback_row row Hard g) g rows) = setting_of g" for rows and g :: grid
    by (induction rows arbitrary: g) (simp_all add: push_scrollback_row_keeps)
  then show ?thesis
    by (auto simp: preserve_visible_rows_to_scrollback_def Let_def split: option.splits)
qed

lemma grid_mark_all_keeps [simp]:
  "setting_of (grid_mark_all g) = setting_of g" "g_current_attrs (grid_mark_all g) = g_current_attrs g"
  by (simp_all add: grid_mark_all_def)

lemma erase_display_keeps:
  assumes "erase_display 0 g = Some g'" "grid_inv g"
  shows "setting_of g' = setting_of g \<and> g_current_attrs g' = g_current_attrs g \<and> g_cursor_row g' = g_cursor_row g
    \<and> g_cursor_col g' = g_cursor_col g"
  using assms(1) preserve_spec [OF assms(2)] preserve_keeps [of g]
  by (auto simp: erase_display_def bind_eq_Some_conv Let_def set_active_row_def grid_mark_all_def split: if_splits)

lemma perform_ed:
  assumes "replay_at h0 rows (at_pos 0 0) attrs_default h"
  shows "ok (perform uw (CsiDispatch [[0]] [] False 0x4a) h)
    (replay_at h0 (replicate (g_rows h0) (blank_row (g_cols h0))) (at_pos 0 0) attrs_default)"
proof -
  note d = replay_atD [OF assms] and b = replay_at_bounds [OF assms]
  obtain h' where h': "erase_display 0 h = Some h'" "step_ok h h'"
      "\<forall>i < g_rows h. rs_rows (active_grid h') ! i = display_row 0 h i"
    using erase_display_spec [OF d(1), of 0] by (auto simp: ok_iff_ex)
  have e: "csi_dispatch [[0]] [] False 0x4a h = Some h'"
    using h'(1) by (simp add: csi_dispatch_def is_char_def char_in_def Let_def first_or_0_def)
  have inv: "grid_inv h'" "g_rows h' = g_rows h" using h'(2) by (simp_all add: step_ok_def)
  have blank: "blank_row_bce h = blank_row (g_cols h0)"
    using d(6,8) by (simp add: blank_row_bce_def blank_row_def blank_cell_bce)
  have row: "length (rs_rows (active_grid h) ! 0) = g_cols h"
    using active_row [OF d(1), of 0] d(4) b(1) d(7) by simp
  have "display_row 0 h i = blank_row (g_cols h0)" if "i < g_rows h" for i
  proof (cases "i = 0")
    case True
    have "erased_row (rs_rows (active_grid h) ! 0) 0 (g_cols h) cell_default = blank_row (g_cols h)"
      using row by (intro nth_equalityI) (auto simp: erased_row_def erased_def blank_row_def)
    with True d(4,5,6,8) show ?thesis by (simp add: display_row_def Let_def blank_cell_bce)
  next
    case False
    with blank d(4) show ?thesis by (simp add: display_row_def Let_def)
  qed
  then have "rs_rows (active_grid h') = replicate (g_rows h0) (blank_row (g_cols h0))"
    using h'(3) inv active_ok [OF inv(1)] d(7) by (intro nth_equalityI) (simp_all add: store_ok_def)
  then have "shown h' = replicate (g_rows h0) (blank_row (g_cols h0))" by (simp add: shown_def blank_row_def)
  with erase_display_keeps [OF h'(1) d(1)] inv d show ?thesis
    by (simp add: e replay_at_def)
qed

lemma sends_clear:
  assumes "0 < g_rows h0" "0 < g_cols h0"
  shows "sends uw (replay_at h0 rows p a) (esc ''[m'' @ esc ''[H'' @ esc ''[J'')
    (replay_at h0 (replicate (g_rows h0) (blank_row (g_cols h0))) (at_pos 0 0) attrs_default)"
proof -
  have w: "wire (CsiDispatch [[0]] [] False 0x6d) (esc ''[m'')" "wire (CsiDispatch [[0]] [] False 0x48) (esc ''[H'')"
    "wire (CsiDispatch [[0]] [] False 0x4a) (esc ''[J'')"
    using wire.csi_empty [of "0x6d"] wire.csi_empty [of "0x48"] wire.csi_empty [of "0x4a"] by (simp_all add: esc_def byte_def)
  have sgr: "apply_sgr a [[0]] = attrs_default" by (simp add: apply_sgr_def sgr_loop.simps sgr_code_def first_or_0_def)
  have "sends uw (replay_at h0 rows p a) (esc ''[m'') (replay_at h0 rows p attrs_default)"
    by (rule sends_call [OF w(1) perform_sgr [OF _ sgr]])
  moreover have "sends uw (replay_at h0 rows p attrs_default) (esc ''[H'') (replay_at h0 rows (at_pos 0 0) attrs_default)"
    by (rule sends_call [OF w(2) perform_cup(2) [OF _ assms]])
  moreover have "sends uw (replay_at h0 rows (at_pos 0 0) attrs_default) (esc ''[J'')
      (replay_at h0 (replicate (g_rows h0) (blank_row (g_cols h0))) (at_pos 0 0) attrs_default)"
    by (rule sends_call [OF w(3) perform_ed])
  ultimately show ?thesis by (intro sends_append)
qed

section \<open>Restoring the cursor\<close>

lemma shown_row:
  assumes "paint_job uw h0 g" "r < g_rows h0"
  shows "plain_row uw (rs_rows (active_grid g) ! r)" "length (rs_rows (active_grid g) ! r) = g_cols h0"
    "shown g ! r = map unlinked (rs_rows (active_grid g) ! r)" "length (shown g) = g_rows h0"
    "rs_get (visible_screen g) r = Some (rs_rows (active_grid g) ! r)"
  using paint_jobD [OF assms(1)] assms(2) active_row [of g r]
  by (simp_all add: list_all_length shown_def visible_screen_eq rs_get_def vec_get_def)

lemma no_joiner_shown: "paint_job uw h0 g \<Longrightarrow> no_joiner (shown g)"
  using no_joiner_screen [of uw "rs_rows (active_grid g)" "g_cols h0" "g_rows h0"]
  by (simp add: paint_jobD shown_def screen_painted_ends(2))

text \<open>Drawing a character again over itself arms the wrap when it ends the row.\<close>

text \<open>Writing a cell of the row where it already stands changes nothing.\<close>

lemma glyph_again:
  assumes "plain_row uw row" "k < length row" "\<not> (0 < k \<and> is_wide (row ! (k - 1)))" "length row \<le> k + (if is_wide (row ! k) then 2 else 1)"
  shows "glyph_row (map unlinked row) k (unlinked (row ! k)) = map unlinked row"
proof (rule nth_equalityI)
  fix i assume "i < length (glyph_row (map unlinked row) k (unlinked (row ! k)))"
  then have i: "i < length row" by (simp add: glyph_row_def)
  have cont: "unlinked (row ! (k + 1)) = continuation_cell (cell_attrs (row ! k)) None" if "is_wide (row ! k)" "k + 1 < length row"
    using plain_rowD(1) [OF assms(1) that(2)] that by simp
  have nc: "\<not> is_wide_continuation (row ! k)" using plain_rowD(2) [OF assms(1-3)] by (simp add: plain_cell_def)
  show "glyph_row (map unlinked row) k (unlinked (row ! k)) ! i = map unlinked row ! i"
    using i assms(2,4) cont nc by (auto simp: glyph_row_def glyph_nth_def) (simp_all add: unlinked_def)
qed (simp add: glyph_row_def)

lemma sends_redraw_lead:
  assumes job: "paint_job uw h0 g" and lead: "p_row l < g_rows h0" "p_col l < g_cols h0"
    and c: "c = rs_rows (active_grid g) ! p_row l ! p_col l" "contents c \<noteq> []"
    and free: "\<not> (0 < p_col l \<and> is_wide (rs_rows (active_grid g) ! p_row l ! (p_col l - 1)))"
    and ends: "p_col l + (if is_wide c then 2 else 1) \<ge> g_cols h0"
    and bs: "redraw_lead l c a = Some bs"
  shows "sends uw (replay_at h0 (shown g) p a) bs (replay_at h0 (shown g) (at_pos (p_row l) (g_cols h0)) a)"
proof -
  note j = paint_jobD [OF job] and row = shown_row [OF job lead(1)]
  let ?row = "rs_rows (active_grid g) ! p_row l" and ?A = "cell_attrs c" and ?w = "if is_wide c then 2 else 1 :: nat"
  obtain mv d bk where b: "write_move_to l = Some mv" "write_attrs_diff ?A a = Some d" "write_attrs_diff a ?A = Some bk"
      "bs = mv @ d @ utf8 (contents c) @ bk"
    using bs by (auto simp: redraw_lead_def bind_eq_Some_conv)
  have len: "p_col l < length ?row" using lead row(2) by simp
  obtain ch where ch: "contents c = [ch]" "is_text ch" "char_width uw ch = ?w" "unlinked c = printed_cell ch ?w ?A"
    using plain_glyph [OF plain_rowD(2) [OF row(1) len free, folded c(1)] c(2)] by metis
  have same: "glyph_row (map unlinked ?row) (p_col l) (printed_cell ch ?w ?A) = map unlinked ?row"
    using glyph_again [OF row(1) len free] ends row(2) ch(4) c(1) by simp
  have "sends uw (replay_at h0 (shown g) p a) mv (replay_at h0 (shown g) l a)" by (rule sends_move_to [OF b(1) lead])
  moreover have "sends uw (replay_at h0 (shown g) l a) d (replay_at h0 (shown g) l ?A)" by (rule sends_attrs [OF b(2)])
  moreover have "sends uw (replay_at h0 (shown g) l ?A) (utf8 (contents c)) (replay_at h0 (shown g) (at_pos (p_row l) (g_cols h0)) ?A)"
  proof -
    have u: "utf8 (contents c) = utf8_enc ch" by (simp add: ch(1) utf8_def)
    have e: "min (p_col l + ?w) (g_cols h0) = g_cols h0" using ends by simp
    have k: "(shown g)[p_row l := glyph_row (shown g ! p_row l) (p_col l) (printed_cell ch ?w ?A)] = shown g"
      unfolding row(3) same unfolding row(3) [symmetric] by simp
    show ?thesis
      unfolding u
    proof (rule sends_call [OF wire.printed [OF ch(2)]])
      fix h assume "replay_at h0 (shown g) l ?A h"
      from perform_print [OF this lead(2) ch(3) _ j(1) no_joiner_shown [OF job]]
      show "ok (perform uw (Print ch) h) (replay_at h0 (shown g) (at_pos (p_row l) (g_cols h0)) ?A)"
        unfolding k e by simp
    qed
  qed
  moreover have "sends uw (replay_at h0 (shown g) q ?A) bk (replay_at h0 (shown g) q a)" for q by (rule sends_attrs [OF b(3)])
  ultimately show ?thesis unfolding b(4) by (intro sends_append)
qed

lemma erase_space:
  assumes "k + 1 = length row" "\<not> is_wide (row ! k)" "\<not> is_wide_continuation (row ! k)" "row ! k = b"
  shows "erased_row (glyph_row row k (printed_cell ch 1 a)) k (k + 1) b = row"
  using space_erased [of k row ch a b] assms by (simp add: list_update_same_conv)

lemma bce_flags: "\<not> is_wide (bce a)" "\<not> is_wide_continuation (bce a)"
  by (simp_all add: bce_def)

lemma plain_at:
  assumes "plain_row uw row" "k < length row" "\<not> is_wide_continuation (row ! k)"
  shows "plain_cell uw (row ! k)"
proof (cases "0 < k \<and> is_wide (row ! (k - 1))")
  case True
  with assms show ?thesis by (auto simp: plain_row_def list_all_iff)
qed (rule plain_rowD(2) [OF assms(1,2)])

text \<open>From the parked cursor: save it, step back, erase the last cell, restore it.\<close>

lemma sends_erase_last:
  assumes r: "r < g_rows h0" and n: "0 < g_cols h0" and e: "write_erase_chars 1 = Some e"
    and R: "R[r := erased_row (R ! r) (g_cols h0 - 1) (g_cols h0) (bce a)] = R'"
  shows "sends uw (replay_at h0 R (at_pos r (g_cols h0)) a) (esc ''7'' @ [0x08] @ e @ esc ''8'') (replay_at h0 R' (at_pos r (g_cols h0)) a)"
proof -
  let ?e = "at_pos r (g_cols h0)" and ?l = "at_pos r (g_cols h0 - 1)"
  have w: "wire (EscDispatch [] False 0x37) (esc ''7'')" "wire (EscDispatch [] False 0x38) (esc ''8'')"
      "wire (CsiDispatch [[0]] [] False 0x58) e"
    using wire.escape [of "0x37"] wire.escape [of "0x38"] e wire.csi_empty [of "0x58"]
    by (simp_all add: write_erase_chars_def esc_def byte_def)
  have "sends uw (replay_at h0 R ?e a) (esc ''7'') (\<lambda>h. replay_at h0 R ?e a h \<and> saved_at ?e h)"
    by (rule sends_call [OF w(1) perform_decsc])
  moreover have "sends uw (\<lambda>h. replay_at h0 R ?e a h \<and> saved_at ?e h) [0x08] (\<lambda>h. replay_at h0 R ?l a h \<and> saved_at ?e h)"
  proof (rule sends_call [OF wire.control])
    fix h assume "replay_at h0 R ?e a h \<and> saved_at ?e h"
    then show "ok (perform uw (Execute 0x08) h) (\<lambda>h. replay_at h0 R ?l a h \<and> saved_at ?e h)"
      using perform_bs [of h0 R ?e a h uw] saved_at_keeps(1) [of ?e h uw] by (simp add: ok_conj del: perform.simps)
  qed simp
  moreover have "sends uw (\<lambda>h. replay_at h0 R ?l a h \<and> saved_at ?e h) e (\<lambda>h. replay_at h0 R' ?l a h \<and> saved_at ?e h)"
  proof (rule sends_call [OF w(3)])
    fix h assume "replay_at h0 R ?l a h \<and> saved_at ?e h"
    then show "ok (perform uw (CsiDispatch [[0]] [] False 0x58) h) (\<lambda>h. replay_at h0 R' ?l a h \<and> saved_at ?e h)"
      using perform_ech [of h0 R ?l a h uw 0] saved_at_keeps(2) [of ?e h h0 R ?l a uw 0] n R by (simp add: ok_conj del: perform.simps)
  qed
  moreover have "sends uw (\<lambda>h. replay_at h0 R' ?l a h \<and> saved_at ?e h) (esc ''8'') (replay_at h0 R' ?e a)"
  proof (rule sends_call [OF w(2)])
    fix h assume "replay_at h0 R' ?l a h \<and> saved_at ?e h"
    then show "ok (perform uw (EscDispatch [] False 0x38) h) (replay_at h0 R' ?e a)"
      using perform_decrc [of h0 R' ?l a h ?e uw] r by (simp del: perform.simps)
  qed
  ultimately show ?thesis by (intro sends_append)
qed

text \<open>
  Arming the wrap on a blank last cell: a space, the parked cursor saved, the cell erased with its own
  background, and the cursor restored.
\<close>

lemma sends_park:
  assumes job: "paint_job uw h0 g" and r: "r < g_rows h0"
    and c: "c = rs_rows (active_grid g) ! r ! (g_cols h0 - 1)" "contents c = []" "\<not> is_wide_continuation c"
    and bs: "park_on_blank r (g_cols h0) c a = Some bs"
  shows "sends uw (replay_at h0 (shown g) p a) bs (replay_at h0 (shown g) (at_pos r (g_cols h0)) a)"
proof -
  note j = paint_jobD [OF job] and row = shown_row [OF job r]
  let ?row = "rs_rows (active_grid g) ! r" and ?A = "cell_attrs c" and ?k = "g_cols h0 - 1" and ?n = "g_cols h0"
  let ?l = "at_pos r ?k" and ?e = "at_pos r ?n"
  let ?D = "(shown g)[r := glyph_row (shown g ! r) ?k (printed_cell 0x20 1 a)]"
  obtain mv d e bk where b: "write_move_to ?l = Some mv" "write_attrs_diff ?A a = Some d" "write_erase_chars 1 = Some e"
      "write_attrs_diff a ?A = Some bk" "bs = mv @ [0x20] @ d @ (esc ''7'' @ [0x08] @ e @ esc ''8'') @ bk"
    using bs by (auto simp: park_on_blank_def bind_eq_Some_conv)
  have k: "?k < ?n" "?k + 1 = ?n" "?k < length ?row" using j(9) row(2) by simp_all
  note bl = plain_blank [OF plain_at [OF row(1) k(3), folded c(1), OF c(3)] c(2)]
  have "erased_row (?D ! r) ?k (?k + 1) (bce ?A) = shown g ! r"
    unfolding nth_list_update_eq [OF r [folded row(4)]]
    by (rule erase_space) (use k row bl c in \<open>simp_all add: bce_flags\<close>)
  then have er: "?D[r := erased_row (?D ! r) ?k ?n (bce ?A)] = shown g" unfolding k(2) by simp
  have S: "sends uw (replay_at h0 (shown g) p a) mv (replay_at h0 (shown g) ?l a)"
    using r k(1) by (intro sends_move_to [OF b(1)]) simp_all
  have S1: "sends uw (replay_at h0 (shown g) ?l a) [0x20] (replay_at h0 ?D ?e a)"
  proof (rule sends_call [OF wire.printed [OF space_text(1)], unfolded space_text(2)])
    fix h assume "replay_at h0 (shown g) ?l a h"
    from perform_print [OF this _ j(6) _ j(1) no_joiner_shown [OF job]] k
    show "ok (perform uw (Print 0x20) h) (replay_at h0 ?D ?e a)" by (simp del: perform.simps)
  qed
  show ?thesis
    unfolding b(5) by (rule sends_append [OF S sends_append [OF S1 sends_append [OF sends_attrs [OF b(2)]
      sends_append [OF sends_erase_last [OF r j(9) b(3) er] sends_attrs [OF b(4)]]]]])
qed

lemma write_move_same: "p_row p + 1 \<le> u16_max \<Longrightarrow> write_move_from_to p p = Some []"
  by (simp add: write_move_from_to_def u16_add_def)

text \<open>The cell that is drawn again for a parked cursor is the lead of the last character, if the row ends in one.\<close>

lemma parked_lead:
  assumes "plain_row uw row" "length row = n" "0 < n"
  defines "l \<equiv> if 2 \<le> n \<and> is_wide_continuation (row ! (n - 1)) then n - 2 else n - 1"
  shows "\<not> (0 < l \<and> is_wide (row ! (l - 1)))" "l < n"
    "contents (row ! l) \<noteq> [] \<Longrightarrow> n \<le> l + (if is_wide (row ! l) then 2 else 1)"
    "contents (row ! l) = [] \<Longrightarrow> l = n - 1 \<and> \<not> is_wide_continuation (row ! (n - 1))"
proof -
  have len: "n - 1 < length row" "n - 2 < length row" using assms(2,3) by simp_all
  have "is_wide_continuation (row ! (n - 1)) \<longleftrightarrow> 2 \<le> n \<and> is_wide (row ! (n - 2))"
  proof (cases "0 < n - 1 \<and> is_wide (row ! (n - 1 - 1))")
    case True
    moreover have "is_wide_continuation (row ! (n - 1))"
      using True assms(1) len by (auto simp: plain_row_def list_all_iff)
    ultimately show ?thesis by (simp add: numeral_2_eq_2)
  next
    case False
    then have "\<not> is_wide_continuation (row ! (n - 1))" using plain_rowD(2) [OF assms(1) len(1)] by (simp add: plain_cell_def)
    with False show ?thesis by (auto simp: numeral_2_eq_2)
  qed
  note ends = this
  have two: "\<not> is_wide (row ! (n - 3))" if "3 \<le> n" "is_wide (row ! (n - 2))"
    using plain_rowD(1) [OF assms(1) len(2)] that by (auto simp: numeral_3_eq_3 numeral_2_eq_2)
  show "\<not> (0 < l \<and> is_wide (row ! (l - 1)))"
    using ends two by (auto simp: l_def numeral_2_eq_2 numeral_3_eq_3 split: if_splits)
  show "l < n" using assms(3) by (auto simp: l_def)
  show "n \<le> l + (if is_wide (row ! l) then 2 else 1)"
    using ends by (auto simp: l_def)
  assume blank: "contents (row ! l) = []"
  have "\<not> is_wide (row ! (n - 2))" if "2 \<le> n" "is_wide_continuation (row ! (n - 1))"
  proof -
    have "l = n - 2" using that by (simp add: l_def)
    with blank have "contents (row ! (n - 2)) = []" by simp
    then show ?thesis
      using plain_rowD(1) [OF assms(1) len(2)] plain_blank [OF plain_rowD(2) [OF assms(1) len(2)]]
      by (cases "0 < n - 2 \<and> is_wide (row ! (n - 2 - 1))") simp_all
  qed
  then show "l = n - 1 \<and> \<not> is_wide_continuation (row ! (n - 1))" using ends by (auto simp: l_def)
qed

lemma sends_cursor:
  assumes job: "paint_job uw h0 g" and q: "pos_in (g_rows h0) (g_cols h0) q" and p: "pos_in (g_rows h0) (g_cols h0) p"
    and bs: "write_cursor_position_formatted (visible_screen g) q (g_cols h0) (Some p) (Some a) = Some bs"
  shows "sends uw (replay_at h0 (shown g) p a) bs (replay_at h0 (shown g) q a)"
proof -
  note j = paint_jobD [OF job]
  have r: "p_row q < g_rows h0" "p_col q \<le> g_cols h0" using q by (simp_all add: pos_in_def)
  note row = shown_row [OF job r(1)]
  let ?row = "rs_rows (active_grid g) ! p_row q" and ?n = "g_cols h0"
  consider (parked) "p \<noteq> q" "p_col q = ?n" | (same) "p = q" | (move) "p \<noteq> q" "p_col q < ?n" using r(2) by linarith
  then show ?thesis
  proof cases
    case same
    then have "bs = []" using bs write_move_same [of q] fits_bounds(1) [OF j(8) r(1)] by (simp add: write_cursor_position_formatted_def)
    with same show ?thesis by (auto intro: sends_nothing)
  next
    case move
    then have "write_move_from_to p q = Some bs" using bs by (simp add: write_cursor_position_formatted_def)
    then show ?thesis using move(2) r(1) j(1) by (intro sends_move_from_to)
  next
    case parked
    define l where "l = (if 2 \<le> ?n \<and> is_wide_continuation (?row ! (?n - 1)) then ?n - 2 else ?n - 1)"
    note lead = parked_lead [OF row(1,2) j(9), folded l_def]
    have get: "vec_get ?row (?n - 1) = Some (?row ! (?n - 1))" "vec_get ?row l = Some (?row ! l)"
      using j(9) lead(2) row(2) by (simp_all add: vec_get_def)
    have c: "Some p \<noteq> Some q \<and> ?n \<le> p_col q" using parked by simp
    have eq: "(if has_contents (?row ! l) then redraw_lead (at_pos (p_row q) l) (?row ! l) a
        else park_on_blank (p_row q) ?n (?row ! (?n - 1)) a) = Some bs"
      using bs unfolding write_cursor_position_formatted_def Let_def option.case if_P [OF c] row(5) bind.bind_lunit get(1)
        l_def [symmetric] get(2) option.case .
    have q': "at_pos (p_row q) ?n = q" using parked(2) by (cases q) simp
    show ?thesis
    proof (cases "contents (?row ! l) = []")
      case True
      then have "park_on_blank (p_row q) ?n (?row ! (?n - 1)) a = Some bs" using eq by (simp add: has_contents_def)
      from sends_park [OF job r(1) refl _ _ this] lead(4) [OF True] True show ?thesis by (simp add: q')
    next
      case False
      then have "redraw_lead (at_pos (p_row q) l) (?row ! l) a = Some bs" using eq by (simp add: has_contents_def)
      from sends_redraw_lead [OF job _ _ _ False _ _ this] lead(1,2) lead(3) [OF False] r(1) show ?thesis by (simp add: q')
    qed
  qed
qed

lemma sends_finish:
  assumes job: "paint_job uw h0 g" and s: "drawn uw P h0 (shown g) s" "pos_in (g_rows h0) (g_cols h0) (pn_pos s)"
    and bs: "finish_contents g s = Some bs"
  shows "sends uw P bs (replay_at h0 (shown g) (at_pos (g_cursor_row g) (g_cursor_col g)) (g_current_attrs g))"
proof -
  note j = paint_jobD [OF job]
  let ?q = "at_pos (g_cursor_row g) (g_cursor_col g)"
  have q: "pos_in (g_rows h0) (g_cols h0) ?q" using j(2,3,4) by (simp add: pos_in_def grid_inv_def cursor_ok_def)
  obtain c d where b: "write_cursor_position_formatted (visible_screen g) ?q (g_cols h0) (Some (pn_pos s)) (Some (pn_attrs s)) = Some c"
      "write_attrs_diff (g_current_attrs g) (pn_attrs s) = Some d" "bs = pn_out s @ c @ d"
    using bs j(4) by (auto simp: finish_contents_def bind_eq_Some_conv)
  show ?thesis
    unfolding b(3) by (rule sends_append [OF s(1) [unfolded drawn_def] sends_append [OF sends_cursor [OF job q s(2) b(1)] sends_attrs [OF b(2)]]])
qed

lemma sends_full_paint:
  assumes job: "paint_job uw h0 g" and bs: "write_contents_full_paint g = Some bs"
  shows "sends uw (replay_at h0 rows p a) bs
    (replay_at h0 (shown g) (at_pos (g_cursor_row g) (g_cursor_col g)) (g_current_attrs g))"
proof -
  note j = paint_jobD [OF job]
  let ?rows = "rs_rows (active_grid g)" and ?n = "g_cols h0"
  let ?P = "replay_at h0 (replicate (g_rows h0) (blank_row ?n)) (at_pos 0 0) attrs_default"
  let ?s0 = "painter_at (at_pos 0 0) attrs_default"
  have d0: "drawn uw ?P h0 (screen_painted ?rows ?n 0) ?s0"
    using j(7) by (simp add: drawn_def painter_at_def screen_painted_ends sends_nothing)
  have p0: "pos_in (g_rows h0) ?n (pn_pos ?s0)" using j by (simp add: painter_at_def pos_in_def)
  obtain s where s: "paint_rows g [0..<g_rows g] False ?s0 = Some s" "drawn uw ?P h0 (shown g) s"
      "pos_in (g_rows h0) ?n (pn_pos s)"
    using drawn_rows [OF job _ d0 p0, of "g_rows h0" False] j(3,7)
    by (auto simp: ok_iff_ex shown_def screen_painted_ends(2))
  obtain body where body: "finish_contents g s = Some body" "bs = esc ''[m'' @ esc ''[H'' @ esc ''[J'' @ body"
    using bs s(1) by (auto simp: write_contents_full_paint_def bind_eq_Some_conv)
  show ?thesis
    using sends_append [OF sends_clear [OF j(10,9)] sends_finish [OF job s(2,3) body(1)]] by (simp add: body(2))
qed

end
