(* ===== verification/Replay_Diff.thy ===== *)
theory Replay_Diff
  imports Replay_Paint
begin

text \<open>
  The differential writers of \<open>grid/serialize.rs\<close>: replayed on a grid that shows the previous state they lead to the
  new one. A row is repainted in place, so the cells that are still to come may be those of the old row or, where a
  write cut a wide character in two, blanks that will be repainted.
\<close>

section \<open>A row half repainted\<close>

definition repainted :: "row \<Rightarrow> row \<Rightarrow> nat \<Rightarrow> row \<Rightarrow> bool" where
  "repainted new old k cur \<longleftrightarrow> good_row (length new) cur \<and> (\<forall>i < length new.
     if i < k then cur ! i = unlinked (new ! i)
     else cur ! i = unlinked (old ! i)
       \<or> new ! i \<noteq> old ! i \<and> contents (cur ! i) = [] \<and> \<not> is_wide (cur ! i) \<and> \<not> is_wide_continuation (cur ! i))"

lemma repaintedD:
  assumes "repainted new old k cur" "i < length new"
  shows "i < k \<Longrightarrow> cur ! i = unlinked (new ! i)"
    "k \<le> i \<Longrightarrow> cur ! i = unlinked (old ! i) \<or> new ! i \<noteq> old ! i \<and> contents (cur ! i) = [] \<and> \<not> is_wide (cur ! i)
       \<and> \<not> is_wide_continuation (cur ! i)"
    "length cur = length new" "row_ok cur"
  using assms by (auto simp: repainted_def good_row_def)

lemma unlinked_good: "good_row n row \<Longrightarrow> good_row n (map unlinked row)"
  by (auto simp: good_row_def row_ok_def list_all_iff cell_ok_def unlinked_def opt_link_ok_def)

lemma repainted_start: "good_row (length new) old \<Longrightarrow> repainted new old 0 (map unlinked old)"
  using unlinked_good [of "length new" old] by (simp add: repainted_def good_row_def)

lemma repainted_end: "repainted new old k cur \<Longrightarrow> length new \<le> k \<Longrightarrow> cur = map unlinked new"
  by (intro nth_equalityI) (auto simp: repainted_def good_row_def)

lemma plain_continuation:
  assumes "plain_row uw row" "i < length row"
  shows "is_wide_continuation (row ! i) \<longleftrightarrow> 0 < i \<and> is_wide (row ! (i - 1))"
proof (cases "0 < i \<and> is_wide (row ! (i - 1))")
  case True
  with assms show ?thesis by (auto simp: plain_row_def list_all_iff)
next
  case False
  from plain_rowD(2) [OF assms False] have "\<not> is_wide_continuation (row ! i)" by (simp add: plain_cell_def)
  with False show ?thesis by blast
qed

text \<open>Where a continuation stands and the new row has none, the rows differ: the cell will be repainted.\<close>

lemma repainted_differs:
  assumes "repainted new old k cur" "plain_row uw new" "k \<le> i" "i < length new" "is_wide_continuation (cur ! i)"
    "\<not> (0 < i \<and> is_wide (new ! (i - 1)))"
  shows "new ! i \<noteq> old ! i"
  using repaintedD(2) [OF assms(1,4,3)] plain_continuation [OF assms(2,4)] assms(5,6) by auto

lemma repainted_no_joiner:
  assumes "repainted new old k cur" "plain_row uw new" "plain_row uw old" "length old = length new"
  shows "list_all (\<lambda>c. \<not> ends_with (contents c) ZWJ) cur"
proof -
  have "\<not> ends_with (contents (cur ! i)) ZWJ" if i: "i < length new" for i
    using repaintedD(1,2) [OF assms(1) i] plain_no_joiner [OF assms(2) i] plain_no_joiner [OF assms(3), of i] i assms(4)
    by (cases "i < k") (auto simp: ends_with_def)
  then show ?thesis using assms(1) by (simp add: list_all_length repainted_def good_row_def)
qed

text \<open>Writing a character of the new row.\<close>

lemma glyph_repainted:
  assumes rep: "repainted new old c cur" and pl: "plain_row uw new" and c: "c < length new"
    and lead: "\<not> (0 < c \<and> is_wide (new ! (c - 1)))" and full: "contents (new ! c) \<noteq> []"
  shows "repainted new old (if is_wide (new ! c) then c + 2 else c + 1) (glyph_row cur c (unlinked (new ! c)))"
proof -
  let ?g = "glyph_row cur c (unlinked (new ! c))" and ?m = "if is_wide (new ! c) then c + 2 else c + 1"
  note D = repaintedD [OF rep c]
  have nc: "\<not> is_wide_continuation (new ! c)" using plain_continuation [OF pl c] lead by blast
  obtain ch where "contents (new ! c) = [ch]" using plain_glyph [OF plain_rowD(2) [OF pl c lead] full] by metis
  then have "cell_ok (unlinked (new ! c))" using nc by (simp add: cell_ok_def unlinked_def MAX_CLUSTER_JOINERS_def)
  then have good: "good_row (length new) ?g"
    using rep c nc by (intro good_glyph_row) (simp_all add: repainted_def)
  have left: "\<not> (0 < c \<and> is_wide_continuation (cur ! c))"
  proof
    assume h: "0 < c \<and> is_wide_continuation (cur ! c)"
    then have "is_wide (cur ! (c - 1))" using row_ok_cont [OF D(4), of c] c D(3) by auto
    then show False using h lead repaintedD(1) [OF rep, of "c - 1"] c by simp
  qed
  have nth: "?g ! i = (if i = c then unlinked (new ! c) else glyph_nth cur c (is_wide (new ! c))
      (continuation_cell (cell_attrs (new ! c)) None) i)" if "i < length new" for i
    using that D(3) by (simp add: glyph_row_def) (simp add: unlinked_def)
  have "if i < ?m then ?g ! i = unlinked (new ! i)
     else ?g ! i = unlinked (old ! i)
       \<or> new ! i \<noteq> old ! i \<and> contents (?g ! i) = [] \<and> \<not> is_wide (?g ! i) \<and> \<not> is_wide_continuation (?g ! i)"
    if i: "i < length new" for i
  proof -
    note d = repaintedD(1,2) [OF rep i]
    consider "i < c" | "i = c" | "i = c + 1" | "c + 2 = i" | "c + 2 < i" by linarith
    then show ?thesis
    proof cases
      case 1
      then show ?thesis using nth [OF i] d left by (auto simp: glyph_nth_def)
    next
      case 2
      then show ?thesis using nth [OF i] by simp
    next
      case 3
      show ?thesis
      proof (cases "is_wide (new ! c)")
        case True
        then show ?thesis using nth [OF i] plain_rowD(1) [OF pl i] 3 by (simp add: glyph_nth_def)
      next
        case False
        have "is_wide (cur ! c) \<Longrightarrow> is_wide_continuation (cur ! i)" using row_ok_lead [OF D(4), of c] i 3 D(3) by simp
        with repainted_differs [OF rep pl _ i] False 3 nth [OF i] d show ?thesis by (auto simp: glyph_nth_def)
      qed
    next
      case 4
      have "is_wide (cur ! (c + 1)) \<Longrightarrow> is_wide_continuation (cur ! i)" using row_ok_lead [OF D(4), of "c + 1"] i 4 D(3) by auto
      moreover have "is_wide (new ! c) \<Longrightarrow> \<not> is_wide (new ! (c + 1))" using plain_rowD(1) [OF pl, of "c + 1"] i 4 by simp
      ultimately show ?thesis using repainted_differs [OF rep pl _ i] 4 nth [OF i] d by (auto simp: glyph_nth_def)
    next
      case 5
      then show ?thesis using nth [OF i] d by (auto simp: glyph_nth_def)
    qed
  qed
  with good show ?thesis by (simp add: repainted_def)
qed

text \<open>Erasing a run of blanks.\<close>

lemma erase_repainted:
  assumes rep: "repainted new old st cur" and pl: "plain_row uw new" and run: "st < e" "e \<le> length new"
    and blank: "\<forall>i. st \<le> i \<and> i < e \<longrightarrow> unlinked (new ! i) = bce A"
  shows "repainted new old e (erased_row cur st e (bce A))"
proof -
  let ?r = "erased_row cur st e (bce A)"
  have st: "st < length new" using run by simp
  note D = repaintedD [OF rep st]
  have flags: "\<not> is_wide (new ! i) \<and> \<not> is_wide_continuation (new ! i)" if "st \<le> i" "i < e" for i
    using blank that bce_flags [of A] by (metis unlinked_simps(2,3))
  have "cell_ok (bce A)" by (simp add: cell_ok_def bce_def cell_default_def opt_link_ok_def)
  then have good: "good_row (length new) ?r"
    using rep run bce_flags [of A] by (intro good_erased_row) (simp_all add: repainted_def)
  have left: "\<not> (0 < st \<and> is_wide_continuation (cur ! st))"
  proof
    assume h: "0 < st \<and> is_wide_continuation (cur ! st)"
    then have "is_wide (cur ! (st - 1))" using row_ok_cont [OF D(4), of st] st D(3) by auto
    then have "is_wide (new ! (st - 1))" using h repaintedD(1) [OF rep, of "st - 1"] st by simp
    then show False using plain_continuation [OF pl st] h flags [of st] run(1) by simp
  qed
  have "if i < e then ?r ! i = unlinked (new ! i)
     else ?r ! i = unlinked (old ! i)
       \<or> new ! i \<noteq> old ! i \<and> contents (?r ! i) = [] \<and> \<not> is_wide (?r ! i) \<and> \<not> is_wide_continuation (?r ! i)"
    if i: "i < length new" for i
  proof -
    note d = repaintedD(1,2) [OF rep i]
    have nth: "?r ! i = (if erased cur st e i then bce A else cur ! i)" using i D(3) by (simp add: erased_row_def)
    consider "i < st" | "st \<le> i" "i < e" | "i = e" | "e < i" by linarith
    then show ?thesis
    proof cases
      case 1
      then have "\<not> erased cur st e i" using left run by (auto simp: erased_def)
      with 1 d nth run show ?thesis by simp
    next
      case 2
      then show ?thesis using nth blank by (simp add: erased_def)
    next
      case 3
      have "is_wide (cur ! (e - 1)) \<Longrightarrow> is_wide_continuation (cur ! i)" using row_ok_lead [OF D(4), of "e - 1"] i 3 run D(3) by simp
      with repainted_differs [OF rep pl _ i] flags [of "e - 1"] 3 run nth d bce_flags [of A] show ?thesis
        by (auto simp: erased_def bce_def)
    next
      case 4
      then show ?thesis using nth d run by (auto simp: erased_def)
    qed
  qed
  with good show ?thesis by (simp add: repainted_def)
qed

text \<open>A cell that has not changed is already there.\<close>

lemma keep_repainted:
  assumes rep: "repainted new old c cur" and pl: "plain_row uw new" "plain_row uw old" and c: "c < length new"
    and same: "new ! c = old ! c" and len: "length old = length new"
  shows "repainted new old (if is_wide (new ! c) then c + 2 else c + 1) cur"
proof -
  have cur: "cur ! c = unlinked (new ! c)" using repaintedD(2) [OF rep c] same by auto
  have next_cell: "cur ! (c + 1) = unlinked (new ! (c + 1))" if "is_wide (new ! c)" "c + 1 < length new"
  proof -
    have "is_wide_continuation (cur ! (c + 1))"
      using row_ok_lead [OF repaintedD(4) [OF rep c], of c] cur that repaintedD(3) [OF rep c] by simp
    then have "cur ! (c + 1) = unlinked (old ! (c + 1))" using repaintedD(2) [OF rep that(2)] by auto
    then show ?thesis using plain_rowD(1) [OF pl(1), of "c + 1"] plain_rowD(1) [OF pl(2), of "c + 1"] that same len by simp
  qed
  show ?thesis
    using rep cur next_cell unfolding repainted_def by (auto simp: less_Suc_eq)
qed

section \<open>The cells of a row\<close>

definition diff_job :: "unicode_width \<Rightarrow> grid \<Rightarrow> row list \<Rightarrow> row_ctx \<Rightarrow> row \<Rightarrow> bool" where
  "diff_job uw h0 rows ctx old \<longleftrightarrow> row_job uw h0 rows ctx \<and> plain_row uw old \<and> good_row (g_cols h0) old"

lemma diff_jobD:
  assumes "diff_job uw h0 rows ctx old"
  shows "row_job uw h0 rows ctx" "plain_row uw old" "length old = length (rc_cells ctx)" "good_row (length (rc_cells ctx)) old"
  using assms row_jobD(7) [of uw h0 rows ctx] by (auto simp: diff_job_def good_row_def)

text \<open>The painter has repainted the row of \<open>ctx\<close> up to column \<open>k\<close>.\<close>

definition redrawn :: "unicode_width \<Rightarrow> (grid \<Rightarrow> bool) \<Rightarrow> grid \<Rightarrow> row list \<Rightarrow> row_ctx \<Rightarrow> row \<Rightarrow> nat \<Rightarrow> painter \<Rightarrow> bool" where
  "redrawn uw P h0 rows ctx old k s \<longleftrightarrow> (\<exists>cur. repainted (rc_cells ctx) old k cur \<and> drawn uw P h0 (rows[rc_row ctx := cur]) s)"

lemma redrawn_cong:
  "redrawn uw P h0 rows ctx old k s \<Longrightarrow> pn_out s' = pn_out s \<Longrightarrow> pn_pos s' = pn_pos s \<Longrightarrow> pn_attrs s' = pn_attrs s \<Longrightarrow>
    redrawn uw P h0 rows ctx old k s'"
  unfolding redrawn_def by (blast intro: drawn_cong)

lemma no_joiner_redrawn:
  assumes "diff_job uw h0 rows ctx old" "repainted (rc_cells ctx) old k cur"
  shows "no_joiner (rows[i := cur])"
proof -
  note d = diff_jobD [OF assms(1)]
  have "no_joiner rows" "plain_row uw (rc_cells ctx)" using row_jobD [OF d(1)] by simp_all
  with repainted_no_joiner [OF assms(2) _ d(2,3)] show ?thesis by (simp add: no_joiner_def list_all_update)
qed

lemma redrawn_contents:
  assumes job: "diff_job uw h0 rows ctx old" and c: "c < g_cols h0"
    and lead: "\<not> (0 < c \<and> is_wide (rc_cells ctx ! (c - 1)))" and full: "contents (rc_cells ctx ! c) \<noteq> []"
    and s: "redrawn uw P h0 rows ctx old c s" "pos_in (g_rows h0) (g_cols h0) (pn_pos s)"
  shows "ok (paint_contents ctx c (rc_cells ctx ! c) s) (\<lambda>s'.
    redrawn uw P h0 rows ctx old (if is_wide (rc_cells ctx ! c) then c + 2 else c + 1) s'
    \<and> pos_in (g_rows h0) (g_cols h0) (pn_pos s') \<and> pn_wide s' = pn_wide s \<and> pn_erase s' = pn_erase s)"
proof -
  note d = diff_jobD [OF job] and j = row_jobD [OF diff_jobD(1) [OF job]]
  from s(1) obtain cur where cur: "repainted (rc_cells ctx) old c cur" "drawn uw P h0 (rows[rc_row ctx := cur]) s"
    by (auto simp: redrawn_def)
  have "repainted (rc_cells ctx) old (if is_wide (rc_cells ctx ! c) then c + 2 else c + 1)
      (glyph_row cur c (unlinked (rc_cells ctx ! c)))"
    using glyph_repainted [OF cur(1) j(4) _ lead full] c j(7) by simp
  with drawn_glyph [OF d(1) c refl lead full no_joiner_redrawn [OF job cur(1)] cur(2) s(2)] show ?thesis
    by (auto simp: redrawn_def elim!: ok_mono_all)
qed

lemma redrawn_flush:
  assumes job: "diff_job uw h0 rows ctx old"
    and s: "redrawn uw P h0 rows ctx old st s" "pos_in (g_rows h0) (g_cols h0) (pn_pos s)"
    and run: "st < e" "e \<le> g_cols h0" "\<forall>i. st \<le> i \<and> i < e \<longrightarrow> unlinked (rc_cells ctx ! i) = bce A"
    and stop: "stop = Some e \<or> stop = None \<and> e = g_cols h0"
  shows "ok (flush_erase_run (Some (st, A)) (rc_row ctx) stop s) (\<lambda>s'. redrawn uw P h0 rows ctx old e s'
    \<and> pos_in (g_rows h0) (g_cols h0) (pn_pos s') \<and> pn_wide s' = pn_wide s \<and> pn_erase s' = pn_erase s)"
proof -
  note d = diff_jobD [OF job] and j = row_jobD [OF diff_jobD(1) [OF job]]
  from s(1) obtain cur where cur: "repainted (rc_cells ctx) old st cur" "drawn uw P h0 (rows[rc_row ctx := cur]) s"
    by (auto simp: redrawn_def)
  have "repainted (rc_cells ctx) old e (erased_row cur st e (bce A))"
    using erase_repainted [OF cur(1) j(4) run(1) _ run(3)] run(2) j(7) by simp
  with drawn_erased [OF d(1) cur(2) s(2) run(1,2) stop, of A] show ?thesis
    by (auto simp: redrawn_def elim!: ok_mono_all)
qed

text \<open>The differential painter, on a row it repaints.\<close>

definition repainting :: "unicode_width \<Rightarrow> (grid \<Rightarrow> bool) \<Rightarrow> grid \<Rightarrow> row list \<Rightarrow> row_ctx \<Rightarrow> row \<Rightarrow> nat \<Rightarrow> painter \<Rightarrow> bool" where
  "repainting uw P h0 rows ctx old k s \<longleftrightarrow> diff_job uw h0 rows ctx old \<and> redrawn uw P h0 rows ctx old k s"

interpretation diff: row_painter "repainting uw P h0 rows ctx old" "g_rows h0" "g_cols h0" ctx uw for uw P h0 rows ctx old
proof (unfold_locales, goal_cases)
  case (1 k s s')
  then show ?case by (auto simp: repainting_def intro: redrawn_cong)
next
  case (2 k s)
  then show ?case using row_jobD(4,7) [of uw h0 rows ctx] by (simp add: repainting_def diff_job_def)
next
  case (3 c s)
  then show ?case using redrawn_contents [of uw h0 rows ctx old c P s] by (auto simp: repainting_def elim!: ok_mono_all)
next
  case (4 st s e A stop)
  then show ?case
    using redrawn_flush [of uw h0 rows ctx old P st s e A stop] by (auto simp: repainting_def blank_run_def elim!: ok_mono_all)
qed

lemma repainting_keep:
  assumes "repainting uw P h0 rows ctx old c s" "c < g_cols h0" "rc_cells ctx ! c = old ! c"
  shows "repainting uw P h0 rows ctx old (if is_wide (rc_cells ctx ! c) then c + 2 else c + 1) s"
proof -
  have job: "diff_job uw h0 rows ctx old" using assms(1) by (simp add: repainting_def)
  note d = diff_jobD [OF job] and j = row_jobD [OF diff_jobD(1) [OF job]]
  from assms(1) obtain cur where "repainted (rc_cells ctx) old c cur" "drawn uw P h0 (rows[rc_row ctx := cur]) s"
    by (auto simp: repainting_def redrawn_def)
  with keep_repainted [OF _ j(4) d(2) _ assms(3) d(3)] assms(2) j(7) job show ?thesis
    unfolding repainting_def redrawn_def by metis
qed

lemma diff_cell_inv:
  assumes job: "diff_job uw h0 rows ctx old" and c: "c < g_cols h0"
    and inv: "cells_inv (repainting uw P h0 rows ctx old) (g_rows h0) (g_cols h0) (rc_cells ctx) c s"
  shows "ok (diff_cell uw ctx (c, rc_cells ctx ! c, old ! c) s)
    (cells_inv (repainting uw P h0 rows ctx old) (g_rows h0) (g_cols h0) (rc_cells ctx) (Suc c))"
proof (cases "pn_wide s")
  case True
  then show ?thesis using diff.skip_wide [OF inv c] by (simp add: diff_cell_def)
next
  case False
  let ?c = "rc_cells ctx ! c"
  have col: "as_u16 c = c" using as_u16_col [of "g_rows h0" "g_cols h0" c] row_jobD(8) [OF diff_jobD(1) [OF job]] c by simp
  from diff.flush_before [OF inv c False] obtain s1
    where s1: "flush_before ctx c ?c (s\<lparr>pn_wide := is_wide ?c\<rparr>) = Some s1"
      "cells_ready (repainting uw P h0 rows ctx old) (g_rows h0) (g_cols h0) (rc_cells ctx) c s1"
    by (auto simp: ok_iff_ex)
  let ?s1 = "s1\<lparr>pn_repaint := False\<rparr>"
  have eq: "diff_cell uw ctx (c, ?c, old ! c) s = (if pn_repaint s1 \<or> ?c \<noteq> old ! c
      then (if has_contents ?c
            then map_option (\<lambda>s. s\<lparr>pn_repaint := narrows_on_replay uw ?c\<rparr>) (paint_contents ctx c ?c ?s1)
            else Some (start_erase c ?c ?s1))
      else Some ?s1)"
    using False s1(1) col by (simp add: diff_cell_def Let_def map_conv_bind_option comp_def)
  have ready: "cells_ready (repainting uw P h0 rows ctx old) (g_rows h0) (g_cols h0) (rc_cells ctx) c ?s1" using s1(2) by simp
  then have here: "repainting uw P h0 rows ctx old c ?s1" if "pn_erase ?s1 = None"
    using that unfolding cells_ready_def by simp
  have "cells_inv (repainting uw P h0 rows ctx old) (g_rows h0) (g_cols h0) (rc_cells ctx) (Suc c) ?s1" if "?c = old ! c"
    by (rule diff.keep [OF ready c repainting_keep [OF here c that]])
  then show ?thesis
    using diff.glyph [OF ready c] diff.blank [OF ready c] unfolding eq by (auto simp: has_contents_def ok_iff_ex)
qed

section \<open>Rows and screens\<close>

lemma wrap_redraw_ok:
  assumes job: "diff_job uw h0 rows ctx old" and q: "pos_in (g_rows h0) (g_cols h0) (pn_pos s)"
  shows "ok (wrap_redraw ctx old w s) (\<lambda>r. r \<longrightarrow> rc_cells ctx ! 0 = old ! 0 \<and> p_row (pn_pos s) + 1 = rc_row ctx
    \<and> p_col (pn_pos s) = g_cols h0)"
proof -
  note d = diff_jobD [OF job] and j = row_jobD [OF diff_jobD(1) [OF job]]
  have "u16_add (p_row (pn_pos s)) 1 = Some (p_row (pn_pos s) + 1)" using q j(8) by (simp add: u16_add_def pos_in_def fits_bounds)
  moreover have "vec_get (rc_cells ctx) 0 = Some (rc_cells ctx ! 0)" "vec_get old 0 = Some (old ! 0)"
    using j(7,10) d(3) by (simp_all add: vec_get_def)
  ultimately show ?thesis using q j(6) by (auto simp: wrap_redraw_def pos_in_def)
qed

text \<open>The wrap that is performed on an unchanged blank leaves the row as it is.\<close>

lemma redrawn_wrapped_blank:
  assumes job: "diff_job uw h0 rows ctx old" and row: "rows ! rc_row ctx = map unlinked old"
    and s: "drawn uw P h0 rows s" and p: "p_row (pn_pos s) + 1 = rc_row ctx" "p_col (pn_pos s) = g_cols h0"
    and blank: "contents (old ! 0) = []" and first: "rc_cells ctx ! 0 = old ! 0"
  shows "ok (do { s \<leftarrow> switch_attrs (cell_attrs (rc_cells ctx ! 0)) s; e \<leftarrow> write_erase_chars 1;
      Some ((emit ([0x20, 0x08] @ e) s)\<lparr>pn_pos := at_pos (rc_row ctx) 0\<rparr>) })
    (\<lambda>s'. drawn uw P h0 rows s' \<and> pn_pos s' = at_pos (rc_row ctx) 0)"
proof -
  note d = diff_jobD [OF job] and j = row_jobD [OF diff_jobD(1) [OF job]]
  let ?A = "cell_attrs (rc_cells ctx ! 0)" and ?t = "at_pos (rc_row ctx) 0" and ?cur = "map unlinked old"
  have len: "0 < length old" using d(3) j(7,10) by simp
  from plain_blank [OF plain_rowD(2) [OF d(2) len] blank] first
  have bl: "unlinked (old ! 0) = bce ?A" "\<not> is_wide (?cur ! 0)" "\<not> is_wide_continuation (?cur ! 0)"
    using len plain_continuation [OF d(2) len] bce_flags by simp_all
  then have same: "?cur[0 := bce ?A] = ?cur" "rows[rc_row ctx := ?cur] = rows" using len row j(2,5) by (simp_all add: list_update_same_conv)
  obtain dd where dd: "write_attrs_diff ?A (pn_attrs s) = Some dd" "switch_attrs ?A s = Some (emit dd (s\<lparr>pn_attrs := ?A\<rparr>))"
    by (rule switch_attrs_bytes)
  obtain e where e: "write_erase_chars 1 = Some e" using ok_write_erase_chars [of 1] by (auto simp: ok_iff_ex)
  let ?s' = "(emit ([0x20, 0x08] @ e) (emit dd (s\<lparr>pn_attrs := ?A\<rparr>)))\<lparr>pn_pos := ?t\<rparr>"
  have "sends uw (replay_at h0 rows (pn_pos s) ?A) ([0x20, 0x08] @ e) (replay_at h0 rows ?t ?A)"
    using sends_wrapped_blank [OF d(1) row [symmetric] _ bl(2,3) p e, of ?A] d(3) j(7) same by simp
  then have "drawn uw P h0 rows ?s'"
    by (rule drawn_more [OF s sends_append [OF sends_attrs [OF dd(1)]]]) (simp_all add: emit_def)
  then show ?thesis unfolding dd(2) e bind.bind_lunit by simp
qed

lemma redrawn_row:
  assumes job: "diff_job uw h0 rows ctx old" and row: "rows ! rc_row ctx = map unlinked old"
    and s: "drawn uw P h0 rows s" "pos_in (g_rows h0) (g_cols h0) (pn_pos s)"
  shows "ok (write_row_diff uw ctx old w s) (\<lambda>s'. drawn uw P h0 (rows[rc_row ctx := map unlinked (rc_cells ctx)]) s'
    \<and> pos_in (g_rows h0) (g_cols h0) (pn_pos s'))"
proof -
  note d = diff_jobD [OF job] and j = row_jobD [OF diff_jobD(1) [OF job]]
  let ?row = "rc_cells ctx" and ?n = "g_cols h0"
  obtain r where r: "wrap_redraw ctx old w s = Some r"
      "r \<Longrightarrow> ?row ! 0 = old ! 0 \<and> p_row (pn_pos s) + 1 = rc_row ctx \<and> p_col (pn_pos s) = ?n"
    using wrap_redraw_ok [OF job s(2), of w] by (auto simp: ok_iff_ex)
  have first: "vec_get ?row 0 = Some (?row ! 0)" using j(7,10) by (simp add: vec_get_def)
  let ?pre = "if r \<and> \<not> has_contents (?row ! 0) then do { s \<leftarrow> switch_attrs (cell_attrs (?row ! 0)) s; e \<leftarrow> write_erase_chars 1;
      Some ((emit ([0x20, 0x08] @ e) s)\<lparr>pn_pos := at_pos (rc_row ctx) 0\<rparr>) } else Some s"
  have "ok ?pre (\<lambda>s'. drawn uw P h0 rows s' \<and> pos_in (g_rows h0) ?n (pn_pos s'))"
  proof (cases "r \<and> \<not> has_contents (?row ! 0)")
    case True
    then have "contents (old ! 0) = []" "?row ! 0 = old ! 0" using r(2) by (auto simp: has_contents_def)
    from redrawn_wrapped_blank [OF job row s(1) _ _ this] r(2) True j(5) show ?thesis
      by (auto simp: pos_in_def elim!: ok_mono_all)
  next
    case False
    show ?thesis unfolding if_not_P [OF False] using s by simp
  qed
  then obtain s1 where s1: "?pre = Some s1" "drawn uw P h0 rows s1" "pos_in (g_rows h0) ?n (pn_pos s1)" by (auto simp: ok_iff_ex)
  let ?s1 = "s1\<lparr>pn_wide := False, pn_erase := None, pn_repaint := r \<and> has_contents (?row ! 0)\<rparr>"
  have "rows[rc_row ctx := map unlinked old] = rows" using row j(2,5) by (simp add: list_update_same_conv)
  then have "redrawn uw P h0 rows ctx old 0 ?s1"
    using repainted_start [OF d(4)] s1(2) unfolding redrawn_def by (intro exI [of _ "map unlinked old"]) (auto intro: drawn_cong)
  then have inv: "cells_inv (repainting uw P h0 rows ctx old) (g_rows h0) ?n ?row 0 ?s1"
    using diff.start [of uw P h0 rows ctx old s1] s1(3) job by (simp add: cells_inv_def repainting_def)
  have step: "ok (diff_cell uw ctx (c, zip ?row old ! c) s)
      (cells_inv (repainting uw P h0 rows ctx old) (g_rows h0) ?n ?row (Suc c))"
    if "c < length (zip ?row old)" "cells_inv (repainting uw P h0 rows ctx old) (g_rows h0) ?n ?row c s" for c s
    using diff_cell_inv [OF job _ that(2)] that(1) d(3) j(7) by simp
  have "ok (fold_opt (diff_cell uw ctx) (List.enumerate 0 (zip ?row old)) ?s1)
      (cells_inv (repainting uw P h0 rows ctx old) (g_rows h0) ?n ?row (0 + length (zip ?row old)))"
    using step inv by (intro fold_opt_enumerate) simp_all
  then obtain s2 where s2: "fold_opt (diff_cell uw ctx) (List.enumerate 0 (zip ?row old)) ?s1 = Some s2"
      "cells_inv (repainting uw P h0 rows ctx old) (g_rows h0) ?n ?row ?n s2"
    using j(7) d(3) by (auto simp: ok_iff_ex)
  have "repainting uw P h0 rows ctx old k s' \<Longrightarrow> ?n \<le> k \<Longrightarrow> drawn uw P h0 (rows[rc_row ctx := map unlinked ?row]) s'" for k s'
    using repainted_end [of ?row old k] j(7) by (auto simp: repainting_def redrawn_def)
  then have "ok (flush_erase_run (pn_erase s2) (rc_row ctx) None (s2\<lparr>pn_erase := None\<rparr>))
      (\<lambda>s'. drawn uw P h0 (rows[rc_row ctx := map unlinked ?row]) s' \<and> pos_in (g_rows h0) ?n (pn_pos s'))"
    using diff.finish [OF s2(2)] by (auto elim!: ok_mono_all)
  then show ?thesis unfolding write_row_diff_def r(1) first bind.bind_lunit s1(1) s2(1) .
qed

text \<open>The screen when the first \<open>k\<close> rows are those of the new grid.\<close>

definition screen_between :: "row list \<Rightarrow> row list \<Rightarrow> nat \<Rightarrow> row list" where
  "screen_between new old k = map (\<lambda>i. map unlinked (if i < k then new ! i else old ! i)) [0..<length new]"

lemma screen_between_simps [simp]:
  "length (screen_between new old k) = length new"
  "i < length new \<Longrightarrow> screen_between new old k ! i = map unlinked (if i < k then new ! i else old ! i)"
  by (simp_all add: screen_between_def)

lemma screen_between_Suc:
  "k < length new \<Longrightarrow> (screen_between new old k)[k := map unlinked (new ! k)] = screen_between new old (Suc k)"
  by (intro nth_equalityI) (auto simp: nth_list_update less_Suc_eq)

lemma screen_between_ends:
  "length old = length new \<Longrightarrow> screen_between new old 0 = map (map unlinked) old"
  "length new \<le> k \<Longrightarrow> screen_between new old k = map (map unlinked) new"
  by (intro nth_equalityI; simp)+

definition diff_pair :: "unicode_width \<Rightarrow> grid \<Rightarrow> grid \<Rightarrow> grid \<Rightarrow> bool" where
  "diff_pair uw h0 g prev \<longleftrightarrow> paint_job uw h0 g \<and> paint_job uw h0 prev"

lemma diff_pair_job:
  assumes pair: "diff_pair uw h0 g prev" and k: "k < g_rows h0"
  defines "new \<equiv> rs_rows (active_grid g)" and "old \<equiv> rs_rows (active_grid prev)"
  shows "diff_job uw h0 (screen_between new old k) (row_context g k (new ! k) w) (old ! k)"
proof -
  have jobs: "paint_job uw h0 g" "paint_job uw h0 prev" using pair by (simp_all add: diff_pair_def)
  note g = paint_jobD [OF jobs(1), folded new_def] and p = paint_jobD [OF jobs(2), folded old_def]
  have nj: "list_all (\<lambda>c. \<not> ends_with (contents c) ZWJ) (map unlinked row)" if "plain_row uw row" for row
    using that plain_no_joiner [of uw row] by (simp add: list_all_length)
  have "no_joiner (screen_between new old k)"
    using g(5,7) p(5,7) nj by (simp add: no_joiner_def list_all_length)
  moreover have "plain_row uw (new ! k)" "length (new ! k) = g_cols h0"
    using g(5,7) active_row [OF g(2), of k] k g(3,4) by (simp_all add: list_all_length new_def)
  moreover have "plain_row uw (old ! k)" "good_row (g_cols h0) (old ! k)"
    using p(5,7) active_row [OF p(2), of k] k p(3,4) by (simp_all add: list_all_length old_def)
  ultimately show ?thesis
    using g k by (simp add: diff_job_def row_job_def ctx_ok_def row_context_def)
qed

lemma redrawn_rows:
  assumes pair: "diff_pair uw h0 g prev" and k: "k + n \<le> g_rows h0"
    and s: "drawn uw P h0 (screen_between (rs_rows (active_grid g)) (rs_rows (active_grid prev)) k) s"
      "pos_in (g_rows h0) (g_cols h0) (pn_pos s)"
  shows "ok (diff_rows uw g prev [k..<k + n] w w' s) (\<lambda>s'.
    drawn uw P h0 (screen_between (rs_rows (active_grid g)) (rs_rows (active_grid prev)) (k + n)) s'
    \<and> pos_in (g_rows h0) (g_cols h0) (pn_pos s'))"
  using k s
proof (induction n arbitrary: k s w w')
  case (Suc n)
  have jobs: "paint_job uw h0 g" "paint_job uw h0 prev" using pair by (simp_all add: diff_pair_def)
  note g = paint_jobD [OF jobs(1)] and p = paint_jobD [OF jobs(2)]
  let ?new = "rs_rows (active_grid g)" and ?old = "rs_rows (active_grid prev)"
  have k: "k < g_rows h0" using Suc.prems(1) by simp
  have get: "rs_get (visible_screen g) k = Some (?new ! k)" "rs_get (visible_screen prev) k = Some (?old ! k)"
    using k g(7) p(7) by (simp_all add: visible_screen_eq rs_get_def vec_get_def)
  have row: "screen_between ?new ?old k ! rc_row (row_context g k (?new ! k) w) = map unlinked (?old ! k)"
    using k g(7) by (simp add: row_context_def)
  have "ok (write_row_diff uw (row_context g k (?new ! k) w) (?old ! k) w' s)
      (\<lambda>s'. drawn uw P h0 (screen_between ?new ?old (Suc k)) s' \<and> pos_in (g_rows h0) (g_cols h0) (pn_pos s'))"
    using redrawn_row [OF diff_pair_job [OF pair k] row Suc.prems(2,3), of w'] k g(7) screen_between_Suc [of k ?new ?old]
    by (simp add: row_context_def)
  then obtain s1 where s1: "write_row_diff uw (row_context g k (?new ! k) w) (?old ! k) w' s = Some s1"
      "drawn uw P h0 (screen_between ?new ?old (Suc k)) s1" "pos_in (g_rows h0) (g_cols h0) (pn_pos s1)"
    by (auto simp: ok_iff_ex)
  have nxt: "u16_add k 1 = Some (k + 1)" using fits_bounds(1) [OF g(8) k] by (simp add: u16_add_def)
  have list: "[k..<k + Suc n] = k # [Suc k..<Suc k + n]" by (simp add: upt_conv_Cons)
  have "diff_rows uw g prev [k..<k + Suc n] w w' s
      = diff_rows uw g prev [Suc k..<Suc k + n] (row_is_continuation g (k + 1)) (row_is_continuation prev (k + 1)) s1"
    unfolding list diff_rows.simps get prod.case option.case s1(1) bind.bind_lunit nxt ..
  with Suc.IH [OF _ s1(2,3)] Suc.prems(1) show ?case by simp
qed simp

text \<open>The contents part of a differential replay, sizes and screens being the same.\<close>

lemma sends_diff_paint:
  assumes pair: "diff_pair uw h0 g prev"
    and s: "diff_rows uw g prev [0..<g_rows g] False False
      (painter_at (at_pos (g_cursor_row prev) (g_cursor_col prev)) (g_current_attrs prev)) = Some s"
    and bs: "finish_contents g s = Some bs"
  shows "sends uw (replay_at h0 (shown prev) (at_pos (g_cursor_row prev) (g_cursor_col prev)) (g_current_attrs prev)) bs
    (replay_at h0 (shown g) (at_pos (g_cursor_row g) (g_cursor_col g)) (g_current_attrs g))"
proof -
  have jobs: "paint_job uw h0 g" "paint_job uw h0 prev" using pair by (simp_all add: diff_pair_def)
  note g = paint_jobD [OF jobs(1)] and p = paint_jobD [OF jobs(2)]
  let ?new = "rs_rows (active_grid g)" and ?old = "rs_rows (active_grid prev)"
  let ?q = "at_pos (g_cursor_row prev) (g_cursor_col prev)"
  let ?P = "replay_at h0 (shown prev) ?q (g_current_attrs prev)"
  have "drawn uw ?P h0 (screen_between ?new ?old 0) (painter_at ?q (g_current_attrs prev))"
    using g(7) p(7) by (simp add: drawn_def painter_at_def screen_between_ends shown_def sends_nothing)
  moreover have "pos_in (g_rows h0) (g_cols h0) (pn_pos (painter_at ?q (g_current_attrs prev)))"
    using p(2,3,4) by (simp add: painter_at_def pos_in_def grid_inv_def cursor_ok_def)
  ultimately have "ok (diff_rows uw g prev [0..<0 + g_rows h0] False False (painter_at ?q (g_current_attrs prev)))
      (\<lambda>s'. drawn uw ?P h0 (screen_between ?new ?old (0 + g_rows h0)) s' \<and> pos_in (g_rows h0) (g_cols h0) (pn_pos s'))"
    by (intro redrawn_rows [OF pair]) simp_all
  then have "drawn uw ?P h0 (shown g) s" "pos_in (g_rows h0) (g_cols h0) (pn_pos s)"
    using s g(3,7) by (simp_all add: screen_between_ends) (simp add: shown_def)
  then show ?thesis by (rule sends_finish [OF jobs(1) _ _ bs])
qed

end
