(* ===== verification/Replay.thy ===== *)
theory Replay
  imports Replay_Modes Replay_Diff
begin

text \<open>
  The replay contracts of \<open>grid/serialize.rs\<close>: \<open>state_formatted\<close> rebuilds a grid from a fresh one, \<open>state_diff\<close>
  brings a replica of the previous state to the new one, and so a stream of differences keeps a replica in step.
\<close>

section \<open>Bytes sent to one grid\<close>

definition sent :: "unicode_width \<Rightarrow> grid \<Rightarrow> u8 list \<Rightarrow> (grid \<Rightarrow> bool) \<Rightarrow> bool" where
  "sent uw h bs Q \<longleftrightarrow> (\<exists>cs. wires cs bs \<and> ok (fold_opt (perform uw) cs h) Q)"

lemma sent_sends: "sends uw P bs Q \<Longrightarrow> P h \<Longrightarrow> sent uw h bs Q"
  by (auto simp: sends_def sent_def)

lemma sent_nothing: "Q h \<Longrightarrow> sent uw h [] Q"
  unfolding sent_def by (rule exI [of _ "[]"]) (simp add: wires.none)

lemma sent_append:
  assumes "sent uw h bs Q" "\<And>h'. Q h' \<Longrightarrow> sent uw h' bs' R"
  shows "sent uw h (bs @ bs') R"
proof -
  from assms(1) obtain cs h1 where 1: "wires cs bs" "fold_opt (perform uw) cs h = Some h1" "Q h1"
    by (auto simp: sent_def ok_iff_ex)
  from assms(2) [OF 1(3)] obtain ds where 2: "wires ds bs'" "ok (fold_opt (perform uw) ds h1) R"
    by (auto simp: sent_def)
  have "wires (cs @ ds) (bs @ bs')" "ok (fold_opt (perform uw) (cs @ ds) h) R"
    using wires_append [OF 1(1) 2(1)] 1(2) 2(2) by (simp_all add: fold_opt_append)
  then show ?thesis unfolding sent_def by blast
qed

lemma sent_weaken: "sent uw h bs Q \<Longrightarrow> (\<And>h'. Q h' \<Longrightarrow> R h') \<Longrightarrow> sent uw h bs R"
  unfolding sent_def by (blast intro: ok_mono_all)

section \<open>Replicas\<close>

text \<open>A grid the contract can rebuild, and one that shows the same, has the same modes and scrolls as a whole.\<close>

definition plain_grid :: "unicode_width \<Rightarrow> grid \<Rightarrow> bool" where
  "plain_grid uw g \<longleftrightarrow> grid_inv g \<and> list_all (plain_row uw) (rs_rows (active_grid g)) \<and> g_cursor_style g \<le> u16_max"

definition replica :: "grid \<Rightarrow> grid \<Rightarrow> bool" where
  "replica g h \<longleftrightarrow> moded g (modes_of g) h \<and> seen h = seen g"

lemma cell_state_eq_unlinked: "cell_state_eq c d \<longleftrightarrow> unlinked c = unlinked d"
  by (cases c; cases d) (simp add: cell_state_eq_def unlinked_def)

lemma shown_state_eq: "list_all2 (list_all2 cell_state_eq) (rs_rows (active_grid h)) (rs_rows (active_grid g)) \<longleftrightarrow> shown h = shown g"
proof -
  have map_eq: "list_all2 (\<lambda>x y. f x = f y) xs ys \<longleftrightarrow> map f xs = map f ys" for f :: "'x \<Rightarrow> 'y" and xs ys
    by (simp add: list.rel_eq [symmetric] list.rel_map del: list.rel_eq)
  show ?thesis unfolding cell_state_eq_unlinked map_eq shown_def ..
qed

lemma replica_iff:
  assumes "grid_inv g"
  shows "replica g h \<longleftrightarrow> grid_inv h \<and> g_scroll_top h = 0 \<and> g_scroll_bottom h = g_rows h - 1 \<and> state_eq h g"
proof (cases "grid_inv h \<and> g_rows h = g_rows g \<and> g_cols h = g_cols g")
  case True
  then have "screen_state_eq (g_rows h) (g_cols h) (active_grid h) (active_grid g) \<longleftrightarrow> shown h = shown g"
    using screen_state_eq_iff [of "g_rows g" "g_cols g" "active_grid h" "active_grid g"] active_ok [of h] active_ok [of g]
      assms shown_state_eq [of h g] by simp
  with True show ?thesis
    by (auto simp: replica_def seen_def state_eq_def visible_screen_eq grid_size_def cursor_position_def moded_def
        modes_of_accessors)
next
  case False
  then show ?thesis by (auto simp: replica_def moded_def state_eq_def grid_size_def)
qed

text \<open>The contents bytes on a grid that wraps: painted in full, or where they differ from what is there.\<close>

lemma moded_canvas: "moded g m h \<Longrightarrow> md_autowrap m \<Longrightarrow> canvas h"
  by (auto simp: moded_def canvas_def modes_of_def)

lemma moded_job: "moded g m h \<Longrightarrow> md_autowrap m \<Longrightarrow> plain_grid uw g \<Longrightarrow> char_width uw 0x20 = 1 \<Longrightarrow> paint_job uw h g"
  using moded_canvas [of g m h] by (simp add: paint_job_def plain_grid_def moded_def)

lemma modes_of_setting: "setting_of h = setting_of k \<Longrightarrow> modes_of h = modes_of k"
  by (simp add: setting_of_def modes_of_def)

lemma replay_at_self: "grid_inv h \<Longrightarrow> replay_at h (shown h) (at_pos (g_cursor_row h) (g_cursor_col h)) (g_current_attrs h) h"
  by (simp add: replay_at_def)

lemma painted_seen:
  assumes "moded g m h" "replay_at h (shown g) (at_pos (g_cursor_row g) (g_cursor_col g)) (g_current_attrs g) h'"
  shows "moded_seen (\<lambda>x. x = seen g) g m h'"
  using assms(1) replay_atD [OF assms(2)] modes_of_setting [of h' h] setting_eqD [of h' h]
  by (simp add: moded_seen_def moded_def seen_def)

lemma sent_full_paint:
  assumes "plain_grid uw g" "char_width uw 0x20 = 1" "moded g m h" "md_autowrap m" "write_contents_full_paint g = Some bs"
  shows "sent uw h bs (moded_seen (\<lambda>x. x = seen g) g m)"
  by (rule sent_weaken [OF sent_sends [OF sends_full_paint [OF moded_job [OF assms(3,4,1,2)] assms(5)] replay_at_self]
        painted_seen [OF assms(3)]]) (use assms(3) in \<open>simp add: moded_def\<close>)

lemma sent_diff_paint:
  assumes "plain_grid uw g" "plain_grid uw prev" "char_width uw 0x20 = 1" "grid_size g = grid_size prev"
    and h: "moded g m h" "md_autowrap m" "seen h = seen prev"
    and bs: "diff_rows uw g prev [0..<g_rows g] False False
      (painter_at (at_pos (g_cursor_row prev) (g_cursor_col prev)) (g_current_attrs prev)) = Some s" "finish_contents g s = Some bs"
  shows "sent uw h bs (moded_seen (\<lambda>x. x = seen g) g m)"
proof -
  have "moded prev m h" using h(1) assms(4) by (simp add: moded_def grid_size_def)
  then have "diff_pair uw h g prev"
    using moded_job [OF h(1,2) assms(1,3)] moded_job [OF _ h(2) assms(2,3)] by (simp add: diff_pair_def)
  note paint = sends_diff_paint [OF this bs]
  have "replay_at h (shown prev) (at_pos (g_cursor_row prev) (g_cursor_col prev)) (g_current_attrs prev) h"
    using h(1,3) replay_at_self [of h] by (simp add: moded_def seen_def)
  from sent_weaken [OF sent_sends [OF paint this] painted_seen [OF h(1)]] show ?thesis .
qed

text \<open>Both contents writers switch wrapping on, set the cursor's visibility, paint, and restore the wrapping.\<close>

lemma sent_contents:
  assumes h: "moded_seen I g (modes_of g) h" and hide: "hide = [] \<or> hide = write_hide_cursor (hide_cursor g)"
    and body: "\<And>h'. moded_seen I g ((modes_of g)\<lparr>md_autowrap := True\<rparr>) h' \<Longrightarrow>
      sent uw h' body (moded_seen (\<lambda>x. x = seen g) g ((modes_of g)\<lparr>md_autowrap := True\<rparr>))"
  shows "sent uw h (write_autowrap True @ hide @ body @ (if autowrap g then [] else write_autowrap False)) (replica g)"
proof -
  let ?m = "(modes_of g)\<lparr>md_autowrap := True\<rparr>"
  have hid: "?m\<lparr>md_hidden := hide_cursor g\<rparr> = ?m" and aw: "?m\<lparr>md_autowrap := autowrap g\<rparr> = modes_of g"
    by (simp_all add: modes_of_accessors)
  have on: "sent uw h (write_autowrap True) (moded_seen I g ?m)"
    by (rule sent_sends [OF sends_autowrap h])
  have cursor: "sent uw h' hide (moded_seen I g ?m)" if "moded_seen I g ?m h'" for h'
    using hide that sent_sends [OF sends_hide_cursor [of uw I g ?m "hide_cursor g"] that] unfolding hid by (auto intro: sent_nothing)
  have rest: "sent uw h' (if autowrap g then [] else write_autowrap False) (replica g)"
    if h': "moded_seen (\<lambda>x. x = seen g) g ?m h'" for h'
  proof (cases "autowrap g")
    case True
    then show ?thesis using h' aw by (auto simp: replica_def moded_seen_def intro!: sent_nothing)
  next
    case False
    then have off: "?m\<lparr>md_autowrap := False\<rparr> = modes_of g" using aw by simp
    show ?thesis
      using sent_weaken [OF sent_sends [OF sends_autowrap [of uw _ g ?m False] h'], unfolded off, of "replica g"] False
      by (simp add: replica_def moded_seen_def)
  qed
  show ?thesis by (rule sent_append [OF on sent_append [OF cursor sent_append [OF body rest]]])
qed

section \<open>The contracts\<close>

lemma state_replay:
  assumes g: "plain_grid uw g" "char_width uw 0x20 = 1"
    and h: "moded g m h" "md_mouse m = 0" "md_encoding m = 0" "\<not> md_alternate m"
  shows "ok (state_formatted g) (\<lambda>bs. sent uw h bs (replica g))"
proof -
  have inv: "grid_inv g" and style: "g_cursor_style g \<le> u16_max" using g(1) by (simp_all add: plain_grid_def)
  obtain ms where ms: "write_input_mode_formatted g = Some ms"
    using serialize_returns [OF inv inv style, of uw] unfolding input_mode_formatted_def by blast
  obtain body where body: "write_contents_full_paint g = Some body"
    using ok_full_paint [OF inv] by (auto simp: ok_iff_ex)
  note parts = ms body
  let ?m = "(modes_of g)\<lparr>md_autowrap := True\<rparr>"
  have modes: "sent uw h ms (moded_seen (\<lambda>_. True) g (modes_of g))"
    using sent_sends [OF sends_input_modes [OF parts(1) style h(2-4)], of h uw] h(1) by (simp add: moded_seen_def)
  have paint: "sent uw h' body (moded_seen (\<lambda>x. x = seen g) g ?m)" if "moded_seen (\<lambda>_. True) g ?m h'" for h'
    using that by (intro sent_full_paint [OF g _ _ parts(2)]) (simp_all add: moded_seen_def)
  from sent_append [OF modes sent_contents [OF _ _ paint]] show ?thesis
    by (simp add: state_formatted_def write_contents_formatted_def parts)
qed

lemma diff_replay:
  assumes g: "plain_grid uw g" "plain_grid uw prev" "char_width uw 0x20 = 1" "grid_size g = grid_size prev" and h: "replica prev h"
  shows "ok (state_diff uw g prev) (\<lambda>bs. sent uw h bs (replica g))"
proof -
  have inv: "grid_inv g" "grid_inv prev" and style: "g_cursor_style g \<le> u16_max" using g(1,2) by (simp_all add: plain_grid_def)
  obtain ms con where parts: "write_input_mode_diff g prev = Some ms" "write_contents_diff uw g prev = Some con"
    using serialize_returns [OF inv style, of uw] by (auto simp: input_mode_diff_def contents_diff_def)
  let ?m = "(modes_of g)\<lparr>md_autowrap := True\<rparr>"
  define I where "I = (\<lambda>x. alternate_screen g = alternate_screen prev \<longrightarrow> x = seen prev)"
  have "moded_seen (\<lambda>x. x = seen prev) g (modes_of prev) h"
    using h g(4) by (simp add: replica_def moded_seen_def moded_def grid_size_def)
  from sent_sends [OF sends_input_diff [OF parts(1) style] this, of uw]
  have modes: "sent uw h ms (moded_seen I g (modes_of g))" by (simp add: I_def)
  obtain hide body where con: "con = write_autowrap True @ hide @ body @ (if autowrap g then [] else write_autowrap False)"
      "hide = [] \<or> hide = write_hide_cursor (hide_cursor g)"
    and body: "(if alternate_screen g \<noteq> alternate_screen prev then write_contents_full_paint g
       else do {
         s \<leftarrow> diff_rows uw g prev [0..<g_rows g] False False
           (painter_at (at_pos (g_cursor_row prev) (g_cursor_col prev)) (g_current_attrs prev));
         finish_contents g s
       }) = Some body"
    using parts(2) g(4) unfolding write_contents_diff_def bind_eq_Some_conv by (auto split: if_splits)
  have paint: "sent uw h' body (moded_seen (\<lambda>x. x = seen g) g ?m)" if h': "moded_seen I g ?m h'" for h'
  proof (cases "alternate_screen g = alternate_screen prev")
    case True
    with body obtain s where "diff_rows uw g prev [0..<g_rows g] False False
        (painter_at (at_pos (g_cursor_row prev) (g_cursor_col prev)) (g_current_attrs prev)) = Some s" "finish_contents g s = Some body"
      by (auto simp: bind_eq_Some_conv)
    from sent_diff_paint [OF g _ _ _ this, of ?m h'] h' True show ?thesis by (simp add: moded_seen_def I_def)
  next
    case False
    then show ?thesis using h' body by (intro sent_full_paint [OF g(1,3)]) (simp_all add: moded_seen_def)
  qed
  from sent_append [OF modes sent_contents [OF _ con(2) paint]] show ?thesis
    by (simp add: state_diff_def parts con(1))
qed

lemma fresh_moded:
  fixes limit :: usize
  assumes "grid_inv g" "arena_inv pool"
  defines "h \<equiv> with_row_arena (g_rows g) (g_cols g) limit pool"
  shows "moded g (modes_of h) h" "md_mouse (modes_of h) = 0" "md_encoding (modes_of h) = 0" "\<not> md_alternate (modes_of h)"
proof -
  have "dims_ok g" using assms(1) by (simp add: grid_inv_def)
  then have "grid_inv h" unfolding h_def dims_ok_def using assms(2) by (intro with_row_arena_inv) simp_all
  then show "moded g (modes_of h) h" by (simp add: moded_def) (simp add: h_def with_row_arena_def Let_def split_beta)
  show "md_mouse (modes_of h) = 0" "md_encoding (modes_of h) = 0" "\<not> md_alternate (modes_of h)"
    by (simp_all add: modes_of_def mouse_mode_number_def mouse_encoding_number_def)
       (simp_all add: h_def with_row_arena_def Let_def split_beta has_flag_def)
qed

lemma plain_row_narrow: "(\<And>c. c \<in> set row \<Longrightarrow> plain_cell uw c \<and> \<not> is_wide c) \<Longrightarrow> plain_row uw row"
  by (auto simp: plain_row_def list_all_iff)

lemma plain_letters:
  assumes "set s \<subseteq> set ''abcdefghijkl''"
  shows "plain_row example_width (map letter s)"
proof (rule plain_row_narrow)
  have cell: "plain_cell example_width (letter c) \<and> \<not> is_wide (letter c)" if "c \<in> set ''abcdefghijkl''" for c
    using that by (auto simp: letter_def plain_cell_def is_text_def is_scalar_def ZWJ_def char_width_def as_u16_def example_width_def)
  fix x assume "x \<in> set (map letter s)"
  with assms obtain c where "c \<in> set ''abcdefghijkl''" "x = letter c" unfolding set_map by blast
  with cell show "plain_cell example_width x \<and> \<not> is_wide x" by simp
qed

lemma example_plain: "plain_grid example_width example_grid"
proof -
  have "g_cursor_style example_grid = 0" by (simp add: example_grid_def with_row_arena_def split_beta Let_def)
  then show ?thesis
    using plain_letters [of "''abcd''"] plain_letters [of "''efgh''"] plain_letters [of "''ijkl''"]
    by (simp add: plain_grid_def example_grid_inv u16_max_def)
qed

text \<open>The example grid after a letter was overwritten, the cursor moved and a mode set.\<close>

definition edited_grid :: grid where
  "edited_grid = put_flag APPLICATION_CURSOR True (example_grid
     \<lparr>g_primary := \<lparr>rs_rows = map (map letter) [''abcd'', ''elgh'', ''ijkl''], rs_wraps = [Hard, Hard, Hard]\<rparr>,
      g_cursor_row := 2, g_cursor_col := 0\<rparr>)"

lemma edited_plain: "plain_grid example_width edited_grid" "grid_size edited_grid = grid_size example_grid"
proof -
  let ?g = "example_grid\<lparr>g_primary := \<lparr>rs_rows = map (map letter) [''abcd'', ''elgh'', ''ijkl''], rs_wraps = [Hard, Hard, Hard]\<rparr>,
      g_cursor_row := 2, g_cursor_col := 0\<rparr>"
  have "store_ok 3 4 \<lparr>rs_rows = map (map letter) [''abcd'', ''elgh'', ''ijkl''], rs_wraps = [Hard, Hard, Hard]\<rparr>"
    unfolding store_ok_def list.pred_map comp_def row_store.simps
    using good_letters [of _ 4] by (simp add: list_all_iff del: list.map)
  then have inv: "grid_inv ?g"
    using example_grid_inv by (simp add: grid_inv_def inv_part_defs has_flag_def)
  have "rs_rows (active_grid edited_grid) = map (map letter) [''abcd'', ''elgh'', ''ijkl'']"
    by (simp add: edited_grid_def active_grid_def) (simp add: has_flag_def put_flag_def set_flag_def example_grid_def with_row_arena_def split_beta Let_def flag_defs)
  moreover have "g_cursor_style edited_grid = 0"
    by (simp add: edited_grid_def) (simp add: example_grid_def with_row_arena_def split_beta Let_def)
  ultimately show "plain_grid example_width edited_grid"
    using plain_letters [of "''abcd''"] plain_letters [of "''elgh''"] plain_letters [of "''ijkl''"] inv
    by (simp add: plain_grid_def u16_max_def) (simp add: edited_grid_def put_flag_inv)
  show "grid_size edited_grid = grid_size example_grid" by (simp add: edited_grid_def grid_size_def)
qed





section \<open>A stream of differences\<close>

text \<open>What a client sends to keep a replica in step: the differences from each grid to the next.\<close>

primrec diff_stream :: "unicode_width \<Rightarrow> grid \<Rightarrow> grid list \<Rightarrow> u8 list option" where
  "diff_stream uw prev [] = Some []"
| "diff_stream uw prev (g # gs) = do {
     d \<leftarrow> state_diff uw g prev;
     ds \<leftarrow> diff_stream uw g gs;
     Some (d @ ds)
   }"

lemma stream_replay:
  assumes "char_width uw 0x20 = 1"
  shows "list_all (\<lambda>g. plain_grid uw g \<and> grid_size g = grid_size prev) gs \<Longrightarrow> plain_grid uw prev \<Longrightarrow> replica prev h \<Longrightarrow>
    ok (diff_stream uw prev gs) (\<lambda>bs. sent uw h bs (replica (last (prev # gs))))"
proof (induction gs arbitrary: prev h)
  case Nil
  then show ?case by (simp add: sent_nothing)
next
  case (Cons g gs)
  then have g: "plain_grid uw g" "grid_size g = grid_size prev"
    and gs: "list_all (\<lambda>g'. plain_grid uw g' \<and> grid_size g' = grid_size g) gs" by simp_all
  from diff_replay [OF g(1) Cons.prems(2) assms g(2) Cons.prems(3)] obtain d
    where d: "state_diff uw g prev = Some d" "sent uw h d (replica g)" by (auto simp: ok_iff_ex)
  then obtain h1 where h1: "replica g h1" by (auto simp: sent_def ok_iff_ex)
  from Cons.IH [OF gs g(1) h1] obtain ds where ds: "diff_stream uw g gs = Some ds" by (auto simp: ok_iff_ex)
  have "sent uw h' ds (replica (last (g # gs)))" if "replica g h'" for h'
    using Cons.IH [OF gs g(1) that] ds by simp
  from sent_append [OF d(2) this] show ?case by (simp add: d(1) ds)
qed

text \<open>
  C5: a replica follows a session: the full state of a grid and then the differences through any sequence of plain
  grids of its size, sent as one stream to a fresh grid, leave it indistinguishable from the last of them.
\<close>

theorem replica_follows:
  assumes "list_all (\<lambda>g. plain_grid uw g \<and> grid_size g = grid_size first) (first # gs)" "char_width uw 0x20 = 1" "arena_inv pool"
  shows "\<exists>bs ds cs h. state_formatted first = Some bs \<and> diff_stream uw first gs = Some ds \<and> wires cs (bs @ ds)
    \<and> fold_opt (perform uw) cs (with_row_arena (g_rows first) (g_cols first) limit pool) = Some h \<and> grid_inv h
    \<and> state_eq h (last (first # gs))"
proof -
  have first: "plain_grid uw first" "grid_inv first" using assms(1) by (simp_all add: plain_grid_def)
  have last: "grid_inv (last (first # gs))"
    using assms(1) last_in_set [of "first # gs"] by (auto simp: list_all_iff plain_grid_def simp del: last.simps)
  let ?h = "with_row_arena (g_rows first) (g_cols first) limit pool"
  from state_replay [OF first(1) assms(2) fresh_moded [OF first(2) assms(3)]] obtain bs
    where bs: "state_formatted first = Some bs" "sent uw ?h bs (replica first)" by (auto simp: ok_iff_ex)
  then obtain h1 where h1: "replica first h1" by (auto simp: sent_def ok_iff_ex)
  note stream = stream_replay [OF assms(2) _ first(1), of gs]
  from stream [OF _ h1] assms(1) obtain ds where ds: "diff_stream uw first gs = Some ds" by (auto simp: ok_iff_ex)
  have "sent uw h' ds (replica (last (first # gs)))" if "replica first h'" for h'
    using stream [OF _ that] assms(1) ds by simp
  from sent_append [OF bs(2) this] have "sent uw ?h (bs @ ds) (replica (last (first # gs)))" .
  then obtain cs h where "wires cs (bs @ ds)" "fold_opt (perform uw) cs ?h = Some h" "replica (last (first # gs)) h"
    by (auto simp: sent_def ok_iff_ex simp del: last.simps)
  with bs(1) ds replica_iff [OF last, of h] show ?thesis by blast
qed

lemma replica_follows_witness:
  "\<exists>bs ds cs h. state_formatted example_grid = Some bs
    \<and> diff_stream example_width example_grid [edited_grid, example_grid, edited_grid] = Some ds \<and> wires cs (bs @ ds)
    \<and> fold_opt (perform example_width) cs (with_row_arena 3 4 2 []) = Some h \<and> grid_inv h \<and> state_eq h edited_grid"
proof -
  have "list_all (\<lambda>g. plain_grid example_width g \<and> grid_size g = grid_size example_grid)
      (example_grid # [edited_grid, example_grid, edited_grid])"
    using example_plain edited_plain by simp
  from replica_follows [OF this, of "[]" 2] show ?thesis
    by (simp add: arena_inv_def char_width_def as_u16_def example_width_def)
qed

end
