(* ===== verification/Process.thy ===== *)
theory Process
  imports Utf8 "HOL-Library.List_Lexorder"
begin

text \<open>
  Starting and supervising piped children (\<open>src/src/process.rs\<close>): spawn parameters, the child environment,
  the search for the program, exit statuses, signals and the child handle.

  The operating system and the \<open>nix\<close> crate are parameters: \<open>fs\<close> answers \<open>stat\<close> and \<open>access\<close>, \<open>kernel\<close> holds
  the calls that change the system state, which has the type \<open>'w\<close> and is passed through every call. A call that
  is not made leaves that state as it is, so \<open>no syscall\<close> is visible as an unchanged \<open>'w\<close>. The standard
  library (\<open>BTreeMap\<close>, \<open>Command\<close>'s environment, \<open>Child\<close>, \<open>Path::join\<close>) is modelled. Error messages are values:
  a constructor per message with the data it prints.
\<close>

section \<open>Results\<close>

text \<open>The \<open>?\<close> operator, and a loop whose body may fail.\<close>

definition res_bind :: "'e + 'a \<Rightarrow> ('a \<Rightarrow> 'e + 'b) \<Rightarrow> 'e + 'b" where
  "res_bind r f = (case r of Inl e \<Rightarrow> Inl e | Inr x \<Rightarrow> f x)"

lemma res_bind_simps [simp]: "res_bind (Inl e) f = Inl e" "res_bind (Inr x) f = f x"
  by (simp_all add: res_bind_def)

lemma res_bind_Inr: "res_bind r f = Inr y \<longleftrightarrow> (\<exists>x. r = Inr x \<and> f x = Inr y)"
  by (cases r) simp_all

primrec for_all :: "('a \<Rightarrow> 'e + unit) \<Rightarrow> 'a list \<Rightarrow> 'e + unit" where
  "for_all f [] = Inr ()"
| "for_all f (x # xs) = res_bind (f x) (\<lambda>_. for_all f xs)"

lemma for_all_ok: "for_all f xs = Inr () \<longleftrightarrow> (\<forall>x \<in> set xs. f x = Inr ())"
  by (induction xs) (auto simp: res_bind_Inr)

datatype io_kind = InvalidInput | NotFound | PermissionDenied | NotADirectory | Interrupted | OtherKind

record io_error =
  io_kind :: io_kind
  io_os :: "int option"
  io_text :: string

datatype errno = EINTR | ESRCH | EPERM | EIO | OtherErrno int

text \<open>Calls that change the system state.\<close>

type_synonym ('w, 'e, 'a) io = "'w \<Rightarrow> ('e + 'a) \<times> 'w"

definition io_ret :: "'a \<Rightarrow> ('w, 'e, 'a) io" where
  "io_ret x w = (Inr x, w)"

definition io_lift :: "'e + 'a \<Rightarrow> ('w, 'e, 'a) io" where
  "io_lift r w = (r, w)"

definition io_bind :: "('w, 'e, 'a) io \<Rightarrow> ('a \<Rightarrow> ('w, 'e, 'b) io) \<Rightarrow> ('w, 'e, 'b) io" where
  "io_bind m f w = (case m w of (Inl e, w) \<Rightarrow> (Inl e, w) | (Inr x, w) \<Rightarrow> f x w)"

definition io_err :: "('e \<Rightarrow> 'f) \<Rightarrow> ('w, 'e, 'a) io \<Rightarrow> ('w, 'f, 'a) io" where
  "io_err g m w = (case m w of (Inl e, w) \<Rightarrow> (Inl (g e), w) | (Inr x, w) \<Rightarrow> (Inr x, w))"

lemma io_simps [simp]:
  "io_ret x w = (Inr x, w)" "io_lift r w = (r, w)"
  "m w = (Inl e, w') \<Longrightarrow> io_bind m f w = (Inl e, w')"
  "m w = (Inr y, w') \<Longrightarrow> io_bind m f w = f y w'"
  by (simp_all add: io_ret_def io_lift_def io_bind_def)

lemma io_bind_Inr: "io_bind m f w = (Inr y, w') \<longleftrightarrow> (\<exists>x v. m w = (Inr x, v) \<and> f x v = (Inr y, w'))"
  by (auto simp: io_bind_def split: prod.splits sum.splits)

lemma io_err_Inr: "io_err g m w = (Inr y, w') \<longleftrightarrow> m w = (Inr y, w')"
  by (auto simp: io_err_def split: prod.splits sum.splits)

section \<open>Spawn parameters\<close>

type_synonym os_string = "u8 list"

record spawn_params =
  sp_argv :: "os_string list"
  sp_env_overrides :: "(os_string \<times> os_string) list"
  sp_env_removed :: "os_string list"
  sp_env_cleared :: bool
  sp_cwd :: "os_string option"
  sp_detached :: bool

definition sp_new :: "os_string \<Rightarrow> spawn_params" where
  "sp_new program = \<lparr>sp_argv = [program], sp_env_overrides = [], sp_env_removed = [], sp_env_cleared = False,
     sp_cwd = None, sp_detached = False\<rparr>"

definition sp_arg :: "os_string \<Rightarrow> spawn_params \<Rightarrow> spawn_params" where
  "sp_arg a p = p\<lparr>sp_argv := sp_argv p @ [a]\<rparr>"

definition sp_args :: "os_string list \<Rightarrow> spawn_params \<Rightarrow> spawn_params" where
  "sp_args as p = foldl (\<lambda>p a. p\<lparr>sp_argv := sp_argv p @ [a]\<rparr>) p as"

definition sp_env :: "os_string \<Rightarrow> os_string \<Rightarrow> spawn_params \<Rightarrow> spawn_params" where
  "sp_env k v p = p\<lparr>sp_env_overrides := sp_env_overrides p @ [(k, v)]\<rparr>"

definition sp_env_clear :: "spawn_params \<Rightarrow> spawn_params" where
  "sp_env_clear p = p\<lparr>sp_env_cleared := True\<rparr>"

definition sp_env_remove :: "os_string \<Rightarrow> spawn_params \<Rightarrow> spawn_params" where
  "sp_env_remove k p = p\<lparr>sp_env_removed := sp_env_removed p @ [k]\<rparr>"

definition sp_current_dir :: "os_string \<Rightarrow> spawn_params \<Rightarrow> spawn_params" where
  "sp_current_dir d p = p\<lparr>sp_cwd := Some d\<rparr>"

definition sp_set_detached :: "bool \<Rightarrow> spawn_params \<Rightarrow> spawn_params" where
  "sp_set_detached b p = p\<lparr>sp_detached := b\<rparr>"

section \<open>The child environment\<close>

text \<open>\<open>BTreeMap\<close>: an association list in ascending key order.\<close>

fun bt_insert :: "'k::linorder \<Rightarrow> 'v \<Rightarrow> ('k \<times> 'v) list \<Rightarrow> ('k \<times> 'v) list" where
  "bt_insert k v [] = [(k, v)]"
| "bt_insert k v ((k', v') # m) =
     (if k < k' then (k, v) # (k', v') # m
      else if k = k' then (k, v) # m
      else (k', v') # bt_insert k v m)"

definition bt_remove :: "'k \<Rightarrow> ('k \<times> 'v) list \<Rightarrow> ('k \<times> 'v) list" where
  "bt_remove k m = filter (\<lambda>(k', _). k' \<noteq> k) m"

definition merged_env :: "(os_string \<times> os_string) list \<Rightarrow> spawn_params \<Rightarrow> (os_string \<times> os_string) list" where
  "merged_env inherited p =
     (let merged = (if sp_env_cleared p then [] else foldl (\<lambda>m (k, v). bt_insert k v m) [] inherited);
          merged = foldl (\<lambda>m k. bt_remove k m) merged (sp_env_removed p)
      in foldl (\<lambda>m (k, v). bt_insert k v m) merged (sp_env_overrides p))"

text \<open>
  The environment edits of \<open>std::process::Command\<close>: a clear flag and, per key, a value to set or a removal. The
  child gets the inherited variables unless cleared, with the edits applied.
\<close>

record command_env =
  ce_clear :: bool
  ce_vars :: "(os_string \<times> os_string option) list"

definition ce_new :: command_env where
  "ce_new = \<lparr>ce_clear = False, ce_vars = []\<rparr>"

definition ce_env_clear :: "command_env \<Rightarrow> command_env" where
  "ce_env_clear c = \<lparr>ce_clear = True, ce_vars = []\<rparr>"

definition ce_env_remove :: "os_string \<Rightarrow> command_env \<Rightarrow> command_env" where
  "ce_env_remove k c = c\<lparr>ce_vars := (if ce_clear c then bt_remove k (ce_vars c) else bt_insert k None (ce_vars c))\<rparr>"

definition ce_env :: "os_string \<Rightarrow> os_string \<Rightarrow> command_env \<Rightarrow> command_env" where
  "ce_env k v c = c\<lparr>ce_vars := bt_insert k (Some v) (ce_vars c)\<rparr>"

definition ce_capture :: "(os_string \<times> os_string) list \<Rightarrow> command_env \<Rightarrow> (os_string \<times> os_string) list" where
  "ce_capture inherited c =
     foldl (\<lambda>m (k, e). case e of Some v \<Rightarrow> bt_insert k v m | None \<Rightarrow> bt_remove k m)
       (if ce_clear c then [] else foldl (\<lambda>m (k, v). bt_insert k v m) [] inherited) (ce_vars c)"

text \<open>The environment edits that \<open>spawn_std\<close> makes on its \<open>Command\<close>.\<close>

definition std_command_env :: "spawn_params \<Rightarrow> command_env" where
  "std_command_env p =
     (let cmd = ce_new;
          cmd = (if sp_env_cleared p then ce_env_clear cmd else cmd);
          cmd = foldl (\<lambda>c k. ce_env_remove k c) cmd (sp_env_removed p)
      in foldl (\<lambda>c (k, v). ce_env k v c) cmd (sp_env_overrides p))"

section \<open>Validation\<close>

datatype spawn_error =
    EmptyArgv
  | NulByte string
  | BadCwd os_string io_error
  | CwdNotADirectory os_string
  | CwdUnsearchable os_string io_error
  | ProgramDenied os_string
  | ProgramMissing os_string
  | SpawnFailed io_error
  | SpawnErrno errno

text \<open>\<open>io::Error::from\<close> of an \<open>errno\<close> keeps the kinds that \<open>std\<close> knows.\<close>

definition errno_kind :: "errno \<Rightarrow> io_kind" where
  "errno_kind e = (case e of EINTR \<Rightarrow> Interrupted | EPERM \<Rightarrow> PermissionDenied
     | OtherErrno n \<Rightarrow> if n = 2 then NotFound else if n = 13 then PermissionDenied else if n = 20 then NotADirectory
         else if n = 22 then InvalidInput else OtherKind
     | _ \<Rightarrow> OtherKind)"

definition spawn_error_kind :: "spawn_error \<Rightarrow> io_kind" where
  "spawn_error_kind e = (case e of
       EmptyArgv \<Rightarrow> InvalidInput
     | NulByte _ \<Rightarrow> InvalidInput
     | BadCwd _ err \<Rightarrow> io_kind err
     | CwdNotADirectory _ \<Rightarrow> NotADirectory
     | CwdUnsearchable _ err \<Rightarrow> io_kind err
     | ProgramDenied _ \<Rightarrow> PermissionDenied
     | ProgramMissing _ \<Rightarrow> NotFound
     | SpawnFailed err \<Rightarrow> io_kind err
     | SpawnErrno err \<Rightarrow> errno_kind err)"

definition check_nul :: "string \<Rightarrow> os_string \<Rightarrow> spawn_error + unit" where
  "check_nul what v = (if 0 \<in> set v then Inl (NulByte what) else Inr ())"

definition checked_argv :: "spawn_params \<Rightarrow> spawn_error + os_string \<times> os_string list" where
  "checked_argv p = (case sp_argv p of
       [] \<Rightarrow> Inl EmptyArgv
     | program # args \<Rightarrow>
         res_bind (check_nul ''argv element'' program) (\<lambda>_.
         res_bind (for_all (check_nul ''argv element'') args) (\<lambda>_.
         res_bind (for_all (\<lambda>(k, v). res_bind (check_nul ''env key'' k) (\<lambda>_. check_nul ''env value'' v))
           (sp_env_overrides p)) (\<lambda>_.
         res_bind (for_all (check_nul ''env key'') (sp_env_removed p)) (\<lambda>_.
         Inr (program, args))))))"

definition cstr :: "os_string \<Rightarrow> string \<Rightarrow> spawn_error + u8 list" where
  "cstr v what = (if 0 \<in> set v then Inl (NulByte what) else Inr v)"

primrec cstrs :: "os_string list \<Rightarrow> string \<Rightarrow> spawn_error + u8 list list" where
  "cstrs [] what = Inr []"
| "cstrs (v # vs) what = res_bind (cstr v what) (\<lambda>b. res_bind (cstrs vs what) (\<lambda>bs. Inr (b # bs)))"

definition env_cstrings :: "(os_string \<times> os_string) list \<Rightarrow> spawn_error + u8 list list" where
  "env_cstrings merged = cstrs (map (\<lambda>(k, v). k @ bytes ''='' @ v) merged) ''environment''"

section \<open>Finding the program\<close>

record fs =
  fs_metadata :: "os_string \<Rightarrow> io_error + bool"
  fs_access_x :: "os_string \<Rightarrow> io_error + unit"

datatype candidate = Hit | Poison | Miss

text \<open>\<open>metadata\<close> answers whether the path is a directory.\<close>

definition classify_candidate :: "fs \<Rightarrow> os_string \<Rightarrow> candidate" where
  "classify_candidate f path = (case fs_metadata f path of
       Inr is_dir \<Rightarrow> if is_dir then Poison
                    else (case fs_access_x f path of Inr _ \<Rightarrow> Hit | Inl _ \<Rightarrow> Poison)
     | Inl _ \<Rightarrow> Miss)"

definition search_failed :: "os_string \<Rightarrow> bool \<Rightarrow> spawn_error" where
  "search_failed program saw_eacces = (if saw_eacces then ProgramDenied program else ProgramMissing program)"

definition DEFAULT_CHILD_PATH :: os_string where
  "DEFAULT_CHILD_PATH = bytes ''/bin:/usr/bin''"

text \<open>\<open>slice::split\<close> at one byte, \<open>Path::is_absolute\<close> and \<open>Path::join\<close>.\<close>

fun split_on :: "'a \<Rightarrow> 'a list \<Rightarrow> 'a list list" where
  "split_on sep [] = [[]]"
| "split_on sep (x # xs) =
     (if x = sep then [] # split_on sep xs
      else case split_on sep xs of [] \<Rightarrow> [[x]] | ys # yss \<Rightarrow> (x # ys) # yss)"

definition is_absolute :: "os_string \<Rightarrow> bool" where
  "is_absolute p \<longleftrightarrow> p \<noteq> [] \<and> hd p = 0x2f"

definition path_join :: "os_string \<Rightarrow> os_string \<Rightarrow> os_string" where
  "path_join a b = (if is_absolute b then b
     else if a \<noteq> [] \<and> last a \<noteq> 0x2f then a @ 0x2f # b
     else a @ b)"

fun resolve_loop :: "fs \<Rightarrow> os_string \<Rightarrow> os_string list \<Rightarrow> bool \<Rightarrow> spawn_error + os_string" where
  "resolve_loop f program [] saw_eacces = Inl (search_failed program saw_eacces)"
| "resolve_loop f program (d # ds) saw_eacces =
     (let dir = (if d = [] then bytes ''.'' else d);
          path = path_join dir program
      in case classify_candidate f path of
           Hit \<Rightarrow> Inr path
         | Poison \<Rightarrow> resolve_loop f program ds True
         | Miss \<Rightarrow> resolve_loop f program ds saw_eacces)"

definition child_path :: "(os_string \<times> os_string) list \<Rightarrow> os_string" where
  "child_path merged = (case map_of merged (bytes ''PATH'') of None \<Rightarrow> DEFAULT_CHILD_PATH | Some path \<Rightarrow> path)"

definition resolve_in_child_path :: "fs \<Rightarrow> os_string \<Rightarrow> (os_string \<times> os_string) list \<Rightarrow> spawn_error + os_string" where
  "resolve_in_child_path f program merged =
     (if 0x2f \<in> set program then Inr program
      else resolve_loop f program (split_on 0x3a (child_path merged)) False)"

fun check_loop :: "fs \<Rightarrow> os_string \<Rightarrow> os_string \<Rightarrow> os_string list \<Rightarrow> bool \<Rightarrow> spawn_error + unit" where
  "check_loop f program cwd [] saw_eacces = Inl (search_failed program saw_eacces)"
| "check_loop f program cwd (d # ds) saw_eacces =
     (let dir = (if d = [] then cwd else if is_absolute d then d else path_join cwd d)
      in case classify_candidate f (path_join dir program) of
           Hit \<Rightarrow> Inr ()
         | Poison \<Rightarrow> check_loop f program cwd ds True
         | Miss \<Rightarrow> check_loop f program cwd ds saw_eacces)"

definition check_program_under_cwd ::
    "fs \<Rightarrow> os_string \<Rightarrow> (os_string \<times> os_string) list \<Rightarrow> os_string \<Rightarrow> spawn_error + unit" where
  "check_program_under_cwd f program merged cwd =
     (if 0x2f \<in> set program then
        (case classify_candidate f (if is_absolute program then program else path_join cwd program) of
           Hit \<Rightarrow> Inr ()
         | Poison \<Rightarrow> Inl (search_failed program True)
         | Miss \<Rightarrow> Inl (search_failed program False))
      else check_loop f program cwd (split_on 0x3a (child_path merged)) False)"

definition check_detached_cwd :: "fs \<Rightarrow> os_string \<Rightarrow> spawn_error + unit" where
  "check_detached_cwd f cwd = (case fs_metadata f cwd of
       Inl err \<Rightarrow> Inl (BadCwd cwd err)
     | Inr is_dir \<Rightarrow> if \<not> is_dir then Inl (CwdNotADirectory cwd)
         else (case fs_access_x f cwd of Inl err \<Rightarrow> Inl (CwdUnsearchable cwd err) | Inr _ \<Rightarrow> Inr ()))"

definition DETACHED_CWD_SCRIPT :: os_string where
  "DETACHED_CWD_SCRIPT = bytes ''cd -- '' @ [0x22] @ bytes ''$0'' @ [0x22] @ bytes '' && exec '' @ [0x22] @ bytes ''$@'' @ [0x22]"

text \<open>What \<open>spawn_detached\<close> hands to \<open>posix_spawn\<close>: the image, the arguments and the environment.\<close>

definition detached_image ::
    "fs \<Rightarrow> (os_string \<times> os_string) list \<Rightarrow> spawn_params \<Rightarrow> spawn_error + u8 list \<times> u8 list list \<times> u8 list list" where
  "detached_image f inherited p =
     res_bind (checked_argv p) (\<lambda>(program, args).
     res_bind (case sp_cwd p of Some cwd \<Rightarrow> check_detached_cwd f cwd | None \<Rightarrow> Inr ()) (\<lambda>_.
     let merged = merged_env inherited p in
     res_bind (case sp_cwd p of Some cwd \<Rightarrow> check_program_under_cwd f program merged cwd | None \<Rightarrow> Inr ()) (\<lambda>_.
     res_bind (case sp_cwd p of
         None \<Rightarrow>
           res_bind (resolve_in_child_path f program merged) (\<lambda>resolved.
           res_bind (cstrs (program # args) ''argv element'') (\<lambda>argv.
           res_bind (cstr resolved ''resolved program'') (\<lambda>path. Inr (path, argv))))
       | Some cwd \<Rightarrow>
           res_bind (cstrs [bytes ''/bin/sh'', bytes ''-c'', DETACHED_CWD_SCRIPT] ''spawn wrapper'') (\<lambda>shell.
           res_bind (cstr cwd ''cwd'') (\<lambda>dir.
           res_bind (cstrs (program # args) ''argv element'') (\<lambda>argv.
           res_bind (cstr (bytes ''/bin/sh'') ''spawn wrapper'') (\<lambda>path. Inr (path, shell @ dir # argv)))))) (\<lambda>(path, argv).
     res_bind (env_cstrings merged) (\<lambda>env. Inr (path, argv, env))))))"

section \<open>Exit status\<close>

record exit_status =
  ex_code :: nat
  ex_signal :: "string option"

definition ex_success :: "exit_status \<Rightarrow> bool" where
  "ex_success s \<longleftrightarrow> ex_signal s = None \<and> ex_code s = 0"

definition ex_from_pty :: "nat \<Rightarrow> string option \<Rightarrow> exit_status" where
  "ex_from_pty code sig = \<lparr>ex_code = code, ex_signal = sig\<rparr>"

definition ex_unknown :: exit_status where
  "ex_unknown = \<lparr>ex_code = 1, ex_signal = Some ''unknown''\<rparr>"

definition SIGHUP :: int where "SIGHUP = 1"

definition SIGINT :: int where "SIGINT = 2"

definition SIGQUIT :: int where "SIGQUIT = 3"

definition SIGKILL :: int where "SIGKILL = 9"

definition SIGTERM :: int where "SIGTERM = 15"

text \<open>
  \<open>u32::try_from\<close> and \<open>i32::try_from\<close>, decimal digits of an \<open>i32\<close>, and the signals of \<open>nix\<close>: the table
  \<open>sigs\<close> gives the name of a signal number.
\<close>

definition try_u32 :: "int \<Rightarrow> nat option" where
  "try_u32 n = (if 0 \<le> n \<and> n < 2 ^ 32 then Some (nat n) else None)"

definition try_i32 :: "nat \<Rightarrow> int option" where
  "try_i32 n = (if n < 2 ^ 31 then Some (int n) else None)"

definition show_int :: "int \<Rightarrow> string" where
  "show_int n = (if n < 0 then ''-'' else []) @ map (\<lambda>b. char_of (unat b)) (decimal (nat \<bar>n\<bar>))"

type_synonym signal_table = "int \<Rightarrow> string option"

definition signame :: "signal_table \<Rightarrow> int \<Rightarrow> string" where
  "signame sigs signo = (case sigs signo of None \<Rightarrow> ''Signal '' @ show_int signo | Some name \<Rightarrow> name)"

text \<open>\<open>std::process::ExitStatus\<close>: an exit code, a signal, or neither.\<close>

datatype std_status = StdExited int | StdSignaled int | StdOther

definition std_code :: "std_status \<Rightarrow> int option" where
  "std_code s = (case s of StdExited c \<Rightarrow> Some c | _ \<Rightarrow> None)"

definition std_signal :: "std_status \<Rightarrow> int option" where
  "std_signal s = (case s of StdSignaled n \<Rightarrow> Some n | _ \<Rightarrow> None)"

definition convert_std :: "signal_table \<Rightarrow> std_status \<Rightarrow> exit_status" where
  "convert_std sigs s = (case std_signal s of
       Some signo \<Rightarrow> \<lparr>ex_code = (case Option.bind (std_code s) try_u32 of Some c \<Rightarrow> c | None \<Rightarrow> 1),
                     ex_signal = Some (signame sigs signo)\<rparr>
     | None \<Rightarrow> \<lparr>ex_code = (case Option.bind (std_code s) try_u32 of Some c \<Rightarrow> c
                          | None \<Rightarrow> if s = StdExited 0 then 0 else 1),
               ex_signal = None\<rparr>)"

text \<open>\<open>WaitStatus\<close> of \<open>nix\<close>; a signal arrives with its name.\<close>

datatype wait_status = Exited int | Signaled string | StillAlive | Stopped | Continued | Ptrace

definition convert_wait :: "wait_status \<Rightarrow> exit_status option" where
  "convert_wait s = (case s of
       Exited code \<Rightarrow> Some \<lparr>ex_code = (case try_u32 code of Some c \<Rightarrow> c | None \<Rightarrow> 1), ex_signal = None\<rparr>
     | Signaled name \<Rightarrow> Some \<lparr>ex_code = 1, ex_signal = Some name\<rparr>
     | _ \<Rightarrow> None)"

section \<open>Signals and probes\<close>

text \<open>The system calls on processes. The two \<open>std\<close> entries are the calls of \<open>std::process::Child\<close>.\<close>

record 'w kernel =
  k_kill :: "int \<Rightarrow> int option \<Rightarrow> 'w \<Rightarrow> (errno + unit) \<times> 'w"
  k_waitpid :: "int \<Rightarrow> bool \<Rightarrow> 'w \<Rightarrow> (errno + wait_status) \<times> 'w"
  k_std_kill :: "nat \<Rightarrow> 'w \<Rightarrow> (io_error + unit) \<times> 'w"
  k_std_waitpid :: "nat \<Rightarrow> bool \<Rightarrow> 'w \<Rightarrow> (io_error + std_status option) \<times> 'w"
  k_getpgid :: "int \<Rightarrow> 'w \<Rightarrow> (errno + int) \<times> 'w"
  k_getsid :: "int \<Rightarrow> 'w \<Rightarrow> (errno + int) \<times> 'w"

datatype signal_error = SigNotFound nat | SigUnknownPid | SigInvalid int | SigFailed nat int errno

definition pid_from_u32 :: "nat \<Rightarrow> int option" where
  "pid_from_u32 pid = try_i32 pid"

definition pid_to_u32 :: "int \<Rightarrow> nat" where
  "pid_to_u32 raw = (case try_u32 raw of Some n \<Rightarrow> n | None \<Rightarrow> 0)"

definition signal_pid :: "'w kernel \<Rightarrow> signal_table \<Rightarrow> nat \<Rightarrow> int \<Rightarrow> 'w \<Rightarrow> (signal_error + unit) \<times> 'w" where
  "signal_pid k sigs pid signo w =
     (if pid = 0 then (Inl (SigNotFound pid), w)
      else case pid_from_u32 pid of
        None \<Rightarrow> (Inl (SigNotFound pid), w)
      | Some target \<Rightarrow>
          (case sigs signo of
             None \<Rightarrow> (Inl (SigInvalid signo), w)
           | Some _ \<Rightarrow>
               (case k_kill k target (Some signo) w of
                  (Inr _, w) \<Rightarrow> (Inr (), w)
                | (Inl e, w) \<Rightarrow> (Inl (if e = ESRCH then SigNotFound pid else SigFailed pid signo e), w))))"

definition pid_alive :: "'w kernel \<Rightarrow> nat \<Rightarrow> 'w \<Rightarrow> bool \<times> 'w" where
  "pid_alive k pid w = (case (if pid \<noteq> 0 then pid_from_u32 pid else None) of
       None \<Rightarrow> (False, w)
     | Some target \<Rightarrow>
         (case k_kill k target None w of
            (Inr _, w) \<Rightarrow> (True, w)
          | (Inl e, w) \<Rightarrow> (e = EPERM, w)))"

definition process_ids :: "'w kernel \<Rightarrow> nat \<Rightarrow> 'w \<Rightarrow> (int \<times> int) option \<times> 'w" where
  "process_ids k pid w =
     (if pid = 0 then (None, w)
      else case pid_from_u32 pid of
        None \<Rightarrow> (None, w)
      | Some target \<Rightarrow>
          (case k_getpgid k target w of
             (Inl _, w) \<Rightarrow> (None, w)
           | (Inr pgid, w) \<Rightarrow>
               (case k_getsid k target w of
                  (Inl _, w) \<Rightarrow> (None, w)
                | (Inr sid, w) \<Rightarrow> (Some (pgid, sid), w))))"

definition session_id_of :: "'w kernel \<Rightarrow> nat \<Rightarrow> 'w \<Rightarrow> int option \<times> 'w" where
  "session_id_of k pid w =
     (if pid = 0 then (None, w)
      else case pid_from_u32 pid of
        None \<Rightarrow> (None, w)
      | Some target \<Rightarrow>
          (case k_getsid k target w of (Inl _, w) \<Rightarrow> (None, w) | (Inr sid, w) \<Rightarrow> (Some sid, w)))"

section \<open>The child handle\<close>

text \<open>
  \<open>std::process::Child\<close>: the pid and the status it has waited for. After the status is known no call is made.
\<close>

record std_child =
  sc_pid :: nat
  sc_status :: "std_status option"

definition std_wait :: "'w kernel \<Rightarrow> bool \<Rightarrow> std_child \<Rightarrow> 'w \<Rightarrow> (io_error + std_status option) \<times> std_child \<times> 'w" where
  "std_wait k nohang c w = (case sc_status c of
       Some s \<Rightarrow> (Inr (Some s), c, w)
     | None \<Rightarrow> (case k_std_waitpid k (sc_pid c) nohang w of
         (Inr (Some s), w) \<Rightarrow> (Inr (Some s), c\<lparr>sc_status := Some s\<rparr>, w)
       | (r, w) \<Rightarrow> (r, c, w)))"

definition std_kill :: "'w kernel \<Rightarrow> std_child \<Rightarrow> 'w \<Rightarrow> (io_error + unit) \<times> 'w" where
  "std_kill k c w = (if sc_status c \<noteq> None then (Inr (), w) else k_std_kill k (sc_pid c) w)"

datatype piped_inner = StdInner std_child "exit_status option" | DetachedInner int "exit_status option"

record piped_child =
  pc_pid :: nat
  pc_inner :: piped_inner
  pc_stdin :: bool
  pc_stdout :: bool
  pc_stderr :: bool

definition pc_done :: "piped_child \<Rightarrow> exit_status option" where
  "pc_done c = (case pc_inner c of StdInner _ d \<Rightarrow> d | DetachedInner _ d \<Rightarrow> d)"

text \<open>The system is interrupted at most until it answers otherwise; \<open>None\<close> is a call that never returns.\<close>

partial_function (option) waitpid_retry :: "'w kernel \<Rightarrow> int \<Rightarrow> bool \<Rightarrow> 'w \<Rightarrow> ((errno + wait_status) \<times> 'w) option" where
  "waitpid_retry k pid nohang w = (case k_waitpid k pid nohang w of
       (r, w') \<Rightarrow> if r = Inl EINTR then waitpid_retry k pid nohang w' else Some (r, w'))"

datatype wait_error = WaitErrno errno | WaitIo io_error

definition pc_try_wait ::
    "'w kernel \<Rightarrow> signal_table \<Rightarrow> piped_child \<Rightarrow> 'w \<Rightarrow> ((wait_error + exit_status option) \<times> piped_child \<times> 'w) option" where
  "pc_try_wait k sigs c w = (case pc_inner c of
       StdInner child d \<Rightarrow> Some (case d of
           Some s \<Rightarrow> (Inr (Some s), c, w)
         | None \<Rightarrow> (case std_wait k True child w of
             (Inl e, child, w) \<Rightarrow> (Inl (WaitIo e), c\<lparr>pc_inner := StdInner child None\<rparr>, w)
           | (Inr st, child, w) \<Rightarrow>
               (let st = map_option (convert_std sigs) st in (Inr st, c\<lparr>pc_inner := StdInner child st\<rparr>, w))))
     | DetachedInner pid d \<Rightarrow> (case d of
           Some s \<Rightarrow> Some (Inr (Some s), c, w)
         | None \<Rightarrow> do {
             (r, w) \<leftarrow> waitpid_retry k pid True w;
             Some (case r of
                 Inl e \<Rightarrow> (Inl (WaitErrno e), c, w)
               | Inr ws \<Rightarrow> (Inr (convert_wait ws), c\<lparr>pc_inner := DetachedInner pid (convert_wait ws)\<rparr>, w))
           }))"

text \<open>The blocking wait on a detached child repeats until the status is an end.\<close>

partial_function (option) detached_wait :: "'w kernel \<Rightarrow> int \<Rightarrow> 'w \<Rightarrow> ((errno + exit_status) \<times> 'w) option" where
  "detached_wait k pid w = do {
     (r, w) \<leftarrow> waitpid_retry k pid False w;
     case r of
       Inl e \<Rightarrow> Some (Inl e, w)
     | Inr ws \<Rightarrow> (case convert_wait ws of Some s \<Rightarrow> Some (Inr s, w) | None \<Rightarrow> detached_wait k pid w)
   }"

definition pc_wait ::
    "'w kernel \<Rightarrow> signal_table \<Rightarrow> piped_child \<Rightarrow> 'w \<Rightarrow> ((wait_error + exit_status) \<times> piped_child \<times> 'w) option" where
  "pc_wait k sigs c w = (let c = c\<lparr>pc_stdin := False\<rparr> in case pc_inner c of
       StdInner child d \<Rightarrow> (case d of
           Some s \<Rightarrow> Some (Inr s, c, w)
         | None \<Rightarrow> (case std_wait k False child w of
             (Inl e, child, w) \<Rightarrow> Some (Inl (WaitIo e), c\<lparr>pc_inner := StdInner child None\<rparr>, w)
           | (Inr None, child, w) \<Rightarrow> None
           | (Inr (Some st), child, w) \<Rightarrow>
               (let s = convert_std sigs st in Some (Inr s, c\<lparr>pc_inner := StdInner child (Some s)\<rparr>, w))))
     | DetachedInner pid d \<Rightarrow> (case d of
           Some s \<Rightarrow> Some (Inr s, c, w)
         | None \<Rightarrow> do {
             (r, w) \<leftarrow> detached_wait k pid w;
             Some (case r of
                 Inl e \<Rightarrow> (Inl (WaitErrno e), c, w)
               | Inr s \<Rightarrow> (Inr s, c\<lparr>pc_inner := DetachedInner pid (Some s)\<rparr>, w))
           }))"

definition pc_kill :: "'w kernel \<Rightarrow> piped_child \<Rightarrow> 'w \<Rightarrow> (wait_error + unit) \<times> 'w" where
  "pc_kill k c w = (case pc_inner c of
       StdInner child _ \<Rightarrow> (case std_kill k child w of (Inl e, w) \<Rightarrow> (Inl (WaitIo e), w) | (Inr _, w) \<Rightarrow> (Inr (), w))
     | DetachedInner pid d \<Rightarrow>
         if d \<noteq> None then (Inr (), w)
         else (case k_kill k pid (Some SIGKILL) w of (Inl e, w) \<Rightarrow> (Inl (WaitErrno e), w) | (Inr _, w) \<Rightarrow> (Inr (), w)))"

definition pc_signal :: "'w kernel \<Rightarrow> signal_table \<Rightarrow> piped_child \<Rightarrow> int \<Rightarrow> 'w \<Rightarrow> (signal_error + unit) \<times> 'w" where
  "pc_signal k sigs c signo w =
     (if pc_done c \<noteq> None then (Inl (SigNotFound (pc_pid c)), w) else signal_pid k sigs (pc_pid c) signo w)"

definition take_stdin :: "piped_child \<Rightarrow> bool \<times> piped_child" where
  "take_stdin c = (pc_stdin c, c\<lparr>pc_stdin := False\<rparr>)"

definition take_stdout :: "piped_child \<Rightarrow> bool \<times> piped_child" where
  "take_stdout c = (pc_stdout c, c\<lparr>pc_stdout := False\<rparr>)"

definition take_stderr :: "piped_child \<Rightarrow> bool \<times> piped_child" where
  "take_stderr c = (pc_stderr c, c\<lparr>pc_stderr := False\<rparr>)"

section \<open>Spawning\<close>

text \<open>A file is its descriptor.\<close>

datatype stdio = StdioNull | StdioInherit | StdioPipe | StdioFile int

record piped_stdio =
  ps_stdin :: stdio
  ps_stdout :: stdio
  ps_stderr :: stdio

definition ps_new :: piped_stdio where
  "ps_new = \<lparr>ps_stdin = StdioNull, ps_stdout = StdioNull, ps_stderr = StdioNull\<rparr>"

definition ps_set_stdin :: "stdio \<Rightarrow> piped_stdio \<Rightarrow> piped_stdio" where
  "ps_set_stdin s p = p\<lparr>ps_stdin := s\<rparr>"

definition ps_set_stdout :: "stdio \<Rightarrow> piped_stdio \<Rightarrow> piped_stdio" where
  "ps_set_stdout s p = p\<lparr>ps_stdout := s\<rparr>"

definition ps_set_stderr :: "stdio \<Rightarrow> piped_stdio \<Rightarrow> piped_stdio" where
  "ps_set_stderr s p = p\<lparr>ps_stderr := s\<rparr>"

text \<open>
  \<open>std::process::Command\<close> as \<open>spawn_std\<close> fills it, and the calls that spawn. \<open>so_open_null\<close> opens \<open>/dev/null\<close>
  for reading or for writing, \<open>so_pipe2\<close> answers the read and the write end.
\<close>

record std_command =
  cmd_program :: os_string
  cmd_args :: "os_string list"
  cmd_env :: command_env
  cmd_cwd :: "os_string option"
  cmd_stdio :: "stdio list"

record 'w spawn_os =
  so_try_clone :: "int \<Rightarrow> ('w, io_error, int) io"
  so_command_spawn :: "std_command \<Rightarrow> ('w, io_error, nat) io"
  so_actions_init :: "('w, errno, unit) io"
  so_add_dup2 :: "int \<Rightarrow> int \<Rightarrow> ('w, errno, unit) io"
  so_open_null :: "bool \<Rightarrow> ('w, errno, int) io"
  so_pipe2 :: "('w, errno, int \<times> int) io"
  so_attr_init :: "('w, errno, unit) io"
  so_set_flags :: "int \<Rightarrow> ('w, errno, unit) io"
  so_posix_spawn :: "u8 list \<Rightarrow> (int \<times> int) list \<Rightarrow> u8 list list \<Rightarrow> u8 list list \<Rightarrow> ('w, errno, int) io"

definition map_stdio :: "'w spawn_os \<Rightarrow> stdio \<Rightarrow> ('w, io_error, stdio) io" where
  "map_stdio os s = (case s of
       StdioNull \<Rightarrow> io_ret StdioNull
     | StdioInherit \<Rightarrow> io_ret StdioInherit
     | StdioPipe \<Rightarrow> io_ret StdioPipe
     | StdioFile f \<Rightarrow> io_bind (so_try_clone os f) (\<lambda>f. io_ret (StdioFile f)))"

text \<open>The child of \<open>Command::spawn\<close> has a pipe end exactly for the streams set to \<open>piped\<close>.\<close>

definition spawn_std :: "'w spawn_os \<Rightarrow> spawn_params \<Rightarrow> piped_stdio \<Rightarrow> ('w, spawn_error, piped_child) io" where
  "spawn_std os p stdio =
     io_bind (io_lift (checked_argv p)) (\<lambda>(program, args).
     io_bind (io_err SpawnFailed (map_stdio os (ps_stdin stdio))) (\<lambda>i.
     io_bind (io_err SpawnFailed (map_stdio os (ps_stdout stdio))) (\<lambda>out.
     io_bind (io_err SpawnFailed (map_stdio os (ps_stderr stdio))) (\<lambda>err.
     io_bind (io_err SpawnFailed (so_command_spawn os
       \<lparr>cmd_program = program, cmd_args = args, cmd_env = std_command_env p, cmd_cwd = sp_cwd p, cmd_stdio = [i, out, err]\<rparr>)) (\<lambda>pid.
     io_ret \<lparr>pc_pid = pid, pc_inner = StdInner \<lparr>sc_pid = pid, sc_status = None\<rparr> None,
       pc_stdin = (i = StdioPipe), pc_stdout = (out = StdioPipe), pc_stderr = (err = StdioPipe)\<rparr>)))))"

definition POSIX_SPAWN_SETSID :: int where
  "POSIX_SPAWN_SETSID = 0x80"

definition cloexec_pipe :: "'w spawn_os \<Rightarrow> ('w, errno, int \<times> int) io" where
  "cloexec_pipe os = so_pipe2 os"

record wire_stdio =
  ws_actions :: "(int \<times> int) list"
  ws_keep :: "int list"
  ws_nulls :: "int list"
  ws_parents :: "int option list"

definition wire_new :: wire_stdio where
  "wire_new = \<lparr>ws_actions = [], ws_keep = [], ws_nulls = [], ws_parents = [None, None, None]\<rparr>"

definition wire_dup2 :: "'w spawn_os \<Rightarrow> int \<Rightarrow> int \<Rightarrow> wire_stdio \<Rightarrow> ('w, errno, wire_stdio) io" where
  "wire_dup2 os src target ws =
     io_bind (so_add_dup2 os src target) (\<lambda>_. io_ret (ws\<lparr>ws_actions := ws_actions ws @ [(src, target)]\<rparr>))"

definition wire :: "'w spawn_os \<Rightarrow> nat \<Rightarrow> stdio \<Rightarrow> wire_stdio \<Rightarrow> ('w, errno, wire_stdio) io" where
  "wire os fd s ws = (case s of
       StdioNull \<Rightarrow>
         io_bind (so_open_null os (fd = 0)) (\<lambda>null.
         io_bind (wire_dup2 os null (int fd) ws) (\<lambda>ws.
         io_ret (ws\<lparr>ws_nulls := ws_nulls ws @ [null]\<rparr>)))
     | StdioInherit \<Rightarrow> io_ret ws
     | StdioPipe \<Rightarrow>
         io_bind (cloexec_pipe os) (\<lambda>(rd, wr).
         if fd = 0 then
           io_bind (wire_dup2 os rd (int fd) ws) (\<lambda>ws.
           io_ret (ws\<lparr>ws_keep := ws_keep ws @ [rd], ws_parents := (ws_parents ws)[fd := Some wr]\<rparr>))
         else
           io_bind (wire_dup2 os wr (int fd) ws) (\<lambda>ws.
           io_ret (ws\<lparr>ws_keep := ws_keep ws @ [wr], ws_parents := (ws_parents ws)[fd := Some rd]\<rparr>)))
     | StdioFile f \<Rightarrow> wire_dup2 os f (int fd) ws)"

definition wire_streams :: "'w spawn_os \<Rightarrow> piped_stdio \<Rightarrow> ('w, errno, wire_stdio) io" where
  "wire_streams os stdio =
     io_bind (wire os 0 (ps_stdin stdio) wire_new) (\<lambda>ws.
     io_bind (wire os 1 (ps_stdout stdio) ws) (\<lambda>ws.
     wire os 2 (ps_stderr stdio) ws))"

definition spawn_detached ::
    "'w spawn_os \<Rightarrow> fs \<Rightarrow> (os_string \<times> os_string) list \<Rightarrow> spawn_params \<Rightarrow> piped_stdio \<Rightarrow> ('w, spawn_error, piped_child) io" where
  "spawn_detached os f inherited p stdio =
     io_bind (io_lift (detached_image f inherited p)) (\<lambda>(path, argv, env).
     io_err SpawnErrno (
       io_bind (so_actions_init os) (\<lambda>_.
       io_bind (wire_streams os stdio) (\<lambda>ws.
       io_bind (so_attr_init os) (\<lambda>_.
       io_bind (so_set_flags os POSIX_SPAWN_SETSID) (\<lambda>_.
       io_bind (so_posix_spawn os path (ws_actions ws) argv env) (\<lambda>pid.
       io_ret \<lparr>pc_pid = pid_to_u32 pid, pc_inner = DetachedInner pid None,
         pc_stdin = (ws_parents ws ! 0 \<noteq> None), pc_stdout = (ws_parents ws ! 1 \<noteq> None),
         pc_stderr = (ws_parents ws ! 2 \<noteq> None)\<rparr>)))))))"

definition spawn_piped ::
    "'w spawn_os \<Rightarrow> fs \<Rightarrow> (os_string \<times> os_string) list \<Rightarrow> spawn_params \<Rightarrow> piped_stdio \<Rightarrow> ('w, spawn_error, piped_child) io" where
  "spawn_piped os f inherited p stdio =
     (if sp_detached p then spawn_detached os f inherited p stdio else spawn_std os p stdio)"

section \<open>Ordered maps\<close>

definition bt_sorted :: "('k::linorder \<times> 'v) list \<Rightarrow> bool" where
  "bt_sorted m \<longleftrightarrow> sorted_wrt (<) (map fst m)"

lemma bt_insert_keys: "set (map fst (bt_insert k v m)) = insert k (set (map fst m))"
  by (induction k v m rule: bt_insert.induct) auto

lemma bt_sorted_insert: "bt_sorted m \<Longrightarrow> bt_sorted (bt_insert k v m)"
  unfolding bt_sorted_def
proof (induction k v m rule: bt_insert.induct)
  case (2 k v k' v' m)
  consider "k < k'" | "k = k'" | "k' < k" by (rule linorder_cases)
  then show ?case
  proof cases
    case 1
    with 2 have "\<forall>x \<in> set (map fst m). k < x" by (auto dest: less_trans)
    with 1 2 show ?thesis by simp
  next
    case 3
    with 2 have "\<forall>x \<in> set (map fst (bt_insert k v m)). k' < x" unfolding bt_insert_keys by auto
    moreover have "\<not> k < k'" "k \<noteq> k'" using 3 by auto
    ultimately show ?thesis using 2 by (simp del: set_map)
  qed (use 2 in simp)
qed simp

lemma bt_sorted_remove: "bt_sorted m \<Longrightarrow> bt_sorted (bt_remove k m)"
  unfolding bt_sorted_def bt_remove_def by (induction m) auto

lemma map_of_bt_insert: "bt_sorted m \<Longrightarrow> map_of (bt_insert k v m) = (map_of m)(k \<mapsto> v)"
  unfolding bt_sorted_def by (induction m) (auto simp: fun_eq_iff)

lemma map_of_bt_remove: "map_of (bt_remove k m) = (map_of m)(k := None)"
  unfolding bt_remove_def by (induction m) (auto simp: fun_eq_iff)

lemma map_of_first:
  assumes "bt_sorted ((k, v) # m)" "k' \<le> k"
  shows "map_of ((k, v) # m) k' = (if k' = k then Some v else None)"
proof -
  have "k' \<notin> fst ` set m" using assms by (force simp: bt_sorted_def)
  then show ?thesis by (simp add: map_of_eq_None_iff)
qed

lemma bt_ext: "bt_sorted m \<Longrightarrow> bt_sorted m' \<Longrightarrow> map_of m = map_of m' \<Longrightarrow> m = m'"
proof (induction m arbitrary: m')
  case Nil
  then show ?case by (cases m') (auto simp: fun_eq_iff split: if_splits)
next
  case (Cons e m)
  obtain k v where e: "e = (k, v)" by (cases e)
  have "map_of m' k = Some v" using Cons.prems(3) e by (metis map_of_Cons_code(2))
  then obtain k' v' n where m': "m' = (k', v') # n" by (cases m') auto
  have sorted: "bt_sorted ((k, v) # m)" "bt_sorted ((k', v') # n)" using Cons.prems e m' by simp_all
  have eq: "map_of ((k, v) # m) j = map_of ((k', v') # n) j" for j
    using fun_cong [OF Cons.prems(3)] unfolding e m' .
  have "\<not> k < k'" using eq [of k] map_of_first [OF sorted(2), of k] by (auto simp: less_imp_le split: if_splits)
  moreover have "\<not> k' < k" using eq [of k'] map_of_first [OF sorted(1), of k'] by (auto simp: less_imp_le split: if_splits)
  ultimately have same: "k = k'" "v = v'" using eq [of k] by (auto simp: not_less_iff_gr_or_eq)
  have "map_of m j = map_of n j" for j
  proof (cases "j = k")
    case True
    have "k \<notin> fst ` set m" "k \<notin> fst ` set n" using sorted same by (force simp: bt_sorted_def)+
    with True show ?thesis by (metis map_of_eq_None_iff)
  next
    case False
    then show ?thesis using fun_cong [OF Cons.prems(3), of j] e m' same by simp
  qed
  then have "m = n" using Cons.IH [of n] sorted by (simp add: bt_sorted_def fun_eq_iff)
  with e m' same show ?case by simp
qed

text \<open>A list of edits on an ordered map.\<close>

definition bt_edit :: "('k::linorder \<times> 'v) list \<Rightarrow> 'k \<times> 'v option \<Rightarrow> ('k \<times> 'v) list" where
  "bt_edit m e = (case e of (k, Some v) \<Rightarrow> bt_insert k v m | (k, None) \<Rightarrow> bt_remove k m)"

lemma bt_edit_spec: "bt_sorted m \<Longrightarrow> bt_sorted (bt_edit m (k, e)) \<and> map_of (bt_edit m (k, e)) = (map_of m)(k := e)"
  by (cases e) (simp_all add: bt_edit_def bt_sorted_insert bt_sorted_remove map_of_bt_insert map_of_bt_remove)

lemma bt_edits_spec:
  "bt_sorted m \<Longrightarrow> bt_sorted (foldl bt_edit m es)
    \<and> map_of (foldl bt_edit m es) k = (case map_of (rev es) k of Some e \<Rightarrow> e | None \<Rightarrow> map_of m k)"
proof (induction es arbitrary: m)
  case (Cons e es)
  obtain j x where e: "e = (j, x)" by (cases e)
  note s = bt_edit_spec [OF Cons.prems, of j x]
  from Cons.IH [of "bt_edit m e"] s e show ?case by (auto split: option.splits)
qed simp

text \<open>The three loops of the environment as edits.\<close>

lemma env_loops:
  "foldl (\<lambda>m (k, v). bt_insert k v m) m es = foldl bt_edit m (map (\<lambda>(k, v). (k, Some v)) es)"
  "foldl (\<lambda>m k. bt_remove k m) m ks = foldl bt_edit m (map (\<lambda>k. (k, None)) ks)"
proof -
  show "foldl (\<lambda>m (k, v). bt_insert k v m) m es = foldl bt_edit m (map (\<lambda>(k, v). (k, Some v)) es)"
    by (induction es arbitrary: m) (auto simp: bt_edit_def)
  show "foldl (\<lambda>m k. bt_remove k m) m ks = foldl bt_edit m (map (\<lambda>k. (k, None)) ks)"
    by (induction ks arbitrary: m) (auto simp: bt_edit_def)
qed

lemma env_capture_loop:
  "foldl (\<lambda>m (k, e). case e of Some v \<Rightarrow> bt_insert k v m | None \<Rightarrow> bt_remove k m) m es = foldl bt_edit m es"
proof (induction es arbitrary: m)
  case (Cons e es)
  obtain k x where e: "e = (k, x)" by (cases e)
  have "(case x of Some v \<Rightarrow> bt_insert k v m | None \<Rightarrow> bt_remove k m) = bt_edit m (k, x)" by (cases x) (simp_all add: bt_edit_def)
  then show ?case by (simp only: foldl.simps e prod.case Cons.IH)
qed simp

lemma map_of_overrides: "map_of (map (\<lambda>(k, v). (k, Some v)) es) k = map_option Some (map_of es k)"
  by (induction es) auto

lemma map_of_removals: "map_of (map (\<lambda>k. (k, None)) ks) k = (if k \<in> set ks then Some None else None)"
  by (induction ks) auto

definition inherited_env :: "(os_string \<times> os_string) list \<Rightarrow> spawn_params \<Rightarrow> (os_string \<times> os_string) list" where
  "inherited_env inherited p = (if sp_env_cleared p then [] else foldl (\<lambda>m (k, v). bt_insert k v m) [] inherited)"

lemma inherited_env_spec:
  "bt_sorted (inherited_env inherited p)
    \<and> map_of (inherited_env inherited p) k = (if sp_env_cleared p then None else map_of (rev inherited) k)"
  using bt_edits_spec [of "[]" "map (\<lambda>(k, v). (k, Some v)) inherited" k]
  by (auto simp: inherited_env_def env_loops rev_map map_of_overrides bt_sorted_def split: option.splits)

definition child_env :: "(os_string \<times> os_string) list \<Rightarrow> spawn_params \<Rightarrow> os_string \<Rightarrow> os_string option" where
  "child_env inherited p k = (case map_of (rev (sp_env_overrides p)) k of
       Some v \<Rightarrow> Some v
     | None \<Rightarrow> if sp_env_cleared p \<or> k \<in> set (sp_env_removed p) then None else map_of (rev inherited) k)"

lemma merged_env_spec: "bt_sorted (merged_env inherited p) \<and> map_of (merged_env inherited p) k = child_env inherited p k"
proof -
  let ?m = "inherited_env inherited p" and ?r = "map (\<lambda>k. (k, None)) (sp_env_removed p)"
  have eq: "merged_env inherited p = foldl bt_edit (foldl bt_edit ?m ?r) (map (\<lambda>(k, v). (k, Some v)) (sp_env_overrides p))"
    by (simp add: merged_env_def env_loops(1,2) inherited_env_def Let_def)
  have m: "bt_sorted ?m" using inherited_env_spec by blast
  note r = bt_edits_spec [OF m, of ?r k]
  have s: "bt_sorted (foldl bt_edit ?m ?r)" using r by blast
  from bt_edits_spec [OF s, of "map (\<lambda>(k, v). (k, Some v)) (sp_env_overrides p)" k] r inherited_env_spec [of inherited p k]
  show ?thesis
    by (auto simp: eq rev_map map_of_overrides map_of_removals child_env_def split: option.splits)
qed

text \<open>The edits of \<open>Command\<close>.\<close>

lemma ce_removals:
  "foldl (\<lambda>c k. ce_env_remove k c) c ks =
    \<lparr>ce_clear = ce_clear c, ce_vars = (if ce_clear c then foldl (\<lambda>m k. bt_remove k m) (ce_vars c) ks
       else foldl (\<lambda>m k. bt_insert k None m) (ce_vars c) ks)\<rparr>"
proof (induction ks arbitrary: c)
  case (Cons k ks)
  have "foldl (\<lambda>c k. ce_env_remove k c) c (k # ks) = foldl (\<lambda>c k. ce_env_remove k c) (ce_env_remove k c) ks" by simp
  also note Cons.IH
  finally show ?case by (simp add: ce_env_remove_def)
qed simp

lemma ce_overrides:
  "foldl (\<lambda>c (k, v). ce_env k v c) c es = c\<lparr>ce_vars := foldl (\<lambda>m (k, v). bt_insert k (Some v) m) (ce_vars c) es\<rparr>"
proof (induction es arbitrary: c)
  case (Cons e es)
  obtain k v where e: "e = (k, v)" by (cases e)
  have "foldl (\<lambda>c (k, v). ce_env k v c) c (e # es) = foldl (\<lambda>c (k, v). ce_env k v c) (ce_env k v c) es" by (simp add: e)
  also note Cons.IH
  finally show ?case by (simp add: ce_env_def e)
qed simp

lemma bt_inserts:
  "foldl (\<lambda>m k. bt_insert k x m) m ks = foldl bt_edit m (map (\<lambda>k. (k, Some x)) ks)"
  "foldl (\<lambda>m (k, v). bt_insert k (g v) m) m es = foldl bt_edit m (map (\<lambda>(k, v). (k, Some (g v))) es)"
proof -
  show "foldl (\<lambda>m k. bt_insert k x m) m ks = foldl bt_edit m (map (\<lambda>k. (k, Some x)) ks)"
    by (induction ks arbitrary: m) (auto simp: bt_edit_def)
  show "foldl (\<lambda>m (k, v). bt_insert k (g v) m) m es = foldl bt_edit m (map (\<lambda>(k, v). (k, Some (g v))) es)"
    by (induction es arbitrary: m) (auto simp: bt_edit_def)
qed

lemma map_of_const: "map_of (map (\<lambda>k. (k, x)) ks) k = (if k \<in> set ks then Some x else None)"
  "map_of (map (\<lambda>(k, v). (k, g v)) es) k = map_option g (map_of es k)"
  by (induction ks) (auto, induction es, auto)

text \<open>The edits that \<open>Command\<close> has recorded for a key.\<close>

lemma std_command_env_spec:
  "ce_clear (std_command_env p) = sp_env_cleared p \<and> bt_sorted (ce_vars (std_command_env p))
    \<and> map_of (ce_vars (std_command_env p)) k = (case map_of (rev (sp_env_overrides p)) k of
        Some v \<Rightarrow> Some (Some v)
      | None \<Rightarrow> if \<not> sp_env_cleared p \<and> k \<in> set (sp_env_removed p) then Some None else None)"
proof -
  define m where "m = (if sp_env_cleared p then [] else foldl (\<lambda>m k. bt_insert k None m) [] (sp_env_removed p) :: (os_string \<times> os_string option) list)"
  have none: "foldl (\<lambda>m k. bt_remove k m) [] ks = []" for ks :: "os_string list"
    by (induction ks) (simp_all add: bt_remove_def)
  have vars: "std_command_env p = \<lparr>ce_clear = sp_env_cleared p, ce_vars = foldl (\<lambda>m (k, v). bt_insert k (Some v) m) m (sp_env_overrides p)\<rparr>"
    by (simp add: std_command_env_def Let_def ce_removals ce_overrides ce_new_def ce_env_clear_def m_def none)
  have m: "bt_sorted m \<and> map_of m k = (if \<not> sp_env_cleared p \<and> k \<in> set (sp_env_removed p) then Some None else None)"
    using bt_edits_spec [of "[]" "map (\<lambda>k. (k, Some None)) (sp_env_removed p)" k]
    by (auto simp: m_def bt_inserts rev_map map_of_const bt_sorted_def split: option.splits)
  then have "bt_sorted m" by blast
  from bt_edits_spec [OF this, of "map (\<lambda>(k, v). (k, Some (Some v))) (sp_env_overrides p)" k] m show ?thesis
    by (auto simp: vars bt_inserts rev_map map_of_const split: option.splits)
qed

lemma sorted_map_of_rev: "bt_sorted m \<Longrightarrow> map_of (rev m) = map_of m"
proof -
  assume "bt_sorted m"
  then have d: "distinct (map fst m)" by (simp add: bt_sorted_def strict_sorted_iff)
  then have "distinct (map fst (rev m))" by (metis distinct_rev rev_map)
  with d show ?thesis by (intro map_of_inject_set [THEN iffD2]) simp_all
qed

text \<open>
  C38: the environment of a child. A variable has the value of its last override; without one it is absent
  when the environment was cleared or the key removed, and inherited otherwise. The attached path, which lets
  \<open>Command\<close> apply the same edits, gives the child exactly the same environment, in the same order.
\<close>

theorem child_environment:
  "map_of (merged_env inherited p) = child_env inherited p \<and> bt_sorted (merged_env inherited p)
    \<and> ce_capture inherited (std_command_env p) = merged_env inherited p"
proof -
  let ?c = "std_command_env p" and ?m = "inherited_env inherited p"
  note c = std_command_env_spec [of p]
  have eq: "ce_capture inherited ?c = foldl bt_edit ?m (ce_vars ?c)"
    using c by (simp add: ce_capture_def env_capture_loop inherited_env_def)
  have "bt_sorted ?m" using inherited_env_spec by blast
  note e = bt_edits_spec [OF this, of "ce_vars ?c"]
  have "map_of (ce_capture inherited ?c) k = map_of (merged_env inherited p) k" for k
    using e [of k] c [of k] sorted_map_of_rev [of "ce_vars ?c"] inherited_env_spec [of inherited p k]
      merged_env_spec [of inherited p k]
    by (auto simp: eq child_env_def split: option.splits)
  moreover have "bt_sorted (ce_capture inherited ?c)" using e eq by simp
  ultimately show ?thesis
    using merged_env_spec [of inherited p] by (auto intro!: bt_ext)
qed

section \<open>The search\<close>

definition candidates :: "os_string \<Rightarrow> (os_string \<times> os_string) list \<Rightarrow> os_string list" where
  "candidates program merged = map (\<lambda>d. path_join (if d = [] then bytes ''.'' else d) program) (split_on 0x3a (child_path merged))"

definition search_result :: "fs \<Rightarrow> os_string \<Rightarrow> os_string list \<Rightarrow> bool \<Rightarrow> spawn_error + os_string" where
  "search_result f program paths poisoned = (case List.find (\<lambda>p. classify_candidate f p = Hit) paths of
       Some p \<Rightarrow> Inr p
     | None \<Rightarrow> Inl (if poisoned \<or> (\<exists>p \<in> set paths. classify_candidate f p = Poison) then ProgramDenied program else ProgramMissing program))"

lemma resolve_loop_eq:
  "resolve_loop f program ds saw = search_result f program (map (\<lambda>d. path_join (if d = [] then bytes ''.'' else d) program) ds) saw"
  by (induction ds arbitrary: saw) (auto simp: search_result_def search_failed_def Let_def split: candidate.splits option.splits)

lemma split_on_nonempty [simp]: "split_on sep xs \<noteq> []"
  by (induction xs) (auto split: list.splits)

text \<open>The file system as a process in the directory \<open>cwd\<close> sees it.\<close>

definition under_cwd :: "os_string \<Rightarrow> fs \<Rightarrow> fs" where
  "under_cwd cwd f = \<lparr>fs_metadata = (\<lambda>p. fs_metadata f (path_join cwd p)), fs_access_x = (\<lambda>p. fs_access_x f (path_join cwd p))\<rparr>"

lemma classify_under_cwd: "classify_candidate (under_cwd cwd f) p = classify_candidate f (path_join cwd p)"
  by (auto simp: classify_candidate_def under_cwd_def split: sum.splits)

lemma path_join_absolute: "is_absolute b \<Longrightarrow> path_join a b = b"
  by (simp add: path_join_def)

lemma path_join_assoc:
  assumes "b \<noteq> []" "\<not> is_absolute b" "\<not> is_absolute c"
  shows "path_join a (path_join b c) = path_join (path_join a b) c"
proof -
  have "\<not> is_absolute (path_join b c)" using assms by (auto simp: path_join_def is_absolute_def)
  then show ?thesis using assms by (auto simp: path_join_def)
qed

lemma path_join_abs_left: "is_absolute a \<Longrightarrow> \<not> is_absolute b \<Longrightarrow> is_absolute (path_join a b)"
  by (auto simp: path_join_def is_absolute_def)

lemma check_loop_eq:
  assumes "\<not> is_absolute program"
    and dot: "classify_candidate f (path_join cwd (path_join (bytes ''.'') program)) = classify_candidate f (path_join cwd program)"
  shows "check_loop f program cwd ds saw = map_sum id (\<lambda>_. ()) (resolve_loop (under_cwd cwd f) program ds saw)"
proof (induction ds arbitrary: saw)
  case (Cons d ds)
  let ?dir = "if d = [] then cwd else if is_absolute d then d else path_join cwd d"
  have "classify_candidate f (path_join ?dir program)
      = classify_candidate (under_cwd cwd f) (path_join (if d = [] then bytes ''.'' else d) program)"
    using assms(1) dot path_join_assoc [of d program cwd] path_join_absolute [OF path_join_abs_left, of d program cwd]
    by (auto simp: classify_under_cwd)
  then show ?case by (auto simp: Let_def Cons.IH split: candidate.splits)
qed simp


definition example_fs :: fs where
  "example_fs = \<lparr>fs_metadata = (\<lambda>p. if p = bytes ''/usr/bin/ls'' then Inr False
       else if p = bytes ''/bin/ls'' then Inr True
       else Inl \<lparr>io_kind = NotFound, io_os = Some 2, io_text = ''No such file''\<rparr>),
     fs_access_x = (\<lambda>p. Inr ())\<rparr>"


section \<open>The streams of a detached child\<close>

text \<open>
  The descriptor that a wired stream is duplicated from, and the end that stays with the parent.
\<close>

definition wire_source :: "'w spawn_os \<Rightarrow> nat \<Rightarrow> stdio \<Rightarrow> int option \<Rightarrow> int option \<Rightarrow> bool" where
  "wire_source os fd s src parent \<longleftrightarrow> (case s of
       StdioInherit \<Rightarrow> src = None \<and> parent = None
     | StdioFile f \<Rightarrow> src = Some f \<and> parent = None
     | StdioNull \<Rightarrow> parent = None \<and> (\<exists>null w v. so_open_null os (fd = 0) w = (Inr null, v) \<and> src = Some null)
     | StdioPipe \<Rightarrow> (\<exists>rd wr w v. so_pipe2 os w = (Inr (rd, wr), v)
         \<and> (if fd = 0 then src = Some rd \<and> parent = Some wr else src = Some wr \<and> parent = Some rd)))"

definition source_action :: "nat \<Rightarrow> int option \<Rightarrow> (int \<times> int) list" where
  "source_action fd src = (case src of None \<Rightarrow> [] | Some a \<Rightarrow> [(a, int fd)])"

lemma wire_spec:
  assumes "wire os fd s ws w = (Inr ws', w')" "ws_parents ws ! fd = None"
  shows "\<exists>src parent. wire_source os fd s src parent \<and> ws_actions ws' = ws_actions ws @ source_action fd src
    \<and> ws_parents ws' = (ws_parents ws)[fd := parent]"
proof (cases s)
  case StdioInherit
  then show ?thesis using assms list_update_id [of "ws_parents ws" fd]
    by (intro exI [of _ None]) (simp add: wire_def wire_source_def source_action_def)
next
  case (StdioFile f)
  then show ?thesis using assms list_update_id [of "ws_parents ws" fd]
    by (intro exI [of _ "Some f"] exI [of _ None])
       (auto simp: wire_def wire_dup2_def wire_source_def source_action_def io_bind_Inr)
next
  case StdioNull
  with assms(1) obtain null v where "so_open_null os (fd = 0) w = (Inr null, v)"
      "ws_actions ws' = ws_actions ws @ [(null, int fd)]" "ws_parents ws' = ws_parents ws"
    by (auto simp: wire_def wire_dup2_def io_bind_Inr)
  then show ?thesis using StdioNull assms(2) list_update_id [of "ws_parents ws" fd]
    by (intro exI [of _ "Some null"] exI [of _ None]) (auto simp: wire_source_def source_action_def)
next
  case StdioPipe
  with assms(1) obtain rd wr v where p: "so_pipe2 os w = (Inr (rd, wr), v)"
      "ws_actions ws' = ws_actions ws @ [(if fd = 0 then rd else wr, int fd)]"
      "ws_parents ws' = (ws_parents ws)[fd := Some (if fd = 0 then wr else rd)]"
    by (cases "fd = 0") (auto simp: wire_def wire_dup2_def io_bind_Inr cloexec_pipe_def)
  then show ?thesis using StdioPipe
    by (intro exI [of _ "Some (if fd = 0 then rd else wr)"] exI [of _ "Some (if fd = 0 then wr else rd)"])
       (auto simp: wire_source_def source_action_def)
qed

text \<open>\<open>posix_spawn\<close> performs the actions in order, each on the descriptor table left by the one before.\<close>

definition dup2s :: "(int \<Rightarrow> 'f option) \<Rightarrow> (int \<times> int) list \<Rightarrow> int \<Rightarrow> 'f option" where
  "dup2s t acts = foldl (\<lambda>t (src, dst). t(dst := t src)) t acts"

definition stream_of :: "piped_stdio \<Rightarrow> nat \<Rightarrow> stdio" where
  "stream_of p i = [ps_stdin p, ps_stdout p, ps_stderr p] ! i"

lemma wire_streams_spec:
  assumes "wire_streams os stdio w = (Inr ws, w')"
  shows "\<exists>a b c. wire_source os 0 (ps_stdin stdio) a (ws_parents ws ! 0)
    \<and> wire_source os 1 (ps_stdout stdio) b (ws_parents ws ! 1) \<and> wire_source os 2 (ps_stderr stdio) c (ws_parents ws ! 2)
    \<and> ws_actions ws = source_action 0 a @ source_action 1 b @ source_action 2 c"
proof -
  from assms obtain s1 v1 s2 v2 where
    r: "wire os 0 (ps_stdin stdio) wire_new w = (Inr s1, v1)" "wire os 1 (ps_stdout stdio) s1 v1 = (Inr s2, v2)"
       "wire os 2 (ps_stderr stdio) s2 v2 = (Inr ws, w')"
    by (auto simp: wire_streams_def io_bind_Inr)
  from wire_spec [OF r(1)] obtain a pa where a: "wire_source os 0 (ps_stdin stdio) a pa"
      "ws_actions s1 = source_action 0 a" "ws_parents s1 = [pa, None, None]" by (auto simp: wire_new_def)
  from wire_spec [OF r(2)] a obtain b pb where b: "wire_source os 1 (ps_stdout stdio) b pb"
      "ws_actions s2 = source_action 0 a @ source_action 1 b" "ws_parents s2 = [pa, pb, None]" by auto
  from wire_spec [OF r(3)] b obtain c pc where c: "wire_source os 2 (ps_stderr stdio) c pc"
      "ws_actions ws = source_action 0 a @ source_action 1 b @ source_action 2 c" "ws_parents ws = [pa, pb, pc]"
    by (auto simp: numeral_2_eq_2)
  from a(1) b(1) c show ?thesis by (auto simp: numeral_2_eq_2)
qed

lemma less_3: "i < (3::nat) \<Longrightarrow> i = 0 \<or> i = 1 \<or> i = 2"
  by auto

text \<open>
  C40: the streams of a detached child. When no descriptor that is handed over is itself one of the three standard
  ones, the child finds behind each standard stream exactly what was asked for that stream: its own end of the
  pipe (the parent holds the other), the null device, the given file, or the parent's stream.
\<close>

theorem wired_streams:
  assumes "wire_streams os stdio w = (Inr ws, w')" and "\<forall>(src, dst) \<in> set (ws_actions ws). 3 \<le> src" and "i < 3"
  shows "\<exists>src. wire_source os i (stream_of stdio i) src (ws_parents ws ! i)
    \<and> dup2s t (ws_actions ws) (int i) = (case src of None \<Rightarrow> t (int i) | Some fd \<Rightarrow> t fd)"
proof -
  from wire_streams_spec [OF assms(1)] obtain a b c where
    abc: "wire_source os 0 (ps_stdin stdio) a (ws_parents ws ! 0)" "wire_source os 1 (ps_stdout stdio) b (ws_parents ws ! 1)"
      "wire_source os 2 (ps_stderr stdio) c (ws_parents ws ! 2)"
    and acts: "ws_actions ws = source_action 0 a @ source_action 1 b @ source_action 2 c" by blast
  have high: "3 \<le> x" if "Some x \<in> {a, b, c}" for x
    using assms(2) that by (auto simp: acts source_action_def)
  have at: "dup2s t (ws_actions ws) (int j) = (case [a, b, c] ! j of None \<Rightarrow> t (int j) | Some fd \<Rightarrow> t fd)" if "j < 3" for j
    using high [of "the a"] high [of "the b"] high [of "the c"] less_3 [OF that]
    by (elim disjE; cases a; cases b; cases c) (simp_all add: acts source_action_def dup2s_def)
  have "wire_source os i (stream_of stdio i) ([a, b, c] ! i) (ws_parents ws ! i)"
    using less_3 [OF assms(3)] abc by (auto simp: stream_of_def)
  with at [OF assms(3)] show ?thesis by blast
qed

definition example_spawn_os :: "int spawn_os" where
  "example_spawn_os = \<lparr>so_try_clone = (\<lambda>f w. (Inr w, w + 1)), so_command_spawn = (\<lambda>_ w. (Inr 100, w)),
     so_actions_init = io_ret (), so_add_dup2 = (\<lambda>_ _. io_ret ()), so_open_null = (\<lambda>_ w. (Inr w, w + 1)),
     so_pipe2 = (\<lambda>w. (Inr (w, w + 1), w + 2)), so_attr_init = io_ret (), so_set_flags = (\<lambda>_. io_ret ()),
     so_posix_spawn = (\<lambda>_ _ _ _. io_ret 100)\<rparr>"

lemma wired_streams_witness:
  "\<exists>ws. wire_streams example_spawn_os \<lparr>ps_stdin = StdioPipe, ps_stdout = StdioFile 7, ps_stderr = StdioInherit\<rparr> 10 = (Inr ws, 12)
    \<and> ws_parents ws = [Some 11, None, None] \<and> dup2s Some (ws_actions ws) 0 = Some 10
    \<and> dup2s Some (ws_actions ws) 1 = Some 7 \<and> dup2s Some (ws_actions ws) 2 = Some 2"
proof -
  let ?s = "\<lparr>ps_stdin = StdioPipe, ps_stdout = StdioFile 7, ps_stderr = StdioInherit\<rparr>"
  let ?ws = "\<lparr>ws_actions = [(10, 0), (7, 1)], ws_keep = [10], ws_nulls = [], ws_parents = [Some 11, None, None]\<rparr>"
  have r: "wire_streams example_spawn_os ?s 10 = (Inr ?ws, 12)"
    by (simp add: wire_streams_def wire_def wire_dup2_def cloexec_pipe_def wire_new_def example_spawn_os_def io_bind_def)
  note th = wired_streams [OF r, where t = Some]
  have "dup2s Some (ws_actions ?ws) 1 = Some 7" using th [of 1] by (simp add: wire_source_def stream_of_def)
  moreover have "dup2s Some (ws_actions ?ws) 2 = Some 2"
    using th [of 2] by (simp add: wire_source_def stream_of_def numeral_2_eq_2)
  ultimately show ?thesis using r by (simp add: dup2s_def)
qed

text \<open>
  A file that is itself behind a standard descriptor can be overwritten before it is duplicated: crossing the
  two output streams gives both streams the same file.
\<close>

lemma wire_streams_crossed:
  "\<exists>ws. wire_streams example_spawn_os \<lparr>ps_stdin = StdioNull, ps_stdout = StdioFile 2, ps_stderr = StdioFile 1\<rparr> 10 = (Inr ws, 11)
    \<and> dup2s Some (ws_actions ws) 1 = Some 2 \<and> dup2s Some (ws_actions ws) 2 = Some 2"
  by (simp add: wire_streams_def wire_def wire_dup2_def wire_new_def example_spawn_os_def io_bind_def dup2s_def)

section \<open>A reaped child\<close>

datatype child_op = TryWait | Wait | Kill | SendSignal int | TakeStdin | TakeStdout | TakeStderr

text \<open>One call on the handle; the result of the call is dropped.\<close>

definition child_step :: "'w kernel \<Rightarrow> signal_table \<Rightarrow> child_op \<Rightarrow> piped_child \<times> 'w \<Rightarrow> (piped_child \<times> 'w) option" where
  "child_step k sigs op cw = (case cw of (c, w) \<Rightarrow> (case op of
       TryWait \<Rightarrow> map_option snd (pc_try_wait k sigs c w)
     | Wait \<Rightarrow> map_option snd (pc_wait k sigs c w)
     | Kill \<Rightarrow> Some (c, snd (pc_kill k c w))
     | SendSignal n \<Rightarrow> Some (c, snd (pc_signal k sigs c n w))
     | TakeStdin \<Rightarrow> Some (snd (take_stdin c), w)
     | TakeStdout \<Rightarrow> Some (snd (take_stdout c), w)
     | TakeStderr \<Rightarrow> Some (snd (take_stderr c), w)))"

text \<open>
  What a handle on a child promises its users: an invariant that every call keeps, and, once the child is reaped,
  calls that return and change nothing of what is \<open>seen\<close>.
\<close>

primrec ops_run :: "('op \<Rightarrow> 's \<Rightarrow> 's option) \<Rightarrow> 'op list \<Rightarrow> 's \<Rightarrow> 's option" where
  "ops_run step [] s = Some s"
| "ops_run step (op # ops) s = Option.bind (step op s) (ops_run step ops)"

locale reaping =
  fixes step :: "'op \<Rightarrow> 's \<Rightarrow> 's option" and inv :: "'s \<Rightarrow> bool" and reaped :: "'s \<Rightarrow> bool" and seen :: "'s \<Rightarrow> 'v"
  assumes step_inv: "step op s = Some s' \<Longrightarrow> inv s \<Longrightarrow> inv s'"
    and step_reaped: "inv s \<Longrightarrow> reaped s \<Longrightarrow> \<exists>s'. step op s = Some s' \<and> reaped s' \<and> seen s' = seen s"
begin

lemma run_inv: "ops_run step ops s = Some s' \<Longrightarrow> inv s \<Longrightarrow> inv s'"
proof (induction ops arbitrary: s)
  case (Cons op ops)
  from Cons.prems(1) obtain s1 where st: "step op s = Some s1" "ops_run step ops s1 = Some s'"
    by (auto simp: bind_eq_Some_conv)
  show ?case by (rule Cons.IH [OF st(2) step_inv [OF st(1) Cons.prems(2)]])
qed simp

lemma run_reaped: "inv s \<Longrightarrow> reaped s \<Longrightarrow> \<exists>s'. ops_run step ops s = Some s' \<and> reaped s' \<and> seen s' = seen s"
proof (induction ops arbitrary: s)
  case (Cons op ops)
  from step_reaped [OF Cons.prems, of op] obtain s1 where
    s1: "step op s = Some s1" "reaped s1" "seen s1 = seen s" by blast
  from Cons.IH [OF step_inv [OF s1(1) Cons.prems(1)] s1(2)] s1 show ?case by auto
qed simp

end

abbreviation child_run :: "'w kernel \<Rightarrow> signal_table \<Rightarrow> child_op list \<Rightarrow> piped_child \<times> 'w \<Rightarrow> (piped_child \<times> 'w) option" where
  "child_run k sigs \<equiv> ops_run (child_step k sigs)"

text \<open>The status the handle has cached is one that \<open>Child\<close> has seen.\<close>

definition child_inv :: "piped_child \<Rightarrow> bool" where
  "child_inv c \<longleftrightarrow> (case pc_inner c of StdInner child (Some _) \<Rightarrow> sc_status child \<noteq> None | _ \<Rightarrow> True)"

lemma child_inv_simps [simp]:
  "pc_inner c = StdInner child None \<Longrightarrow> child_inv c"
  "pc_inner c = DetachedInner pid d \<Longrightarrow> child_inv c"
  "pc_inner c = StdInner child (Some s) \<Longrightarrow> child_inv c \<longleftrightarrow> sc_status child \<noteq> None"
  by (simp_all add: child_inv_def)

lemma std_wait_status: "std_wait k nohang c w = (Inr (Some s), c', w') \<Longrightarrow> sc_status c' = Some s"
  by (auto simp: std_wait_def split: option.splits prod.splits sum.splits)

lemma child_inv_streams [simp]:
  "child_inv (c\<lparr>pc_stdin := a\<rparr>) = child_inv c" "child_inv (c\<lparr>pc_stdout := a\<rparr>) = child_inv c"
  "child_inv (c\<lparr>pc_stderr := a\<rparr>) = child_inv c"
  by (simp_all add: child_inv_def)

lemma pc_try_wait_inv:
  assumes "pc_try_wait k sigs c w = Some (r, c', w')" "child_inv c"
  shows "child_inv c'"
proof (cases "pc_inner c")
  case (StdInner child d)
  obtain x child' v where st: "std_wait k True child w = (x, child', v)" by (metis prod_cases3)
  show ?thesis
  proof (cases x)
    case (Inr y)
    then show ?thesis using assms StdInner st std_wait_status [of k True child w _ child' v]
      by (cases d; cases y) (auto simp: pc_try_wait_def Let_def)
  qed (use assms StdInner st in \<open>cases d; auto simp: pc_try_wait_def\<close>)
next
  case (DetachedInner pid d)
  then show ?thesis using assms
    by (cases d; cases "waitpid_retry k pid True w"; cases "fst (the (waitpid_retry k pid True w))")
       (auto simp: pc_try_wait_def case_prod_unfold)
qed

lemma pc_wait_inv:
  assumes "pc_wait k sigs c w = Some (r, c', w')" "child_inv c"
  shows "child_inv c'"
proof (cases "pc_inner c")
  case (StdInner child d)
  obtain x child' v where st: "std_wait k False child w = (x, child', v)" by (metis prod_cases3)
  show ?thesis
  proof (cases x)
    case (Inr y)
    then show ?thesis using assms StdInner st std_wait_status [of k False child w _ child' v]
      by (cases d; cases y) (auto simp: pc_wait_def Let_def)
  qed (use assms StdInner st in \<open>cases d; auto simp: pc_wait_def\<close>)
next
  case (DetachedInner pid d)
  then show ?thesis using assms
    by (cases d; cases "detached_wait k pid w"; cases "fst (the (detached_wait k pid w))")
       (auto simp: pc_wait_def Let_def case_prod_unfold)
qed

lemma child_step_inv: "child_step k sigs op (c, w) = Some (c', w') \<Longrightarrow> child_inv c \<Longrightarrow> child_inv c'"
  by (cases op) (auto simp: child_step_def take_stdin_def take_stdout_def take_stderr_def
      dest: pc_try_wait_inv pc_wait_inv)

lemma child_step_done:
  assumes "child_inv c" "pc_done c = Some s"
  shows "\<exists>c'. child_step k sigs op (c, w) = Some (c', w) \<and> pc_done c' = Some s \<and> child_inv c' \<and> pc_pid c' = pc_pid c"
proof (cases "pc_inner c")
  case (StdInner child d)
  then have "d = Some s" "sc_status child \<noteq> None" using assms by (auto simp: pc_done_def)
  with StdInner show ?thesis
    by (cases op) (auto simp: child_step_def pc_try_wait_def pc_wait_def pc_kill_def pc_signal_def std_kill_def
        take_stdin_def take_stdout_def take_stderr_def pc_done_def)
next
  case (DetachedInner pid d)
  then have "d = Some s" using assms by (auto simp: pc_done_def)
  with DetachedInner show ?thesis
    by (cases op) (auto simp: child_step_def pc_try_wait_def pc_wait_def pc_kill_def pc_signal_def
        take_stdin_def take_stdout_def take_stderr_def pc_done_def)
qed

interpretation piped: reaping "child_step k sigs" "\<lambda>(c, w). child_inv c" "\<lambda>(c, w). pc_done c \<noteq> None" "\<lambda>(c, w). (pc_done c, pc_pid c, w)"
  for k :: "'w kernel" and sigs
proof unfold_locales
  fix op and s s' :: "piped_child \<times> 'w"
  assume "child_step k sigs op s = Some s'" "case s of (c, w) \<Rightarrow> child_inv c"
  then show "case s' of (c, w) \<Rightarrow> child_inv c" by (cases s; cases s') (auto dest: child_step_inv)
next
  fix op and s :: "piped_child \<times> 'w"
  assume "case s of (c, w) \<Rightarrow> child_inv c" "case s of (c, w) \<Rightarrow> pc_done c \<noteq> None"
  then obtain c w x where "s = (c, w)" "child_inv c" "pc_done c = Some x" by (cases s) auto
  with child_step_done [of c x k sigs op w] show "\<exists>s'. child_step k sigs op s = Some s' \<and> (case s' of (c, w) \<Rightarrow> pc_done c \<noteq> None)
      \<and> (case s' of (c, w) \<Rightarrow> (pc_done c, pc_pid c, w)) = (case s of (c, w) \<Rightarrow> (pc_done c, pc_pid c, w))"
    by auto
qed

text \<open>
  C36: a reaped child is left alone. Once any sequence of calls on a new child has seen its exit status, every
  further sequence of calls returns, makes no system call at all (so the possibly recycled pid is never
  signalled), and the handle keeps reporting the same status; signalling it is \<open>NotFound\<close>.
\<close>

theorem reaped_child_untouched:
  assumes "pc_done c = None" "child_run k sigs ops (c, w) = Some (c', w')" "pc_done c' = Some s"
  shows "\<exists>c''. child_run k sigs ops' (c', w') = Some (c'', w') \<and> pc_done c'' = Some s
    \<and> pc_signal k sigs c'' n w' = (Inl (SigNotFound (pc_pid c')), w')"
proof -
  have "child_inv c" using assms(1) by (auto simp: child_inv_def pc_done_def split: piped_inner.splits)
  then have "child_inv c'" using piped.run_inv [OF assms(2)] by simp
  then obtain c'' where "child_run k sigs ops' (c', w') = Some (c'', w')" "pc_done c'' = Some s" "pc_pid c'' = pc_pid c'"
    using piped.run_reaped [of "(c', w')" k sigs ops'] assms(3) by auto
  then show ?thesis by (auto simp: pc_signal_def)
qed

text \<open>
  A kernel for examples: the state is the list of answers \<open>waitpid\<close> has still to give, the last one for ever.
\<close>

definition script_kernel :: "(errno + wait_status) list kernel" where
  "script_kernel = \<lparr>k_kill = (\<lambda>_ _ w. (Inr (), [])),
     k_waitpid = (\<lambda>_ _ w. case w of [] \<Rightarrow> (Inl ESRCH, w) | [a] \<Rightarrow> (a, w) | a # w' \<Rightarrow> (a, w')),
     k_std_kill = (\<lambda>_ w. (Inr (), [])), k_std_waitpid = (\<lambda>_ _ w. (Inr (Some (StdExited 0)), w)),
     k_getpgid = (\<lambda>p w. (Inr p, w)), k_getsid = (\<lambda>p w. (Inr p, w))\<rparr>"

definition detached_child :: "nat \<Rightarrow> piped_child" where
  "detached_child pid = \<lparr>pc_pid = pid, pc_inner = DetachedInner (int pid) None, pc_stdin = True, pc_stdout = False, pc_stderr = False\<rparr>"

lemma waitpid_retry_simps [simp]:
  "k_waitpid k pid nohang w = (Inl EINTR, v) \<Longrightarrow> waitpid_retry k pid nohang w = waitpid_retry k pid nohang v"
  "k_waitpid k pid nohang w = (r, v) \<Longrightarrow> r \<noteq> Inl EINTR \<Longrightarrow> waitpid_retry k pid nohang w = Some (r, v)"
  by (simp_all add: waitpid_retry.simps [of k pid nohang w])

lemma script_kernel_answers [simp]:
  "k_waitpid script_kernel pid nohang [a] = (a, [a])"
  "k_waitpid script_kernel pid nohang (a # b # w) = (a, b # w)"
  by (simp_all add: script_kernel_def)

lemma reaped_child_untouched_witness:
  "\<exists>c w. child_run script_kernel (\<lambda>_. None) [TryWait, TryWait] (detached_child 7, [Inr StillAlive, Inl EINTR, Inr (Exited 3)]) = Some (c, w)
    \<and> w = [Inr (Exited 3)] \<and> pc_done c = Some \<lparr>ex_code = 3, ex_signal = None\<rparr>
    \<and> (\<exists>c'. child_run script_kernel (\<lambda>_. None) [Kill, SendSignal 15, TakeStdin, Wait] (c, w) = Some (c', w))"
proof -
  let ?w = "[Inr StillAlive, Inl EINTR, Inr (Exited 3)]" and ?c = "detached_child 7"
  let ?d = "?c\<lparr>pc_inner := DetachedInner 7 (Some \<lparr>ex_code = 3, ex_signal = None\<rparr>)\<rparr>"
  have run: "child_run script_kernel (\<lambda>_. None) [TryWait, TryWait] (?c, ?w) = Some (?d, [Inr (Exited 3)])"
    by (simp add: child_step_def pc_try_wait_def detached_child_def convert_wait_def try_u32_def)
  moreover have "pc_done ?c = None" "pc_done ?d = Some \<lparr>ex_code = 3, ex_signal = None\<rparr>"
    by (simp_all add: detached_child_def pc_done_def)
  ultimately show ?thesis
    using reaped_child_untouched [of ?c script_kernel "\<lambda>_. None" "[TryWait, TryWait]" ?w ?d "[Inr (Exited 3)]"
        "\<lparr>ex_code = 3, ex_signal = None\<rparr>" "[Kill, SendSignal 15, TakeStdin, Wait]" 15] by blast
qed

section \<open>Waiting\<close>

text \<open>The state before the \<open>n\<close>-th call of \<open>waitpid\<close>, and the answers that the two loops pass over.\<close>

primrec wait_world :: "'w kernel \<Rightarrow> int \<Rightarrow> nat \<Rightarrow> 'w \<Rightarrow> 'w" where
  "wait_world k pid 0 w = w"
| "wait_world k pid (Suc n) w = wait_world k pid n (snd (k_waitpid k pid False w))"

definition wait_passed :: "errno + wait_status \<Rightarrow> bool" where
  "wait_passed a = (case a of Inl e \<Rightarrow> e = EINTR | Inr ws \<Rightarrow> convert_wait ws = None)"

definition wait_result :: "errno + wait_status \<Rightarrow> errno + exit_status" where
  "wait_result a = (case a of Inl e \<Rightarrow> Inl e | Inr ws \<Rightarrow> Inr (the (convert_wait ws)))"

definition wait_trace :: "'w kernel \<Rightarrow> int \<Rightarrow> (errno + wait_status \<Rightarrow> bool) \<Rightarrow> 'w \<Rightarrow> nat \<Rightarrow> errno + wait_status \<Rightarrow> 'w \<Rightarrow> bool" where
  "wait_trace k pid passed w n a w' \<longleftrightarrow> (\<forall>i < n. passed (fst (k_waitpid k pid False (wait_world k pid i w))))
     \<and> k_waitpid k pid False (wait_world k pid n w) = (a, w') \<and> \<not> passed a"

lemma wait_trace_0: "k_waitpid k pid False w = (a, v) \<Longrightarrow> \<not> passed a \<Longrightarrow> wait_trace k pid passed w 0 a v"
  by (simp add: wait_trace_def)

lemma wait_trace_Suc:
  "k_waitpid k pid False w = (a, v) \<Longrightarrow> passed a \<Longrightarrow> wait_trace k pid passed v n b w' \<Longrightarrow> wait_trace k pid passed w (Suc n) b w'"
  by (auto simp: wait_trace_def less_Suc_eq_0_disj)

lemma wait_trace_Suc_iff:
  "wait_trace k pid passed w (Suc n) b w' \<longleftrightarrow>
    (\<exists>a v. k_waitpid k pid False w = (a, v) \<and> passed a \<and> wait_trace k pid passed v n b w')"
  by (cases "k_waitpid k pid False w") (auto simp: wait_trace_def less_Suc_eq_0_disj)

lemma waitpid_retry_trace:
  assumes "waitpid_retry k pid False w = Some (r, w')"
  shows "\<exists>n. wait_trace k pid (\<lambda>a. a = Inl EINTR) w n r w'"
proof -
  define P where "P k pid h w y \<longleftrightarrow> h \<or> (\<exists>n. wait_trace k pid (\<lambda>a. a = Inl EINTR) w n (fst y) (snd y))"
    for k :: "'a kernel" and pid h w y
  have "P k pid False w (r, w')"
  proof (rule waitpid_retry.raw_induct [OF _ assms])
    fix wr k pid h w y
    assume IH: "\<And>k pid h w y. wr k pid h w = Some y \<Longrightarrow> P k pid h w y"
      and eq: "(case k_waitpid k pid h w of (r, w') \<Rightarrow> if r = Inl EINTR then wr k pid h w' else Some (r, w')) = Some y"
    obtain a v where a: "k_waitpid k pid h w = (a, v)" by (cases "k_waitpid k pid h w")
    show "P k pid h w y"
    proof (cases "a = Inl EINTR")
      case True
      with IH [of k pid h v y] eq a show ?thesis by (cases h) (auto simp: P_def intro: wait_trace_Suc)
    next
      case False
      then have "y = (a, v)" using eq a by simp
      with wait_trace_0 [of k pid w a v "\<lambda>a. a = Inl EINTR"] a False show ?thesis by (cases h) (auto simp: P_def)
    qed
  qed
  then show ?thesis by (simp add: P_def)
qed

text \<open>The two nested loops as one.\<close>

lemma detached_wait_step:
  assumes "k_waitpid k pid False w = (a, v)"
  shows "detached_wait k pid w = (if wait_passed a then detached_wait k pid v else Some (wait_result a, v))"
proof (cases "a = Inl EINTR")
  case True
  then show ?thesis using assms
    by (simp add: detached_wait.simps [of k pid w] detached_wait.simps [of k pid v] wait_passed_def)
next
  case False
  then show ?thesis using assms
    by (auto simp: detached_wait.simps [of k pid w] wait_passed_def wait_result_def split: sum.splits option.splits)
qed

lemma wait_trace_chain:
  assumes "wait_trace k pid (\<lambda>a. a = Inl EINTR) w n a v" "wait_passed a" "wait_trace k pid wait_passed v m b w'"
  shows "\<exists>l. wait_trace k pid wait_passed w l b w'"
  using assms
proof (induction n arbitrary: w)
  case 0
  then have "k_waitpid k pid False w = (a, v)" by (simp add: wait_trace_def)
  with 0 show ?case by (blast intro: wait_trace_Suc)
next
  case (Suc n)
  then obtain u where u: "k_waitpid k pid False w = (Inl EINTR, u)" "wait_trace k pid (\<lambda>a. a = Inl EINTR) u n a v"
    by (auto simp: wait_trace_Suc_iff)
  have "wait_passed (Inl EINTR)" by (simp add: wait_passed_def)
  with Suc.IH [OF u(2) Suc.prems(2,3)] wait_trace_Suc [OF u(1)] show ?case by blast
qed

lemma wait_trace_weaken:
  assumes "wait_trace k pid (\<lambda>a. a = Inl EINTR) w n a v" "\<not> wait_passed a"
  shows "wait_trace k pid wait_passed w n a v"
  using assms by (auto simp: wait_trace_def wait_passed_def)

lemma detached_wait_trace:
  assumes "detached_wait k pid w = Some (r, w')"
  shows "\<exists>n a. wait_trace k pid wait_passed w n a w' \<and> r = wait_result a"
proof -
  define P where "P k pid w y \<longleftrightarrow> (\<exists>n a. wait_trace k pid wait_passed w n a (snd y) \<and> fst y = wait_result a)"
    for k :: "'a kernel" and pid w y
  have "P k pid w (r, w')"
  proof (rule detached_wait.raw_induct [OF _ assms])
    fix dw k pid w y
    assume IH: "\<And>k pid w y. dw k pid w = Some y \<Longrightarrow> P k pid w y"
      and eq: "Option.bind (waitpid_retry k pid False w) (\<lambda>(r, w). case r of Inl e \<Rightarrow> Some (Inl e, w)
        | Inr ws \<Rightarrow> (case convert_wait ws of Some s \<Rightarrow> Some (Inr s, w) | None \<Rightarrow> dw k pid w)) = Some y"
    from eq obtain a v where a: "waitpid_retry k pid False w = Some (a, v)" by (auto simp: bind_eq_Some_conv)
    from waitpid_retry_trace [OF this] obtain n where n: "wait_trace k pid (\<lambda>a. a = Inl EINTR) w n a v" ..
    show "P k pid w y"
    proof (cases "wait_passed a")
      case True
      moreover have "a \<noteq> Inl EINTR" using n by (simp add: wait_trace_def)
      ultimately have "dw k pid v = Some y" using eq a by (auto simp: wait_passed_def split: sum.splits)
      from IH [OF this] wait_trace_chain [OF n True] show ?thesis unfolding P_def by blast
    next
      case False
      with eq a have "y = (wait_result a, v)" by (auto simp: wait_passed_def wait_result_def split: sum.splits option.splits)
      with wait_trace_weaken [OF n False] show ?thesis unfolding P_def by auto
    qed
  qed
  then show ?thesis by (auto simp: P_def)
qed

lemma detached_wait_returns_if: "wait_trace k pid wait_passed w n a w' \<Longrightarrow> detached_wait k pid w = Some (wait_result a, w')"
proof (induction n arbitrary: w)
  case 0
  then show ?case by (simp add: wait_trace_def detached_wait_step)
next
  case (Suc n)
  then show ?case by (auto simp: wait_trace_Suc_iff detached_wait_step)
qed

text \<open>
  C37: waiting for a detached child ends. \<open>wait\<close> returns if and only if the system, after finitely many
  interruptions and stop or continue reports, gives an answer that is an exit, a death by signal or an error; it
  then returns that first answer, and no later call of \<open>waitpid\<close> has been made.
\<close>

theorem detached_wait_returns:
  "detached_wait k pid w = Some (r, w') \<longleftrightarrow>
    (\<exists>n a. (\<forall>i < n. wait_passed (fst (k_waitpid k pid False (wait_world k pid i w))))
      \<and> k_waitpid k pid False (wait_world k pid n w) = (a, w') \<and> \<not> wait_passed a \<and> r = wait_result a)"
  using detached_wait_trace [of k pid w r w'] detached_wait_returns_if [of k pid w _ _ w']
  unfolding wait_trace_def by blast

lemma detached_wait_returns_witness:
  "detached_wait script_kernel 7 [Inl EINTR, Inr Stopped, Inl EINTR, Inr (Signaled ''SIGTERM'')]
    = Some (Inr \<lparr>ex_code = 1, ex_signal = Some ''SIGTERM''\<rparr>, [Inr (Signaled ''SIGTERM'')])"
proof -
  let ?w = "[Inl EINTR, Inr Stopped, Inl EINTR, Inr (Signaled ''SIGTERM'')] :: (errno + wait_status) list"
  have "\<forall>i < 3. wait_passed (fst (k_waitpid script_kernel 7 False (wait_world script_kernel 7 i ?w)))"
    by (auto dest!: less_3 simp: wait_passed_def convert_wait_def numeral_2_eq_2)
  moreover have "k_waitpid script_kernel 7 False (wait_world script_kernel 7 3 ?w) = (Inr (Signaled ''SIGTERM''), [Inr (Signaled ''SIGTERM'')])"
    by (simp add: numeral_3_eq_3)
  ultimately show ?thesis
    by (subst detached_wait_returns, intro exI [of _ 3] exI [of _ "Inr (Signaled ''SIGTERM'')"])
       (simp add: wait_passed_def wait_result_def convert_wait_def)
qed

end
