(* ===== verification/Pty.thy ===== *)
theory Pty
  imports Process
begin

text \<open>
  The PTY transport (\<open>src/src/pty.rs\<close>): allocation, spawn into the slave, resize, and the child handle.

  The \<open>portable_pty\<close> crate is the parameter \<open>pty_backend\<close>: its command builder has the type \<open>'b\<close>, its calls
  change the system state \<open>'w\<close>, and its masters, slaves and children are handles. The lifecycle and transport
  locks serialise calls of several threads and have no effect on one of them; they are not modelled.
\<close>

section \<open>The backend\<close>

type_synonym handle = nat

text \<open>\<open>portable_pty::ExitStatus\<close> is a code and, for a death by signal, its description.\<close>

type_synonym pty_status = "nat \<times> string option"

record ('b, 'w) pty_backend =
  pb_from_argv :: "os_string list \<Rightarrow> 'b"
  pb_env_clear :: "'b \<Rightarrow> 'b"
  pb_env_remove :: "os_string \<Rightarrow> 'b \<Rightarrow> 'b"
  pb_env :: "os_string \<Rightarrow> os_string \<Rightarrow> 'b \<Rightarrow> 'b"
  pb_cwd :: "os_string \<Rightarrow> 'b \<Rightarrow> 'b"
  pb_openpty :: "u16 \<Rightarrow> u16 \<Rightarrow> ('w, string, handle \<times> handle) io"
  pb_spawn_command :: "handle \<Rightarrow> 'b \<Rightarrow> ('w, string, handle) io"
  pb_drop_slave :: "handle \<Rightarrow> 'w \<Rightarrow> 'w"
  pb_clone_reader :: "handle \<Rightarrow> ('w, string, handle) io"
  pb_take_writer :: "handle \<Rightarrow> ('w, string, handle) io"
  pb_resize :: "handle \<Rightarrow> u16 \<Rightarrow> u16 \<Rightarrow> ('w, string, unit) io"
  pb_get_size :: "handle \<Rightarrow> ('w, string, u16 \<times> u16) io"
  pb_process_id :: "handle \<Rightarrow> nat option"
  pb_try_wait :: "handle \<Rightarrow> ('w, io_error, pty_status option) io"
  pb_wait :: "handle \<Rightarrow> ('w, io_error, pty_status) io"
  pb_kill :: "handle \<Rightarrow> ('w, io_error, unit) io"

datatype pty_error = PtyEmptyArgv | PtyInvalidSize u16 u16 | PtyBackend string

text \<open>\<open>PtyError\<close> is shown in the messages of the session.\<close>

definition show_nat :: "nat \<Rightarrow> string" where
  "show_nat n = map (\<lambda>b. char_of (unat b)) (decimal n)"

definition pty_error_text :: "pty_error \<Rightarrow> string" where
  "pty_error_text e = (case e of
       PtyEmptyArgv \<Rightarrow> ''pty spawn: empty argv''
     | PtyInvalidSize cols rows \<Rightarrow> ''pty size '' @ show_nat cols @ ''x'' @ show_nat rows @ '': columns and rows must be nonzero''
     | PtyBackend message \<Rightarrow> message)"

definition check_size :: "u16 \<Rightarrow> u16 \<Rightarrow> pty_error + unit" where
  "check_size cols rows = (if cols = 0 \<or> rows = 0 then Inl (PtyInvalidSize cols rows) else Inr ())"

definition command_builder :: "('b, 'w) pty_backend \<Rightarrow> spawn_params \<Rightarrow> pty_error + 'b" where
  "command_builder pb p =
     (if sp_argv p = [] then Inl PtyEmptyArgv
      else let cmd = pb_from_argv pb (sp_argv p);
               cmd = (if sp_env_cleared p then pb_env_clear pb cmd else cmd);
               cmd = foldl (\<lambda>c k. pb_env_remove pb k c) cmd (sp_env_removed p);
               cmd = foldl (\<lambda>c (k, v). pb_env pb k v c) cmd (sp_env_overrides p);
               cmd = (case sp_cwd p of Some d \<Rightarrow> pb_cwd pb d cmd | None \<Rightarrow> cmd)
           in Inr cmd)"

definition convert_status :: "pty_status \<Rightarrow> exit_status" where
  "convert_status s = ex_from_pty (fst s) (snd s)"

section \<open>Master and slave\<close>

record pty_child =
  pt_inner :: handle
  pt_reaped :: bool

definition openpty :: "('b, 'w) pty_backend \<Rightarrow> u16 \<Rightarrow> u16 \<Rightarrow> ('w, pty_error, handle \<times> handle) io" where
  "openpty pb cols rows = io_bind (io_lift (check_size cols rows)) (\<lambda>_. io_err PtyBackend (pb_openpty pb rows cols))"

text \<open>A failed spawn drops the slave with the pair.\<close>

definition spawn_pty :: "('b, 'w) pty_backend \<Rightarrow> spawn_params \<Rightarrow> u16 \<Rightarrow> u16 \<Rightarrow> ('w, pty_error, handle \<times> pty_child) io" where
  "spawn_pty pb p cols rows =
     io_bind (io_lift (check_size cols rows)) (\<lambda>_.
     io_bind (io_lift (command_builder pb p)) (\<lambda>cmd.
     io_bind (io_err PtyBackend (pb_openpty pb rows cols)) (\<lambda>(master, slave) w.
     (case io_err PtyBackend (pb_spawn_command pb slave cmd) w of
        (Inl e, w) \<Rightarrow> (Inl e, pb_drop_slave pb slave w)
      | (Inr child, w) \<Rightarrow> (Inr (master, \<lparr>pt_inner = child, pt_reaped = False\<rparr>), pb_drop_slave pb slave w)))))"

definition slave_spawn :: "('b, 'w) pty_backend \<Rightarrow> handle \<Rightarrow> spawn_params \<Rightarrow> ('w, pty_error, pty_child) io" where
  "slave_spawn pb slave p =
     io_bind (io_lift (command_builder pb p)) (\<lambda>cmd.
     io_bind (io_err PtyBackend (pb_spawn_command pb slave cmd)) (\<lambda>child.
     io_ret \<lparr>pt_inner = child, pt_reaped = False\<rparr>))"

definition try_clone_reader :: "('b, 'w) pty_backend \<Rightarrow> handle \<Rightarrow> ('w, pty_error, handle) io" where
  "try_clone_reader pb master = io_err PtyBackend (pb_clone_reader pb master)"

definition take_writer :: "('b, 'w) pty_backend \<Rightarrow> handle \<Rightarrow> ('w, pty_error, handle) io" where
  "take_writer pb master = io_err PtyBackend (pb_take_writer pb master)"

definition master_resize :: "('b, 'w) pty_backend \<Rightarrow> handle \<Rightarrow> u16 \<Rightarrow> u16 \<Rightarrow> ('w, pty_error, unit) io" where
  "master_resize pb master cols rows =
     io_bind (io_lift (check_size cols rows)) (\<lambda>_. io_err PtyBackend (pb_resize pb master rows cols))"

definition master_size :: "('b, 'w) pty_backend \<Rightarrow> handle \<Rightarrow> ('w, pty_error, u16 \<times> u16) io" where
  "master_size pb master =
     io_bind (io_err PtyBackend (pb_get_size pb master)) (\<lambda>(rows, cols). io_ret (cols, rows))"

section \<open>The child handle\<close>

definition pt_pid :: "('b, 'w) pty_backend \<Rightarrow> pty_child \<Rightarrow> nat option" where
  "pt_pid pb c = pb_process_id pb (pt_inner c)"

definition mark_reaped :: "pty_child \<Rightarrow> pty_child" where
  "mark_reaped c = c\<lparr>pt_reaped := True\<rparr>"

definition pt_try_wait :: "('b, 'w) pty_backend \<Rightarrow> pty_child \<Rightarrow> 'w \<Rightarrow> (io_error + exit_status option) \<times> pty_child \<times> 'w" where
  "pt_try_wait pb c w = (case pb_try_wait pb (pt_inner c) w of
       (Inl e, w) \<Rightarrow> (Inl e, c, w)
     | (Inr s, w) \<Rightarrow>
         (let status = map_option convert_status s in (Inr status, if status \<noteq> None then mark_reaped c else c, w)))"

definition pt_wait :: "('b, 'w) pty_backend \<Rightarrow> pty_child \<Rightarrow> 'w \<Rightarrow> (io_error + exit_status) \<times> pty_child \<times> 'w" where
  "pt_wait pb c w = (case pb_wait pb (pt_inner c) w of
       (Inl e, w) \<Rightarrow> (Inl e, c, w)
     | (Inr s, w) \<Rightarrow> (Inr (convert_status s), mark_reaped c, w))"

definition pt_kill :: "('b, 'w) pty_backend \<Rightarrow> pty_child \<Rightarrow> ('w, io_error, unit) io" where
  "pt_kill pb c w = (if pt_reaped c then (Inr (), w) else pb_kill pb (pt_inner c) w)"

definition pt_signal :: "('b, 'w) pty_backend \<Rightarrow> 'w kernel \<Rightarrow> signal_table \<Rightarrow> pty_child \<Rightarrow> int \<Rightarrow> ('w, signal_error, unit) io" where
  "pt_signal pb k sigs c signo w = (case pt_pid pb c of
       None \<Rightarrow> (Inl SigUnknownPid, w)
     | Some pid \<Rightarrow> if pt_reaped c then (Inl (SigNotFound pid), w) else signal_pid k sigs pid signo w)"

section \<open>Facts about the handle\<close>

lemma pt_try_wait_reaped: "pt_try_wait pb c w = (r, c', w') \<Longrightarrow> pt_reaped c' \<longleftrightarrow> pt_reaped c \<or> (\<exists>s. r = Inr (Some s))"
  by (auto simp: pt_try_wait_def mark_reaped_def Let_def split: prod.splits sum.splits if_splits)

lemma pt_wait_reaped: "pt_wait pb c w = (r, c', w') \<Longrightarrow> pt_reaped c' \<longleftrightarrow> pt_reaped c \<or> (\<exists>s. r = Inr s)"
  by (auto simp: pt_wait_def mark_reaped_def split: prod.splits sum.splits)

lemma pt_inner_kept:
  "pt_try_wait pb c w = (r, c', w') \<Longrightarrow> pt_inner c' = pt_inner c"
  "pt_wait pb c w = (r', c', w') \<Longrightarrow> pt_inner c' = pt_inner c"
  by (auto simp: pt_try_wait_def pt_wait_def mark_reaped_def Let_def split: prod.splits sum.splits if_splits)

lemma pt_reaped_no_call:
  "pt_reaped c \<Longrightarrow> pt_kill pb c w = (Inr (), w)"
  "pt_reaped c \<Longrightarrow> snd (pt_signal pb k sigs c signo w) = w"
  by (auto simp: pt_kill_def pt_signal_def split: option.splits)

text \<open>A spawned child is not reaped, and the parent's slave is dropped whether or not the spawn succeeds.\<close>

lemma spawn_pty_result:
  assumes "spawn_pty pb p cols rows w = (r, w')"
  shows "cols = 0 \<or> rows = 0 \<Longrightarrow> r = Inl (PtyInvalidSize cols rows) \<and> w' = w"
    "r = Inr (m, c) \<Longrightarrow> \<not> pt_reaped c \<and> cols \<noteq> 0 \<and> rows \<noteq> 0 \<and> sp_argv p \<noteq> []"
proof -
  show "cols = 0 \<or> rows = 0 \<Longrightarrow> r = Inl (PtyInvalidSize cols rows) \<and> w' = w"
    using assms by (auto simp: spawn_pty_def check_size_def)
  show "r = Inr (m, c) \<Longrightarrow> \<not> pt_reaped c \<and> cols \<noteq> 0 \<and> rows \<noteq> 0 \<and> sp_argv p \<noteq> []"
    using assms by (auto simp: spawn_pty_def check_size_def command_builder_def io_bind_def io_lift_def
        split: if_splits prod.splits sum.splits)
qed

end
