(* ===== verification/Observe.thy ===== *)
theory Observe
  imports Serialize Snapshot Process
begin

text \<open>
  What a session reports of itself (\<open>src/src/session_observe.rs\<close>): the observation of one worker revision, the
  state of the output stream and the final outcome. Counters (\<open>u64\<close>) are natural numbers.
\<close>

record cursor_state =
  cs_position :: "u16 \<times> u16"
  cs_visible :: bool
  cs_style :: u16
  cs_text_cursor_enable :: "bool option"

record color_state =
  co_reported_fg :: rgb
  co_reported_bg :: rgb
  co_current_fg :: color
  co_current_bg :: color

record mode_state =
  ms_alternate_screen :: bool
  ms_autowrap :: bool
  ms_application_cursor :: bool
  ms_application_keypad :: bool
  ms_bracketed_paste :: bool
  ms_focus_events :: bool
  ms_mouse_mode :: mouse_protocol_mode
  ms_mouse_encoding :: mouse_protocol_encoding
  ms_kitty_keyboard :: nat
  ms_in_synchronized_update :: bool
  ms_mid_sequence :: bool

record capabilities =
  ca_unicode_version :: string
  ca_grapheme_cluster_width_mode :: bool
  ca_ambiguous_width_is_wide :: bool
  ca_decrqm_mode_2027_status :: u16
  ca_agent_term :: string
  ca_agent_colorterm :: string
  ca_osc8_policy :: osc8_policy
  ca_supported_sgr :: supported_sgr

definition capabilities_from :: "profile \<Rightarrow> capabilities" where
  "capabilities_from p = \<lparr>ca_unicode_version = pr_unicode_version p,
     ca_grapheme_cluster_width_mode = pr_grapheme_cluster_width_mode p,
     ca_ambiguous_width_is_wide = pr_ambiguous_width_is_wide p,
     ca_decrqm_mode_2027_status = pr_decrqm_mode_2027_status p,
     ca_agent_term = pr_agent_term p, ca_agent_colorterm = pr_agent_colorterm p,
     ca_osc8_policy = pr_osc8_policy p, ca_supported_sgr = pr_supported_sgr p\<rparr>"

definition model_defaults :: capabilities where
  "model_defaults = capabilities_from profile_default"

datatype stream_state = Streaming | CleanEof | ReadFailed string | DrainExpired | Aborted

record completeness =
  cm_exit :: "exit_status option"
  cm_stream :: stream_state
  cm_finalized :: bool

record capture_outcome =
  oc_exit :: exit_status
  oc_stream :: stream_state
  oc_revision :: nat
  oc_bytes_pumped :: nat
  oc_dropped_after_drain :: nat

record diagnostics =
  di_bytes_pumped :: nat
  di_feeds :: nat
  di_dropped_after_drain :: nat
  di_events_stashed :: nat
  di_events_dropped :: nat
  di_output_bytes_kept :: nat
  di_output_bytes_total :: nat
  di_output_truncated :: bool
  di_replies_routed :: nat
  di_replies_dropped_no_writer :: nat
  di_reply_write_errors :: nat
  di_reply_first_error :: "string option"
  di_sync_frames_completed :: nat
  di_resizes :: nat
  di_stdin_open :: bool
  di_queued_batches :: "64 word"

record observation =
  ob_revision :: nat
  ob_grid :: grid_snapshot
  ob_cursor :: cursor_state
  ob_colors :: color_state
  ob_modes :: mode_state
  ob_capabilities :: capabilities
  ob_completeness :: completeness
  ob_diagnostics :: diagnostics

end
