(* ===== verification/Worker.thy ===== *)
theory Worker
  imports Feed Observe Pty
begin

text \<open>
  The session worker (\<open>src/src/session_worker.rs\<close>): the shared child, the rendezvous with the handle, and the
  thread that owns the grid and the PTY writer.

  \<open>session_env\<close> holds everything outside: the width tables and the \<open>vte\<close> parser of the grid, the PTY backend,
  and the calls on the channels, the clock, the shutdown flag and the writer. All of them thread the system state
  \<open>'w\<close>, in which the other threads act: what \<open>en_try_recv\<close> or \<open>en_shutdown\<close> answers is theirs to decide. The
  mutexes are taken for one call at a time and are not modelled. While the worker runs, only the worker changes
  the shared child and the outcome, so both are part of its state. Times are in milliseconds.

  A function that can panic returns an \<open>option\<close>. One that need not return is a \<open>run\<close>: \<open>None\<close> when it does not
  return, \<open>Some None\<close> when it panics.
\<close>

section \<open>Bounds and timing\<close>

definition READ_BATCH :: usize where
  "READ_BATCH = 8192"

definition DATA_QUEUE_BATCHES :: usize where
  "DATA_QUEUE_BATCHES = 8"

definition FEED_BUDGET_PER_TICK :: usize where
  "FEED_BUDGET_PER_TICK = 256 * 1024"

definition WRITE_CHUNK :: usize where
  "WRITE_CHUNK = 4096"

definition DEFAULT_EVENT_CAP :: usize where
  "DEFAULT_EVENT_CAP = 1024"

definition DEFAULT_OUTPUT_CAP_BYTES :: usize where
  "DEFAULT_OUTPUT_CAP_BYTES = 1024 * 1024"

definition DRAIN_GRACE :: nat where
  "DRAIN_GRACE = 500"

definition KILL_GRACE :: nat where
  "KILL_GRACE = 2000"

section \<open>Messages\<close>

datatype process_error =
    PeSpawn string
  | PeInvalidInput string
  | PeIo string
  | PeTimeout string
  | PeChildExited string
  | PeClosed string
  | PeTeardown string
  | PeSignal string

datatype stream_end_kind = EndCleanEof | EndReadFailed string

datatype data_msg = Bytes "u8 list" | StreamEnd stream_end_kind

datatype recv = Received data_msg | RecvEmpty | RecvDisconnected

datatype ctl_op =
    CtlSnapshot
  | CtlStateBytes
  | CtlDirtySpans
  | CtlEvents
  | CtlOutputLog
  | CtlObserve
  | CtlWrite "u8 list"
  | CtlResize u16 u16
  | CtlCloseInput
  | CtlSetColors "rgb option" "rgb option"
  | CtlShutdown

datatype ctl_recv = CtlReceived ctl_op | CtlTimeout | CtlDisconnected

text \<open>What the worker sends on the reply channel of an operation.\<close>

datatype reply =
    ReplySnapshot grid_snapshot
  | ReplyBytes "u8 list"
  | ReplySpans dirty_spans
  | ReplyEvents "passthrough_event list"
  | ReplyObservation observation
  | ReplyResult "process_error + unit"

record ('p, 'b, 'w) session_env =
  en_width :: unicode_width
  en_parser :: "'p parser"
  en_backend :: "('b, 'w) pty_backend"
  en_kernel :: "'w kernel"
  en_signals :: signal_table
  en_try_recv :: "'w \<Rightarrow> recv \<times> 'w"
  en_inflight_sub :: "'w \<Rightarrow> 'w"
  en_inflight :: "'w \<Rightarrow> 64 word \<times> 'w"
  en_shutdown :: "'w \<Rightarrow> bool \<times> 'w"
  en_now :: "'w \<Rightarrow> nat \<times> 'w"
  en_sleep :: "nat \<Rightarrow> 'w \<Rightarrow> 'w"
  en_write_all :: "handle \<Rightarrow> u8 list \<Rightarrow> ('w, io_error, unit) io"
  en_drop_writer :: "handle \<Rightarrow> 'w \<Rightarrow> 'w"
  en_ctl_recv :: "'w \<Rightarrow> ctl_recv \<times> 'w"
  en_reply :: "reply \<Rightarrow> 'w \<Rightarrow> 'w"

type_synonym 'a run = "'a option option"

section \<open>The shared child\<close>

record shared_child =
  sh_pid :: "nat option"
  sh_child :: pty_child
  sh_reaped :: bool
  sh_status :: "exit_status option"

definition sh_new :: "('b, 'w) pty_backend \<Rightarrow> pty_child \<Rightarrow> shared_child" where
  "sh_new pb child = \<lparr>sh_pid = pt_pid pb child, sh_child = child, sh_reaped = False, sh_status = None\<rparr>"

definition sh_poll :: "('b, 'w) pty_backend \<Rightarrow> shared_child \<Rightarrow> 'w \<Rightarrow> (io_error + exit_status option) \<times> shared_child \<times> 'w" where
  "sh_poll pb s w =
     (if sh_reaped s then (Inr (sh_status s), s, w)
      else case pt_try_wait pb (sh_child s) w of
        (Inl e, child, w) \<Rightarrow> (Inl e, s\<lparr>sh_child := child\<rparr>, w)
      | (Inr None, child, w) \<Rightarrow> (Inr None, s\<lparr>sh_child := child\<rparr>, w)
      | (Inr (Some status), child, w) \<Rightarrow>
          (Inr (Some status), s\<lparr>sh_child := child, sh_reaped := True, sh_status := Some status\<rparr>, w))"

definition signal_locked :: "'w kernel \<Rightarrow> signal_table \<Rightarrow> shared_child \<Rightarrow> int \<Rightarrow> ('w, signal_error, unit) io" where
  "signal_locked k sigs s signo w = (case sh_pid s of
       None \<Rightarrow> (Inl SigUnknownPid, w)
     | Some pid \<Rightarrow> if sh_reaped s then (Inl (SigNotFound pid), w) else signal_pid k sigs pid signo w)"

definition kill_locked :: "('b, 'w) pty_backend \<Rightarrow> shared_child \<Rightarrow> ('w, io_error, unit) io" where
  "kill_locked pb s w = (if sh_reaped s then (Inr (), w) else pt_kill pb (sh_child s) w)"

definition wait_locked :: "('b, 'w) pty_backend \<Rightarrow> shared_child \<Rightarrow> 'w \<Rightarrow> (io_error + exit_status) \<times> shared_child \<times> 'w" where
  "wait_locked pb s w = (case sh_status s of
       Some status \<Rightarrow> (Inr status, s, w)
     | None \<Rightarrow> (case pt_wait pb (sh_child s) w of
         (Inl e, child, w) \<Rightarrow> (Inl e, s\<lparr>sh_child := child\<rparr>, w)
       | (Inr status, child, w) \<Rightarrow>
           (Inr status, s\<lparr>sh_child := child, sh_reaped := True, sh_status := Some status\<rparr>, w)))"

section \<open>The rendezvous\<close>

record shared =
  sd_outcome :: "capture_outcome option"
  sd_revision :: nat
  sd_frames :: nat
  sd_closed :: bool
  sd_teardown_error :: "string option"

definition shared_default :: shared where
  "shared_default = \<lparr>sd_outcome = None, sd_revision = 0, sd_frames = 0, sd_closed = False, sd_teardown_error = None\<rparr>"

definition publish_outcome :: "capture_outcome \<Rightarrow> shared \<Rightarrow> shared" where
  "publish_outcome outcome s = (if sd_outcome s = None then s\<lparr>sd_outcome := Some outcome\<rparr> else s)"

definition sd_exit :: "shared \<Rightarrow> exit_status option" where
  "sd_exit s = map_option oc_exit (sd_outcome s)"

definition set_revision :: "nat \<Rightarrow> shared \<Rightarrow> shared" where
  "set_revision revision s = (if sd_revision s \<noteq> revision then s\<lparr>sd_revision := revision\<rparr> else s)"

definition set_frames :: "nat \<Rightarrow> shared \<Rightarrow> shared" where
  "set_frames frames s = (if sd_frames s \<noteq> frames then s\<lparr>sd_frames := frames\<rparr> else s)"

definition mark_closed :: "shared \<Rightarrow> shared" where
  "mark_closed s = s\<lparr>sd_closed := True\<rparr>"

definition record_teardown :: "string \<Rightarrow> shared \<Rightarrow> shared" where
  "record_teardown msg s = (if sd_teardown_error s = None then s\<lparr>sd_teardown_error := Some msg\<rparr> else s)"

section \<open>The worker\<close>

record 'p worker =
  wk_master :: handle
  wk_killer :: shared_child
  wk_writer :: "handle option"
  wk_grid :: "'p damage_grid"
  wk_events :: "passthrough_event list"
  wk_events_dropped :: nat
  wk_event_cap :: usize
  wk_output_log :: "u8 list"
  wk_output_bytes_total :: nat
  wk_output_truncated :: bool
  wk_output_cap_bytes :: usize
  wk_record_output :: bool
  wk_replies_routed :: nat
  wk_replies_dropped_no_writer :: nat
  wk_reply_write_errors :: nat
  wk_reply_first_error :: "string option"
  wk_bytes_pumped :: nat
  wk_feeds :: nat
  wk_dropped_after_drain :: nat
  wk_resizes :: nat
  wk_revision :: nat
  wk_frames :: nat
  wk_was_in_sync :: bool
  wk_reported_fg :: rgb
  wk_reported_bg :: rgb
  wk_stream_end :: "stream_end_kind option"
  wk_final_stream :: "stream_state option"
  wk_exited :: "exit_status option"
  wk_exit_seen_at :: "nat option"
  wk_finalized :: bool
  wk_shared :: shared

record worker_config =
  wc_master :: handle
  wc_killer :: shared_child
  wc_writer :: handle
  wc_cols :: u16
  wc_rows :: u16
  wc_scrollback :: usize
  wc_record_output :: bool
  wc_event_cap :: usize
  wc_output_cap_bytes :: usize

text \<open>The state in which \<open>run_worker\<close> enters its loop; \<open>p\<close> is the state of a new \<open>vte\<close> parser.\<close>

definition worker_new :: "'p \<Rightarrow> worker_config \<Rightarrow> shared \<Rightarrow> 'p worker" where
  "worker_new p c shared = \<lparr>
     wk_master = wc_master c, wk_killer = wc_killer c, wk_writer = Some (wc_writer c),
     wk_grid = damage_grid_new p (wc_rows c) (wc_cols c) (wc_scrollback c) [],
     wk_events = [], wk_events_dropped = 0, wk_event_cap = wc_event_cap c,
     wk_output_log = [], wk_output_bytes_total = 0, wk_output_truncated = False,
     wk_output_cap_bytes = wc_output_cap_bytes c, wk_record_output = wc_record_output c,
     wk_replies_routed = 0, wk_replies_dropped_no_writer = 0, wk_reply_write_errors = 0, wk_reply_first_error = None,
     wk_bytes_pumped = 0, wk_feeds = 0, wk_dropped_after_drain = 0, wk_resizes = 0, wk_revision = 0, wk_frames = 0,
     wk_was_in_sync = False, wk_reported_fg = pr_default_reported_fg profile_default,
     wk_reported_bg = pr_default_reported_bg profile_default, wk_stream_end = None, wk_final_stream = None,
     wk_exited = None, wk_exit_seen_at = None, wk_finalized = False, wk_shared = shared\<rparr>"

definition in_synchronized_update :: "grid \<Rightarrow> bool" where
  "in_synchronized_update g = has_flag g SYNCHRONIZED_UPDATE"

definition bump_revision :: "'p worker \<Rightarrow> 'p worker" where
  "bump_revision k = (let revision = wk_revision k + 1 in
     k\<lparr>wk_revision := revision, wk_shared := set_revision revision (wk_shared k)\<rparr>)"

definition note_sync_sample :: "'p worker \<Rightarrow> 'p worker" where
  "note_sync_sample k =
     (let now_in = in_synchronized_update (dg_grid (wk_grid k));
          k = (if wk_was_in_sync k \<and> \<not> now_in
               then k\<lparr>wk_frames := wk_frames k + 1, wk_shared := set_frames (wk_frames k + 1) (wk_shared k)\<rparr> else k)
      in k\<lparr>wk_was_in_sync := now_in\<rparr>)"

fun make_room :: "usize \<Rightarrow> 'e list \<Rightarrow> nat \<Rightarrow> 'e list \<times> nat" where
  "make_room cap [] dropped = ([], dropped)"
| "make_room cap (e # es) dropped =
     (if cap \<le> length (e # es) then make_room cap es (dropped + 1) else (e # es, dropped))"

definition stash_event :: "passthrough_event \<Rightarrow> 'p worker \<Rightarrow> 'p worker" where
  "stash_event event k =
     (let (events, dropped) = make_room (max (wk_event_cap k) 1) (wk_events k) (wk_events_dropped k)
      in k\<lparr>wk_events := events @ [event], wk_events_dropped := dropped\<rparr>)"

definition route_reply :: "('p, 'b, 'w) session_env \<Rightarrow> u8 list \<Rightarrow> 'p worker \<times> 'w \<Rightarrow> 'p worker \<times> 'w" where
  "route_reply env reply kw = (case kw of (k, w) \<Rightarrow> (case wk_writer k of
       None \<Rightarrow> (k\<lparr>wk_replies_dropped_no_writer := wk_replies_dropped_no_writer k + 1\<rparr>, w)
     | Some writer \<Rightarrow> (case en_shutdown env w of
         (True, w) \<Rightarrow> (k\<lparr>wk_replies_dropped_no_writer := wk_replies_dropped_no_writer k + 1\<rparr>, w)
       | (False, w) \<Rightarrow> (case en_write_all env writer reply w of
           (Inr _, w) \<Rightarrow> (k\<lparr>wk_replies_routed := wk_replies_routed k + 1\<rparr>, w)
         | (Inl err, w) \<Rightarrow>
             (k\<lparr>wk_reply_write_errors := wk_reply_write_errors k + 1,
                wk_reply_first_error := (case wk_reply_first_error k of
                    None \<Rightarrow> Some (''pty reply write failed: '' @ io_text err) | Some e \<Rightarrow> Some e)\<rparr>, w)))))"

fun route_event :: "('p, 'b, 'w) session_env \<Rightarrow> 'p worker \<times> 'w \<Rightarrow> passthrough_event \<Rightarrow> 'p worker \<times> 'w" where
  "route_event env kw (Reply reply) = route_reply env reply kw"
| "route_event env (k, w) other = (stash_event other k, w)"

definition feed_byte :: "('p, 'b, 'w) session_env \<Rightarrow> u8 \<Rightarrow> 'p worker \<Rightarrow> 'p worker option" where
  "feed_byte env b k = do {
     g \<leftarrow> process (en_width env) (en_parser env) [b] (wk_grid k);
     Some (note_sync_sample (k\<lparr>wk_grid := g\<rparr>))
   }"

definition feed_grid :: "('p, 'b, 'w) session_env \<Rightarrow> u8 list \<Rightarrow> 'p worker \<Rightarrow> 'p worker option" where
  "feed_grid env bs k =
     (if 0x1b \<in> set bs then fold_opt (feed_byte env) bs k
      else do {
        g \<leftarrow> process (en_width env) (en_parser env) bs (wk_grid k);
        Some (note_sync_sample (k\<lparr>wk_grid := g\<rparr>))
      })"

definition record_bytes :: "u8 list \<Rightarrow> 'p worker \<Rightarrow> 'p worker" where
  "record_bytes bs k =
     (if \<not> wk_record_output k then k
      else let k = k\<lparr>wk_output_bytes_total := wk_output_bytes_total k + length bs\<rparr>
           in if wk_output_truncated k then k
              else let room = wk_output_cap_bytes k - length (wk_output_log k);
                       n = min room (length bs);
                       k = k\<lparr>wk_output_log := wk_output_log k @ take n bs\<rparr>
                   in if n < length bs then k\<lparr>wk_output_truncated := True\<rparr> else k)"

definition feed :: "('p, 'b, 'w) session_env \<Rightarrow> u8 list \<Rightarrow> 'p worker \<times> 'w \<Rightarrow> ('p worker \<times> 'w) option" where
  "feed env bs kw = (case kw of (k, w) \<Rightarrow>
     if wk_finalized k then Some (k\<lparr>wk_dropped_after_drain := wk_dropped_after_drain k + 1\<rparr>, w)
     else do {
       k \<leftarrow> feed_grid env bs k;
       let k = k\<lparr>wk_bytes_pumped := wk_bytes_pumped k + length bs, wk_feeds := wk_feeds k + 1\<rparr>;
       let k = record_bytes bs k;
       let (events, g) = drain_passthrough (dg_grid (wk_grid k));
       let k = k\<lparr>wk_grid := (wk_grid k)\<lparr>dg_grid := g\<rparr>\<rparr>;
       let (k, w) = foldl (route_event env) (k, w) events;
       Some (bump_revision k, w)
     })"

definition note_stream_end :: "stream_end_kind \<Rightarrow> 'p worker \<Rightarrow> 'p worker" where
  "note_stream_end e k = (if wk_stream_end k = None then k\<lparr>wk_stream_end := Some e\<rparr> else k)"

partial_function (option) drain_loop ::
    "('p, 'b, 'w) session_env \<Rightarrow> nat \<Rightarrow> 'p worker \<Rightarrow> 'w \<Rightarrow> ('p worker \<times> 'w) run" where
  "drain_loop env budget k w = (case en_try_recv env w of (msg, w) \<Rightarrow>
     (case msg of
        RecvEmpty \<Rightarrow> Some (Some (k, w))
      | RecvDisconnected \<Rightarrow> Some (Some (note_stream_end (EndReadFailed ''reader thread lost'') k, w))
      | Received m \<Rightarrow>
          (case m of
             StreamEnd e \<Rightarrow> drain_loop env budget (note_stream_end e k) (en_inflight_sub env w)
           | Bytes bs \<Rightarrow>
               (case feed env bs (k, en_inflight_sub env w) of
                  None \<Rightarrow> Some None
                | Some (k, w) \<Rightarrow>
                    if budget - length bs = 0 then Some (Some (k, w)) else drain_loop env (budget - length bs) k w))))"

definition drain_data :: "('p, 'b, 'w) session_env \<Rightarrow> 'p worker \<Rightarrow> 'w \<Rightarrow> ('p worker \<times> 'w) run" where
  "drain_data env k w = drain_loop env FEED_BUDGET_PER_TICK k w"

section \<open>Input, resize and observation\<close>

definition poll_exit_observed :: "('p, 'b, 'w) session_env \<Rightarrow> 'p worker \<Rightarrow> 'w \<Rightarrow> bool \<times> 'p worker \<times> 'w" where
  "poll_exit_observed env k w =
     (if wk_exited k \<noteq> None then (True, k, w)
      else case sh_poll (en_backend env) (wk_killer k) w of
        (Inr (Some status), killer, w) \<Rightarrow>
          (case en_now env w of (now, w) \<Rightarrow>
             (True, k\<lparr>wk_killer := killer, wk_exited := Some status, wk_exit_seen_at := Some now\<rparr>, w))
      | (_, killer, w) \<Rightarrow> (False, k\<lparr>wk_killer := killer\<rparr>, w))"

text \<open>\<open>slice::chunks\<close>.\<close>

fun chunks :: "nat \<Rightarrow> 'a list \<Rightarrow> 'a list list" where
  "chunks n [] = []"
| "chunks n (x # xs) = (x # take (n - 1) xs) # chunks n (drop (n - 1) xs)"

fun write_chunks :: "('p, 'b, 'w) session_env \<Rightarrow> u8 list list \<Rightarrow> 'p worker \<Rightarrow> 'w \<Rightarrow> (process_error + unit) \<times> 'p worker \<times> 'w" where
  "write_chunks env [] k w = (Inr (), k, w)"
| "write_chunks env (chunk # rest) k w = (case en_shutdown env w of
       (True, w) \<Rightarrow> (Inl (PeClosed ''session is closed''), k, w)
     | (False, w) \<Rightarrow> (case poll_exit_observed env k w of
         (True, k, w) \<Rightarrow> (Inl (PeChildExited ''child exited during stdin write''), k, w)
       | (False, k, w) \<Rightarrow> (case wk_writer k of
           None \<Rightarrow> (Inl (PeClosed ''stdin is closed''), k, w)
         | Some writer \<Rightarrow> (case en_write_all env writer chunk w of
             (Inl e, w) \<Rightarrow> (Inl (PeIo (''pty write failed: '' @ io_text e)), k, w)
           | (Inr _, w) \<Rightarrow> write_chunks env rest k w))))"

definition apply_write :: "('p, 'b, 'w) session_env \<Rightarrow> u8 list \<Rightarrow> 'p worker \<Rightarrow> 'w \<Rightarrow> (process_error + unit) \<times> 'p worker \<times> 'w" where
  "apply_write env bs k w =
     (if wk_exited k \<noteq> None then (Inl (PeChildExited ''child already exited''), k, w)
      else case en_shutdown env w of
        (True, w) \<Rightarrow> (Inl (PeClosed ''session is closed''), k, w)
      | (False, w) \<Rightarrow>
          if wk_writer k = None then (Inl (PeClosed ''stdin is closed''), k, w)
          else write_chunks env (chunks WRITE_CHUNK bs) k w)"

definition apply_resize :: "('p, 'b, 'w) session_env \<Rightarrow> u16 \<Rightarrow> u16 \<Rightarrow> 'p worker \<Rightarrow> 'w \<Rightarrow> (process_error + unit) \<times> 'p worker \<times> 'w" where
  "apply_resize env cols rows k w = (case master_resize (en_backend env) (wk_master k) cols rows w of
       (Inl e, w) \<Rightarrow> (Inl (PeIo (''pty resize failed: '' @ pty_error_text e)), k, w)
     | (Inr _, w) \<Rightarrow>
         (Inr (), bump_revision (k\<lparr>wk_grid := on_grid (set_size rows cols) (wk_grid k), wk_resizes := wk_resizes k + 1\<rparr>), w))"

definition close_input :: "('p, 'b, 'w) session_env \<Rightarrow> 'p worker \<Rightarrow> 'w \<Rightarrow> (process_error + unit) \<times> 'p worker \<times> 'w" where
  "close_input env k w =
     (if wk_exited k \<noteq> None then (Inl (PeChildExited ''child already exited''), k, w)
      else case wk_writer k of
        Some writer \<Rightarrow> (Inr (), bump_revision (k\<lparr>wk_writer := None\<rparr>), en_drop_writer env writer w)
      | None \<Rightarrow> (Inl (PeClosed ''stdin already closed''), k, w))"

fun stream_of_end :: "stream_end_kind \<Rightarrow> stream_state" where
  "stream_of_end EndCleanEof = CleanEof"
| "stream_of_end (EndReadFailed msg) = ReadFailed msg"

definition worker_stream_state :: "'p worker \<Rightarrow> stream_state" where
  "worker_stream_state k = (case wk_stream_end k of
       Some e \<Rightarrow> stream_of_end e
     | None \<Rightarrow> (case wk_final_stream k of Some s \<Rightarrow> s | None \<Rightarrow> Streaming))"

definition observe :: "('p, 'b, 'w) session_env \<Rightarrow> 'p worker \<Rightarrow> 'w \<Rightarrow> observation \<times> 'w" where
  "observe env k w =
     (let g = dg_grid (wk_grid k) in case en_inflight env w of (queued, w) \<Rightarrow>
      (\<lparr>ob_revision = wk_revision k,
        ob_grid = dump g,
        ob_cursor = \<lparr>cs_position = cursor_position g, cs_visible = (\<not> hide_cursor g), cs_style = g_cursor_style g,
          cs_text_cursor_enable = g_text_cursor_enable g\<rparr>,
        ob_colors = \<lparr>co_reported_fg = wk_reported_fg k, co_reported_bg = wk_reported_bg k,
          co_current_fg = at_foreground (g_current_attrs g), co_current_bg = at_background (g_current_attrs g)\<rparr>,
        ob_modes = \<lparr>ms_alternate_screen = alternate_screen g, ms_autowrap = autowrap g,
          ms_application_cursor = application_cursor g, ms_application_keypad = application_keypad g,
          ms_bracketed_paste = bracketed_paste g, ms_focus_events = has_flag g FOCUS_EVENTS,
          ms_mouse_mode = g_mouse_mode g, ms_mouse_encoding = g_mouse_encoding g, ms_kitty_keyboard = kitty_kb_flags g,
          ms_in_synchronized_update = in_synchronized_update g, ms_mid_sequence = mid_sequence (wk_grid k)\<rparr>,
        ob_capabilities = model_defaults,
        ob_completeness = \<lparr>cm_exit = wk_exited k, cm_stream = worker_stream_state k, cm_finalized = wk_finalized k\<rparr>,
        ob_diagnostics = \<lparr>di_bytes_pumped = wk_bytes_pumped k, di_feeds = wk_feeds k,
          di_dropped_after_drain = wk_dropped_after_drain k, di_events_stashed = length (wk_events k),
          di_events_dropped = wk_events_dropped k, di_output_bytes_kept = length (wk_output_log k),
          di_output_bytes_total = wk_output_bytes_total k, di_output_truncated = wk_output_truncated k,
          di_replies_routed = wk_replies_routed k, di_replies_dropped_no_writer = wk_replies_dropped_no_writer k,
          di_reply_write_errors = wk_reply_write_errors k, di_reply_first_error = wk_reply_first_error k,
          di_sync_frames_completed = wk_frames k, di_resizes = wk_resizes k, di_stdin_open = (wk_writer k \<noteq> None),
          di_queued_batches = queued\<rparr>\<rparr>, w))"

section \<open>Exit and shutdown\<close>

definition declare_outcome :: "stream_state \<Rightarrow> exit_status \<Rightarrow> 'p worker \<Rightarrow> 'p worker" where
  "declare_outcome stream exit k = k\<lparr>wk_shared := publish_outcome
     \<lparr>oc_exit = exit, oc_stream = stream, oc_revision = wk_revision k, oc_bytes_pumped = wk_bytes_pumped k,
      oc_dropped_after_drain = 0\<rparr> (wk_shared k)\<rparr>"

definition final_stream :: "stream_state \<Rightarrow> 'p worker \<Rightarrow> stream_state" where
  "final_stream missing k = (case wk_stream_end k of Some e \<Rightarrow> stream_of_end e | None \<Rightarrow> missing)"

definition poll_exit_state :: "('p, 'b, 'w) session_env \<Rightarrow> 'p worker \<Rightarrow> 'w \<Rightarrow> 'p worker \<times> 'w" where
  "poll_exit_state env k w =
     (if wk_finalized k then (k, w)
      else case poll_exit_observed env k w of
        (False, k, w) \<Rightarrow> (k, w)
      | (True, k, w) \<Rightarrow>
          (case (case wk_exit_seen_at k of
                   None \<Rightarrow> (False, w)
                 | Some t \<Rightarrow> (case en_now env w of (now, w) \<Rightarrow> (DRAIN_GRACE \<le> now - t, w))) of
             (grace_over, w) \<Rightarrow>
               if wk_stream_end k = None \<and> \<not> grace_over then (k, w)
               else let stream = final_stream DrainExpired k;
                        k = k\<lparr>wk_finalized := True, wk_final_stream := Some stream\<rparr>
                    in (case wk_exited k of Some exit \<Rightarrow> declare_outcome stream exit k | None \<Rightarrow> k, w)))"

text \<open>The reap loop ends when the child is reaped, when a poll fails, or past the deadline.\<close>

partial_function (option) reap_loop ::
    "('p, 'b, 'w) session_env \<Rightarrow> nat \<Rightarrow> shared_child \<Rightarrow> shared \<Rightarrow> 'w \<Rightarrow> (shared_child \<times> shared \<times> 'w) option" where
  "reap_loop env deadline killer shared w = (case sh_poll (en_backend env) killer w of (r, killer, w) \<Rightarrow>
     (case r of
        Inl e \<Rightarrow> Some (killer, record_teardown (''child reap during teardown failed: '' @ io_text e) shared, w)
      | Inr st \<Rightarrow>
          (case st of
             Some status \<Rightarrow> Some (killer, shared, w)
           | None \<Rightarrow> (case en_now env w of (now, w) \<Rightarrow>
               if deadline \<le> now then Some (killer, record_teardown ''child still alive after kill grace'' shared, w)
               else reap_loop env deadline killer shared (en_sleep env 10 w)))))"

definition shutdown_child ::
    "('p, 'b, 'w) session_env \<Rightarrow> shared_child \<Rightarrow> shared \<Rightarrow> 'w \<Rightarrow> (shared_child \<times> shared \<times> 'w) option" where
  "shutdown_child env killer shared w = (case sh_poll (en_backend env) killer w of (r, killer, w) \<Rightarrow>
     (case r of
        Inr (Some status) \<Rightarrow> Some (killer, shared, w)
      | _ \<Rightarrow>
          (let shared = (case r of Inl e \<Rightarrow> record_teardown (''child poll during teardown failed: '' @ io_text e) shared
                         | Inr _ \<Rightarrow> shared)
           in case kill_locked (en_backend env) killer w of (kr, w) \<Rightarrow>
              (let shared = (case kr of Inl e \<Rightarrow> record_teardown (''child kill during teardown failed: '' @ io_text e) shared
                             | Inr _ \<Rightarrow> shared)
               in case en_now env w of (now, w) \<Rightarrow> reap_loop env (now + KILL_GRACE) killer shared w))))"

definition finish_shutdown :: "('p, 'b, 'w) session_env \<Rightarrow> 'p worker \<Rightarrow> 'w \<Rightarrow> ('p worker \<times> 'w) option" where
  "finish_shutdown env k w = do {
     (killer, shared, w) \<leftarrow> shutdown_child env (wk_killer k) (wk_shared k) w;
     let k = k\<lparr>wk_killer := killer, wk_shared := shared\<rparr>;
     let (k, w) = (if wk_exited k = None
                   then (case sh_poll (en_backend env) (wk_killer k) w of (r, killer, w) \<Rightarrow>
                           (k\<lparr>wk_killer := killer, wk_exited := (case r of Inr st \<Rightarrow> st | Inl _ \<Rightarrow> None)\<rparr>, w))
                   else (k, w));
     let k = (if \<not> wk_finalized k
              then (let stream = final_stream Aborted k;
                        k = k\<lparr>wk_finalized := True, wk_final_stream := Some stream\<rparr>
                    in declare_outcome stream (case wk_exited k of Some e \<Rightarrow> e | None \<Rightarrow> ex_unknown) k)
              else k);
     Some (k\<lparr>wk_shared := mark_closed (wk_shared k)\<rparr>, w)
   }"

definition shutdown_and_exit :: "('p, 'b, 'w) session_env \<Rightarrow> 'p worker \<Rightarrow> 'w \<Rightarrow> ('p worker \<times> 'w) run" where
  "shutdown_and_exit env k w = do {
     r \<leftarrow> (if \<not> wk_finalized k then drain_data env k w else Some (Some (k, w)));
     (case r of
        None \<Rightarrow> Some None
      | Some (k, w) \<Rightarrow> map_option Some (finish_shutdown env k w))
   }"

section \<open>The worker loop\<close>

text \<open>One control operation; the flag says whether the worker exits.\<close>

definition handle_ctl :: "('p, 'b, 'w) session_env \<Rightarrow> ctl_op \<Rightarrow> 'p worker \<Rightarrow> 'w \<Rightarrow> (bool \<times> 'p worker \<times> 'w) run" where
  "handle_ctl env op k w = (case op of
       CtlSnapshot \<Rightarrow> Some (Some (False, k, en_reply env (ReplySnapshot (dump (dg_grid (wk_grid k)))) w))
     | CtlStateBytes \<Rightarrow>
         Some (map_option (\<lambda>bs. (False, k, en_reply env (ReplyBytes bs) w)) (state_formatted (dg_grid (wk_grid k))))
     | CtlDirtySpans \<Rightarrow> (case dirty_spans_of (dg_grid (wk_grid k)) of (spans, g) \<Rightarrow>
         Some (Some (False, k\<lparr>wk_grid := (wk_grid k)\<lparr>dg_grid := g\<rparr>\<rparr>, en_reply env (ReplySpans spans) w)))
     | CtlEvents \<Rightarrow> Some (Some (False, k\<lparr>wk_events := []\<rparr>, en_reply env (ReplyEvents (wk_events k)) w))
     | CtlOutputLog \<Rightarrow> Some (Some (False, k, en_reply env (ReplyBytes (wk_output_log k)) w))
     | CtlObserve \<Rightarrow> (case observe env k w of (obs, w) \<Rightarrow> Some (Some (False, k, en_reply env (ReplyObservation obs) w)))
     | CtlWrite bs \<Rightarrow> (case apply_write env bs k w of (r, k, w) \<Rightarrow> Some (Some (False, k, en_reply env (ReplyResult r) w)))
     | CtlResize cols rows \<Rightarrow>
         (case apply_resize env cols rows k w of (r, k, w) \<Rightarrow> Some (Some (False, k, en_reply env (ReplyResult r) w)))
     | CtlCloseInput \<Rightarrow> (case close_input env k w of (r, k, w) \<Rightarrow> Some (Some (False, k, en_reply env (ReplyResult r) w)))
     | CtlSetColors fg bg \<Rightarrow>
         (let k = k\<lparr>wk_grid := on_grid (set_reported_colors fg bg) (wk_grid k)\<rparr>;
              k = (case fg of Some c \<Rightarrow> k\<lparr>wk_reported_fg := c\<rparr> | None \<Rightarrow> k);
              k = (case bg of Some c \<Rightarrow> k\<lparr>wk_reported_bg := c\<rparr> | None \<Rightarrow> k)
          in Some (Some (False, bump_revision k, en_reply env (ReplyResult (Inr ())) w)))
     | CtlShutdown \<Rightarrow> map_option (map_option (\<lambda>(k, w). (True, k, w))) (shutdown_and_exit env k w))"

text \<open>The body of the loop: a tick. The flag says whether the worker exits.\<close>

definition worker_tick :: "('p, 'b, 'w) session_env \<Rightarrow> 'p worker \<Rightarrow> 'w \<Rightarrow> (bool \<times> 'p worker \<times> 'w) run" where
  "worker_tick env k w = (case en_shutdown env w of (flag, w) \<Rightarrow>
     if flag then map_option (map_option (\<lambda>(k, w). (True, k, w))) (shutdown_and_exit env k w)
     else (case en_ctl_recv env w of (msg, w) \<Rightarrow>
       (case msg of
          CtlDisconnected \<Rightarrow> map_option (map_option (\<lambda>(k, w). (True, k, w))) (shutdown_and_exit env k w)
        | _ \<Rightarrow> do {
            r \<leftarrow> (case msg of CtlReceived op \<Rightarrow> handle_ctl env op k w | _ \<Rightarrow> Some (Some (False, k, w)));
            (case r of
               None \<Rightarrow> Some None
             | Some (True, k, w) \<Rightarrow> Some (Some (True, k, w))
             | Some (False, k, w) \<Rightarrow> do {
                 d \<leftarrow> drain_data env k w;
                 Some (map_option (\<lambda>(k, w). case poll_exit_state env k w of (k, w) \<Rightarrow> (False, k, w)) d)
               })
          })))"

partial_function (option) worker_loop :: "('p, 'b, 'w) session_env \<Rightarrow> 'p worker \<Rightarrow> 'w \<Rightarrow> ('p worker \<times> 'w) run" where
  "worker_loop env k w = do {
     r \<leftarrow> worker_tick env k w;
     (case r of
        None \<Rightarrow> Some None
      | Some kw \<Rightarrow> (case kw of (exit, k, w) \<Rightarrow> if exit then Some (Some (k, w)) else worker_loop env k w))
   }"

definition run_worker :: "('p, 'b, 'w) session_env \<Rightarrow> 'p \<Rightarrow> worker_config \<Rightarrow> shared \<Rightarrow> 'w \<Rightarrow> ('p worker \<times> 'w) run" where
  "run_worker env p c shared w = worker_loop env (worker_new p c shared) w"

section \<open>A reaped session child\<close>

datatype shared_op = SharedPoll | SharedSignal int | SharedKill | SharedWait

definition shared_step :: "('p, 'b, 'w) session_env \<Rightarrow> shared_op \<Rightarrow> shared_child \<times> 'w \<Rightarrow> (shared_child \<times> 'w) option" where
  "shared_step env op sw = (case sw of (s, w) \<Rightarrow> Some (case op of
       SharedPoll \<Rightarrow> snd (sh_poll (en_backend env) s w)
     | SharedSignal n \<Rightarrow> (s, snd (signal_locked (en_kernel env) (en_signals env) s n w))
     | SharedKill \<Rightarrow> (s, snd (kill_locked (en_backend env) s w))
     | SharedWait \<Rightarrow> snd (wait_locked (en_backend env) s w)))"

text \<open>The reaped flag and the status are set together.\<close>

definition sh_inv :: "shared_child \<Rightarrow> bool" where
  "sh_inv s \<longleftrightarrow> (sh_reaped s \<longleftrightarrow> sh_status s \<noteq> None)"

lemma sh_new_inv [simp]: "sh_inv (sh_new pb c)"
  by (simp add: sh_inv_def sh_new_def)

lemma sh_poll_spec:
  assumes "sh_inv s" "sh_poll pb s w = (r, s', w')"
  shows "sh_inv s' \<and> sh_pid s' = sh_pid s \<and> (r = Inr (sh_status s') \<or> (\<exists>e. r = Inl e) \<and> sh_status s' = None)
    \<and> (sh_status s \<noteq> None \<longrightarrow> s' = s \<and> w' = w)"
  using assms
  by (auto simp: sh_poll_def sh_inv_def split: prod.splits sum.splits option.splits if_splits)

lemma sh_wait_spec:
  assumes "sh_inv s" "wait_locked pb s w = (r, s', w')"
  shows "sh_inv s' \<and> sh_pid s' = sh_pid s \<and> (\<forall>x. r = Inr x \<longrightarrow> sh_status s' = Some x)
    \<and> (sh_status s \<noteq> None \<longrightarrow> s' = s \<and> w' = w)"
  using assms by (auto simp: wait_locked_def sh_inv_def split: prod.splits sum.splits option.splits)

interpretation session_child: reaping "shared_step env" "\<lambda>(s, w). sh_inv s" "\<lambda>(s, w). sh_reaped s" "\<lambda>(s, w). (s, w)"
  for env :: "('p, 'b, 'w) session_env"
proof unfold_locales
  fix op and s s' :: "shared_child \<times> 'w"
  assume "shared_step env op s = Some s'" "case s of (s, w) \<Rightarrow> sh_inv s"
  moreover obtain c w where "s = (c, w)" by (cases s)
  moreover obtain r1 s1 w1 r2 s2 w2 where "sh_poll (en_backend env) c w = (r1, s1, w1)" "wait_locked (en_backend env) c w = (r2, s2, w2)"
    by (metis prod_cases3)
  ultimately show "case s' of (s, w) \<Rightarrow> sh_inv s"
    using sh_poll_spec [of c "en_backend env" w r1 s1 w1] sh_wait_spec [of c "en_backend env" w r2 s2 w2]
    by (cases op) (auto simp: shared_step_def)
next
  fix op and s :: "shared_child \<times> 'w"
  assume "case s of (s, w) \<Rightarrow> sh_inv s" "case s of (s, w) \<Rightarrow> sh_reaped s"
  moreover obtain c w where "s = (c, w)" by (cases s)
  ultimately show "\<exists>s'. shared_step env op s = Some s' \<and> (case s' of (s, w) \<Rightarrow> sh_reaped s)
      \<and> (case s' of (s, w) \<Rightarrow> (s, w)) = (case s of (s, w) \<Rightarrow> (s, w))"
    by (cases op) (auto simp: shared_step_def sh_poll_def signal_locked_def kill_locked_def wait_locked_def sh_inv_def split: option.splits)
qed

end
