(* ===== verification/Sync_Frame.thy ===== *)
theory Sync_Frame
  imports Feed
begin

text \<open>
  What the actions of the parser leave alone: only DECSET/DECRST and RIS switch the synchronized update, only
  DECSCUSR changes the cursor style. The session counts frames and serializes the style on the strength of this.
\<close>

definition steady :: "grid \<Rightarrow> u16 \<times> bool" where
  "steady g = (g_cursor_style g, has_flag g SYNCHRONIZED_UPDATE)"

named_theorems steady_simps \<open>operations that keep the style and the synchronized update\<close>

lemma steady_updates [steady_simps]:
  "steady (g\<lparr>g_arena := x1\<rparr>) = steady g" "steady (g\<lparr>g_primary := x2\<rparr>) = steady g" "steady (g\<lparr>g_alternate := x2\<rparr>) = steady g"
  "steady (g\<lparr>g_scrollback := x2\<rparr>) = steady g" "steady (g\<lparr>g_scrollback_offset := n\<rparr>) = steady g"
  "steady (g\<lparr>g_cursor_row := n\<rparr>) = steady g" "steady (g\<lparr>g_cursor_col := n\<rparr>) = steady g"
  "steady (g\<lparr>g_saved_cursor_row := n\<rparr>) = steady g" "steady (g\<lparr>g_saved_cursor_col := n\<rparr>) = steady g"
  "steady (g\<lparr>g_mouse_mode := x3\<rparr>) = steady g" "steady (g\<lparr>g_mouse_encoding := x4\<rparr>) = steady g"
  "steady (g\<lparr>g_text_cursor_enable := x5\<rparr>) = steady g" "steady (g\<lparr>g_last_print := x6\<rparr>) = steady g"
  "steady (g\<lparr>g_last_preserved_block := x7\<rparr>) = steady g" "steady (g\<lparr>g_current_attrs := x8\<rparr>) = steady g"
  "steady (g\<lparr>g_active_hyperlink := x9\<rparr>) = steady g" "steady (g\<lparr>g_recent_hyperlinks := x10\<rparr>) = steady g"
  "steady (g\<lparr>g_scroll_top := n\<rparr>) = steady g" "steady (g\<lparr>g_scroll_bottom := n\<rparr>) = steady g"
  "steady (g\<lparr>g_scroll_ops := x11\<rparr>) = steady g" "steady (g\<lparr>g_kitty_kb_stack := x12\<rparr>) = steady g"
  "steady (g\<lparr>g_dirty := x13\<rparr>) = steady g" "steady (g\<lparr>g_passthrough := x14\<rparr>) = steady g"
  "steady (g\<lparr>g_reported_fg := x15\<rparr>) = steady g" "steady (g\<lparr>g_reported_bg := x15\<rparr>) = steady g"
  "steady (g\<lparr>g_rows := n\<rparr>) = steady g" "steady (g\<lparr>g_cols := n\<rparr>) = steady g"
  by (simp_all add: steady_def has_flag_def)

lemma steady_flags [steady_simps]:
  assumes "is_mask f" "f \<noteq> SYNCHRONIZED_UPDATE"
  shows "steady (set_flag f g) = steady g" "steady (clear_flag f g) = steady g" "steady (put_flag f on g) = steady g"
  using assms by (auto simp: steady_def flag_op_defs)

lemma steady_grid_ops [steady_simps]:
  "steady (push_event e g) = steady g" "steady (put_active s g) = steady g" "steady (grid_mark_all g) = steady g"
  "steady (clear_pending_wrap g) = steady g" "steady (restore_autowrap g) = steady g" "steady (clamp_cursor g) = steady g"
  "steady (save_cursor g) = steady g" "steady (restore_saved_cursor g) = steady g"
  "steady (record_scroll op g) = steady g" "steady (push_scrollback_row row wrap g) = steady g"
  "steady (set_active_row_wrap n wrap g) = steady g" "steady (set_alt_screen on g) = steady g"
  "steady (clear_scrollback g) = steady g" "steady (arm_wrap g) = steady g"
  by (simp_all add: push_event_def put_active_def grid_mark_all_def clear_pending_wrap_def restore_autowrap_def
      clamp_cursor_def save_cursor_def restore_saved_cursor_def record_scroll_def push_scrollback_row_def
      set_active_row_wrap_def set_alt_screen_def clear_scrollback_def arm_wrap_def Let_def split_beta steady_simps)

lemma steady_mark_range: "grid_mark_range r a b g = Some g' \<Longrightarrow> steady g' = steady g"
  by (auto simp: grid_mark_range_def steady_simps)

lemma steady_mark_row: "grid_mark_row r g = Some g' \<Longrightarrow> steady g' = steady g"
  by (auto simp: grid_mark_row_def steady_simps)

lemma steady_set_active_row: "set_active_row r row g = Some g' \<Longrightarrow> steady g' = steady g"
  by (auto simp: set_active_row_def bind_eq_Some_conv steady_simps)

lemma steady_foldl: "(\<And>g x. steady (f g x) = steady g) \<Longrightarrow> steady (foldl f g xs) = steady g"
  by (induction xs arbitrary: g) simp_all

lemma steady_preserve [steady_simps]: "steady (preserve_visible_rows_to_scrollback g) = steady g"
  by (auto simp: preserve_visible_rows_to_scrollback_def Let_def steady_simps intro: steady_foldl split: option.splits)

lemma steady_fold_opt:
  assumes "\<And>x g g'. f x g = Some g' \<Longrightarrow> steady g' = steady g"
  shows "fold_opt f xs g = Some g' \<Longrightarrow> steady g' = steady g"
proof (induction xs arbitrary: g)
  case (Cons x xs)
  then show ?case using assms by (auto simp: bind_eq_Some_conv)
qed simp

lemma steady_repeat_opt:
  assumes "\<And>g g'. f g = Some g' \<Longrightarrow> steady g' = steady g"
  shows "repeat_opt n f g = Some g' \<Longrightarrow> steady g' = steady g"
proof (induction n arbitrary: g)
  case (Suc n)
  then show ?case using assms by (auto simp: bind_eq_Some_conv)
qed simp


section \<open>Actions\<close>

named_theorems steady_dests \<open>actions that keep the style and the synchronized update where they return\<close>

declare steady_mark_range [steady_dests] steady_mark_row [steady_dests] steady_set_active_row [steady_dests]

lemma steady_scroll_up_once: "scroll_up_once a b wrap g = Some g' \<Longrightarrow> steady g' = steady g"
  by (auto simp: scroll_up_once_def Let_def split_beta bind_eq_Some_conv steady_simps split: if_splits option.splits)

lemma steady_scroll_up [steady_dests]:
  assumes "scroll_up n wrap g = Some g'"
  shows "steady g' = steady g"
proof -
  from assms obtain a b m g1 g2 xs where
    "g1 = (if 0 < m then (set_flag MUTATED_SINCE_PRESERVE g)\<lparr>g_scroll_ops := xs\<rparr> else set_flag MUTATED_SINCE_PRESERVE g)"
    and 2: "repeat_opt m (scroll_up_once a b wrap) g1 = Some g2" and 3: "fold_opt grid_mark_row [a..<b + 1] g2 = Some g'"
    unfolding scroll_up_def Let_def bind_eq_Some_conv by blast
  then have "steady g1 = steady g" by (simp add: steady_simps)
  with steady_repeat_opt [OF steady_scroll_up_once 2] steady_fold_opt [OF steady_mark_row 3] show ?thesis by simp
qed

lemma steady_newline [steady_dests]:
  "newline_action_with_wrap wrap g = Some g' \<Longrightarrow> steady g' = steady g" "newline_action g = Some g' \<Longrightarrow> steady g' = steady g"
  by (auto simp: newline_action_def newline_action_with_wrap_def Let_def steady_simps dest!: steady_scroll_up split: if_splits)

lemma steady_join_cursor [steady_dests]: "join_cursor c old n e g = Some g' \<Longrightarrow> steady g' = steady g"
  by (auto simp: join_cursor_def bind_eq_Some_conv steady_simps split: if_splits)

lemma steady_join_cluster [steady_dests]: "join_cluster uw ch col g = Some g' \<Longrightarrow> steady g' = steady g"
  by (auto simp: join_cluster_def Let_def bind_eq_Some_conv steady_simps dest!: steady_dests)

lemma steady_append_cluster [steady_dests]: "append_to_previous_cluster uw ch width g = Some (b, g') \<Longrightarrow> steady g' = steady g"
  by (auto simp: append_to_previous_cluster_def Let_def bind_eq_Some_conv dest!: steady_dests split: if_splits sum.splits)

lemma steady_write_glyph [steady_dests]: "write_glyph ch width g = Some g' \<Longrightarrow> steady g' = steady g"
  by (auto simp: write_glyph_def Let_def split_beta bind_eq_Some_conv steady_simps dest!: steady_dests)

lemma steady_deferred_wrap: "deferred_wrap g = Some g' \<Longrightarrow> steady g' = steady g"
  by (auto simp: deferred_wrap_def steady_simps dest!: steady_newline split: if_splits)

lemma steady_write_clamped: "write_clamped ch width g = Some g' \<Longrightarrow> steady g' = steady g"
  by (auto simp: write_clamped_def Let_def steady_simps dest!: steady_write_glyph split: if_splits)

lemma steady_write:
  assumes "write_char_at_cursor uw ch g = Some g'"
  shows "steady g' = steady g"
proof -
  from assms obtain b g1 where 1: "append_to_previous_cluster uw ch (char_width uw ch) (set_flag MUTATED_SINCE_PRESERVE g) = Some (b, g1)"
      and 2: "(if b then Some g1 else Option.bind (deferred_wrap g1) (write_clamped ch (char_width uw ch))) = Some g'"
    unfolding write_char_at_cursor_def Let_def bind_eq_Some_conv by auto
  have "steady g' = steady g1"
    using 2 by (auto simp: bind_eq_Some_conv dest!: steady_deferred_wrap steady_write_clamped split: if_splits)
  with steady_append_cluster [OF 1] show ?thesis by (simp add: steady_simps)
qed

lemma steady_execute: "execute b g = Some g' \<Longrightarrow> steady g' = steady g"
  by (auto simp: execute_def Let_def bind_eq_Some_conv steady_simps dest!: steady_dests split: if_splits)

lemma steady_osc: "steady (handle_osc ps bell g) = steady g"
  by (auto simp: handle_osc_def intern_hyperlink_def Let_def split_beta steady_simps split: list.splits option.splits)

lemma steady_editing [steady_dests]:
  "insert_characters p g = Some g' \<Longrightarrow> steady g' = steady g" "delete_characters p g = Some g' \<Longrightarrow> steady g' = steady g"
  "erase_characters p g = Some g' \<Longrightarrow> steady g' = steady g"
  by (auto simp: insert_characters_def delete_characters_def erase_characters_def Let_def bind_eq_Some_conv dest!: steady_dests)

lemma steady_lines [steady_dests]:
  "insert_lines p g = Some g' \<Longrightarrow> steady g' = steady g" "delete_lines p g = Some g' \<Longrightarrow> steady g' = steady g"
  "scroll_down p g = Some g' \<Longrightarrow> steady g' = steady g" "reverse_index g = Some g' \<Longrightarrow> steady g' = steady g"
  by (auto simp: insert_lines_def delete_lines_def scroll_down_def reverse_index_def Let_def bind_eq_Some_conv steady_simps
      split: if_splits)

lemma steady_erase [steady_dests]:
  "erase_line m g = Some g' \<Longrightarrow> steady g' = steady g" "erase_display m g = Some g' \<Longrightarrow> steady g' = steady g"
  by (auto simp: erase_line_def erase_display_def Let_def bind_eq_Some_conv steady_simps dest!: steady_dests split: if_splits)

section \<open>Dispatches\<close>

definition is_dispatch :: "perform_call \<Rightarrow> bool" where
  "is_dispatch call \<longleftrightarrow> (case call of CsiDispatch _ _ _ _ \<Rightarrow> True | EscDispatch _ _ _ \<Rightarrow> True | _ \<Rightarrow> False)"

lemma steady_perform: "perform uw call g = Some g' \<Longrightarrow> \<not> is_dispatch call \<Longrightarrow> steady g' = steady g"
  by (cases call) (auto simp: is_dispatch_def steady_osc dest: steady_write steady_execute)

lemma steady_performs:
  "fold_opt (perform uw) calls g = Some g' \<Longrightarrow> \<not> list_ex is_dispatch calls \<Longrightarrow> steady g' = steady g"
  by (induction calls arbitrary: g) (auto simp: bind_eq_Some_conv dest: steady_perform)

text \<open>The style is a parameter of \<open>DECSCUSR\<close>, and the parser's parameters are \<open>u16\<close>.\<close>

definition u16_call :: "perform_call \<Rightarrow> bool" where
  "u16_call call \<longleftrightarrow> (case call of CsiDispatch ps _ _ _ \<Rightarrow> list_all (list_all (\<lambda>n. n \<le> u16_max)) ps | _ \<Rightarrow> True)"

definition u16_parser :: "'p parser \<Rightarrow> bool" where
  "u16_parser adv \<longleftrightarrow> (\<forall>p bs. list_all u16_call (snd (adv p bs)))"

lemma steady_push_events [steady_simps]: "steady ((push_event e ^^ n) g) = steady g"
  by (induction n) (simp_all add: steady_simps)

lemma style_steady: "steady h = steady g \<Longrightarrow> g_cursor_style h = g_cursor_style g"
  by (simp add: steady_def)

lemma style_dec_mode: "g_cursor_style (set_dec_mode mode on g) = g_cursor_style g"
proof (cases "mode = 2026")
  case True
  then show ?thesis by (simp add: set_dec_mode_def flag_op_defs)
next
  case False
  then have "steady (set_dec_mode mode on g) = steady g" by (simp add: set_dec_mode_def Let_def steady_simps)
  then show ?thesis by (rule style_steady)
qed

lemma style_dec_modes: "g_cursor_style (foldl (\<lambda>g mode. set_dec_mode mode on g) g p) = g_cursor_style g"
  by (induction p arbitrary: g) (simp_all add: style_dec_mode)

lemma steady_csi_parts [steady_simps]:
  "steady (set_scroll_region a b g) = steady g" "steady (kitty_push n g) = steady g" "steady (kitty_pop n g) = steady g"
  "steady (status_report n dec g) = steady g" "steady (mode_report n dec g) = steady g" "steady (soft_reset g) = steady g"
  by (simp_all add: set_scroll_region_def kitty_push_def kitty_pop_def status_report_def mode_report_def soft_reset_def
      Let_def steady_simps)

definition csi_p0 :: "params \<Rightarrow> u16" where
  "csi_p0 ps = (let p = map first_or_0 ps in if p = [] then 0 else p ! 0)"

text \<open>What a result satisfies if there is one.\<close>

definition keeps :: "'a option \<Rightarrow> ('a \<Rightarrow> bool) \<Rightarrow> bool" where
  "keeps r Q \<longleftrightarrow> (\<forall>x. r = Some x \<longrightarrow> Q x)"

lemma keeps_if: "keeps r Q \<Longrightarrow> keeps s Q \<Longrightarrow> keeps (if b then r else s) Q"
  by simp

lemma keeps_Some: "Q x \<Longrightarrow> keeps (Some x) Q"
  by (simp add: keeps_def)

definition style_from :: "grid \<Rightarrow> u16 \<Rightarrow> grid \<Rightarrow> bool" where
  "style_from g n g' \<longleftrightarrow> g_cursor_style g' = g_cursor_style g \<or> g_cursor_style g' = n"

lemma style_from_steady: "steady g' = steady g \<Longrightarrow> style_from g n g'"
  by (simp add: style_from_def steady_def)

lemma keeps_steady: "(\<And>g'. r = Some g' \<Longrightarrow> steady g' = steady g) \<Longrightarrow> keeps r (style_from g n)"
  by (simp add: keeps_def style_from_steady)

lemma style_csi: "keeps (csi_dispatch ps intermediates ignore action g) (style_from g (csi_p0 ps))"
proof -
  define g0 where "g0 = (if char_in action ''ABCDEFGHfdr'' then clear_pending_wrap g else g)"
  have g0: "steady g0 = steady g" by (simp add: g0_def steady_simps)
  have modes: "style_from g n (foldl (\<lambda>g mode. set_dec_mode mode on g) g0 p)" for n on p
    by (simp add: style_from_def style_dec_modes style_steady [OF g0])
  have set: "style_from g n (g0\<lparr>g_cursor_style := n\<rparr>)" for n by (simp add: style_from_def)
  have trans: "steady g' = steady g0 \<Longrightarrow> steady g' = steady g" for g' using g0 by simp
  show ?thesis
    unfolding csi_dispatch_def Let_def g0_def [symmetric] csi_p0_def
    by (intro keeps_if keeps_Some modes set; (rule keeps_steady | rule style_from_steady); rule trans;
        ((drule steady_dests, assumption) | simp add: steady_simps))
qed

lemma style_full_reset: "g_cursor_style (full_reset g) = g_cursor_style g"
  by (simp add: full_reset_def reset_modes_def grid_mark_all_def Let_def split_beta flag_op_defs)

lemma style_esc: "keeps (esc_dispatch intermediates ignore b g) (style_from g 0)"
proof -
  have reset: "style_from g 0 (full_reset g)" by (simp add: style_from_def style_full_reset)
  show ?thesis
    unfolding esc_dispatch_def
    by (intro keeps_if keeps_Some reset; (rule keeps_steady | rule style_from_steady);
        ((drule steady_lines, assumption) | simp add: steady_simps))
qed

lemma csi_p0_u16: "list_all (list_all (\<lambda>n. n \<le> u16_max)) ps \<Longrightarrow> csi_p0 ps \<le> u16_max"
  by (cases ps) (auto simp: csi_p0_def first_or_0_def u16_max_def split: list.splits)

lemma style_perform:
  assumes "perform uw call g = Some g'" "u16_call call" "g_cursor_style g \<le> u16_max"
  shows "g_cursor_style g' \<le> u16_max"
proof (cases call)
  case (CsiDispatch ps intermediates ignore action)
  then show ?thesis using assms style_csi [of ps intermediates ignore action g] csi_p0_u16 [of ps]
    by (auto simp: keeps_def style_from_def u16_call_def)
next
  case (EscDispatch intermediates ignore b)
  then show ?thesis using assms style_esc [of intermediates ignore b g] by (auto simp: keeps_def style_from_def)
qed (use assms(3) style_steady [OF steady_perform [OF assms(1)]] in \<open>simp_all add: is_dispatch_def\<close>)

lemma style_performs:
  "fold_opt (perform uw) calls g = Some g' \<Longrightarrow> list_all u16_call calls \<Longrightarrow> g_cursor_style g \<le> u16_max \<Longrightarrow> g_cursor_style g' \<le> u16_max"
  by (induction calls arbitrary: g) (auto simp: bind_eq_Some_conv dest: style_perform)

section \<open>The byte stream\<close>

text \<open>The actions that a chunk triggers, and the tail it leaves.\<close>

definition chunk_calls :: "'p parser \<Rightarrow> u8 list \<Rightarrow> 'p damage_grid \<Rightarrow> perform_call list" where
  "chunk_calls adv bs d = snd (adv (dg_parser d) (fed_prefix (dg_pending_utf8 d @ bs)))"

lemma advance_parser_calls:
  "advance_parser uw adv bs d = Some d' \<Longrightarrow>
    fold_opt (perform uw) (snd (adv (dg_parser d) bs)) (dg_grid d) = Some (dg_grid d')
    \<and> dg_parser d' = fst (adv (dg_parser d) bs) \<and> dg_pending_utf8 d' = dg_pending_utf8 d"
  by (auto simp: advance_parser_def Let_def split_beta bind_eq_Some_conv)

lemma process_calls:
  assumes sp: "stream_parser adv" and r: "process uw adv bs d = Some d'" and "bs \<noteq> []"
  shows "fold_opt (perform uw) (chunk_calls adv bs d) (dg_grid d) = Some (dg_grid d')"
    "dg_parser d' = fst (adv (dg_parser d) (fed_prefix (dg_pending_utf8 d @ bs)))"
    "dg_pending_utf8 d' = pending_tail (dg_pending_utf8 d @ bs)"
proof -
  from r obtain d1 where d1: "advance_parser uw adv (fed_prefix (dg_pending_utf8 d @ bs)) d = Some d1"
    "d' = d1\<lparr>dg_pending_utf8 := pending_tail (dg_pending_utf8 d @ bs)\<rparr>"
    by (auto simp: process_eq [OF sp assms(3)])
  from advance_parser_calls [OF d1(1)] d1(2)
  show "fold_opt (perform uw) (chunk_calls adv bs d) (dg_grid d) = Some (dg_grid d')"
    "dg_parser d' = fst (adv (dg_parser d) (fed_prefix (dg_pending_utf8 d @ bs)))"
    "dg_pending_utf8 d' = pending_tail (dg_pending_utf8 d @ bs)"
    by (simp_all add: chunk_calls_def)
qed

lemma chunk_calls_Cons:
  assumes sp: "stream_parser adv" and r: "process uw adv [b] d = Some d'"
  shows "chunk_calls adv (b # bs) d = chunk_calls adv [b] d @ chunk_calls adv bs d'"
proof -
  let ?p = "dg_pending_utf8 d"
  have "fed_prefix (?p @ b # bs) = fed_prefix (?p @ [b]) @ fed_prefix (pending_tail (?p @ [b]) @ bs)"
    using fed_prefix_append [of "?p @ [b]" bs] by simp
  with sp process_calls [OF sp r] show ?thesis by (simp add: chunk_calls_def stream_parser_def split_beta)
qed

lemma pending_tail_bytes: "set (pending_tail bs) \<subseteq> {b. \<not> is_ascii b}"
  using non_ascii_tail_all [of bs] by (auto simp: pending_tail_eq list_all_iff dest: in_set_dropD)

end
