(* ===== verification/Worker_Safety.thy ===== *)
theory Worker_Safety
  imports Worker Sync_Frame
begin

text \<open>
  The invariant of the session worker and its operations: no operation panics, whatever the child prints and
  whatever the other threads do, and the bookkeeping of the session stays consistent.
\<close>

section \<open>The invariant\<close>

text \<open>The emulator: a well-formed grid, a style that is a \<open>u16\<close>, a pending tail without ASCII bytes.\<close>

definition emulator_ok :: "'p damage_grid \<Rightarrow> bool" where
  "emulator_ok d \<longleftrightarrow> grid_inv (dg_grid d) \<and> g_cursor_style (dg_grid d) \<le> u16_max
     \<and> set (dg_pending_utf8 d) \<subseteq> {b. \<not> is_ascii b}"

text \<open>The output log is the beginning of what was pumped while recording, up to the cap.\<close>

definition log_ok :: "'p worker \<Rightarrow> bool" where
  "log_ok k \<longleftrightarrow> length (wk_output_log k) = min (wk_output_bytes_total k) (wk_output_cap_bytes k)
     \<and> (wk_output_truncated k \<longleftrightarrow> wk_output_cap_bytes k < wk_output_bytes_total k)
     \<and> wk_output_bytes_total k = (if wk_record_output k then wk_bytes_pumped k else 0)"

text \<open>The frame counter follows the grid, and the rendezvous shows the worker's counters.\<close>

definition counters_ok :: "'p worker \<Rightarrow> bool" where
  "counters_ok k \<longleftrightarrow> wk_was_in_sync k = in_synchronized_update (dg_grid (wk_grid k))
     \<and> sd_frames (wk_shared k) = wk_frames k \<and> sd_revision (wk_shared k) = wk_revision k
     \<and> length (wk_events k) \<le> max (wk_event_cap k) 1"

text \<open>An exit the worker has seen is the status of the shared child.\<close>

definition exit_ok :: "'p worker \<Rightarrow> bool" where
  "exit_ok k \<longleftrightarrow> sh_inv (wk_killer k) \<and> (\<forall>e. wk_exited k = Some e \<longrightarrow> sh_status (wk_killer k) = Some e)"

text \<open>The outcome is published exactly when the capture is final, and says what was captured then.\<close>

definition outcome_ok :: "'p worker \<Rightarrow> bool" where
  "outcome_ok k \<longleftrightarrow> (case sd_outcome (wk_shared k) of
       None \<Rightarrow> \<not> wk_finalized k \<and> wk_final_stream k = None \<and> wk_dropped_after_drain k = 0
     | Some oc \<Rightarrow> wk_finalized k \<and> wk_final_stream k = Some (oc_stream oc) \<and> oc_bytes_pumped oc = wk_bytes_pumped k
         \<and> oc_revision oc \<le> wk_revision k \<and> oc_stream oc \<noteq> Streaming)"

definition worker_inv :: "'p worker \<Rightarrow> bool" where
  "worker_inv k \<longleftrightarrow> emulator_ok (wk_grid k) \<and> log_ok k \<and> counters_ok k \<and> exit_ok k \<and> outcome_ok k"

lemmas worker_inv_defs = worker_inv_def log_ok_def counters_ok_def exit_ok_def outcome_ok_def

section \<open>Feeding the emulator\<close>

lemma process_shape:
  assumes "process uw adv bs d = Some d'"
  shows "d' = d \<or> (\<exists>xs. dg_pending_utf8 d' = pending_tail (dg_pending_utf8 d @ bs)
    \<and> (dg_grid d' = dg_grid d \<or> fold_opt (perform uw) (snd (adv (dg_parser d) xs)) (dg_grid d) = Some (dg_grid d')))"
proof (cases "bs = []")
  case False
  let ?b = "dg_pending_utf8 d @ bs" and ?d = "d\<lparr>dg_pending_utf8 := []\<rparr>"
  from assms obtain d1 where
    d1: "(if 0 < length ?b - incomplete_utf8_suffix_len ?b then advance_parser uw adv (fed_prefix ?b) ?d else Some ?d) = Some d1"
    and d': "d' = (if 0 < incomplete_utf8_suffix_len ?b then d1\<lparr>dg_pending_utf8 := dg_pending_utf8 d1 @ pending_tail ?b\<rparr> else d1)"
    unfolding process_def Let_def if_not_P [OF False] bind_eq_Some_conv fed_prefix_def pending_tail_def by auto
  have p1: "dg_pending_utf8 d1 = []" using d1 by (auto dest!: advance_parser_calls split: if_splits)
  then have "dg_pending_utf8 d' = pending_tail ?b" using d' length_pending [of ?b] by auto
  moreover have "dg_grid d1 = dg_grid d \<or> fold_opt (perform uw) (snd (adv (dg_parser d) (fed_prefix ?b))) (dg_grid d) = Some (dg_grid d1)"
    using d1 by (auto dest!: advance_parser_calls split: if_splits)
  moreover have "dg_grid d' = dg_grid d1" using d' by simp
  ultimately show ?thesis by auto
qed (use assms in \<open>simp add: process_def\<close>)

lemma process_emulator:
  assumes "u16_parser adv" "emulator_ok d"
  shows "ok (process uw adv bs d) emulator_ok"
proof -
  from assms(2) have "grid_inv (dg_grid d)" by (simp add: emulator_ok_def)
  from process_ok [OF this, of uw adv bs] obtain d' where
    d': "process uw adv bs d = Some d'" "grid_inv (dg_grid d')" by (auto simp: ok_iff_ex)
  from process_shape [OF d'(1)] have "emulator_ok d'"
  proof
    assume "\<exists>xs. dg_pending_utf8 d' = pending_tail (dg_pending_utf8 d @ bs)
      \<and> (dg_grid d' = dg_grid d \<or> fold_opt (perform uw) (snd (adv (dg_parser d) xs)) (dg_grid d) = Some (dg_grid d'))"
    then show ?thesis using assms d'(2) style_performs pending_tail_bytes
      by (auto simp: emulator_ok_def u16_parser_def)
  qed (use assms(2) in simp)
  with d'(1) show ?thesis by simp
qed

text \<open>The worker after the emulator has taken some bytes.\<close>

definition emu_upd :: "'p damage_grid \<Rightarrow> nat \<Rightarrow> 'p worker \<Rightarrow> 'p worker" where
  "emu_upd g f k = k\<lparr>wk_grid := g, wk_frames := f, wk_was_in_sync := in_synchronized_update (dg_grid g),
     wk_shared := (wk_shared k)\<lparr>sd_frames := f\<rparr>\<rparr>"

lemma emu_upd_twice [simp]: "emu_upd g' f' (emu_upd g f k) = emu_upd g' f' k"
  by (simp add: emu_upd_def)

lemma emu_upd_id: "counters_ok k \<Longrightarrow> emu_upd (wk_grid k) (wk_frames k) k = k"
  by (simp add: emu_upd_def counters_ok_def)

lemma emu_upd_sel [simp]:
  "wk_grid (emu_upd g f k) = g" "wk_frames (emu_upd g f k) = f" "wk_was_in_sync (emu_upd g f k) = in_synchronized_update (dg_grid g)"
  "sd_frames (wk_shared (emu_upd g f k)) = f" "wk_finalized (emu_upd g f k) = wk_finalized k"
  by (simp_all add: emu_upd_def)

lemma emu_upd_inv: "worker_inv k \<Longrightarrow> emulator_ok g \<Longrightarrow> worker_inv (emu_upd g f k)"
  by (auto simp: worker_inv_defs emu_upd_def split: option.splits)

text \<open>One sample: a frame is counted when the grid has left the synchronized update.\<close>

definition frame_done :: "'p worker \<Rightarrow> 'p damage_grid \<Rightarrow> nat" where
  "frame_done k g = (if wk_was_in_sync k \<and> \<not> in_synchronized_update (dg_grid g) then 1 else 0)"

lemma note_sync_sample_eq:
  "sd_frames (wk_shared k) = wk_frames k \<Longrightarrow>
    note_sync_sample (k\<lparr>wk_grid := g\<rparr>) = emu_upd g (wk_frames k + frame_done k g) k"
  by (auto simp: note_sync_sample_def emu_upd_def frame_done_def set_frames_def Let_def)

lemma feed_grid_ok:
  assumes "u16_parser (en_parser env)" "worker_inv k"
  shows "ok (feed_grid env bs k) (\<lambda>k'. \<exists>g f. k' = emu_upd g f k \<and> emulator_ok g)"
proof -
  let ?I = "\<lambda>k'. \<exists>g f. k' = emu_upd g f k \<and> emulator_ok g"
  have start: "?I k"
    using assms(2) emu_upd_id [of k] by (metis worker_inv_def)
  have step: "ok (process (en_width env) (en_parser env) xs (wk_grid k')) (\<lambda>g. ?I (note_sync_sample (k'\<lparr>wk_grid := g\<rparr>)))"
    if "?I k'" for xs k'
  proof -
    from that obtain g f where k': "k' = emu_upd g f k" "emulator_ok g" by blast
    have "?I (note_sync_sample (k'\<lparr>wk_grid := x\<rparr>))" if "emulator_ok x" for x
      using that by (auto simp: k'(1) note_sync_sample_eq)
    then show ?thesis
      using ok_mono_all [OF process_emulator [OF assms(1) k'(2), of "en_width env" xs]] by (simp add: k'(1))
  qed
  have byte: "ok (feed_byte env b k') ?I" if "?I k'" for b k'
    using step [OF that] by (simp add: feed_byte_def)
  show ?thesis
    using fold_opt_inv [of bs ?I "feed_byte env" k] byte start step [OF start] by (simp add: feed_grid_def)
qed

section \<open>Events, the log and a whole batch\<close>

lemma make_room_spec:
  "1 \<le> cap \<Longrightarrow> \<exists>n. make_room cap es d = (drop n es, d + n) \<and> n \<le> length es \<and> length es - n = min (length es) (cap - 1)"
proof (induction cap es d rule: make_room.induct)
  case (2 cap e es d)
  show ?case
  proof (cases "cap \<le> length (e # es)")
    case True
    with 2 obtain n where n: "make_room cap es (d + 1) = (drop n es, d + 1 + n)" "n \<le> length es"
        "length es - n = min (length es) (cap - 1)" by auto
    with True 2(2) show ?thesis by (intro exI [of _ "Suc n"]) auto
  next
    case False
    then show ?thesis by (intro exI [of _ 0]) auto
  qed
qed simp

text \<open>Events change the stash, the reply counters and, through the writer, the system.\<close>

definition event_free :: "'p worker \<Rightarrow> 'p worker" where
  "event_free k = k\<lparr>wk_events := [], wk_events_dropped := 0, wk_replies_routed := 0, wk_replies_dropped_no_writer := 0,
     wk_reply_write_errors := 0, wk_reply_first_error := None\<rparr>"

definition stash_ok :: "'p worker \<Rightarrow> bool" where
  "stash_ok k \<longleftrightarrow> length (wk_events k) \<le> max (wk_event_cap k) 1"

lemma event_free_inv: "worker_inv k \<longleftrightarrow> worker_inv (event_free k) \<and> stash_ok k"
  by (cases "sd_outcome (wk_shared k)") (auto simp: worker_inv_defs event_free_def stash_ok_def)

lemma stash_event_free: "event_free (stash_event ev k) = event_free k"
  by (simp add: stash_event_def event_free_def split_beta Let_def)

lemma stash_event_ok: "stash_ok (stash_event ev k)"
  using make_room_spec [of "max (wk_event_cap k) 1" "wk_events k" "wk_events_dropped k"]
  by (auto simp: stash_event_def stash_ok_def)

lemma route_reply_free:
  "event_free (fst (route_reply env bs (k, w))) = event_free k" "wk_events (fst (route_reply env bs (k, w))) = wk_events k"
  "wk_event_cap (fst (route_reply env bs (k, w))) = wk_event_cap k"
  by (auto simp: route_reply_def event_free_def split: option.splits prod.splits bool.splits sum.splits)

lemma route_event_free:
  assumes "route_event env (k, w) ev = (k', w')"
  shows "event_free k' = event_free k" "stash_ok k \<Longrightarrow> stash_ok k'"
proof -
  have "k' = fst (route_reply env bs (k, w)) \<or> k' = stash_event ev k" if "ev = Reply bs" for bs
    using assms that by auto
  moreover have "k' = stash_event ev k" if "\<nexists>bs. ev = Reply bs"
    using assms that by (cases ev) auto
  ultimately have "(\<exists>bs. k' = fst (route_reply env bs (k, w))) \<or> k' = stash_event ev k" by blast
  then show "event_free k' = event_free k" "stash_ok k \<Longrightarrow> stash_ok k'"
    by (auto simp: stash_event_free stash_event_ok route_reply_free) (simp add: stash_ok_def route_reply_free)
qed

lemma route_events_free:
  "event_free (fst (foldl (route_event env) (k, w) evs)) = event_free k
    \<and> (stash_ok k \<longrightarrow> stash_ok (fst (foldl (route_event env) (k, w) evs)))"
proof (induction evs arbitrary: k w)
  case (Cons ev evs)
  obtain k1 w1 where 1: "route_event env (k, w) ev = (k1, w1)" by fastforce
  with route_event_free [OF 1] Cons.IH [of k1 w1] show ?case by simp
qed simp

lemma bump_revision_inv: "worker_inv k \<Longrightarrow> worker_inv (bump_revision k)"
  by (cases "sd_outcome (wk_shared k)") (auto simp: worker_inv_defs bump_revision_def set_revision_def Let_def)

text \<open>Pumping a batch that the emulator has taken: the counters and the log.\<close>

definition pump :: "u8 list \<Rightarrow> 'p worker \<Rightarrow> 'p worker" where
  "pump bs k = record_bytes bs (k\<lparr>wk_bytes_pumped := wk_bytes_pumped k + length bs, wk_feeds := wk_feeds k + 1\<rparr>)"

lemma pump_eq:
  assumes "log_ok k"
  shows "pump bs k = k\<lparr>wk_bytes_pumped := wk_bytes_pumped k + length bs, wk_feeds := wk_feeds k + 1,
      wk_output_bytes_total := wk_output_bytes_total k + (if wk_record_output k then length bs else 0),
      wk_output_log := wk_output_log k @ take (if wk_record_output k then wk_output_cap_bytes k - length (wk_output_log k) else 0) bs,
      wk_output_truncated := wk_output_cap_bytes k < wk_output_bytes_total k + (if wk_record_output k then length bs else 0)\<rparr>"
  using assms by (auto simp: pump_def record_bytes_def log_ok_def Let_def min_def split: if_splits)

lemma pump_inv: "worker_inv k \<Longrightarrow> \<not> wk_finalized k \<Longrightarrow> worker_inv (pump bs k)"
  by (cases "sd_outcome (wk_shared k)") (auto simp: worker_inv_def pump_eq, auto simp: worker_inv_defs min_def split: if_splits)

definition drop_events :: "'p worker \<Rightarrow> 'p worker" where
  "drop_events k = k\<lparr>wk_grid := (wk_grid k)\<lparr>dg_grid := snd (drain_passthrough (dg_grid (wk_grid k)))\<rparr>\<rparr>"

lemma drop_events_inv: "worker_inv k \<Longrightarrow> worker_inv (drop_events k)"
  using drain_inv(2) [of "dg_grid (wk_grid k)"]
  by (cases "sd_outcome (wk_shared k)")
     (auto simp: worker_inv_defs drop_events_def emulator_ok_def drain_passthrough_def in_synchronized_update_def has_flag_def split_beta)

lemma feed_eq:
  assumes "\<not> wk_finalized k"
  shows "feed env bs (k, w) = map_option (\<lambda>k1. case foldl (route_event env) (drop_events (pump bs k1), w)
      (fst (drain_passthrough (dg_grid (wk_grid (pump bs k1))))) of (k', w') \<Rightarrow> (bump_revision k', w')) (feed_grid env bs k)"
  using assms by (cases "feed_grid env bs k") (simp_all add: feed_def pump_def drop_events_def split_beta Let_def)

text \<open>The effect of a batch on the worker, events apart.\<close>

lemma feed_effect:
  assumes "u16_parser (en_parser env)" "worker_inv k" "\<not> wk_finalized k"
  shows "ok (feed env bs (k, w)) (\<lambda>(k', w'). worker_inv k' \<and>
    (\<exists>g f. feed_grid env bs k = Some (emu_upd g f k) \<and> event_free k' = event_free (bump_revision (drop_events (pump bs (emu_upd g f k))))))"
proof -
  from feed_grid_ok [OF assms(1,2), of bs] obtain g f where
    k1: "feed_grid env bs k = Some (emu_upd g f k)" and "emulator_ok g" by (auto simp: ok_iff_ex)
  let ?k = "drop_events (pump bs (emu_upd g f k))"
  have inv: "worker_inv ?k"
    using assms(2,3) \<open>emulator_ok g\<close> by (intro drop_events_inv pump_inv emu_upd_inv) simp_all
  define r where "r = foldl (route_event env) (?k, w) (fst (drain_passthrough (dg_grid (wk_grid (pump bs (emu_upd g f k))))))"
  have r: "event_free (fst r) = event_free ?k" "stash_ok (fst r)"
    using route_events_free [of env ?k w] inv event_free_inv [of ?k] by (simp_all add: r_def)
  have "worker_inv (fst r)" using r inv event_free_inv [of ?k] event_free_inv [of "fst r"] by simp
  moreover have "event_free (bump_revision (fst r)) = bump_revision (event_free (fst r))"
    "event_free (bump_revision ?k) = bump_revision (event_free ?k)"
    by (simp_all add: event_free_def bump_revision_def Let_def)
  ultimately show ?thesis
    using feed_eq [OF assms(3), of env bs w] k1 r(1) by (auto simp: r_def [symmetric] split_beta bump_revision_inv intro!: exI [of _ g] exI [of _ f])
qed

lemma feed_ok:
  assumes "u16_parser (en_parser env)" "worker_inv k"
  shows "ok (feed env bs (k, w)) (\<lambda>(k', w'). worker_inv k')"
proof (cases "wk_finalized k")
  case True
  with assms(2) show ?thesis
    by (cases "sd_outcome (wk_shared k)") (auto simp: feed_def worker_inv_defs)
next
  case False
  show ?thesis using ok_mono_all [OF feed_effect [OF assms False]] by (auto simp: split_beta)
qed

section \<open>Draining\<close>

text \<open>What every message taken from the data channel keeps, draining keeps.\<close>

lemma drain_loop_rule:
  fixes env :: "('p, 'b, 'w) session_env"
  assumes feed: "\<And>bs k w v. I k w \<Longrightarrow> en_try_recv env w = (Received (Bytes bs), v) \<Longrightarrow>
      ok (feed env bs (k, en_inflight_sub env v)) (\<lambda>(k', w'). I k' w')"
    and ends: "\<And>e k w v. I k w \<Longrightarrow> en_try_recv env w = (Received (StreamEnd e), v) \<Longrightarrow>
      I (note_stream_end e k) (en_inflight_sub env v)"
    and empty: "\<And>k w v. I k w \<Longrightarrow> en_try_recv env w = (RecvEmpty, v) \<Longrightarrow> I k v"
    and lost: "\<And>msg k w v. I k w \<Longrightarrow> en_try_recv env w = (RecvDisconnected, v) \<Longrightarrow> I (note_stream_end (EndReadFailed msg) k) v"
    and run: "drain_loop env budget k w = Some r" and "I k w"
  shows "\<exists>k' w'. r = Some (k', w') \<and> I k' w'"
proof -
  define P where "P e b k w r \<longleftrightarrow> (e = env \<longrightarrow> I k w \<longrightarrow> (\<exists>k' w'. r = Some (k', w') \<and> I k' w'))"
    for e :: "('p, 'b, 'w) session_env" and b :: nat and k and w :: 'w and r :: "('p worker \<times> 'w) option"
  have "P env budget k w r"
  proof (rule drain_loop.raw_induct [OF _ run])
    fix dl e b k w r
    assume IH: "\<And>e b k w r. dl e b k w = Some r \<Longrightarrow> P e b k w r"
      and eq: "(case en_try_recv e w of (msg, w) \<Rightarrow> (case msg of
          Received m \<Rightarrow> (case m of
              Bytes bs \<Rightarrow> (case feed e bs (k, en_inflight_sub e w) of
                  None \<Rightarrow> Some None
                | Some (k, w) \<Rightarrow> if b - length bs = 0 then Some (Some (k, w)) else dl e (b - length bs) k w)
            | StreamEnd end \<Rightarrow> dl e b (note_stream_end end k) (en_inflight_sub e w))
        | RecvEmpty \<Rightarrow> Some (Some (k, w))
        | RecvDisconnected \<Rightarrow> Some (Some (note_stream_end (EndReadFailed ''reader thread lost'') k, w)))) = Some r"
    obtain msg v where recv: "en_try_recv e w = (msg, v)" by fastforce
    show "P e b k w r"
      unfolding P_def
    proof (intro impI)
      assume e: "e = env" and k: "I k w"
      note recv' = recv [unfolded e]
      show "\<exists>k' w'. r = Some (k', w') \<and> I k' w'"
      proof (cases msg)
        case (Received m)
        show ?thesis
        proof (cases m)
          case (Bytes bs)
          from feed [OF k recv' [unfolded Received Bytes]] obtain k1 w1 where
            f: "feed e bs (k, en_inflight_sub e v) = Some (k1, w1)" "I k1 w1" by (auto simp: e ok_iff_ex)
          show ?thesis
          proof (cases "b - length bs = 0")
            case True
            then have "r = Some (k1, w1)" using eq recv Received Bytes f(1) by simp
            with f(2) show ?thesis by simp
          next
            case False
            then have "dl e (b - length bs) k1 w1 = Some r" using eq recv Received Bytes f(1) by simp
            from IH [OF this] f(2) e show ?thesis by (simp add: P_def)
          qed
        next
          case (StreamEnd x)
          then have "dl env b (note_stream_end x k) (en_inflight_sub env v) = Some r" using eq recv Received e by simp
          from IH [OF this] ends [OF k recv' [unfolded Received StreamEnd]] show ?thesis by (simp add: P_def)
        qed
      next
        case RecvEmpty
        with eq recv empty [OF k recv' [unfolded RecvEmpty]] show ?thesis by auto
      next
        case RecvDisconnected
        with eq recv lost [OF k recv' [unfolded RecvDisconnected]] show ?thesis by auto
      qed
    qed
  qed
  with assms(6) show ?thesis by (simp add: P_def)
qed

lemma drain_loop_inv:
  assumes "\<And>bs k w. I k \<Longrightarrow> ok (feed env bs (k, w)) (\<lambda>(k', w'). I k')" "\<And>e k. I k \<Longrightarrow> I (note_stream_end e k)"
    and "drain_loop env budget k w = Some r" "I k"
  shows "\<exists>k' w'. r = Some (k', w') \<and> I k'"
  by (rule drain_loop_rule [where I = "\<lambda>k w. I k" and env = env]) (use assms in auto)

lemma note_stream_end_inv: "worker_inv k \<Longrightarrow> worker_inv (note_stream_end e k)"
  by (cases "sd_outcome (wk_shared k)") (auto simp: worker_inv_defs note_stream_end_def)

lemma drain_data_safe:
  assumes "u16_parser (en_parser env)" "worker_inv k" "drain_data env k w = Some r"
  shows "\<exists>k' w'. r = Some (k', w') \<and> worker_inv k'"
  using drain_loop_inv [where I = worker_inv, OF feed_ok [OF assms(1)] note_stream_end_inv assms(3) [unfolded drain_data_def] assms(2)] .

section \<open>Exit and shutdown\<close>

lemma poll_exit_observed_inv:
  assumes "worker_inv k" "poll_exit_observed env k w = (b, k', w')"
  shows "worker_inv k' \<and> (b \<longleftrightarrow> wk_exited k' \<noteq> None) \<and> (b \<longrightarrow> sh_status (wk_killer k') = wk_exited k')
    \<and> wk_finalized k' = wk_finalized k"
proof (cases "wk_exited k")
  case (Some e)
  with assms show ?thesis by (auto simp: poll_exit_observed_def worker_inv_defs)
next
  case None
  obtain r s v where p: "sh_poll (en_backend env) (wk_killer k) w = (r, s, v)" by (metis prod_cases3)
  have "sh_inv (wk_killer k)" using assms(1) by (simp add: worker_inv_defs)
  note sp = sh_poll_spec [OF this p]
  have keep: "worker_inv (k\<lparr>wk_killer := s\<rparr>)"
    using assms(1) None sp by (cases "sd_outcome (wk_shared k)") (auto simp: worker_inv_defs)
  show ?thesis
  proof (cases "\<exists>st. r = Inr (Some st)")
    case True
    then obtain st where st: "r = Inr (Some st)" by blast
    with sp have status: "sh_status s = Some st" by auto
    with assms(2) None p st obtain t where k': "k' = k\<lparr>wk_killer := s, wk_exited := Some st, wk_exit_seen_at := t\<rparr>" "b"
      by (auto simp: poll_exit_observed_def split_beta)
    have "worker_inv (k\<lparr>wk_killer := s, wk_exited := Some st, wk_exit_seen_at := t\<rparr>)" for t
      using assms(1) sp status by (cases "sd_outcome (wk_shared k)") (auto simp: worker_inv_defs)
    then show ?thesis unfolding k'(1) by (simp add: k'(2) status)
  next
    case False
    with assms(2) None p have "k' = k\<lparr>wk_killer := s\<rparr> \<and> \<not> b"
      by (auto simp: poll_exit_observed_def split: sum.splits option.splits)
    with keep None show ?thesis by simp
  qed
qed

text \<open>Publishing the outcome when the capture becomes final.\<close>

lemma declare_outcome_inv:
  assumes "worker_inv k" "\<not> wk_finalized k" "stream \<noteq> Streaming"
  shows "worker_inv (declare_outcome stream exit (k\<lparr>wk_finalized := True, wk_final_stream := Some stream\<rparr>))"
    "wk_finalized (declare_outcome stream exit (k\<lparr>wk_finalized := True, wk_final_stream := Some stream\<rparr>))"
    "sd_outcome (wk_shared (declare_outcome stream exit (k\<lparr>wk_finalized := True, wk_final_stream := Some stream\<rparr>)))
      = Some \<lparr>oc_exit = exit, oc_stream = stream, oc_revision = wk_revision k, oc_bytes_pumped = wk_bytes_pumped k,
          oc_dropped_after_drain = 0\<rparr>"
  using assms
  by (cases "sd_outcome (wk_shared k)"; simp add: worker_inv_defs declare_outcome_def publish_outcome_def)+

lemma final_stream_not_streaming [simp]: "m \<noteq> Streaming \<Longrightarrow> final_stream m k \<noteq> Streaming"
  by (auto simp: final_stream_def elim: stream_of_end.elims split: option.splits)

lemma poll_exit_state_inv:
  assumes "worker_inv k" "poll_exit_state env k w = (k', w')"
  shows "worker_inv k'"
proof (cases "wk_finalized k")
  case False
  obtain b k1 w1 where p: "poll_exit_observed env k w = (b, k1, w1)" by (metis prod_cases3)
  note p1 = poll_exit_observed_inv [OF assms(1) p]
  let ?s = "final_stream DrainExpired k1"
  have "k' = k1 \<or> b \<and> k' = declare_outcome ?s (the (wk_exited k1)) (k1\<lparr>wk_finalized := True, wk_final_stream := Some ?s\<rparr>)"
    using assms(2) False p p1
    by (auto simp: poll_exit_state_def Let_def split_beta split: bool.splits if_splits option.splits)
  with p1 False show ?thesis using declare_outcome_inv(1) [of k1 ?s] by auto
qed (use assms in \<open>simp add: poll_exit_state_def\<close>)

text \<open>The teardown of the child touches only the child and the teardown error.\<close>

definition teardown_rel :: "shared_child \<times> shared \<Rightarrow> shared_child \<times> shared \<Rightarrow> bool" where
  "teardown_rel a b \<longleftrightarrow> sh_inv (fst b) \<and> (sh_status (fst a) \<noteq> None \<longrightarrow> fst b = fst a)
     \<and> (\<exists>e. snd b = (snd a)\<lparr>sd_teardown_error := e\<rparr>)"

lemma record_teardown_eq: "\<exists>e. record_teardown msg s = s\<lparr>sd_teardown_error := e\<rparr>"
  by (cases "sd_teardown_error s") (auto simp: record_teardown_def intro: exI [of _ "sd_teardown_error s"])

lemma teardown_rel_refl: "sh_inv s \<Longrightarrow> teardown_rel (s, d) (s, d)"
  by (simp add: teardown_rel_def) (rule exI [of _ "sd_teardown_error d"], simp)

lemma teardown_rel_trans: "teardown_rel a b \<Longrightarrow> teardown_rel b c \<Longrightarrow> teardown_rel a c"
  by (auto simp: teardown_rel_def)

lemma teardown_rel_poll: "sh_inv s \<Longrightarrow> sh_poll pb s w = (r, s', w') \<Longrightarrow> teardown_rel (s, d) (s', d)"
  using sh_poll_spec [of s pb w r s' w'] teardown_rel_refl [of s' d] by (auto simp: teardown_rel_def)

lemma teardown_rel_record: "sh_inv s \<Longrightarrow> teardown_rel (s, d) (s, record_teardown msg d)"
  using record_teardown_eq [of msg d] by (simp add: teardown_rel_def)

lemma reap_loop_rel:
  fixes env :: "('p, 'b, 'w) session_env"
  assumes run: "reap_loop env dl s d w = Some r" and "sh_inv s"
  shows "teardown_rel (s, d) (fst r, fst (snd r))"
proof -
  define P where "P e t s d w r \<longleftrightarrow> (sh_inv s \<longrightarrow> teardown_rel (s, d) (fst r, fst (snd r)))"
    for e :: "('p, 'b, 'w) session_env" and t :: nat and s d and w :: 'w and r :: "shared_child \<times> shared \<times> 'w"
  have "P env dl s d w r"
  proof (rule reap_loop.raw_induct [OF _ run])
    fix rl e t s d w r
    assume IH: "\<And>e t s d w r. rl e t s d w = Some r \<Longrightarrow> P e t s d w r"
      and eq: "(case sh_poll (en_backend e) s w of (r, s, w) \<Rightarrow> (case r of
          Inl err \<Rightarrow> Some (s, record_teardown (''child reap during teardown failed: '' @ io_text err) d, w)
        | Inr st \<Rightarrow> (case st of
            None \<Rightarrow> (case en_now e w of (now, w) \<Rightarrow>
              if t \<le> now then Some (s, record_teardown ''child still alive after kill grace'' d, w)
              else rl e t s d (en_sleep e 10 w))
          | Some status \<Rightarrow> Some (s, d, w)))) = Some r"
    obtain x s1 w1 where p: "sh_poll (en_backend e) s w = (x, s1, w1)" by (metis prod_cases3)
    obtain now w2 where n: "en_now e w1 = (now, w2)" by fastforce
    show "P e t s d w r"
      unfolding P_def
    proof
      assume "sh_inv s"
      from teardown_rel_poll [OF this p, of d] have rel: "teardown_rel (s, d) (s1, d)" and inv: "sh_inv s1"
        by (auto simp: teardown_rel_def)
      note rec = teardown_rel_trans [OF rel teardown_rel_record [OF inv]]
      show "teardown_rel (s, d) (fst r, fst (snd r))"
        using eq p n rel rec inv IH [of e t s1 d "en_sleep e 10 w2" r] teardown_rel_trans [OF rel]
        by (auto simp: P_def split: sum.split_asm option.split_asm if_split_asm)
    qed
  qed
  with assms(2) show ?thesis by (simp add: P_def)
qed

lemma shutdown_child_rel:
  assumes run: "shutdown_child env s d w = Some (s', d', w')" and "sh_inv s"
  shows "teardown_rel (s, d) (s', d')"
proof -
  obtain x s1 w1 where p: "sh_poll (en_backend env) s w = (x, s1, w1)" by (metis prod_cases3)
  from teardown_rel_poll [OF assms(2) p, of d] have rel: "teardown_rel (s, d) (s1, d)" and inv: "sh_inv s1"
    by (auto simp: teardown_rel_def)
  show ?thesis
  proof (cases "\<exists>st. x = Inr (Some st)")
    case True
    with run p rel show ?thesis by (auto simp: shutdown_child_def)
  next
    case False
    define d1 where "d1 = (case x of Inl e \<Rightarrow> record_teardown (''child poll during teardown failed: '' @ io_text e) d | Inr _ \<Rightarrow> d)"
    obtain kr w2 where kr: "kill_locked (en_backend env) s1 w1 = (kr, w2)" by fastforce
    define d2 where "d2 = (case kr of Inl e \<Rightarrow> record_teardown (''child kill during teardown failed: '' @ io_text e) d1 | Inr _ \<Rightarrow> d1)"
    obtain now w3 where now: "en_now env w2 = (now, w3)" by fastforce
    have "reap_loop env (now + KILL_GRACE) s1 d2 w3 = Some (s', d', w')"
      using run False unfolding shutdown_child_def p prod.case d2_def d1_def
      by (cases x; cases kr) (auto simp: kr now Let_def split: option.split_asm)
    from reap_loop_rel [OF this inv] have "teardown_rel (s1, d2) (s', d')" by simp
    moreover have "teardown_rel (s1, d) (s1, d1)" "teardown_rel (s1, d1) (s1, d2)"
      using inv by (auto simp: d1_def d2_def teardown_rel_record teardown_rel_refl split: sum.split)
    ultimately show ?thesis using rel teardown_rel_trans by blast
  qed
qed

lemma finish_shutdown_inv:
  assumes "worker_inv k" "finish_shutdown env k w = Some (k', w')"
  shows "worker_inv k' \<and> wk_finalized k' \<and> sd_closed (wk_shared k')"
proof -
  from assms(2) obtain s d v where sd: "shutdown_child env (wk_killer k) (wk_shared k) w = Some (s, d, v)"
    by (auto simp: finish_shutdown_def bind_eq_Some_conv)
  have "sh_inv (wk_killer k)" using assms(1) by (simp add: worker_inv_defs)
  note rel = shutdown_child_rel [OF sd this]
  define k1 where "k1 = k\<lparr>wk_killer := s, wk_shared := d\<rparr>"
  have k1: "worker_inv k1" using assms(1) rel
    by (cases "sd_outcome (wk_shared k)") (auto simp: worker_inv_defs k1_def teardown_rel_def)
  obtain r s1 v1 where p: "sh_poll (en_backend env) s v = (r, s1, v1)" by (metis prod_cases3)
  define k2 where "k2 = (if wk_exited k1 = None
    then k1\<lparr>wk_killer := s1, wk_exited := (case r of Inr st \<Rightarrow> st | Inl _ \<Rightarrow> None)\<rparr> else k1)"
  have "sh_inv s" using rel by (simp add: teardown_rel_def)
  from sh_poll_spec [OF this p] have k2: "worker_inv k2" using k1
    by (cases "sd_outcome d") (auto simp: worker_inv_defs k1_def k2_def split: sum.splits)
  define k3 where "k3 = (if \<not> wk_finalized k2 then declare_outcome (final_stream Aborted k2)
    (case wk_exited k2 of Some e \<Rightarrow> e | None \<Rightarrow> ex_unknown) (k2\<lparr>wk_finalized := True, wk_final_stream := Some (final_stream Aborted k2)\<rparr>) else k2)"
  have k3: "worker_inv k3 \<and> wk_finalized k3"
    using k2 declare_outcome_inv [OF k2, of "final_stream Aborted k2"] by (simp add: k3_def)
  have "k' = k3\<lparr>wk_shared := mark_closed (wk_shared k3)\<rparr>"
    using assms(2) sd p
    by (auto simp: finish_shutdown_def Let_def k3_def k2_def k1_def declare_outcome_def split: if_splits option.splits)
  with k3 show ?thesis
    by (cases "sd_outcome (wk_shared k3)") (auto simp: worker_inv_defs mark_closed_def)
qed

lemma shutdown_safe:
  assumes "u16_parser (en_parser env)" "worker_inv k" "shutdown_and_exit env k w = Some r"
  shows "\<exists>k' w'. r = Some (k', w') \<and> worker_inv k' \<and> wk_finalized k' \<and> sd_closed (wk_shared k')"
proof -
  from assms(3) obtain x where x: "(if \<not> wk_finalized k then drain_data env k w else Some (Some (k, w))) = Some x"
    "(case x of None \<Rightarrow> Some None | Some (k, w) \<Rightarrow> map_option Some (finish_shutdown env k w)) = Some r"
    by (auto simp: shutdown_and_exit_def bind_eq_Some_conv)
  have "\<exists>k1 w1. x = Some (k1, w1) \<and> worker_inv k1"
  proof (cases "wk_finalized k")
    case True
    with x(1) have "x = Some (k, w)" by simp
    with assms(2) show ?thesis by blast
  next
    case False
    with x(1) have "drain_data env k w = Some x" by simp
    with drain_data_safe [OF assms(1,2)] show ?thesis by blast
  qed
  then obtain k1 w1 where k1: "x = Some (k1, w1)" "worker_inv k1" by blast
  with x(2) have "map_option Some (finish_shutdown env k1 w1) = Some r" by simp
  then obtain y where y: "finish_shutdown env k1 w1 = Some y" "r = Some y" unfolding map_option_eq_Some by blast
  obtain k' w' where y': "y = (k', w')" by (cases y)
  show ?thesis using finish_shutdown_inv [OF k1(2), of env w1 k' w'] y unfolding y' by simp
qed

section \<open>Control operations and the loop\<close>

lemma write_chunks_inv: "write_chunks env cs k w = (r, k', w') \<Longrightarrow> worker_inv k \<Longrightarrow> worker_inv k'"
proof (induction env cs k w arbitrary: r k' w' rule: write_chunks.induct)
  case (2 env chunk rest k w)
  obtain flag w1 where 1: "en_shutdown env w = (flag, w1)" by fastforce
  obtain b k2 w2 where p: "poll_exit_observed env k w1 = (b, k2, w2)" by (metis prod_cases3)
  have k2: "worker_inv k2" using poll_exit_observed_inv [OF 2(3) p] by simp
  show ?case
  proof (cases "\<not> flag \<and> \<not> b \<and> wk_writer k2 \<noteq> None")
    case True
    then obtain writer where wr: "wk_writer k2 = Some writer" by blast
    obtain x w3 where x: "en_write_all env writer chunk w2 = (x, w3)" by fastforce
    show ?thesis
    proof (cases x)
      case (Inl e)
      with 2(2) 1 p True wr x k2 show ?thesis by simp
    next
      case (Inr u)
      with 2(2) 1 p True wr x have "write_chunks env rest k2 w3 = (r, k', w')" by simp
      from 2(1) [OF 1 [symmetric] _ p [symmetric] _ refl wr x [symmetric] Inr this k2] True show ?thesis by simp
    qed
  next
    case False
    with 2(2,3) 1 p k2 show ?thesis by (auto split: bool.splits)
  qed
qed simp

lemma apply_write_inv: "apply_write env bs k w = (r, k', w') \<Longrightarrow> worker_inv k \<Longrightarrow> worker_inv k'"
  by (auto simp: apply_write_def write_chunks_inv split: if_splits prod.splits bool.splits)

lemma apply_resize_inv:
  assumes "apply_resize env cols rows k w = (r, k', w')" "worker_inv k" "cols \<le> MAX_COLS" "rows \<le> u16_max"
  shows "worker_inv k'"
proof -
  let ?k = "k\<lparr>wk_grid := on_grid (set_size rows cols) (wk_grid k), wk_resizes := wk_resizes k + 1\<rparr>"
  have "steady (set_size rows cols g) = steady g" for g
    by (auto simp: set_size_def Let_def split_beta steady_simps)
  then have "emulator_ok (on_grid (set_size rows cols) (wk_grid k))
      \<and> in_synchronized_update (dg_grid (on_grid (set_size rows cols) (wk_grid k))) = in_synchronized_update (dg_grid (wk_grid k))"
    using assms(2-) set_size_inv [of "dg_grid (wk_grid k)" rows cols]
    by (auto simp: worker_inv_def emulator_ok_def on_grid_def steady_def in_synchronized_update_def)
  then have "worker_inv ?k" using assms(2)
    by (cases "sd_outcome (wk_shared k)") (auto simp: worker_inv_defs)
  moreover have "k' = k \<or> k' = bump_revision ?k"
    using assms(1) by (auto simp: apply_resize_def split: prod.splits sum.splits)
  ultimately show ?thesis using assms(2) bump_revision_inv by blast
qed

lemma close_input_inv: "close_input env k w = (r, k', w') \<Longrightarrow> worker_inv k \<Longrightarrow> worker_inv k'"
proof -
  have "worker_inv k \<Longrightarrow> worker_inv (k\<lparr>wk_writer := None\<rparr>)"
    by (cases "sd_outcome (wk_shared k)") (auto simp: worker_inv_defs)
  then show "close_input env k w = (r, k', w') \<Longrightarrow> worker_inv k \<Longrightarrow> worker_inv k'"
    by (auto simp: close_input_def bump_revision_inv split: if_splits option.splits)
qed

lemma emulator_update_inv:
  assumes "worker_inv k" "emulator_ok d" "in_synchronized_update (dg_grid d) = in_synchronized_update (dg_grid (wk_grid k))"
  shows "worker_inv (k\<lparr>wk_grid := d\<rparr>)"
  using assms by (cases "sd_outcome (wk_shared k)") (auto simp: worker_inv_defs)

lemma colors_inv:
  assumes "worker_inv k"
  shows "worker_inv (k\<lparr>wk_grid := on_grid (set_reported_colors fg bg) (wk_grid k)\<rparr>)" "worker_inv (k\<lparr>wk_reported_fg := a\<rparr>)"
    "worker_inv (k\<lparr>wk_reported_bg := b\<rparr>)" "worker_inv (k\<lparr>wk_events := []\<rparr>)"
    "worker_inv (k\<lparr>wk_grid := (wk_grid k)\<lparr>dg_grid := snd (dirty_spans_of (dg_grid (wk_grid k)))\<rparr>\<rparr>)"
proof -
  let ?g = "dg_grid (wk_grid k)"
  show "worker_inv (k\<lparr>wk_reported_fg := a\<rparr>)" "worker_inv (k\<lparr>wk_reported_bg := b\<rparr>)" "worker_inv (k\<lparr>wk_events := []\<rparr>)"
    using assms by (cases "sd_outcome (wk_shared k)"; auto simp: worker_inv_defs)+
  have "steady (set_reported_colors fg bg ?g) = steady ?g" "steady (snd (dirty_spans_of ?g)) = steady ?g"
    by (auto simp: set_reported_colors_def dirty_spans_of_def Let_def split_beta steady_simps split: option.splits)
  then show "worker_inv (k\<lparr>wk_grid := on_grid (set_reported_colors fg bg) (wk_grid k)\<rparr>)"
    "worker_inv (k\<lparr>wk_grid := (wk_grid k)\<lparr>dg_grid := snd (dirty_spans_of ?g)\<rparr>\<rparr>)"
    using assms drain_inv(1,6) [of ?g] unfolding on_grid_def
    by (intro emulator_update_inv [OF assms]; simp add: worker_inv_def emulator_ok_def steady_def in_synchronized_update_def)+
qed

text \<open>The only operation with an obligation on its sender is a resize: a \<open>u16\<close> within the widths of the grid.\<close>

fun ctl_fits :: "ctl_op \<Rightarrow> bool" where
  "ctl_fits (CtlResize cols rows) \<longleftrightarrow> cols \<le> MAX_COLS \<and> rows \<le> u16_max"
| "ctl_fits _ \<longleftrightarrow> True"

lemma handle_ctl_safe:
  assumes u: "u16_parser (en_parser env)" and inv: "worker_inv k" and fits: "ctl_fits op" and run: "handle_ctl env op k w = Some r"
  shows "\<exists>x k' w'. r = Some (x, k', w') \<and> worker_inv k' \<and> (x \<longrightarrow> wk_finalized k' \<and> sd_closed (wk_shared k'))"
proof (cases op)
  case CtlStateBytes
  obtain bs where "state_formatted (dg_grid (wk_grid k)) = Some bs"
    using inv serialize_returns [of "dg_grid (wk_grid k)" "dg_grid (wk_grid k)"] by (auto simp: worker_inv_def emulator_ok_def)
  with CtlStateBytes run inv show ?thesis by (auto simp: handle_ctl_def)
next
  case CtlDirtySpans
  with run colors_inv(5) [OF inv] show ?thesis by (auto simp: handle_ctl_def split_beta)
next
  case (CtlWrite bs)
  obtain x k1 w1 where "apply_write env bs k w = (x, k1, w1)" by (metis prod_cases3)
  with CtlWrite run apply_write_inv [OF this inv] show ?thesis by (auto simp: handle_ctl_def)
next
  case (CtlResize cols rows)
  obtain x k1 w1 where r: "apply_resize env cols rows k w = (x, k1, w1)" by (metis prod_cases3)
  have "worker_inv k1" by (rule apply_resize_inv [OF r inv]) (use fits CtlResize in simp_all)
  with r CtlResize run show ?thesis by (auto simp: handle_ctl_def)
next
  case CtlCloseInput
  obtain x k1 w1 where "close_input env k w = (x, k1, w1)" by (metis prod_cases3)
  with CtlCloseInput run close_input_inv [OF this inv] show ?thesis by (auto simp: handle_ctl_def)
next
  case (CtlSetColors fg bg)
  define k1 where "k1 = k\<lparr>wk_grid := on_grid (set_reported_colors fg bg) (wk_grid k)\<rparr>"
  define k2 where "k2 = (case fg of Some c \<Rightarrow> k1\<lparr>wk_reported_fg := c\<rparr> | None \<Rightarrow> k1)"
  define k3 where "k3 = (case bg of Some c \<Rightarrow> k2\<lparr>wk_reported_bg := c\<rparr> | None \<Rightarrow> k2)"
  have "worker_inv k1" unfolding k1_def by (rule colors_inv(1) [OF inv])
  then have "worker_inv k2" unfolding k2_def by (cases fg) (simp_all add: colors_inv(2))
  then have "worker_inv k3" unfolding k3_def by (cases bg) (simp_all add: colors_inv(3))
  moreover have "r = Some (False, bump_revision k3, en_reply env (ReplyResult (Inr ())) w)"
    using run CtlSetColors by (cases fg; cases bg) (simp_all add: handle_ctl_def Let_def k1_def k2_def k3_def)
  ultimately show ?thesis using bump_revision_inv by blast
next
  case CtlShutdown
  with run obtain y where "shutdown_and_exit env k w = Some y" "r = map_option (\<lambda>(k, w). (True, k, w)) y"
    by (auto simp: handle_ctl_def)
  with shutdown_safe [OF u inv] show ?thesis by fastforce
qed (use run inv colors_inv(4) [OF inv] in \<open>auto simp: handle_ctl_def split_beta\<close>)

lemma exit_result_safe:
  assumes "map_option (map_option (\<lambda>(k, w). (True, k, w))) m = Some r"
    "\<And>y. m = Some y \<Longrightarrow> \<exists>k' w'. y = Some (k', w') \<and> worker_inv k' \<and> wk_finalized k' \<and> sd_closed (wk_shared k')"
  shows "\<exists>x k' w'. r = Some (x, k', w') \<and> worker_inv k' \<and> (x \<longrightarrow> wk_finalized k' \<and> sd_closed (wk_shared k'))"
proof -
  from assms(1) obtain y where y: "m = Some y" "r = map_option (\<lambda>(k, w). (True, k, w)) y" by auto
  from assms(2) [OF y(1)] obtain k' w' where "y = Some (k', w')" "worker_inv k'" "wk_finalized k'" "sd_closed (wk_shared k')"
    by blast
  with y(2) show ?thesis by auto
qed

text \<open>The operations that can arrive on the control channel.\<close>

definition ctl_ok :: "('p, 'b, 'w) session_env \<Rightarrow> bool" where
  "ctl_ok env \<longleftrightarrow> (\<forall>w op w'. en_ctl_recv env w = (CtlReceived op, w') \<longrightarrow> ctl_fits op)"

lemma tick_end_safe:
  assumes u: "u16_parser (en_parser env)" and inv: "worker_inv k"
    and run: "Option.bind (drain_data env k w) (\<lambda>d.
      Some (map_option (\<lambda>(k, w). case poll_exit_state env k w of (k, w) \<Rightarrow> (False, k, w)) d)) = Some r"
  shows "\<exists>k' w'. r = Some (False, k', w') \<and> worker_inv k'"
proof -
  from run obtain d where d: "drain_data env k w = Some d"
    "r = map_option (\<lambda>(k, w). case poll_exit_state env k w of (k, w) \<Rightarrow> (False, k, w)) d"
    by (auto simp: bind_eq_Some_conv)
  from drain_data_safe [OF u inv d(1)] obtain k1 w1 where k1: "d = Some (k1, w1)" "worker_inv k1" by blast
  obtain k2 w2 where "poll_exit_state env k1 w1 = (k2, w2)" by fastforce
  with poll_exit_state_inv [OF k1(2) this] d(2) k1(1) show ?thesis by simp
qed

lemma worker_tick_safe:
  assumes u: "u16_parser (en_parser env)" and ctl: "ctl_ok env" and inv: "worker_inv k" and run: "worker_tick env k w = Some r"
  shows "\<exists>x k' w'. r = Some (x, k', w') \<and> worker_inv k' \<and> (x \<longrightarrow> wk_finalized k' \<and> sd_closed (wk_shared k'))"
proof -
  obtain flag w1 where 1: "en_shutdown env w = (flag, w1)" by fastforce
  obtain msg w2 where 2: "en_ctl_recv env w1 = (msg, w2)" by fastforce
  note stop = exit_result_safe [OF _ shutdown_safe [OF u inv]]
  show ?thesis
  proof (cases "flag \<or> msg = CtlDisconnected")
    case True
    then show ?thesis using run 1 2 stop by (cases flag) (simp_all add: worker_tick_def)
  next
    case False
    define m where "m = (case msg of CtlReceived op \<Rightarrow> handle_ctl env op k w2 | _ \<Rightarrow> Some (Some (False, k, w2)))"
    from False run 1 2 obtain x where x: "m = Some x"
      "(case x of None \<Rightarrow> Some None | Some (True, k, w) \<Rightarrow> Some (Some (True, k, w))
        | Some (False, k, w) \<Rightarrow> Option.bind (drain_data env k w) (\<lambda>d.
            Some (map_option (\<lambda>(k, w). case poll_exit_state env k w of (k, w) \<Rightarrow> (False, k, w)) d))) = Some r"
      by (cases msg) (auto simp: worker_tick_def m_def bind_eq_Some_conv)
    have "\<exists>b k' w'. x = Some (b, k', w') \<and> worker_inv k' \<and> (b \<longrightarrow> wk_finalized k' \<and> sd_closed (wk_shared k'))"
    proof (cases "\<exists>op. msg = CtlReceived op")
      case True
      then obtain op where op: "msg = CtlReceived op" by blast
      with ctl 2 have "ctl_fits op" by (auto simp: ctl_ok_def)
      from handle_ctl_safe [OF u inv this, of w2 x] x(1) op show ?thesis by (simp add: m_def)
    next
      case False
      then have "x = Some (False, k, w2)" using x(1) by (cases msg) (simp_all add: m_def)
      with inv show ?thesis by blast
    qed
    then obtain b k1 w3 where k1: "x = Some (b, k1, w3)" "worker_inv k1" "b \<longrightarrow> wk_finalized k1 \<and> sd_closed (wk_shared k1)" by blast
    show ?thesis
    proof (cases b)
      case True
      with x(2) k1 show ?thesis by auto
    next
      case False
      with x(2) k1(1) have "Option.bind (drain_data env k1 w3) (\<lambda>d.
        Some (map_option (\<lambda>(k, w). case poll_exit_state env k w of (k, w) \<Rightarrow> (False, k, w)) d)) = Some r" by simp
      from tick_end_safe [OF u k1(2) this] show ?thesis by auto
    qed
  qed
qed

lemma worker_new_inv:
  assumes "1 \<le> wc_rows c" "wc_rows c \<le> u16_max" "1 \<le> wc_cols c" "wc_cols c \<le> MAX_COLS" "sh_inv (wc_killer c)"
  shows "worker_inv (worker_new p c shared_default)"
proof -
  let ?g = "with_row_arena (wc_rows c) (wc_cols c) (wc_scrollback c) []"
  have "grid_inv ?g" using assms by (intro with_row_arena_inv) (simp_all add: arena_inv_def)
  moreover have "g_cursor_style ?g = 0" "\<not> has_flag ?g SYNCHRONIZED_UPDATE"
    by (simp_all add: with_row_arena_def Let_def split_beta has_flag_def)
  ultimately show ?thesis using assms(5)
    by (simp add: worker_inv_defs worker_new_def emulator_ok_def damage_grid_new_def shared_default_def in_synchronized_update_def)
qed

lemma worker_loop_rule:
  fixes env :: "('p, 'b, 'w) session_env"
  assumes tick: "\<And>k w r. I k w \<Longrightarrow> worker_tick env k w = Some r \<Longrightarrow> \<exists>x k' w'. r = Some (x, k', w') \<and> I k' w' \<and> (x \<longrightarrow> Q k')"
    and run: "worker_loop env k w = Some r" and "I k w"
  shows "\<exists>k' w'. r = Some (k', w') \<and> I k' w' \<and> Q k'"
proof -
  define P where "P e k w r \<longleftrightarrow> (e = env \<longrightarrow> I k w \<longrightarrow> (\<exists>k' w'. r = Some (k', w') \<and> I k' w' \<and> Q k'))"
    for e :: "('p, 'b, 'w) session_env" and k :: "'p worker" and w :: 'w and r :: "('p worker \<times> 'w) option"
  have "P env k w r"
  proof (rule worker_loop.raw_induct [OF _ run])
    fix wl e k w r
    assume IH: "\<And>e k w r. wl e k w = Some r \<Longrightarrow> P e k w r"
      and eq: "Option.bind (worker_tick e k w) (\<lambda>r. case r of None \<Rightarrow> Some None
        | Some kw \<Rightarrow> (case kw of (exit, k, w) \<Rightarrow> if exit then Some (Some (k, w)) else wl e k w)) = Some r"
    show "P e k w r"
      unfolding P_def
    proof (intro impI)
      assume e: "e = env" and k: "I k w"
      from eq obtain t where t: "worker_tick env k w = Some t" by (auto simp: e bind_eq_Some_conv)
      from tick [OF k t] obtain x k1 w1 where k1: "t = Some (x, k1, w1)" "I k1 w1" "x \<longrightarrow> Q k1" by blast
      show "\<exists>k' w'. r = Some (k', w') \<and> I k' w' \<and> Q k'"
      proof (cases x)
        case True
        with eq t k1 show ?thesis by (auto simp: e)
      next
        case False
        with eq t k1 have "wl env k1 w1 = Some r" by (simp add: e)
        from IH [OF this] k1(2) show ?thesis by (simp add: P_def)
      qed
    qed
  qed
  with assms(3) show ?thesis by (simp add: P_def)
qed

lemma worker_loop_safe:
  assumes "u16_parser (en_parser env)" "ctl_ok env" "worker_inv k" "worker_loop env k w = Some r"
  shows "\<exists>k' w'. r = Some (k', w') \<and> worker_inv k' \<and> wk_finalized k' \<and> sd_closed (wk_shared k')"
  using worker_loop_rule [where I = "\<lambda>k w. worker_inv k" and Q = "\<lambda>k. wk_finalized k \<and> sd_closed (wk_shared k)",
      OF worker_tick_safe [OF assms(1,2)] assms(4,3)] .

section \<open>What a batch changes\<close>

lemma feed_fields:
  fixes env :: "('p, 'b, 'w) session_env"
  assumes "u16_parser (en_parser env)" "worker_inv k" "\<not> wk_finalized k" "feed env bs (k, w) = Some (k', w')"
  shows "worker_inv k' \<and> \<not> wk_finalized k' \<and> wk_record_output k' = wk_record_output k
    \<and> wk_output_cap_bytes k' = wk_output_cap_bytes k
    \<and> wk_bytes_pumped k' = wk_bytes_pumped k + length bs \<and> wk_feeds k' = wk_feeds k + 1
    \<and> wk_output_log k' = wk_output_log k @ take (if wk_record_output k then wk_output_cap_bytes k - length (wk_output_log k) else 0) bs
    \<and> wk_revision k' = wk_revision k + 1 \<and> wk_stream_end k' = wk_stream_end k \<and> wk_final_stream k' = wk_final_stream k"
proof -
  from feed_effect [OF assms(1-3), of bs w] assms(4) obtain g f where inv: "worker_inv k'"
    and eq: "event_free k' = event_free (bump_revision (drop_events (pump bs (emu_upd g f k))))" by auto
  let ?k = "emu_upd g f k"
  have "log_ok ?k" using assms(2) by (simp add: worker_inv_def log_ok_def emu_upd_def)
  note p = pump_eq [OF this, of bs]
  have field: "h k' = h (bump_revision (drop_events (pump bs ?k)))" if "\<And>k. h (event_free k) = h k" for h :: "_ \<Rightarrow> 'x"
    using arg_cong [OF eq, of h] that by simp
  have ef: "wk_finalized (event_free k) = wk_finalized k" "wk_record_output (event_free k) = wk_record_output k"
    "wk_output_cap_bytes (event_free k) = wk_output_cap_bytes k" "wk_bytes_pumped (event_free k) = wk_bytes_pumped k"
    "wk_feeds (event_free k) = wk_feeds k" "wk_output_log (event_free k) = wk_output_log k"
    "wk_revision (event_free k) = wk_revision k" "wk_stream_end (event_free k) = wk_stream_end k"
    "wk_final_stream (event_free k) = wk_final_stream k" for k :: "'p worker"
    by (simp_all add: event_free_def)
  show ?thesis
    using inv assms(3) field [of wk_finalized, OF ef(1)] field [of wk_record_output, OF ef(2)]
      field [of wk_output_cap_bytes, OF ef(3)] field [of wk_bytes_pumped, OF ef(4)] field [of wk_feeds, OF ef(5)]
      field [of wk_output_log, OF ef(6)] field [of wk_revision, OF ef(7)] field [of wk_stream_end, OF ef(8)]
      field [of wk_final_stream, OF ef(9)]
    by (simp add: p bump_revision_def drop_events_def Let_def) (simp add: emu_upd_def)
qed

lemma feed_finalized: "wk_finalized k \<Longrightarrow> feed env bs (k, w) = Some (k\<lparr>wk_dropped_after_drain := wk_dropped_after_drain k + 1\<rparr>, w)"
  by (simp add: feed_def)

end
