(* ===== verification/Worker_Capture.thy ===== *)
theory Worker_Capture
  imports Worker_Safety
begin

text \<open>
  What the session worker promises: it runs without a panic and declares an outcome, the capture is frozen by that
  declaration, the output log is what was pumped, a drain is bounded, and a shutdown ends.
\<close>

section \<open>An environment for examples\<close>

text \<open>
  The scripted answers of the channels, a clock that advances with every reading, the status of the child, and what
  has been written to its input. The child starts to report its status once it is killed or \<open>dm_exit\<close> is set.
\<close>

record demo =
  dm_data :: "recv list"
  dm_ctl :: "ctl_recv list"
  dm_clock :: nat
  dm_exit :: "pty_status option"
  dm_shutdown :: bool
  dm_written :: "u8 list"

definition demo_backend :: "(unit, demo) pty_backend" where
  "demo_backend = \<lparr>pb_from_argv = (\<lambda>_. ()), pb_env_clear = id, pb_env_remove = (\<lambda>_. id), pb_env = (\<lambda>_ _. id), pb_cwd = (\<lambda>_. id),
     pb_openpty = (\<lambda>_ _. io_ret (1, 2)), pb_spawn_command = (\<lambda>_ _. io_ret 3), pb_drop_slave = (\<lambda>_. id),
     pb_clone_reader = (\<lambda>_. io_ret 4), pb_take_writer = (\<lambda>_. io_ret 5), pb_resize = (\<lambda>_ _ _. io_ret ()),
     pb_get_size = (\<lambda>_. io_ret (3, 4)), pb_process_id = (\<lambda>_. Some 77),
     pb_try_wait = (\<lambda>_ w. (Inr (dm_exit w), w)), pb_wait = (\<lambda>_ w. (Inr (case dm_exit w of Some s \<Rightarrow> s | None \<Rightarrow> (0, None)), w)),
     pb_kill = (\<lambda>_ w. (Inr (), w\<lparr>dm_exit := Some (1, Some ''Killed'')\<rparr>))\<rparr>"

definition demo_kernel :: "demo kernel" where
  "demo_kernel = \<lparr>k_kill = (\<lambda>_ _. io_ret ()), k_waitpid = (\<lambda>_ _. io_ret StillAlive), k_std_kill = (\<lambda>_. io_ret ()),
     k_std_waitpid = (\<lambda>_ _. io_ret None), k_getpgid = (\<lambda>p. io_ret p), k_getsid = (\<lambda>p. io_ret p)\<rparr>"

text \<open>The data channel of the example passes on what a reader can send: batches that are neither empty nor too long.\<close>

definition demo_recv :: "demo \<Rightarrow> recv \<times> demo" where
  "demo_recv w = (case dm_data w of
       [] \<Rightarrow> (RecvEmpty, w)
     | m # ms \<Rightarrow> ((case m of Received (Bytes bs) \<Rightarrow> if bs \<noteq> [] \<and> length bs \<le> READ_BATCH then m else RecvEmpty | _ \<Rightarrow> m),
         w\<lparr>dm_data := ms\<rparr>))"

definition demo_env :: "(unit, unit, demo) session_env" where
  "demo_env = \<lparr>en_width = example_width, en_parser = print_all, en_backend = demo_backend, en_kernel = demo_kernel,
     en_signals = (\<lambda>n. if n = SIGTERM then Some ''SIGTERM'' else None),
     en_try_recv = demo_recv,
     en_inflight_sub = id, en_inflight = (\<lambda>w. (of_nat (length (dm_data w)), w)),
     en_shutdown = (\<lambda>w. (dm_shutdown w, w)),
     en_now = (\<lambda>w. (dm_clock w, w\<lparr>dm_clock := dm_clock w + 1\<rparr>)),
     en_sleep = (\<lambda>ms w. w\<lparr>dm_clock := dm_clock w + ms\<rparr>),
     en_write_all = (\<lambda>_ bs w. (Inr (), w\<lparr>dm_written := dm_written w @ bs\<rparr>)),
     en_drop_writer = (\<lambda>_. id),
     en_ctl_recv = (\<lambda>w. case dm_ctl w of [] \<Rightarrow> (CtlDisconnected, w)
        | c # cs \<Rightarrow> ((case c of CtlReceived (CtlResize _ _) \<Rightarrow> CtlTimeout | _ \<Rightarrow> c), w\<lparr>dm_ctl := cs\<rparr>)),
     en_reply = (\<lambda>_. id)\<rparr>"

definition demo_world :: demo where
  "demo_world = \<lparr>dm_data = [], dm_ctl = [], dm_clock = 0, dm_exit = None, dm_shutdown = False, dm_written = []\<rparr>"

definition demo_child :: shared_child where
  "demo_child = sh_new demo_backend \<lparr>pt_inner = 3, pt_reaped = False\<rparr>"

definition demo_config :: worker_config where
  "demo_config = \<lparr>wc_master = 1, wc_killer = demo_child, wc_writer = 5, wc_cols = 4, wc_rows = 3, wc_scrollback = 2,
     wc_record_output = True, wc_event_cap = 2, wc_output_cap_bytes = 3\<rparr>"

lemma demo_parser [simp]: "u16_parser (en_parser demo_env)" "en_parser demo_env = print_all" "en_width demo_env = example_width"
  by (simp_all add: u16_parser_def demo_env_def print_all_def u16_call_def list_all_iff)

lemma demo_ctl [simp]: "ctl_ok demo_env"
proof -
  have "ctl_fits op" if "(case c of CtlReceived (CtlResize _ _) \<Rightarrow> CtlTimeout | _ \<Rightarrow> c) = CtlReceived op" for c op
    using that by (cases c; cases op) (auto split: ctl_op.splits)
  then show ?thesis by (auto simp: ctl_ok_def demo_env_def split: list.splits)
qed

lemma demo_worker_inv: "worker_inv (worker_new p demo_config shared_default)"
  by (rule worker_new_inv) (simp_all add: demo_config_def demo_child_def u16_max_def MAX_COLS_def)

section \<open>The worker never panics\<close>

lemma run_worker_end:
  assumes "u16_parser (en_parser env)" "ctl_ok env" "sh_inv (wc_killer c)"
    and "1 \<le> wc_rows c" "wc_rows c \<le> u16_max" "1 \<le> wc_cols c" "wc_cols c \<le> MAX_COLS"
    and "run_worker env p c shared_default w = Some r"
  shows "\<exists>k w' oc. r = Some (k, w') \<and> worker_inv k \<and> sd_closed (wk_shared k) \<and> sd_outcome (wk_shared k) = Some oc
    \<and> oc_stream oc \<noteq> Streaming \<and> oc_bytes_pumped oc = wk_bytes_pumped k \<and> wk_final_stream k = Some (oc_stream oc)"
proof -
  from worker_loop_safe [OF assms(1,2) worker_new_inv [OF assms(4-7,3)] assms(8) [unfolded run_worker_def]]
  obtain k w' where "r = Some (k, w')" "worker_inv k" "wk_finalized k" "sd_closed (wk_shared k)" by blast
  moreover then obtain oc where "sd_outcome (wk_shared k) = Some oc"
    by (cases "sd_outcome (wk_shared k)") (auto simp: worker_inv_def outcome_ok_def)
  ultimately show ?thesis by (auto simp: worker_inv_def outcome_ok_def)
qed

text \<open>
  C25: the session worker is safe. Whatever bytes, stream ends and control operations arrive in whatever order, and
  whatever the system answers, a worker that ends has not panicked: its invariant holds, it has declared an
  outcome, which says how the stream ended and how many bytes were pumped, and the session is marked closed. The
  size of the session must be within the widths of the grid, and the parser's parameters are \<open>u16\<close>.
\<close>

theorem run_worker_safe:
  assumes "u16_parser (en_parser env)" "ctl_ok env" "sh_inv (wc_killer c)"
    and "1 \<le> wc_rows c" "wc_rows c \<le> u16_max" "1 \<le> wc_cols c" "wc_cols c \<le> MAX_COLS"
    and "run_worker env p c shared_default w = Some r"
  shows "\<exists>k w' oc. r = Some (k, w') \<and> worker_inv k \<and> sd_closed (wk_shared k) \<and> sd_outcome (wk_shared k) = Some oc
    \<and> oc_stream oc \<noteq> Streaming \<and> oc_bytes_pumped oc = wk_bytes_pumped k \<and> wk_final_stream k = Some (oc_stream oc)"
  by (rule run_worker_end [OF assms])

lemma sh_poll_demo:
  "sh_poll (en_backend demo_env) demo_child w = (case dm_exit w of None \<Rightarrow> (Inr None, demo_child, w)
     | Some s \<Rightarrow> (Inr (Some (convert_status s)), demo_child\<lparr>sh_child := mark_reaped (sh_child demo_child), sh_reaped := True,
         sh_status := Some (convert_status s)\<rparr>, w))"
  by (simp add: sh_poll_def demo_env_def demo_child_def sh_new_def demo_backend_def pt_try_wait_def Let_def split: option.split)

section \<open>Bounded drains\<close>

text \<open>
  What the reader promises of the data channel: batches are not empty and at most \<open>READ_BATCH\<close> long, and only
  finitely many stream ends (\<open>ends\<close> of them are still to come), while no call of the worker makes more.
\<close>

definition bounded_reader :: "('p, 'b, 'w) session_env \<Rightarrow> ('w \<Rightarrow> nat) \<Rightarrow> bool" where
  "bounded_reader env ends \<longleftrightarrow>
     (\<forall>w w' bs. en_try_recv env w = (Received (Bytes bs), w') \<longrightarrow> bs \<noteq> [] \<and> length bs \<le> READ_BATCH \<and> ends w' \<le> ends w)
     \<and> (\<forall>w w' e. en_try_recv env w = (Received (StreamEnd e), w') \<longrightarrow> ends w' < ends w)
     \<and> (\<forall>w. ends (en_inflight_sub env w) \<le> ends w)
     \<and> (\<forall>w. ends (snd (en_shutdown env w)) \<le> ends w)
     \<and> (\<forall>w h bs. ends (snd (en_write_all env h bs w)) \<le> ends w)"

lemma route_reply_ends:
  assumes "bounded_reader env ends"
  shows "ends (snd (route_reply env bs (k, w))) \<le> ends w"
proof (cases "wk_writer k")
  case (Some wr)
  obtain b v where b: "en_shutdown env w = (b, v)" by fastforce
  obtain x u where x: "en_write_all env wr bs v = (x, u)" by fastforce
  have "ends v \<le> ends w" "ends u \<le> ends v"
    using assms b x by (auto simp: bounded_reader_def) (metis snd_conv)+
  then show ?thesis using Some b x by (cases b; cases x) (simp_all add: route_reply_def)
qed (simp add: route_reply_def)

lemma route_event_ends:
  assumes "bounded_reader env ends" "route_event env (k, w) ev = (k', w')"
  shows "ends w' \<le> ends w"
proof (cases "\<exists>bs. ev = Reply bs")
  case True
  then obtain bs where "ev = Reply bs" by blast
  with assms(2) route_reply_ends [OF assms(1), of bs k w] show ?thesis by simp
next
  case False
  then show ?thesis using assms(2) by (cases ev) auto
qed

lemma route_events_ends:
  assumes "bounded_reader env ends"
  shows "ends (snd (foldl (route_event env) (k, w) evs)) \<le> ends w"
proof (induction evs arbitrary: k w)
  case (Cons ev evs)
  obtain k1 w1 where 1: "route_event env (k, w) ev = (k1, w1)" by fastforce
  from Cons.IH [of k1 w1] route_event_ends [OF assms 1] show ?case by (simp add: 1)
qed simp

lemma feed_ends:
  assumes "bounded_reader env ends" "feed env bs (k, w) = Some (k', w')"
  shows "ends w' \<le> ends w"
proof (cases "wk_finalized k")
  case False
  from assms(2) [unfolded feed_eq [OF False]] obtain k1 where
    "(case foldl (route_event env) (drop_events (pump bs k1), w) (fst (drain_passthrough (dg_grid (wk_grid (pump bs k1))))) of
       (k', w') \<Rightarrow> (bump_revision k', w')) = (k', w')" by auto
  with route_events_ends [OF assms(1), of "drop_events (pump bs k1)" w] show ?thesis by (auto simp: split_beta)
qed (use assms(2) in \<open>simp add: feed_finalized\<close>)

lemma feed_pumped:
  assumes "u16_parser (en_parser env)" "worker_inv k" "feed env bs (k, w) = Some (k', w')"
  shows "wk_bytes_pumped k' \<le> wk_bytes_pumped k + length bs"
  using feed_fields [OF assms(1,2) _ assms(3)] assms(3) by (cases "wk_finalized k") (auto simp: feed_finalized)

lemma pumped_note: "wk_bytes_pumped (note_stream_end e k) = wk_bytes_pumped k"
  by (simp add: note_stream_end_def)

lemma drain_loop_bounded:
  assumes u: "u16_parser (en_parser env)" and br: "bounded_reader env ends"
  shows "worker_inv k \<Longrightarrow> 0 < budget \<Longrightarrow> \<exists>k' w'. drain_loop env budget k w = Some (Some (k', w')) \<and> worker_inv k'
    \<and> wk_bytes_pumped k' < wk_bytes_pumped k + budget + READ_BATCH"
proof (induction "budget + ends w" arbitrary: budget k w rule: less_induct)
  case less
  obtain msg v where recv: "en_try_recv env w = (msg, v)" by fastforce
  let ?u = "en_inflight_sub env v"
  have sub: "ends ?u \<le> ends v" using br by (auto simp: bounded_reader_def)
  show ?case
  proof (cases msg)
    case (Received m)
    show ?thesis
    proof (cases m)
      case (Bytes bs)
      have bs: "bs \<noteq> []" "length bs \<le> READ_BATCH" "ends v \<le> ends w"
        using br recv Received Bytes by (auto simp: bounded_reader_def)
      from feed_ok [OF u less.prems(1), of bs ?u] obtain k1 w1 where
        k1: "feed env bs (k, ?u) = Some (k1, w1)" "worker_inv k1" by (auto simp: ok_iff_ex)
      note pumped = feed_pumped [OF u less.prems(1) k1(1)] and ends = feed_ends [OF br k1(1)]
      have step: "drain_loop env budget k w
          = (if budget - length bs = 0 then Some (Some (k1, w1)) else drain_loop env (budget - length bs) k1 w1)"
        by (simp add: drain_loop.simps [of env budget k w] recv Received Bytes k1(1))
      show ?thesis
      proof (cases "budget - length bs = 0")
        case True
        have "wk_bytes_pumped k1 < wk_bytes_pumped k + budget + READ_BATCH" using pumped bs less.prems(2) by linarith
        with step True k1(2) show ?thesis by simp
      next
        case False
        have "0 < length bs" using bs(1) by simp
        then have "budget - length bs + ends w1 < budget + ends w" using less.prems(2) ends sub bs(3) by linarith
        from less.hyps [OF this k1(2)] False obtain k' w' where
          "drain_loop env (budget - length bs) k1 w1 = Some (Some (k', w'))" "worker_inv k'"
          "wk_bytes_pumped k' < wk_bytes_pumped k1 + (budget - length bs) + READ_BATCH" by auto
        with step False pumped show ?thesis by auto
      qed
    next
      case (StreamEnd e)
      have "ends v < ends w" using br recv Received StreamEnd by (auto simp: bounded_reader_def)
      with sub have "budget + ends ?u < budget + ends w" by simp
      from less.hyps [OF this note_stream_end_inv [OF less.prems(1), of e] less.prems(2)]
      show ?thesis by (simp add: drain_loop.simps [of env budget k w] recv Received StreamEnd pumped_note)
    qed
  qed (use less.prems note_stream_end_inv [OF less.prems(1)] in
      \<open>auto simp: drain_loop.simps [of env budget k w] recv note_stream_end_def READ_BATCH_def\<close>)
qed


lemma demo_reader: "bounded_reader demo_env (\<lambda>w. length (dm_data w))"
  by (auto simp: bounded_reader_def demo_env_def demo_recv_def split: list.splits recv.splits data_msg.splits if_splits)


section \<open>Shutdown ends\<close>

text \<open>The clock does not run backwards and sleeping advances it.\<close>

definition ticking :: "('p, 'b, 'w) session_env \<Rightarrow> bool" where
  "ticking env \<longleftrightarrow> (let clock = (\<lambda>w. fst (en_now env w)) in
     (\<forall>w. clock w \<le> clock (snd (en_now env w)))
     \<and> (\<forall>w ms. 0 < ms \<longrightarrow> clock w < clock (en_sleep env ms w))
     \<and> (\<forall>w h. clock w \<le> clock (snd (pb_try_wait (en_backend env) h w))))"

lemma sh_poll_ticks:
  assumes "ticking env" "sh_poll (en_backend env) s w = (r, s', w')"
  shows "fst (en_now env w) \<le> fst (en_now env w')"
proof (cases "sh_reaped s")
  case False
  obtain x v where x: "pb_try_wait (en_backend env) (pt_inner (sh_child s)) w = (x, v)" by fastforce
  then have "w' = v" using assms(2) False
    by (cases x) (auto simp: sh_poll_def pt_try_wait_def Let_def split: option.splits)
  with assms(1) x show ?thesis by (auto simp: ticking_def Let_def) (metis snd_conv)
qed (use assms(2) in \<open>simp add: sh_poll_def\<close>)

lemma reap_loop_returns:
  assumes "ticking env"
  shows "\<exists>r. reap_loop env dl s d w = Some r"
proof (induction "dl - fst (en_now env w)" arbitrary: s w rule: less_induct)
  case less
  obtain x s1 w1 where p: "sh_poll (en_backend env) s w = (x, s1, w1)" by (metis prod_cases3)
  obtain now w2 where n: "en_now env w1 = (now, w2)" by fastforce
  show ?case
  proof (cases "x = Inr None \<and> now < dl")
    case True
    let ?v = "en_sleep env 10 w2"
    have "fst (en_now env w) \<le> now" using sh_poll_ticks [OF assms p] n by simp
    moreover have "now \<le> fst (en_now env w2)" using assms n by (auto simp: ticking_def Let_def) (metis fst_conv snd_conv)
    moreover have "fst (en_now env w2) < fst (en_now env ?v)" using assms by (auto simp: ticking_def Let_def)
    ultimately have "dl - fst (en_now env ?v) < dl - fst (en_now env w)" using True by linarith
    from less [OF this, of s1] True show ?thesis by (simp add: reap_loop.simps [of env dl s d w] p n)
  next
    case False
    then show ?thesis
      by (cases x) (auto simp: reap_loop.simps [of env dl s d w] p n split: option.splits)
  qed
qed

lemma shutdown_child_returns:
  assumes "ticking env"
  shows "\<exists>r. shutdown_child env s d w = Some r"
proof -
  obtain x s1 w1 where p: "sh_poll (en_backend env) s w = (x, s1, w1)" by (metis prod_cases3)
  show ?thesis using reap_loop_returns [OF assms]
    by (auto simp: shutdown_child_def p Let_def split_beta split: sum.split option.split)
qed

lemma finish_shutdown_returns:
  assumes "ticking env"
  shows "\<exists>r. finish_shutdown env k w = Some r"
proof -
  obtain s d v where "shutdown_child env (wk_killer k) (wk_shared k) w = Some (s, d, v)"
    using shutdown_child_returns [OF assms, of "wk_killer k" "wk_shared k" w] by (metis prod_cases3)
  then show ?thesis by (simp add: finish_shutdown_def Let_def split_beta)
qed

lemma shutdown_completes:
  assumes "u16_parser (en_parser env)" "bounded_reader env ends" "ticking env" "worker_inv k"
  shows "\<exists>k' w'. shutdown_and_exit env k w = Some (Some (k', w')) \<and> worker_inv k' \<and> wk_finalized k' \<and> sd_closed (wk_shared k')"
proof -
  obtain k1 w1 where k1: "(if \<not> wk_finalized k then drain_data env k w else Some (Some (k, w))) = Some (Some (k1, w1))"
    using drain_loop_bounded [OF assms(1,2,4), of FEED_BUDGET_PER_TICK w]
    by (cases "wk_finalized k") (auto simp: drain_data_def FEED_BUDGET_PER_TICK_def)
  obtain y where "finish_shutdown env k1 w1 = Some y" using finish_shutdown_returns [OF assms(3)] by blast
  then have r: "shutdown_and_exit env k w = Some (Some y)" using k1 by (simp add: shutdown_and_exit_def)
  from shutdown_safe [OF assms(1,4) this] r show ?thesis by auto
qed

lemma worker_loop_stop:
  "en_shutdown env w = (True, v) \<Longrightarrow> shutdown_and_exit env k v = Some (Some (k', w')) \<Longrightarrow> worker_loop env k w = Some (Some (k', w'))"
  by (simp add: worker_loop.simps [of env k w] worker_tick_def)

text \<open>
  C27: a session worker can always be stopped. Once the shutdown flag is up, the next tick of the worker returns and
  the worker exits, with an outcome declared and the session marked closed, no matter how much output the child
  still prints and even when the child cannot be killed: with a clock that advances while the worker sleeps, neither
  the last drain nor the reap loop can run for ever.
\<close>

theorem shutdown_ends:
  assumes "u16_parser (en_parser env)" "bounded_reader env ends" "ticking env" "worker_inv k"
    and "fst (en_shutdown env w)"
  shows "\<exists>k' w' oc. worker_loop env k w = Some (Some (k', w')) \<and> worker_inv k' \<and> sd_closed (wk_shared k')
    \<and> sd_outcome (wk_shared k') = Some oc"
proof -
  obtain v where v: "en_shutdown env w = (True, v)" using assms(5) by (cases "en_shutdown env w") simp
  from shutdown_completes [OF assms(1-4), of v] obtain k' w' where
    k': "shutdown_and_exit env k v = Some (Some (k', w'))" "worker_inv k'" "wk_finalized k'" "sd_closed (wk_shared k')" by blast
  then have "worker_loop env k w = Some (Some (k', w'))" using worker_loop_stop [OF v] by simp
  moreover obtain oc where "sd_outcome (wk_shared k') = Some oc"
    using k'(2,3) by (cases "sd_outcome (wk_shared k')") (auto simp: worker_inv_def outcome_ok_def)
  ultimately show ?thesis using k' by blast
qed

lemma demo_ticking: "ticking demo_env"
  by (simp add: ticking_def demo_env_def demo_backend_def)

lemma shutdown_ends_witness:
  "\<exists>k w. worker_loop demo_env (worker_new () demo_config shared_default)
      (demo_world\<lparr>dm_shutdown := True, dm_data := [Received (Bytes (bytes ''hi''))]\<rparr>) = Some (Some (k, w))
    \<and> sd_closed (wk_shared k)"
  using shutdown_ends [OF demo_parser(1) demo_reader demo_ticking demo_worker_inv,
      of "demo_world\<lparr>dm_shutdown := True, dm_data := [Received (Bytes (bytes ''hi''))]\<rparr>" "()"]
  by (auto simp: demo_env_def)

lemma run_worker_safe_witness:
  "\<exists>k w oc. run_worker demo_env () demo_config shared_default
      (demo_world\<lparr>dm_shutdown := True, dm_data := [Received (Bytes (bytes ''hi'')), Received (StreamEnd EndCleanEof)]\<rparr>)
        = Some (Some (k, w))
    \<and> sd_outcome (wk_shared k) = Some oc \<and> oc_bytes_pumped oc = wk_bytes_pumped k"
proof -
  let ?w = "demo_world\<lparr>dm_shutdown := True, dm_data := [Received (Bytes (bytes ''hi'')), Received (StreamEnd EndCleanEof)]\<rparr>"
  have "en_shutdown demo_env ?w = (True, ?w)" by (simp add: demo_env_def)
  from worker_loop_stop [OF this] obtain k w where
    r: "run_worker demo_env () demo_config shared_default ?w = Some (Some (k, w))"
    using shutdown_completes [OF demo_parser(1) demo_reader demo_ticking demo_worker_inv, of "()" ?w]
    unfolding run_worker_def by blast
  have "sh_inv (wc_killer demo_config)" "1 \<le> wc_rows demo_config" "wc_rows demo_config \<le> u16_max"
    "1 \<le> wc_cols demo_config" "wc_cols demo_config \<le> MAX_COLS"
    by (simp_all add: demo_config_def demo_child_def u16_max_def MAX_COLS_def)
  from run_worker_safe [OF demo_parser(1) demo_ctl this r] r show ?thesis by auto
qed

section \<open>The capture is frozen by the outcome\<close>

text \<open>The outcome and everything the outcome speaks of.\<close>

definition captured :: "'p worker \<Rightarrow> u8 list \<times> nat \<times> nat \<times> nat \<times> bool \<times> nat \<times> stream_state option \<times> capture_outcome option" where
  "captured k = (wk_output_log k, wk_bytes_pumped k, wk_feeds k, wk_output_bytes_total k, wk_output_truncated k, wk_frames k,
     wk_final_stream k, sd_outcome (wk_shared k))"

definition frozen :: "'p worker \<Rightarrow> 'p worker \<Rightarrow> bool" where
  "frozen k k' \<longleftrightarrow> wk_finalized k' \<and> captured k' = captured k"

lemma frozen_refl: "wk_finalized k \<Longrightarrow> frozen k k"
  by (simp add: frozen_def)

lemma frozen_trans: "frozen k1 k2 \<Longrightarrow> frozen k2 k3 \<Longrightarrow> frozen k1 k3"
  by (simp add: frozen_def)

lemma frozen_updates:
  assumes "frozen k0 k"
  shows "frozen k0 (k\<lparr>wk_grid := g\<rparr>)" "frozen k0 (k\<lparr>wk_events := es\<rparr>)" "frozen k0 (k\<lparr>wk_killer := s\<rparr>)"
    "frozen k0 (k\<lparr>wk_writer := wr\<rparr>)" "frozen k0 (k\<lparr>wk_resizes := n\<rparr>)" "frozen k0 (k\<lparr>wk_reported_fg := c\<rparr>)"
    "frozen k0 (k\<lparr>wk_reported_bg := c\<rparr>)" "frozen k0 (k\<lparr>wk_exited := x\<rparr>)" "frozen k0 (k\<lparr>wk_exit_seen_at := t\<rparr>)"
    "frozen k0 (k\<lparr>wk_dropped_after_drain := n\<rparr>)" "frozen k0 (note_stream_end e k)" "frozen k0 (bump_revision k)"
  using assms by (auto simp: frozen_def captured_def note_stream_end_def bump_revision_def set_revision_def Let_def)

lemma drain_frozen:
  assumes "wk_finalized k" "drain_data env k w = Some r"
  shows "\<exists>k' w'. r = Some (k', w') \<and> frozen k k'"
proof (rule drain_loop_inv [where I = "frozen k", OF _ _ assms(2) [unfolded drain_data_def] frozen_refl [OF assms(1)]])
  fix bs k1 w1
  assume k1: "frozen k k1"
  then have fin: "wk_finalized k1" by (simp add: frozen_def)
  show "ok (feed env bs (k1, w1)) (\<lambda>(k', w'). frozen k k')" using frozen_updates(10) [OF k1] by (simp add: feed_finalized [OF fin])
qed (rule frozen_updates)

lemma poll_observed_frozen: "poll_exit_observed env k w = (b, k', w') \<Longrightarrow> frozen k0 k \<Longrightarrow> frozen k0 k'"
  by (auto simp: poll_exit_observed_def frozen_updates split: if_splits prod.splits sum.splits option.splits)

lemma write_chunks_frozen: "write_chunks env cs k w = (r, k', w') \<Longrightarrow> frozen k0 k \<Longrightarrow> frozen k0 k'"
proof (induction env cs k w arbitrary: r k' w' rule: write_chunks.induct)
  case (2 env chunk rest k w)
  obtain flag w1 where 1: "en_shutdown env w = (flag, w1)" by fastforce
  obtain b k2 w2 where p: "poll_exit_observed env k w1 = (b, k2, w2)" by (metis prod_cases3)
  have k2: "frozen k0 k2" by (rule poll_observed_frozen [OF p 2(3)])
  show ?case
  proof (cases "\<not> flag \<and> \<not> b \<and> wk_writer k2 \<noteq> None")
    case True
    then obtain writer where wr: "wk_writer k2 = Some writer" by blast
    obtain x w3 where x: "en_write_all env writer chunk w2 = (x, w3)" by fastforce
    show ?thesis
    proof (cases x)
      case (Inl e)
      with 2(2) 1 p True wr x k2 show ?thesis by simp
    next
      case (Inr u)
      with 2(2) 1 p True wr x have "write_chunks env rest k2 w3 = (r, k', w')" by simp
      from 2(1) [OF 1 [symmetric] _ p [symmetric] _ refl wr x [symmetric] Inr this k2] True show ?thesis by simp
    qed
  next
    case False
    with 2(2,3) 1 p k2 show ?thesis by (auto split: bool.splits)
  qed
qed simp

lemma io_ops_frozen:
  "apply_write env bs k w = (r, k', w') \<Longrightarrow> frozen k0 k \<Longrightarrow> frozen k0 k'"
  "apply_resize env cols rows k w = (r, k', w') \<Longrightarrow> frozen k0 k \<Longrightarrow> frozen k0 k'"
  "close_input env k w = (r, k', w') \<Longrightarrow> frozen k0 k \<Longrightarrow> frozen k0 k'"
  by (auto simp: apply_write_def apply_resize_def close_input_def write_chunks_frozen frozen_updates
      split: if_splits prod.splits sum.splits option.splits bool.splits)

lemma finish_shutdown_frozen:
  assumes "frozen k0 k" "sh_inv (wk_killer k)" "finish_shutdown env k w = Some (k', w')"
  shows "frozen k0 k'"
proof -
  from assms(3) obtain s d v where sd: "shutdown_child env (wk_killer k) (wk_shared k) w = Some (s, d, v)"
    by (auto simp: finish_shutdown_def bind_eq_Some_conv)
  from shutdown_child_rel [OF this assms(2)] obtain e where "d = (wk_shared k)\<lparr>sd_teardown_error := e\<rparr>"
    by (auto simp: teardown_rel_def)
  then have "frozen k0 (k\<lparr>wk_killer := s, wk_shared := d\<rparr>)" using assms(1) by (simp add: frozen_def captured_def)
  then show ?thesis using assms(3) sd
    by (auto simp: finish_shutdown_def Let_def frozen_def captured_def mark_closed_def split_beta split: if_splits)
qed

lemma shutdown_frozen:
  assumes "worker_inv k" "wk_finalized k" "shutdown_and_exit env k w = Some (Some (k', w'))"
  shows "frozen k k'"
  using assms finish_shutdown_frozen [OF frozen_refl [OF assms(2)], of env w k' w']
  by (auto simp: shutdown_and_exit_def worker_inv_def exit_ok_def)

lemma handle_ctl_frozen:
  assumes inv: "worker_inv k" and fin: "wk_finalized k" and run: "handle_ctl env op k w = Some (Some (x, k', w'))"
  shows "frozen k k'"
proof -
  note k = frozen_refl [OF fin]
  show ?thesis
  proof (cases op)
    case (CtlWrite bs)
    obtain r k1 w1 where "apply_write env bs k w = (r, k1, w1)" by (metis prod_cases3)
    with CtlWrite run io_ops_frozen(1) [OF this k] show ?thesis by (auto simp: handle_ctl_def)
  next
    case (CtlResize cols rows)
    obtain r k1 w1 where "apply_resize env cols rows k w = (r, k1, w1)" by (metis prod_cases3)
    with CtlResize run io_ops_frozen(2) [OF this k] show ?thesis by (auto simp: handle_ctl_def)
  next
    case CtlCloseInput
    obtain r k1 w1 where "close_input env k w = (r, k1, w1)" by (metis prod_cases3)
    with CtlCloseInput run io_ops_frozen(3) [OF this k] show ?thesis by (auto simp: handle_ctl_def)
  next
    case (CtlSetColors fg bg)
    with run k show ?thesis
      by (cases fg; cases bg) (auto simp: handle_ctl_def Let_def frozen_updates)
  next
    case CtlShutdown
    with run shutdown_frozen [OF inv fin] show ?thesis by (auto simp: handle_ctl_def)
  qed (use run k in \<open>auto simp: handle_ctl_def split_beta frozen_updates\<close>)
qed

text \<open>
  C26: the capture is immutable once the outcome is declared. No later tick of the worker, whatever data, control
  operations or shutdown it handles, changes the outcome, the output log, the byte, batch and frame counts or the
  recorded final stream state: late bytes are counted and dropped.
\<close>

theorem outcome_immutable:
  assumes "worker_inv k" "sd_outcome (wk_shared k) = Some oc" "worker_tick env k w = Some (Some (x, k', w'))"
  shows "captured k' = captured k \<and> sd_outcome (wk_shared k') = Some oc"
proof -
  have fin: "wk_finalized k" using assms(1,2) by (simp add: worker_inv_def outcome_ok_def)
  obtain flag w1 where 1: "en_shutdown env w = (flag, w1)" by fastforce
  obtain msg w2 where 2: "en_ctl_recv env w1 = (msg, w2)" by fastforce
  have "frozen k k'"
  proof (cases "flag \<or> msg = CtlDisconnected")
    case True
    with assms(3) 1 2 obtain v where "shutdown_and_exit env k v = Some (Some (k', w'))"
      by (cases flag) (auto simp: worker_tick_def)
    then show ?thesis by (rule shutdown_frozen [OF assms(1) fin])
  next
    case False
    define m where "m = (case msg of CtlReceived op \<Rightarrow> handle_ctl env op k w2 | _ \<Rightarrow> Some (Some (False, k, w2)))"
    from False assms(3) 1 2 obtain y where y: "m = Some y"
      "(case y of None \<Rightarrow> Some None | Some (True, k, w) \<Rightarrow> Some (Some (True, k, w))
        | Some (False, k, w) \<Rightarrow> Option.bind (drain_data env k w) (\<lambda>d.
            Some (map_option (\<lambda>(k, w). case poll_exit_state env k w of (k, w) \<Rightarrow> (False, k, w)) d))) = Some (Some (x, k', w'))"
      by (cases msg) (auto simp: worker_tick_def m_def bind_eq_Some_conv)
    then obtain b k1 w3 where yb: "y = Some (b, k1, w3)" by (cases y) auto
    note m = y(1) [unfolded yb] and rest = y(2) [unfolded yb]
    have k1: "frozen k k1"
      using m handle_ctl_frozen [OF assms(1) fin] frozen_refl [OF fin] by (cases msg) (auto simp: m_def)
    show ?thesis
    proof (cases b)
      case True
      with rest k1 show ?thesis by simp
    next
      case False
      with rest obtain d where d: "drain_data env k1 w3 = Some d"
        "map_option (\<lambda>(k, w). case poll_exit_state env k w of (k, w) \<Rightarrow> (False, k, w)) d = Some (x, k', w')"
        by (auto simp: bind_eq_Some_conv)
      have "wk_finalized k1" using k1 by (simp add: frozen_def)
      from drain_frozen [OF this d(1)] obtain k2 w4 where k2: "d = Some (k2, w4)" "frozen k1 k2" by blast
      then have "poll_exit_state env k2 w4 = (k2, w4)" by (simp add: poll_exit_state_def frozen_def)
      with d(2) k2 k1 frozen_trans show ?thesis by auto
    qed
  qed
  then show ?thesis using assms(2) by (simp add: frozen_def captured_def)
qed

definition demo_closed :: "unit worker" where
  "demo_closed = declare_outcome DrainExpired \<lparr>ex_code = 0, ex_signal = None\<rparr>
     ((worker_new () demo_config shared_default)\<lparr>wk_finalized := True, wk_final_stream := Some DrainExpired\<rparr>)"

lemma demo_closed:
  "worker_inv demo_closed" "wk_finalized demo_closed" "wk_stream_end demo_closed = None" "wk_dropped_after_drain demo_closed = 0"
  "sd_outcome (wk_shared demo_closed) = Some \<lparr>oc_exit = \<lparr>ex_code = 0, ex_signal = None\<rparr>, oc_stream = DrainExpired,
     oc_revision = 0, oc_bytes_pumped = 0, oc_dropped_after_drain = 0\<rparr>"
  using declare_outcome_inv [OF demo_worker_inv, of "()" DrainExpired "\<lparr>ex_code = 0, ex_signal = None\<rparr>"]
  by (simp_all add: demo_closed_def worker_new_def) (simp_all add: declare_outcome_def)

lemma demo_data:
  "en_try_recv demo_env (demo_world\<lparr>dm_data := m # ms\<rparr>)
     = ((case m of Received (Bytes bs) \<Rightarrow> if bs \<noteq> [] \<and> length bs \<le> READ_BATCH then m else RecvEmpty | _ \<Rightarrow> m),
        demo_world\<lparr>dm_data := ms\<rparr>)"
  "en_try_recv demo_env (demo_world\<lparr>dm_data := []\<rparr>) = (RecvEmpty, demo_world)" "en_inflight_sub demo_env w = w"
  by (simp_all add: demo_env_def demo_recv_def demo_world_def)

text \<open>A drain of a finalized worker counts the late batches and keeps the first stream end.\<close>

lemma late_drain:
  assumes "wk_finalized k"
  shows "drain_data demo_env k (demo_world\<lparr>dm_data := [Received (Bytes (bytes ''hi'')), Received (StreamEnd EndCleanEof)]\<rparr>)
    = Some (Some (note_stream_end EndCleanEof (k\<lparr>wk_dropped_after_drain := wk_dropped_after_drain k + 1\<rparr>), demo_world))"
  using assms
  by (simp add: drain_data_def drain_loop.simps [of demo_env] demo_data feed_finalized READ_BATCH_def FEED_BUDGET_PER_TICK_def)

lemma outcome_immutable_witness:
  "\<exists>k' w'. worker_tick demo_env demo_closed (demo_world\<lparr>dm_ctl := [CtlTimeout],
      dm_data := [Received (Bytes (bytes ''hi'')), Received (StreamEnd EndCleanEof)]\<rparr>) = Some (Some (False, k', w'))
    \<and> captured k' = captured demo_closed \<and> wk_dropped_after_drain k' = 1"
proof -
  let ?w = "demo_world\<lparr>dm_ctl := [CtlTimeout], dm_data := [Received (Bytes (bytes ''hi'')), Received (StreamEnd EndCleanEof)]\<rparr>"
  let ?k = "note_stream_end EndCleanEof (demo_closed\<lparr>wk_dropped_after_drain := 1\<rparr>)"
  let ?v = "demo_world\<lparr>dm_data := [Received (Bytes (bytes ''hi'')), Received (StreamEnd EndCleanEof)]\<rparr>"
  have "en_shutdown demo_env ?w = (False, ?w)" "en_ctl_recv demo_env ?w = (CtlTimeout, ?v)"
    by (simp_all add: demo_env_def demo_world_def)
  then have run: "worker_tick demo_env demo_closed ?w = Some (Some (False, ?k, demo_world))"
    using late_drain [OF demo_closed(2)] demo_closed by (simp add: worker_tick_def poll_exit_state_def note_stream_end_def)
  from outcome_immutable [OF demo_closed(1,5) run] have "captured ?k = captured demo_closed" by simp
  with run demo_closed(3) show ?thesis by (simp add: note_stream_end_def)
qed

text \<open>
  The stream state that an observation reports is not frozen: after the drain grace has expired, a clean end of the
  stream that arrives late, behind a batch that was dropped, turns it from \<open>DrainExpired\<close> into \<open>CleanEof\<close>,
  while the declared outcome keeps \<open>DrainExpired\<close>.
\<close>

lemma late_eof_overrides_drain_expired:
  "\<exists>k. drain_data demo_env demo_closed
      (demo_world\<lparr>dm_data := [Received (Bytes (bytes ''hi'')), Received (StreamEnd EndCleanEof)]\<rparr>) = Some (Some (k, demo_world))
    \<and> worker_stream_state demo_closed = DrainExpired \<and> worker_stream_state k = CleanEof
    \<and> wk_dropped_after_drain k = 1 \<and> map_option oc_stream (sd_outcome (wk_shared k)) = Some DrainExpired"
  using late_drain [OF demo_closed(2)] demo_closed
  by (simp add: note_stream_end_def worker_stream_state_def) (simp add: demo_closed_def declare_outcome_def)

section \<open>The shared child\<close>

text \<open>
  The shared child is never addressed after its reap. From a new shared child, once some call has recorded the
  reap, every later sequence of polls, signals, kills and waits, from whichever thread, returns, leaves the
  recorded status as it is and makes no system call.
\<close>

lemma session_child_untouched:
  assumes "ops_run (shared_step env) ops (sh_new (en_backend env) c, w) = Some (s, w')" "sh_reaped s"
  shows "ops_run (shared_step env) ops' (s, w') = Some (s, w')
    \<and> signal_locked (en_kernel env) (en_signals env) s n w'
        = (Inl (case sh_pid s of None \<Rightarrow> SigUnknownPid | Some pid \<Rightarrow> SigNotFound pid), w')"
proof -
  have "sh_inv s" using session_child.run_inv [OF assms(1)] by simp
  with session_child.run_reaped [of "(s, w')" env ops'] assms(2) show ?thesis
    by (auto simp: signal_locked_def split: option.splits)
qed

lemma session_child_untouched_witness:
  "\<exists>s w. ops_run (shared_step demo_env) [SharedKill, SharedPoll] (demo_child, demo_world) = Some (s, w) \<and> sh_reaped s
    \<and> ops_run (shared_step demo_env) [SharedWait, SharedSignal 9, SharedKill] (s, w) = Some (s, w)"
proof -
  let ?w = "demo_world\<lparr>dm_exit := Some (1, Some ''Killed'')\<rparr>"
  have run: "ops_run (shared_step demo_env) [SharedKill, SharedPoll] (demo_child, demo_world)
      = Some (demo_child\<lparr>sh_child := mark_reaped (sh_child demo_child), sh_reaped := True,
          sh_status := Some (convert_status (1, Some ''Killed''))\<rparr>, ?w)"
    by (simp add: shared_step_def sh_poll_demo)
      (simp add: kill_locked_def pt_kill_def demo_child_def sh_new_def demo_env_def demo_backend_def demo_world_def)
  have "demo_child = sh_new (en_backend demo_env) \<lparr>pt_inner = 3, pt_reaped = False\<rparr>"
    by (simp add: demo_child_def demo_env_def)
  from session_child_untouched [OF run [unfolded this], folded this, of "[SharedWait, SharedSignal 9, SharedKill]"] run
  show ?thesis by auto
qed

end
