(* ===== verification/Worker_Output.thy ===== *)
theory Worker_Output
  imports Worker_Capture
begin

text \<open>
  The data paths of the session worker: the output of the child reaches the grid and the log whole and in order,
  however it was cut into batches, and what is written to the child is a prefix of what was asked for.
\<close>

section \<open>Frames do not depend on the batches\<close>

text \<open>
  A parser that opens sequences by \<open>ESC\<close> only: bytes without one can finish the sequence that is open and cannot
  begin another.
\<close>

definition escape_opens :: "'p parser \<Rightarrow> bool" where
  "escape_opens adv \<longleftrightarrow> (\<forall>p bs. 0x1b \<notin> set bs \<longrightarrow> length (filter is_dispatch (snd (adv p bs))) \<le> 1)"

abbreviation dispatches :: "'p parser \<Rightarrow> u8 list \<Rightarrow> 'p damage_grid \<Rightarrow> nat" where
  "dispatches adv bs d \<equiv> length (filter is_dispatch (chunk_calls adv bs d))"

abbreviation in_sync :: "'p damage_grid \<Rightarrow> bool" where
  "in_sync d \<equiv> in_synchronized_update (dg_grid d)"

lemma no_dispatch_sync:
  assumes "stream_parser adv" "process uw adv bs d = Some d'" "bs = [] \<or> dispatches adv bs d = 0"
  shows "in_sync d' = in_sync d"
proof (cases "bs = []")
  case True
  with assms(2) show ?thesis by (simp add: process_def)
next
  case False
  with assms(3) have "\<not> list_ex is_dispatch (chunk_calls adv bs d)" by (simp add: filter_empty_conv list_ex_iff)
  from steady_performs [OF process_calls(1) [OF assms(1,2) False] this] show ?thesis
    by (simp add: steady_def in_synchronized_update_def)
qed

lemma sample_counters: "counters_ok k \<Longrightarrow> counters_ok (note_sync_sample (k\<lparr>wk_grid := d\<rparr>))"
  by (auto simp: counters_ok_def note_sync_sample_def set_frames_def Let_def)

lemma sample_same: "counters_ok k \<Longrightarrow> note_sync_sample k = k"
  by (simp add: counters_ok_def note_sync_sample_def Let_def)

lemma sample_twice:
  assumes "counters_ok k" "in_sync d1 = in_sync (wk_grid k) \<or> in_sync d2 = in_sync d1"
  shows "note_sync_sample ((note_sync_sample (k\<lparr>wk_grid := d1\<rparr>))\<lparr>wk_grid := d2\<rparr>) = note_sync_sample (k\<lparr>wk_grid := d2\<rparr>)"
proof -
  let ?f1 = "wk_frames k + frame_done k d1"
  have k: "sd_frames (wk_shared k) = wk_frames k" "wk_was_in_sync k = in_sync (wk_grid k)"
    using assms(1) by (simp_all add: counters_ok_def)
  have "?f1 + frame_done (emu_upd d1 ?f1 k) d2 = wk_frames k + frame_done k d2"
    using assms(2) k(2) by (auto simp: frame_done_def)
  moreover have "note_sync_sample ((emu_upd d1 ?f1 k)\<lparr>wk_grid := d2\<rparr>) = emu_upd d2 (?f1 + frame_done (emu_upd d1 ?f1 k) d2) k"
    using note_sync_sample_eq [of "emu_upd d1 ?f1 k" d2] by simp
  ultimately show ?thesis unfolding note_sync_sample_eq [OF k(1)] by (simp only:)
qed

lemma feed_bytes_sample:
  assumes sp: "stream_parser (en_parser env)"
  shows "counters_ok k \<Longrightarrow> dispatches (en_parser env) bs (wk_grid k) \<le> 1 \<Longrightarrow> fold_opt (feed_byte env) bs k
    = map_option (\<lambda>g. note_sync_sample (k\<lparr>wk_grid := g\<rparr>)) (process (en_width env) (en_parser env) bs (wk_grid k))"
proof (induction bs arbitrary: k)
  case Nil
  then show ?case by (simp add: process_def sample_same)
next
  case (Cons b bs)
  let ?run = "process (en_width env) (en_parser env)"
  show ?case
  proof (cases "?run [b] (wk_grid k)")
    case None
    then show ?thesis using process_append [OF sp, of "en_width env" "[b]" "wk_grid k" bs] by (simp add: feed_byte_def)
  next
    case (Some d1)
    let ?k = "note_sync_sample (k\<lparr>wk_grid := d1\<rparr>)"
    have whole: "?run (b # bs) (wk_grid k) = ?run bs d1"
      using process_append [OF sp, of "en_width env" "[b]" "wk_grid k" bs] Some by simp
    have sum: "dispatches (en_parser env) (b # bs) (wk_grid k)
        = dispatches (en_parser env) [b] (wk_grid k) + dispatches (en_parser env) bs d1"
      by (simp add: chunk_calls_Cons [OF sp Some, of bs])
    have grid: "wk_grid ?k = d1" by (simp add: note_sync_sample_def Let_def)
    have "fold_opt (feed_byte env) (b # bs) k = fold_opt (feed_byte env) bs ?k" using Some by (simp add: feed_byte_def)
    also have "\<dots> = map_option (\<lambda>g. note_sync_sample (?k\<lparr>wk_grid := g\<rparr>)) (?run bs d1)"
      using Cons.IH [OF sample_counters [OF Cons.prems(1)]] Cons.prems(2) sum grid by simp
    also have "\<dots> = map_option (\<lambda>g. note_sync_sample (k\<lparr>wk_grid := g\<rparr>)) (?run bs d1)"
    proof (rule option.map_cong0)
      fix d2
      assume "d2 \<in> set_option (?run bs d1)"
      then have d2: "?run bs d1 = Some d2" by simp
      have "dispatches (en_parser env) [b] (wk_grid k) = 0 \<or> dispatches (en_parser env) bs d1 = 0"
        using sum Cons.prems(2) by linarith
      then have "in_sync d1 = in_sync (wk_grid k) \<or> in_sync d2 = in_sync d1"
        using no_dispatch_sync [OF sp Some] no_dispatch_sync [OF sp d2] by blast
      then show "note_sync_sample (?k\<lparr>wk_grid := d2\<rparr>) = note_sync_sample (k\<lparr>wk_grid := d2\<rparr>)"
        by (rule sample_twice [OF Cons.prems(1)])
    qed
    finally show ?thesis by (simp add: whole)
  qed
qed

lemma feed_grid_bytes:
  assumes "stream_parser (en_parser env)" "escape_opens (en_parser env)" "worker_inv k"
  shows "feed_grid env bs k = fold_opt (feed_byte env) bs k"
proof (cases "0x1b \<in> set bs")
  case False
  have "0x1b \<notin> set (dg_pending_utf8 (wk_grid k) @ bs)"
    using assms(3) False by (auto simp: worker_inv_def emulator_ok_def is_ascii_def)
  then have "0x1b \<notin> set (fed_prefix (dg_pending_utf8 (wk_grid k) @ bs))"
    using set_take_subset unfolding fed_prefix_def by fast
  then have "dispatches (en_parser env) bs (wk_grid k) \<le> 1" using assms(2) by (simp add: escape_opens_def chunk_calls_def)
  with assms(3) feed_bytes_sample [OF assms(1)] False show ?thesis
    by (cases "process (en_width env) (en_parser env) bs (wk_grid k)") (simp_all add: feed_grid_def worker_inv_def)
qed (simp add: feed_grid_def)

lemma feed_grids_bytes:
  assumes "stream_parser (en_parser env)" "escape_opens (en_parser env)" "u16_parser (en_parser env)"
  shows "worker_inv k \<Longrightarrow> fold_opt (feed_grid env) bss k = fold_opt (feed_byte env) (concat bss) k"
proof (induction bss arbitrary: k)
  case (Cons bs bss)
  from feed_grid_ok [OF assms(3) Cons.prems, of bs] obtain g f where
    "feed_grid env bs k = Some (emu_upd g f k)" "emulator_ok g" by (auto simp: ok_iff_ex)
  moreover from this have "worker_inv (emu_upd g f k)" by (intro emu_upd_inv Cons.prems)
  moreover have "fold_opt (feed_byte env) bs k = feed_grid env bs k"
    using feed_grid_bytes [OF assms(1,2) Cons.prems] by simp
  ultimately show ?case using Cons.IH by (simp add: fold_opt_append)
qed simp

text \<open>
  C32: the screen and the number of completed frames do not depend on how the output was cut into batches. Feeding
  a batch that has no \<open>ESC\<close> as a whole, as \<open>feed\<close> does to be fast, misses no end of a synchronized update that
  feeding byte by byte sees, whatever sequence the batches before it left open.
\<close>

theorem frames_batch_independent:
  assumes "stream_parser (en_parser env)" "escape_opens (en_parser env)" "u16_parser (en_parser env)" "worker_inv k"
    and "concat xs = concat ys"
  shows "fold_opt (feed_grid env) xs k = fold_opt (feed_grid env) ys k"
  using assms by (simp add: feed_grids_bytes)

text \<open>A parser for the examples: after \<open>ESC\<close> the letters \<open>h\<close> and \<open>l\<close> begin and end a synchronized update.\<close>

fun sync_calls :: "bool \<Rightarrow> u8 list \<Rightarrow> bool \<times> perform_call list" where
  "sync_calls open [] = (open, [])"
| "sync_calls open (b # bs) =
     (if b = 0x1b then sync_calls True bs
      else let (open', calls) = sync_calls False bs
           in (open', (if open then CsiDispatch [[2026]] [0x3f] False (unat b) else Print (unat b)) # calls))"

lemma sync_calls_append:
  "sync_calls open (xs @ ys) = (let (p, cs) = sync_calls open xs; (q, ds) = sync_calls p ys in (q, cs @ ds))"
  by (induction "open" xs rule: sync_calls.induct) (simp_all add: split_beta Let_def)

lemma sync_calls_stream: "stream_parser sync_calls"
  by (simp add: stream_parser_def sync_calls_append)

lemma sync_calls_u16: "u16_parser sync_calls"
proof -
  have "list_all u16_call (snd (sync_calls p bs))" for p bs
    by (induction p bs rule: sync_calls.induct) (simp_all add: split_beta u16_call_def u16_max_def)
  then show ?thesis by (simp add: u16_parser_def)
qed

lemma sync_calls_escape: "escape_opens sync_calls"
proof -
  have bound: "length (filter is_dispatch (snd (sync_calls p bs))) \<le> (if p then 1 else 0)" if "0x1b \<notin> set bs" for p bs
    using that
  proof (induction p bs rule: sync_calls.induct)
    case (2 "open" b bs)
    then show ?case by (auto simp: split_beta is_dispatch_def)
  qed simp
  have "length (filter is_dispatch (snd (sync_calls p bs))) \<le> 1" if "0x1b \<notin> set bs" for p bs
    using bound [OF that, of p] by (cases p) simp_all
  then show ?thesis by (simp add: escape_opens_def)
qed

definition sync_env :: "(bool, unit, demo) session_env" where
  "sync_env = \<lparr>en_width = example_width, en_parser = sync_calls, en_backend = en_backend demo_env, en_kernel = en_kernel demo_env,
     en_signals = en_signals demo_env, en_try_recv = en_try_recv demo_env, en_inflight_sub = en_inflight_sub demo_env,
     en_inflight = en_inflight demo_env, en_shutdown = en_shutdown demo_env, en_now = en_now demo_env,
     en_sleep = en_sleep demo_env, en_write_all = en_write_all demo_env, en_drop_writer = en_drop_writer demo_env,
     en_ctl_recv = en_ctl_recv demo_env, en_reply = en_reply demo_env\<rparr>"

lemma sync_env_parser [simp]: "en_parser sync_env = sync_calls"
  by (simp add: sync_env_def)

text \<open>Output that completes one frame: its end is cut between \<open>ESC\<close> and the letter in the second batching.\<close>

lemma frames_batch_independent_witness:
  "fold_opt (feed_grid sync_env) [[0x1b, 0x68, 0x61], [0x1b], [0x6c, 0x62]] (worker_new False demo_config shared_default)
    = fold_opt (feed_grid sync_env) [[0x1b, 0x68], [0x61, 0x1b, 0x6c], [0x62]] (worker_new False demo_config shared_default)"
  by (rule frames_batch_independent) (simp_all add: sync_calls_stream sync_calls_u16 sync_calls_escape demo_worker_inv)

section \<open>The output log\<close>

lemma feeds_recorded:
  assumes u: "u16_parser (en_parser env)"
  shows "worker_inv k \<Longrightarrow> \<not> wk_finalized k \<Longrightarrow> \<exists>k' w'. fold_opt (feed env) bss (k, w) = Some (k', w') \<and> worker_inv k'
    \<and> wk_record_output k' = wk_record_output k \<and> wk_output_cap_bytes k' = wk_output_cap_bytes k
    \<and> wk_bytes_pumped k' = wk_bytes_pumped k + length (concat bss) \<and> wk_feeds k' = wk_feeds k + length bss
    \<and> wk_output_log k' = wk_output_log k @ take (if wk_record_output k then wk_output_cap_bytes k - length (wk_output_log k) else 0) (concat bss)"
proof (induction bss arbitrary: k w)
  case (Cons bs bss)
  from feed_ok [OF u Cons.prems(1), of bs w] obtain k1 w1 where 1: "feed env bs (k, w) = Some (k1, w1)"
    by (auto simp: ok_iff_ex)
  note f = feed_fields [OF u Cons.prems 1]
  from Cons.IH [of k1 w1] f obtain k' w' where "fold_opt (feed env) bss (k1, w1) = Some (k', w')" "worker_inv k'"
    "wk_record_output k' = wk_record_output k" "wk_output_cap_bytes k' = wk_output_cap_bytes k"
    "wk_bytes_pumped k' = wk_bytes_pumped k + length bs + length (concat bss)" "wk_feeds k' = wk_feeds k + Suc (length bss)"
    "wk_output_log k' = wk_output_log k1 @ take (if wk_record_output k then wk_output_cap_bytes k - length (wk_output_log k1) else 0) (concat bss)"
    by auto
  with 1 f show ?case by (auto simp: diff_diff_left min_def)
qed simp

text \<open>
  The output log. When the child has printed some batches, the log holds exactly the first
  \<open>output_cap_bytes\<close> bytes of what it printed, in order, or nothing if the session does not record; the totals count
  every byte and every batch, and the log is marked truncated exactly when bytes are missing from it.
\<close>

lemma output_recorded:
  assumes "u16_parser (en_parser env)" "sh_inv (wc_killer c)"
    and "1 \<le> wc_rows c" "wc_rows c \<le> u16_max" "1 \<le> wc_cols c" "wc_cols c \<le> MAX_COLS"
  shows "\<exists>k w'. fold_opt (feed env) bss (worker_new p c shared_default, w) = Some (k, w')
    \<and> wk_output_log k = (if wc_record_output c then take (wc_output_cap_bytes c) (concat bss) else [])
    \<and> wk_output_bytes_total k = (if wc_record_output c then length (concat bss) else 0)
    \<and> wk_output_truncated k = (wc_record_output c \<and> wc_output_cap_bytes c < length (concat bss))
    \<and> wk_bytes_pumped k = length (concat bss) \<and> wk_feeds k = length bss"
proof -
  let ?k = "worker_new p c shared_default"
  have inv: "worker_inv ?k" using assms by (intro worker_new_inv) simp_all
  have new: "\<not> wk_finalized ?k" "wk_record_output ?k = wc_record_output c" "wk_output_cap_bytes ?k = wc_output_cap_bytes c"
    "wk_bytes_pumped ?k = 0" "wk_feeds ?k = 0" "wk_output_log ?k = []" by (simp_all add: worker_new_def)
  from feeds_recorded [OF assms(1) inv new(1), of bss w] new(2-) obtain k w' where
    k: "fold_opt (feed env) bss (?k, w) = Some (k, w')" "worker_inv k" "wk_record_output k = wc_record_output c"
    "wk_output_cap_bytes k = wc_output_cap_bytes c" "wk_bytes_pumped k = length (concat bss)" "wk_feeds k = length bss"
    "wk_output_log k = take (if wc_record_output c then wc_output_cap_bytes c else 0) (concat bss)" by auto
  moreover have "log_ok k" using k(2) by (simp add: worker_inv_def)
  ultimately show ?thesis by (auto simp: log_ok_def)
qed

lemma output_recorded_witness:
  "\<exists>k w'. fold_opt (feed demo_env) [bytes ''hi'', bytes ''ho''] (worker_new () demo_config shared_default, demo_world) = Some (k, w')
    \<and> wk_output_log k = bytes ''hih'' \<and> wk_output_truncated k \<and> wk_bytes_pumped k = 4"
proof -
  have "sh_inv (wc_killer demo_config)" "1 \<le> wc_rows demo_config" "wc_rows demo_config \<le> u16_max"
    "1 \<le> wc_cols demo_config" "wc_cols demo_config \<le> MAX_COLS" "wc_record_output demo_config" "wc_output_cap_bytes demo_config = 3"
    by (simp_all add: demo_config_def demo_child_def u16_max_def MAX_COLS_def)
  with output_recorded [OF demo_parser(1) this(1-5), of "[bytes ''hi'', bytes ''ho'']" "()" demo_world]
  show ?thesis by (auto simp: numeral_eq_Suc simp del: fold_opt.simps)
qed

section \<open>Writing to the child\<close>

lemma concat_chunks: "concat (chunks n xs) = xs"
  by (induction n xs rule: chunks.induct) simp_all

lemma chunks_take: "0 < n \<Longrightarrow> concat (take j (chunks n xs)) = take (j * n) xs"
proof (induction j arbitrary: xs)
  case (Suc j)
  show ?case
  proof (cases xs)
    case (Cons y ys)
    have "take (n + j * n) (y # ys) = y # take (n - 1) ys @ take (j * n) (drop (n - 1) ys)"
    proof -
      have "n + j * n = Suc ((n - 1) + j * n)" using Suc.prems by simp
      then show ?thesis by (simp only: take_Suc_Cons take_add)
    qed
    with Suc Cons show ?thesis by simp
  qed simp
qed simp

text \<open>
  \<open>written\<close> is what the child's input has accepted: a write that succeeds adds all its bytes, one that fails may have
  added some of them, and nothing else of the environment writes.
\<close>

definition records_writes :: "('p, 'b, 'w) session_env \<Rightarrow> ('w \<Rightarrow> u8 list) \<Rightarrow> bool" where
  "records_writes env written \<longleftrightarrow>
     (\<forall>h bs w u w'. en_write_all env h bs w = (Inr u, w') \<longrightarrow> written w' = written w @ bs)
     \<and> (\<forall>h bs w e w'. en_write_all env h bs w = (Inl e, w') \<longrightarrow> (\<exists>n. written w' = written w @ take n bs))
     \<and> (\<forall>w. written (snd (en_shutdown env w)) = written w)
     \<and> (\<forall>w. written (snd (en_now env w)) = written w)
     \<and> (\<forall>h w. written (snd (pb_try_wait (en_backend env) h w)) = written w)"

lemma sh_poll_written:
  assumes "records_writes env written" "sh_poll (en_backend env) s w = (r, s', w')"
  shows "written w' = written w"
proof (cases "sh_reaped s")
  case False
  obtain x v where x: "pb_try_wait (en_backend env) (pt_inner (sh_child s)) w = (x, v)" by fastforce
  then have "w' = v" using assms(2) False
    by (cases x) (auto simp: sh_poll_def pt_try_wait_def Let_def split: option.splits)
  with assms(1) x show ?thesis by (auto simp: records_writes_def) (metis snd_conv)
qed (use assms(2) in \<open>simp add: sh_poll_def\<close>)

lemma poll_observed_written:
  assumes "records_writes env written" "poll_exit_observed env k w = (b, k', w')"
  shows "written w' = written w"
proof (cases "wk_exited k = None")
  case True
  obtain r s v where p: "sh_poll (en_backend env) (wk_killer k) w = (r, s, v)" by (metis prod_cases3)
  obtain now u where n: "en_now env v = (now, u)" by fastforce
  have "written v = written w" by (rule sh_poll_written [OF assms(1) p])
  moreover have "written u = written v" using assms(1) n by (auto simp: records_writes_def) (metis snd_conv)
  moreover have "w' = v \<or> w' = u"
    using assms(2) True p n by (auto simp: poll_exit_observed_def split: sum.splits option.splits)
  ultimately show ?thesis by auto
qed (use assms(2) in \<open>simp add: poll_exit_observed_def\<close>)

text \<open>How far a write got: to the end, into a chunk whose write failed, or to the end of some chunk.\<close>

definition write_end :: "process_error + unit \<Rightarrow> u8 list list \<Rightarrow> u8 list \<Rightarrow> bool" where
  "write_end r cs out \<longleftrightarrow> (case r of
       Inr _ \<Rightarrow> out = concat cs
     | Inl (PeIo _) \<Rightarrow> \<exists>n. out = take n (concat cs)
     | Inl _ \<Rightarrow> \<exists>j. out = concat (take j cs))"

lemma write_end_Cons: "write_end r cs out \<Longrightarrow> write_end r (c # cs) (c @ out)"
proof (cases r)
  case (Inl e)
  assume w: "write_end r cs out"
  have "\<exists>n'. c @ take n (concat cs) = take n' (c @ concat cs)" for n
    by (rule exI [of _ "length c + n"]) simp
  moreover have "\<exists>j'. c @ concat (take j cs) = concat (take j' (c # cs))" for j
    by (rule exI [of _ "Suc j"]) simp
  ultimately show ?thesis using w Inl by (cases e) (auto simp: write_end_def)
qed (simp add: write_end_def)

lemma write_end_nothing: "(\<And>t. e \<noteq> PeIo t) \<Longrightarrow> write_end (Inl e) cs []"
  by (cases e) (auto simp: write_end_def intro: exI [of _ 0])

lemma write_chunks_written:
  assumes rw: "records_writes env written"
  shows "write_chunks env cs k w = (r, k', w') \<Longrightarrow> \<exists>out. written w' = written w @ out \<and> write_end r cs out"
proof (induction cs arbitrary: k w)
  case (Cons c cs)
  obtain flag w1 where 1: "en_shutdown env w = (flag, w1)" by fastforce
  obtain b k2 w2 where 2: "poll_exit_observed env k w1 = (b, k2, w2)" by (metis prod_cases3)
  have "written w1 = written w" using rw 1 by (auto simp: records_writes_def) (metis snd_conv)
  then have same: "written w2 = written w" using poll_observed_written [OF rw 2] by simp
  show ?case
  proof (cases "\<not> flag \<and> \<not> b \<and> wk_writer k2 \<noteq> None")
    case True
    then obtain h where h: "wk_writer k2 = Some h" by blast
    obtain x w3 where x: "en_write_all env h c w2 = (x, w3)" by fastforce
    show ?thesis
    proof (cases x)
      case (Inl e)
      then obtain n where "written w3 = written w2 @ take n c" using rw x by (auto simp: records_writes_def) metis
      moreover have "write_end (Inl (PeIo t)) (c # cs) (take n c)" for t
        by (auto simp: write_end_def min_def intro!: exI [of _ "min n (length c)"])
      ultimately show ?thesis using Cons.prems 1 2 True h x Inl same by auto
    next
      case (Inr u)
      then have w3: "written w3 = written w @ c" using rw x same by (simp add: records_writes_def)
      from Cons.prems 1 2 True h x Inr have "write_chunks env cs k2 w3 = (r, k', w')" by simp
      from Cons.IH [OF this] w3 write_end_Cons show ?thesis by fastforce
    qed
  next
    case False
    with Cons.prems 1 2 have "\<exists>e. r = Inl e \<and> (\<forall>t. e \<noteq> PeIo t) \<and> (w' = w1 \<or> w' = w2)"
      by (auto split: bool.splits)
    with same \<open>written w1 = written w\<close> write_end_nothing show ?thesis by auto
  qed
qed (auto simp: write_end_def)

text \<open>
  What a write leaves in the child's input. A write that succeeds has written exactly its bytes; one that is
  refused because the session is shutting down, the child has exited or the input is closed has written a whole
  number of \<open>WRITE_CHUNK\<close> blocks from the front; one that fails in the system has written some prefix. Nothing is
  ever reordered, repeated or left out in the middle.
\<close>

lemma write_prefix:
  assumes "records_writes env written" "apply_write env bs k w = (r, k', w')"
  shows "\<exists>out. written w' = written w @ out \<and> (case r of
      Inr _ \<Rightarrow> out = bs
    | Inl (PeIo _) \<Rightarrow> \<exists>n. out = take n bs
    | Inl _ \<Rightarrow> \<exists>j. out = take (j * WRITE_CHUNK) bs)"
proof -
  obtain flag w1 where 1: "en_shutdown env w = (flag, w1)" by fastforce
  have same: "written w1 = written w" using assms(1) 1 by (auto simp: records_writes_def) (metis snd_conv)
  obtain out where out: "written w' = written w @ out" "write_end r (chunks WRITE_CHUNK bs) out"
  proof (cases "wk_exited k = None \<and> \<not> flag \<and> wk_writer k \<noteq> None")
    case True
    with assms(2) 1 have "write_chunks env (chunks WRITE_CHUNK bs) k w1 = (r, k', w')" by (simp add: apply_write_def)
    from write_chunks_written [OF assms(1) this] same that show ?thesis by auto
  next
    case False
    with assms(2) 1 have "\<exists>e. r = Inl e \<and> (\<forall>t. e \<noteq> PeIo t) \<and> (w' = w \<or> w' = w1)"
      by (auto simp: apply_write_def split: if_splits bool.splits)
    with same write_end_nothing that show ?thesis by auto
  qed
  have chunk: "concat (take j (chunks WRITE_CHUNK bs)) = take (j * WRITE_CHUNK) bs" for j
    by (rule chunks_take) (simp add: WRITE_CHUNK_def)
  show ?thesis using out unfolding write_end_def concat_chunks chunk by blast
qed

lemma demo_writes: "records_writes demo_env dm_written"
  by (simp add: records_writes_def demo_env_def demo_backend_def)

lemma write_prefix_witness:
  "\<exists>k w. apply_write demo_env (bytes ''hi'') (worker_new () demo_config shared_default) demo_world = (Inr (), k, w)
    \<and> dm_written w = bytes ''hi''"
proof -
  let ?k = "worker_new () demo_config shared_default"
  obtain r k w where r: "apply_write demo_env (bytes ''hi'') ?k demo_world = (r, k, w)" by (metis prod_cases3)
  have "poll_exit_observed demo_env ?k demo_world = (False, ?k, demo_world)"
    by (simp add: poll_exit_observed_def worker_new_def demo_config_def sh_poll_demo) (simp add: demo_world_def)
  then have "r = Inr ()" using r
    by (simp add: apply_write_def worker_new_def demo_env_def demo_world_def WRITE_CHUNK_def)
  with write_prefix [OF demo_writes r] r show ?thesis by (simp add: demo_world_def)
qed

end
