(* ===== verification/Worker_Complete.thy ===== *)
theory Worker_Complete
  imports Worker_Output
begin

text \<open>
  A clean end of the stream proves that the capture is complete: an outcome \<open>CleanEof\<close> is declared only when every
  byte the reader has sent went through the grid and into the log.
\<close>

section \<open>What the worker has taken from the channel\<close>

definition msg_bytes :: "data_msg list \<Rightarrow> u8 list" where
  "msg_bytes ms = concat (map (\<lambda>m. case m of Bytes bs \<Rightarrow> bs | StreamEnd _ \<Rightarrow> []) ms)"

lemma msg_bytes_simps [simp]:
  "msg_bytes [] = []" "msg_bytes (ms @ ns) = msg_bytes ms @ msg_bytes ns" "msg_bytes [Bytes bs] = bs" "msg_bytes [StreamEnd e] = []"
  by (simp_all add: msg_bytes_def)

text \<open>\<open>received\<close> are the messages that the data channel has handed out; no other call takes one.\<close>

definition channel_log :: "('p, 'b, 'w) session_env \<Rightarrow> ('w \<Rightarrow> data_msg list) \<Rightarrow> bool" where
  "channel_log env received \<longleftrightarrow>
     (\<forall>w. received (snd (en_try_recv env w)) = received w @ (case fst (en_try_recv env w) of Received m \<Rightarrow> [m] | _ \<Rightarrow> []))
   \<and> (\<forall>w. received (en_inflight_sub env w) = received w)
   \<and> (\<forall>w. received (snd (en_inflight env w)) = received w)
   \<and> (\<forall>w. received (snd (en_shutdown env w)) = received w)
   \<and> (\<forall>w. received (snd (en_now env w)) = received w)
   \<and> (\<forall>n w. received (en_sleep env n w) = received w)
   \<and> (\<forall>h bs w. received (snd (en_write_all env h bs w)) = received w)
   \<and> (\<forall>h w. received (en_drop_writer env h w) = received w)
   \<and> (\<forall>w. received (snd (en_ctl_recv env w)) = received w)
   \<and> (\<forall>r w. received (en_reply env r w) = received w)
   \<and> (\<forall>h w. received (snd (pb_try_wait (en_backend env) h w)) = received w)
   \<and> (\<forall>h w. received (snd (pb_kill (en_backend env) h w)) = received w)
   \<and> (\<forall>h r c w. received (snd (pb_resize (en_backend env) h r c w)) = received w)"

lemma channel_calls:
  assumes "channel_log env received"
  shows "en_inflight env w = (n, w') \<Longrightarrow> received w' = received w" "en_shutdown env w = (b, w') \<Longrightarrow> received w' = received w"
    "en_now env w = (t, w') \<Longrightarrow> received w' = received w" "en_write_all env h bs w = (x, w') \<Longrightarrow> received w' = received w"
    "en_ctl_recv env w = (msg, w') \<Longrightarrow> received w' = received w"
    "pb_try_wait (en_backend env) h w = (y, w') \<Longrightarrow> received w' = received w"
    "pb_kill (en_backend env) h w = (z, w') \<Longrightarrow> received w' = received w"
    "pb_resize (en_backend env) h r c w = (zz, w') \<Longrightarrow> received w' = received w"
    "en_try_recv env w = (q, w') \<Longrightarrow> received w' = received w @ (case q of Received m \<Rightarrow> [m] | _ \<Rightarrow> [])"
    "received (en_inflight_sub env w) = received w" "received (en_sleep env ms w) = received w"
    "received (en_drop_writer env h w) = received w" "received (en_reply env rp w) = received w"
  using assms by (auto simp: channel_log_def) (metis fst_conv snd_conv)+

text \<open>What the capture consists of; an operation at rest leaves it alone and takes no message.\<close>

definition capture_view :: "'p worker \<Rightarrow> u8 list \<times> nat \<times> bool \<times> nat \<times> bool \<times> stream_state option \<times> stream_end_kind option" where
  "capture_view k = (wk_output_log k, wk_bytes_pumped k, wk_record_output k, wk_output_cap_bytes k, wk_finalized k,
     wk_final_stream k, wk_stream_end k)"

definition at_rest :: "('w \<Rightarrow> data_msg list) \<Rightarrow> 'p worker \<times> 'w \<Rightarrow> 'p worker \<times> 'w \<Rightarrow> bool" where
  "at_rest received kw kw' \<longleftrightarrow> capture_view (fst kw') = capture_view (fst kw) \<and> received (snd kw') = received (snd kw)"

lemma rest_refl [simp]: "at_rest received kw kw"
  by (simp add: at_rest_def)

lemma rest_trans: "at_rest received a b \<Longrightarrow> at_rest received b c \<Longrightarrow> at_rest received a c"
  by (simp add: at_rest_def)

lemma rest_updates [simp]:
  "capture_view (k\<lparr>wk_grid := g\<rparr>) = capture_view k" "capture_view (k\<lparr>wk_events := es\<rparr>) = capture_view k"
  "capture_view (k\<lparr>wk_killer := s\<rparr>) = capture_view k" "capture_view (k\<lparr>wk_writer := wr\<rparr>) = capture_view k"
  "capture_view (k\<lparr>wk_resizes := n\<rparr>) = capture_view k" "capture_view (k\<lparr>wk_reported_fg := c\<rparr>) = capture_view k"
  "capture_view (k\<lparr>wk_reported_bg := c\<rparr>) = capture_view k" "capture_view (k\<lparr>wk_exited := x\<rparr>) = capture_view k"
  "capture_view (k\<lparr>wk_exit_seen_at := t\<rparr>) = capture_view k" "capture_view (k\<lparr>wk_shared := sd\<rparr>) = capture_view k"
  "capture_view (k\<lparr>wk_dropped_after_drain := n\<rparr>) = capture_view k" "capture_view (bump_revision k) = capture_view k"
  by (simp_all add: capture_view_def bump_revision_def Let_def)

lemma sh_poll_rest:
  assumes "channel_log env received" "sh_poll (en_backend env) s w = (r, s', w')"
  shows "received w' = received w"
proof (cases "sh_reaped s")
  case False
  obtain x v where x: "pb_try_wait (en_backend env) (pt_inner (sh_child s)) w = (x, v)" by fastforce
  then have "w' = v" using assms(2) False
    by (cases x) (auto simp: sh_poll_def pt_try_wait_def Let_def split: option.splits)
  with channel_calls(6) [OF assms(1) x] show ?thesis by simp
qed (use assms(2) in \<open>simp add: sh_poll_def\<close>)

lemma poll_observed_rest:
  assumes "channel_log env received" "poll_exit_observed env k w = (b, k', w')"
  shows "at_rest received (k, w) (k', w')"
proof (cases "wk_exited k = None")
  case True
  obtain r s v where p: "sh_poll (en_backend env) (wk_killer k) w = (r, s, v)" by (metis prod_cases3)
  obtain now u where n: "en_now env v = (now, u)" by fastforce
  have "received v = received w" "received u = received v"
    using sh_poll_rest [OF assms(1) p] channel_calls(3) [OF assms(1) n] .
  with assms(2) True p n show ?thesis
    by (auto simp: poll_exit_observed_def at_rest_def split: sum.splits option.splits)
qed (use assms(2) in \<open>simp add: poll_exit_observed_def\<close>)

lemma write_chunks_rest:
  assumes cl: "channel_log env received"
  shows "write_chunks env cs k w = (r, k', w') \<Longrightarrow> at_rest received (k, w) (k', w')"
proof (induction cs arbitrary: k w)
  case (Cons c cs)
  obtain flag w1 where 1: "en_shutdown env w = (flag, w1)" by fastforce
  obtain b k2 w2 where 2: "poll_exit_observed env k w1 = (b, k2, w2)" by (metis prod_cases3)
  have w1: "at_rest received (k, w) (k, w1)" using channel_calls(2) [OF cl 1] by (simp add: at_rest_def)
  have w2: "at_rest received (k, w) (k2, w2)" using rest_trans [OF w1 poll_observed_rest [OF cl 2]] .
  show ?case
  proof (cases "\<not> flag \<and> \<not> b \<and> wk_writer k2 \<noteq> None")
    case True
    then obtain h where h: "wk_writer k2 = Some h" by blast
    obtain x w3 where x: "en_write_all env h c w2 = (x, w3)" by fastforce
    have w3: "at_rest received (k, w) (k2, w3)" using w2 channel_calls(4) [OF cl x] by (simp add: at_rest_def)
    show ?thesis
    proof (cases x)
      case (Inl e)
      with Cons.prems 1 2 True h x w3 show ?thesis by auto
    next
      case (Inr u)
      with Cons.prems 1 2 True h x have "write_chunks env cs k2 w3 = (r, k', w')" by simp
      from rest_trans [OF w3 Cons.IH [OF this]] show ?thesis .
    qed
  qed (use Cons.prems 1 2 w1 w2 in \<open>auto split: bool.splits\<close>)
qed simp

lemma io_ops_rest:
  assumes cl: "channel_log env received"
  shows "apply_write env bs k w = (r, k', w') \<Longrightarrow> at_rest received (k, w) (k', w')"
    "apply_resize env cols rows k w = (r, k', w') \<Longrightarrow> at_rest received (k, w) (k', w')"
    "close_input env k w = (r, k', w') \<Longrightarrow> at_rest received (k, w) (k', w')"
proof -
  obtain flag w1 where 1: "en_shutdown env w = (flag, w1)" by fastforce
  have w1: "at_rest received (k, w) (k, w1)" using channel_calls(2) [OF cl 1] by (simp add: at_rest_def)
  show "apply_write env bs k w = (r, k', w') \<Longrightarrow> at_rest received (k, w) (k', w')"
    using 1 w1 rest_trans [OF w1 write_chunks_rest [OF cl]] by (auto simp: apply_write_def split: if_splits bool.splits)
  show "close_input env k w = (r, k', w') \<Longrightarrow> at_rest received (k, w) (k', w')"
    using channel_calls(12) [OF cl] by (auto simp: close_input_def at_rest_def split: if_splits option.splits)
  obtain x v where x: "pb_resize (en_backend env) (wk_master k) rows cols w = (x, v)" by fastforce
  show "apply_resize env cols rows k w = (r, k', w') \<Longrightarrow> at_rest received (k, w) (k', w')"
    using x channel_calls(8) [OF cl x]
    by (auto simp: apply_resize_def master_resize_def check_size_def io_bind_def io_lift_def io_err_def at_rest_def
        split: if_splits sum.splits)
qed

lemma handle_ctl_rest:
  assumes cl: "channel_log env received" and run: "handle_ctl env op k w = Some (Some (x, k', w'))" and "op \<noteq> CtlShutdown"
  shows "at_rest received (k, w) (k', w') \<and> \<not> x"
proof -
  note reply = channel_calls(13) [OF cl]
  show ?thesis
  proof (cases op)
    case (CtlWrite bs)
    obtain r k1 w1 where a: "apply_write env bs k w = (r, k1, w1)" by (metis prod_cases3)
    from io_ops_rest(1) [OF cl a] run CtlWrite a reply show ?thesis by (auto simp: handle_ctl_def at_rest_def)
  next
    case (CtlResize cols rows)
    obtain r k1 w1 where a: "apply_resize env cols rows k w = (r, k1, w1)" by (metis prod_cases3)
    from io_ops_rest(2) [OF cl a] run CtlResize a reply show ?thesis by (auto simp: handle_ctl_def at_rest_def)
  next
    case CtlCloseInput
    obtain r k1 w1 where a: "close_input env k w = (r, k1, w1)" by (metis prod_cases3)
    from io_ops_rest(3) [OF cl a] run CtlCloseInput a reply show ?thesis by (auto simp: handle_ctl_def at_rest_def)
  next
    case CtlObserve
    obtain n v where n: "en_inflight env w = (n, v)" by fastforce
    with channel_calls(1) [OF cl n] run CtlObserve reply show ?thesis
      by (auto simp: handle_ctl_def observe_def at_rest_def Let_def)
  next
    case (CtlSetColors fg bg)
    with run reply show ?thesis by (cases fg; cases bg) (auto simp: handle_ctl_def at_rest_def Let_def)
  qed (use run reply assms(3) in \<open>auto simp: handle_ctl_def at_rest_def split_beta\<close>)
qed

section \<open>Draining\<close>

text \<open>Feeding reads the shutdown flag and writes replies, nothing else.\<close>

lemma route_keeps:
  assumes "\<And>w. f (snd (en_shutdown env w)) = f w" "\<And>h bs w. f (snd (en_write_all env h bs w)) = f w"
  shows "f (snd (route_event env (k, w) ev)) = f w"
proof (cases "\<exists>bs. ev = Reply bs")
  case True
  then obtain bs where ev: "ev = Reply bs" by blast
  obtain b v where b: "en_shutdown env w = (b, v)" by fastforce
  show ?thesis
  proof (cases "wk_writer k")
    case (Some wr)
    obtain x u where x: "en_write_all env wr bs v = (x, u)" by fastforce
    show ?thesis using ev b x Some assms(1) [of w] assms(2) [of wr bs v]
      by (cases b; cases x) (auto simp: route_reply_def)
  qed (simp add: ev route_reply_def)
next
  case False
  then show ?thesis by (cases ev) auto
qed

lemma feed_keeps:
  assumes "\<And>w. f (snd (en_shutdown env w)) = f w" "\<And>h bs w. f (snd (en_write_all env h bs w)) = f w"
    and "feed env bs (k, w) = Some (k', w')"
  shows "f w' = f w"
proof (cases "wk_finalized k")
  case False
  have evs: "f (snd (foldl (route_event env) (k, w) evs)) = f w" for evs k w
  proof (induction evs arbitrary: k w)
    case (Cons ev evs)
    obtain k1 w1 where 1: "route_event env (k, w) ev = (k1, w1)" by fastforce
    from Cons.IH [of k1 w1] route_keeps [of f env k w ev, OF assms(1,2)] show ?case by (simp add: 1)
  qed simp
  from assms(3) [unfolded feed_eq [OF False]] obtain k1 where
    "(case foldl (route_event env) (drop_events (pump bs k1), w) (fst (drain_passthrough (dg_grid (wk_grid (pump bs k1))))) of
       (k', w') \<Rightarrow> (bump_revision k', w')) = (k', w')" by auto
  with evs [of "drop_events (pump bs k1)" w] show ?thesis by (auto simp: split_beta)
qed (use assms(3) in \<open>simp add: feed_finalized\<close>)

lemma received_feed:
  assumes "channel_log env received" "feed env bs (k, w) = Some (k', w')"
  shows "received w' = received w"
proof (rule feed_keeps [OF _ _ assms(2)])
  show "received (snd (en_shutdown env w)) = received w" "received (snd (en_write_all env h bs w)) = received w" for h bs w
    using assms(1) unfolding channel_log_def by blast+
qed

text \<open>
  The capture against the messages taken so far: up to the declaration of the outcome every byte taken is in the
  counts and, below its cap, in the log, and a clean end is noted only when it was taken.
\<close>

definition captured_by :: "bool \<times> nat \<Rightarrow> 'p worker \<Rightarrow> data_msg list \<Rightarrow> data_msg list \<Rightarrow> bool" where
  "captured_by cfg k ms late \<longleftrightarrow> (wk_record_output k, wk_output_cap_bytes k) = cfg \<and> (\<not> wk_finalized k \<longrightarrow> late = [])
     \<and> wk_bytes_pumped k = length (msg_bytes ms)
     \<and> wk_output_log k = (if wk_record_output k then take (wk_output_cap_bytes k) (msg_bytes ms) else [])
     \<and> (\<not> wk_finalized k \<and> wk_stream_end k = Some EndCleanEof \<longrightarrow> StreamEnd EndCleanEof \<in> set ms)
     \<and> (wk_final_stream k = Some CleanEof \<longrightarrow> StreamEnd EndCleanEof \<in> set ms)"

definition all_captured :: "bool \<times> nat \<Rightarrow> 'p worker \<Rightarrow> data_msg list \<Rightarrow> bool" where
  "all_captured cfg k taken \<longleftrightarrow> (\<exists>ms late. taken = ms @ late \<and> captured_by cfg k ms late)"

lemma captured_by_view:
  assumes "capture_view k' = capture_view k"
  shows "captured_by cfg k' ms late \<longleftrightarrow> captured_by cfg k ms late"
proof -
  from assms have "wk_output_log k' = wk_output_log k" "wk_bytes_pumped k' = wk_bytes_pumped k" "wk_record_output k' = wk_record_output k"
    "wk_output_cap_bytes k' = wk_output_cap_bytes k" "wk_finalized k' = wk_finalized k" "wk_final_stream k' = wk_final_stream k"
    "wk_stream_end k' = wk_stream_end k" by (simp_all add: capture_view_def)
  then show ?thesis by (simp only: captured_by_def)
qed

lemma all_captured_rest:
  assumes "at_rest received (k, w) (k', w')" "all_captured cfg k (received w)"
  shows "all_captured cfg k' (received w')"
  using assms captured_by_view [of k' k cfg] by (simp add: at_rest_def all_captured_def)

lemma all_captured_late:
  assumes "wk_finalized k" "all_captured cfg k taken" "capture_view k' = capture_view k \<or> k' = note_stream_end e k"
  shows "all_captured cfg k' (taken @ late)"
proof -
  from assms(2) obtain ms rest where ms: "taken = ms @ rest" "captured_by cfg k ms rest" by (auto simp: all_captured_def)
  then have "captured_by cfg k ms (rest @ late)" using assms(1) by (simp add: captured_by_def)
  moreover have "captured_by cfg (note_stream_end e k) ms l = captured_by cfg k ms l" for l
    using assms(1) by (simp add: captured_by_def note_stream_end_def)
  ultimately have "captured_by cfg k' ms (rest @ late)" using assms(3) captured_by_view [of k' k cfg] by auto
  with ms(1) show ?thesis by (auto simp: all_captured_def)
qed

lemma all_captured_open: "\<not> wk_finalized k \<Longrightarrow> all_captured cfg k taken \<longleftrightarrow> captured_by cfg k taken []"
  by (auto simp: all_captured_def captured_by_def)

lemma all_captured_now: "captured_by cfg k taken [] \<Longrightarrow> all_captured cfg k taken"
  using append_Nil2 [symmetric, of taken] unfolding all_captured_def by blast

lemma all_captured_end:
  assumes "all_captured cfg k taken"
  shows "all_captured cfg (note_stream_end e k) (taken @ [StreamEnd e])"
proof (cases "wk_finalized k")
  case False
  then have "\<not> wk_finalized (note_stream_end e k)" by (simp add: note_stream_end_def)
  then show ?thesis using assms False
    by (cases "wk_stream_end k") (simp_all add: all_captured_open, simp_all add: captured_by_def note_stream_end_def)
qed (use all_captured_late [OF _ assms] in blast)

lemma all_captured_lost:
  assumes "all_captured cfg k taken"
  shows "all_captured cfg (note_stream_end (EndReadFailed msg) k) taken"
proof -
  from assms obtain ms late where "taken = ms @ late" "captured_by cfg k ms late" by (auto simp: all_captured_def)
  moreover have "captured_by cfg (note_stream_end (EndReadFailed msg) k) ms late"
    using \<open>captured_by cfg k ms late\<close> by (cases "wk_stream_end k") (simp_all add: captured_by_def note_stream_end_def)
  ultimately show ?thesis by (auto simp: all_captured_def)
qed

lemma all_captured_bytes:
  assumes u: "u16_parser (en_parser env)" and inv: "worker_inv k" and cap: "all_captured cfg k taken"
    and run: "feed env bs (k, w) = Some (k', w')"
  shows "all_captured cfg k' (taken @ [Bytes bs])"
proof (cases "wk_finalized k")
  case True
  with run have "capture_view k' = capture_view k" by (auto simp: feed_finalized)
  with all_captured_late [OF True cap] show ?thesis by blast
next
  case False
  note f = feed_fields [OF u inv False run]
  have "captured_by cfg k taken []" using cap False by (simp add: all_captured_open)
  then have "captured_by cfg k' (taken @ [Bytes bs]) []" using f False by (auto simp: captured_by_def min_def)
  with f show ?thesis by (simp add: all_captured_open)
qed

definition complete_inv :: "('w \<Rightarrow> data_msg list) \<Rightarrow> bool \<times> nat \<Rightarrow> 'p worker \<Rightarrow> 'w \<Rightarrow> bool" where
  "complete_inv received cfg k w \<longleftrightarrow> worker_inv k \<and> all_captured cfg k (received w)"

lemma drain_complete:
  fixes env :: "('p, 'b, 'w) session_env"
  assumes u: "u16_parser (en_parser env)" and cl: "channel_log env received"
    and run: "drain_data env k w = Some r" and I: "complete_inv received cfg k w"
  shows "\<exists>k' w'. r = Some (k', w') \<and> complete_inv received cfg k' w'"
proof (rule drain_loop_rule [where I = "complete_inv received cfg", OF _ _ _ _ run [unfolded drain_data_def] I])
  fix bs v w and k :: "'p worker"
  assume k: "complete_inv received cfg k w" and recv: "en_try_recv env w = (Received (Bytes bs), v)"
  have v: "received (en_inflight_sub env v) = received w @ [Bytes bs]" using channel_calls(9) [OF cl recv] channel_calls(10) [OF cl] by simp
  have inv: "worker_inv k" and cap: "all_captured cfg k (received w)" using k by (simp_all add: complete_inv_def)
  from feed_ok [OF u, OF inv, of bs "en_inflight_sub env v"] obtain k' w' where
    f: "feed env bs (k, en_inflight_sub env v) = Some (k', w')" "worker_inv k'" by (auto simp: ok_iff_ex)
  with all_captured_bytes [OF u inv cap f(1)] received_feed [OF cl f(1)] v
  show "ok (feed env bs (k, en_inflight_sub env v)) (\<lambda>(k', w'). complete_inv received cfg k' w')" by (simp add: complete_inv_def)
next
  fix e v w and k :: "'p worker"
  assume "complete_inv received cfg k w" "en_try_recv env w = (Received (StreamEnd e), v)"
  then show "complete_inv received cfg (note_stream_end e k) (en_inflight_sub env v)"
    using channel_calls(9,10) [OF cl] by (auto simp: complete_inv_def note_stream_end_inv all_captured_end)
next
  fix v w and k :: "'p worker"
  assume "complete_inv received cfg k w" "en_try_recv env w = (RecvEmpty, v)"
  then show "complete_inv received cfg k v" using channel_calls(9) [OF cl] by (auto simp: complete_inv_def)
next
  fix msg v w and k :: "'p worker"
  assume "complete_inv received cfg k w" "en_try_recv env w = (RecvDisconnected, v)"
  then show "complete_inv received cfg (note_stream_end (EndReadFailed msg) k) v"
    using channel_calls(9) [OF cl] by (auto simp: complete_inv_def note_stream_end_inv all_captured_lost)
qed

section \<open>Declaring the outcome\<close>

lemma all_captured_declare:
  assumes "all_captured cfg k taken" "\<not> wk_finalized k" "missing \<noteq> CleanEof"
  shows "all_captured cfg (declare_outcome s exit (k\<lparr>wk_finalized := True, wk_final_stream := Some (final_stream missing k)\<rparr>)) taken"
    "all_captured cfg (k\<lparr>wk_finalized := True, wk_final_stream := Some (final_stream missing k)\<rparr>) taken"
proof -
  have clean: "final_stream missing k = CleanEof \<longleftrightarrow> wk_stream_end k = Some EndCleanEof"
  proof (cases "wk_stream_end k")
    case (Some e)
    then show ?thesis by (cases e) (simp_all add: final_stream_def)
  qed (use assms(3) in \<open>simp add: final_stream_def\<close>)
  from assms(1,2) have "captured_by cfg k taken []" by (simp add: all_captured_open)
  then have "captured_by cfg (declare_outcome s exit (k\<lparr>wk_finalized := True, wk_final_stream := Some (final_stream missing k)\<rparr>)) taken []"
    "captured_by cfg (k\<lparr>wk_finalized := True, wk_final_stream := Some (final_stream missing k)\<rparr>) taken []"
    using assms(2) by (auto simp: captured_by_def declare_outcome_def clean)
  then show "all_captured cfg (declare_outcome s exit (k\<lparr>wk_finalized := True, wk_final_stream := Some (final_stream missing k)\<rparr>)) taken"
    "all_captured cfg (k\<lparr>wk_finalized := True, wk_final_stream := Some (final_stream missing k)\<rparr>) taken"
    by (simp_all add: all_captured_now)
qed

lemma poll_exit_state_complete:
  assumes cl: "channel_log env received" and I: "complete_inv received cfg k w" and run: "poll_exit_state env k w = (k', w')"
  shows "complete_inv received cfg k' w'"
proof (cases "wk_finalized k")
  case False
  obtain b k1 w1 where p: "poll_exit_observed env k w = (b, k1, w1)" by (metis prod_cases3)
  note rest = poll_observed_rest [OF cl p]
  from all_captured_rest [OF this] I have cap: "all_captured cfg k1 (received w1)" by (simp add: complete_inv_def)
  have fin: "\<not> wk_finalized k1" using rest False by (simp add: at_rest_def capture_view_def)
  obtain t w2 where n: "en_now env w1 = (t, w2)" by fastforce
  note w2 = channel_calls(3) [OF cl n]
  note dec = all_captured_declare [OF cap fin, of DrainExpired]
  have "all_captured cfg k' (received w')"
    using run False p n w2 cap dec
    by (auto simp: poll_exit_state_def Let_def split: bool.splits if_splits option.splits)
  with poll_exit_state_inv [OF _ run] I show ?thesis by (simp add: complete_inv_def)
qed (use assms in \<open>simp add: poll_exit_state_def\<close>)

section \<open>Shutdown\<close>

lemma received_reap:
  fixes env :: "('p, 'b, 'w) session_env" and received :: "'w \<Rightarrow> data_msg list"
  assumes cl: "channel_log env received" and run: "reap_loop env dl s d w = Some r"
  shows "received (snd (snd r)) = received w"
proof -
  define P where "P e t s d w r \<longleftrightarrow> (e = env \<longrightarrow> received (snd (snd r)) = received w)"
    for e :: "('p, 'b, 'w) session_env" and t :: nat and s :: shared_child and d :: shared and w :: 'w and r :: "shared_child \<times> shared \<times> 'w"
  have "P env dl s d w r"
  proof (rule reap_loop.raw_induct [OF _ run])
    fix rl e t s d w r
    assume IH: "\<And>e t s d w r. rl e t s d w = Some r \<Longrightarrow> P e t s d w r"
      and eq: "(case sh_poll (en_backend e) s w of (r, s, w) \<Rightarrow> (case r of
          Inl err \<Rightarrow> Some (s, record_teardown (''child reap during teardown failed: '' @ io_text err) d, w)
        | Inr st \<Rightarrow> (case st of
            None \<Rightarrow> (case en_now e w of (now, w) \<Rightarrow>
              if t \<le> now then Some (s, record_teardown ''child still alive after kill grace'' d, w)
              else rl e t s d (en_sleep e 10 w))
          | Some status \<Rightarrow> Some (s, d, w)))) = Some r"
    obtain x s1 w1 where p: "sh_poll (en_backend e) s w = (x, s1, w1)" by (metis prod_cases3)
    obtain now w2 where n: "en_now e w1 = (now, w2)" by fastforce
    show "P e t s d w r"
      unfolding P_def
    proof
      assume e: "e = env"
      have "received w1 = received w" "received w2 = received w1"
        using sh_poll_rest [OF cl p [unfolded e]] channel_calls(3) [OF cl n [unfolded e]] .
      then show "received (snd (snd r)) = received w"
        using eq p n e channel_calls(11) [OF cl] IH [of e t s1 d "en_sleep e 10 w2" r]
        by (auto simp: P_def split: sum.split_asm option.split_asm if_split_asm)
    qed
  qed
  then show ?thesis by (simp add: P_def)
qed

lemma received_shutdown_child:
  assumes cl: "channel_log env received" and run: "shutdown_child env s d w = Some (s', d', w')"
  shows "received w' = received w"
proof -
  obtain x s1 w1 where p: "sh_poll (en_backend env) s w = (x, s1, w1)" by (metis prod_cases3)
  obtain kr w2 where kr: "kill_locked (en_backend env) s1 w1 = (kr, w2)" by fastforce
  obtain now w3 where now: "en_now env w2 = (now, w3)" by fastforce
  have w2: "received w2 = received w1" using kr cl
    by (auto simp: kill_locked_def pt_kill_def channel_log_def split: if_splits) (metis snd_conv)
  note w = sh_poll_rest [OF cl p] w2 channel_calls(3) [OF cl now]
  show ?thesis using run p kr now w received_reap [OF cl]
    by (cases x; cases kr) (fastforce simp: shutdown_child_def Let_def split: option.split_asm)+
qed

lemma received_finish:
  assumes cl: "channel_log env received" and run: "finish_shutdown env k w = Some (k', w')"
  shows "received w' = received w"
proof -
  from run obtain s d v where sd: "shutdown_child env (wk_killer k) (wk_shared k) w = Some (s, d, v)"
    by (auto simp: finish_shutdown_def bind_eq_Some_conv)
  obtain r s1 v1 where p: "sh_poll (en_backend env) s v = (r, s1, v1)" by (metis prod_cases3)
  have "received v = received w" "received v1 = received v" using received_shutdown_child [OF cl sd] sh_poll_rest [OF cl p] .
  then show ?thesis using run sd p by (auto simp: finish_shutdown_def Let_def split: if_splits)
qed

lemma finish_shutdown_complete:
  assumes cl: "channel_log env received" and I: "complete_inv received cfg k w" and run: "finish_shutdown env k w = Some (k', w')"
  shows "complete_inv received cfg k' w'"
proof -
  from run obtain s d v where sd: "shutdown_child env (wk_killer k) (wk_shared k) w = Some (s, d, v)"
    by (auto simp: finish_shutdown_def bind_eq_Some_conv)
  define k1 where "k1 = k\<lparr>wk_killer := s, wk_shared := d\<rparr>"
  obtain r s1 v1 where p: "sh_poll (en_backend env) s v = (r, s1, v1)" by (metis prod_cases3)
  define k2 where "k2 = (if wk_exited k1 = None
    then k1\<lparr>wk_killer := s1, wk_exited := (case r of Inr st \<Rightarrow> st | Inl _ \<Rightarrow> None)\<rparr> else k1)"
  note w' = received_finish [OF cl run]
  have "capture_view k2 = capture_view k" by (simp add: k2_def k1_def)
  with I all_captured_rest [of received k w k2 w] have k2: "all_captured cfg k2 (received w)"
    by (auto simp: at_rest_def complete_inv_def)
  define k3 where "k3 = (if \<not> wk_finalized k2 then declare_outcome (final_stream Aborted k2)
    (case wk_exited k2 of Some e \<Rightarrow> e | None \<Rightarrow> ex_unknown) (k2\<lparr>wk_finalized := True, wk_final_stream := Some (final_stream Aborted k2)\<rparr>) else k2)"
  have "all_captured cfg k3 (received w)" using k2 all_captured_declare(1) [OF k2, of Aborted] by (simp add: k3_def)
  moreover have "k' = k3\<lparr>wk_shared := mark_closed (wk_shared k3)\<rparr>"
    using run sd p
    by (auto simp: finish_shutdown_def Let_def k3_def k2_def k1_def declare_outcome_def split: if_splits option.splits)
  then have "capture_view k' = capture_view k3" by simp
  ultimately have "all_captured cfg k' (received w')"
    using all_captured_rest [of received k3 w k' w'] w' by (simp add: at_rest_def)
  with finish_shutdown_inv [OF _ run] I show ?thesis by (simp add: complete_inv_def)
qed

lemma shutdown_complete:
  assumes u: "u16_parser (en_parser env)" and cl: "channel_log env received" and I: "complete_inv received cfg k w"
    and run: "shutdown_and_exit env k w = Some (Some (k', w'))"
  shows "complete_inv received cfg k' w'"
proof -
  from run obtain d where d: "(if \<not> wk_finalized k then drain_data env k w else Some (Some (k, w))) = Some d"
    "(case d of None \<Rightarrow> Some None | Some (k, w) \<Rightarrow> map_option Some (finish_shutdown env k w)) = Some (Some (k', w'))"
    unfolding shutdown_and_exit_def bind_eq_Some_conv by blast
  have "\<exists>k1 w1. d = Some (k1, w1) \<and> complete_inv received cfg k1 w1"
    using d(1) I drain_complete [OF u cl] by (auto split: if_splits)
  then obtain k1 w1 where "d = Some (k1, w1)" "complete_inv received cfg k1 w1" by blast
  with d(2) finish_shutdown_complete [OF cl] show ?thesis by auto
qed

section \<open>The whole run\<close>

lemma handle_ctl_complete:
  assumes u: "u16_parser (en_parser env)" and cl: "channel_log env received" and I: "complete_inv received cfg k w"
    and fits: "ctl_fits op" and run: "handle_ctl env op k w = Some r"
  shows "\<exists>x k' w'. r = Some (x, k', w') \<and> complete_inv received cfg k' w'"
proof -
  have inv: "worker_inv k" and cap: "all_captured cfg k (received w)" using I by (simp_all add: complete_inv_def)
  from handle_ctl_safe [OF u inv fits run] obtain x k' w' where r: "r = Some (x, k', w')" "worker_inv k'" by blast
  have "all_captured cfg k' (received w')"
  proof (cases "op = CtlShutdown")
    case True
    with run r have "shutdown_and_exit env k w = Some (Some (k', w'))" by (auto simp: handle_ctl_def)
    with shutdown_complete [OF u cl I] show ?thesis by (simp add: complete_inv_def)
  next
    case False
    from all_captured_rest [of received k w k' w', OF _ cap] handle_ctl_rest [OF cl run [unfolded r(1)] False] show ?thesis by blast
  qed
  with r show ?thesis by (auto simp: complete_inv_def)
qed

lemma worker_tick_complete:
  assumes u: "u16_parser (en_parser env)" and ctl: "ctl_ok env" and cl: "channel_log env received" and I: "complete_inv received cfg k w"
    and run: "worker_tick env k w = Some (Some (x, k', w'))"
  shows "complete_inv received cfg k' w'"
proof -
  obtain flag w1 where 1: "en_shutdown env w = (flag, w1)" by fastforce
  obtain msg w2 where 2: "en_ctl_recv env w1 = (msg, w2)" by fastforce
  have w: "received w1 = received w" "received w2 = received w"
    using channel_calls(2) [OF cl 1] channel_calls(5) [OF cl 2] by simp_all
  then have I1: "complete_inv received cfg k w1" and I2: "complete_inv received cfg k w2" using I by (simp_all add: complete_inv_def)
  show ?thesis
  proof (cases "flag \<or> msg = CtlDisconnected")
    case True
    with run 1 2 obtain v where "shutdown_and_exit env k v = Some (Some (k', w'))" "v = w1 \<or> v = w2"
      by (cases flag) (auto simp: worker_tick_def)
    with shutdown_complete [OF u cl] I1 I2 show ?thesis by blast
  next
    case False
    define m where "m = (case msg of CtlReceived op \<Rightarrow> handle_ctl env op k w2 | _ \<Rightarrow> Some (Some (False, k, w2)))"
    from False run 1 2 obtain y where y: "m = Some y"
      "(case y of None \<Rightarrow> Some None | Some (True, k, w) \<Rightarrow> Some (Some (True, k, w))
        | Some (False, k, w) \<Rightarrow> Option.bind (drain_data env k w) (\<lambda>d.
            Some (map_option (\<lambda>(k, w). case poll_exit_state env k w of (k, w) \<Rightarrow> (False, k, w)) d))) = Some (Some (x, k', w'))"
      by (cases msg) (auto simp: worker_tick_def m_def bind_eq_Some_conv)
    have "\<exists>b k1 w3. y = Some (b, k1, w3) \<and> complete_inv received cfg k1 w3"
    proof (cases "\<exists>op. msg = CtlReceived op")
      case True
      then obtain op where op: "msg = CtlReceived op" by blast
      with ctl 2 have "ctl_fits op" by (auto simp: ctl_ok_def)
      from handle_ctl_complete [OF u cl I2 this] y(1) op show ?thesis by (simp add: m_def)
    next
      case False
      then show ?thesis using y(1) I2 by (cases msg) (auto simp: m_def)
    qed
    then obtain b k1 w3 where k1: "y = Some (b, k1, w3)" "complete_inv received cfg k1 w3" by blast
    show ?thesis
    proof (cases b)
      case True
      with y(2) k1 show ?thesis by auto
    next
      case False
      with y(2) k1(1) obtain d where d: "drain_data env k1 w3 = Some d"
        "map_option (\<lambda>(k, w). case poll_exit_state env k w of (k, w) \<Rightarrow> (False, k, w)) d = Some (x, k', w')"
        by (auto simp: bind_eq_Some_conv)
      from drain_complete [OF u cl d(1) k1(2)] obtain k2 w4 where "d = Some (k2, w4)" "complete_inv received cfg k2 w4" by blast
      with d(2) poll_exit_state_complete [OF cl] show ?thesis by (cases "poll_exit_state env k2 w4") auto
    qed
  qed
qed

lemma run_worker_complete:
  assumes u: "u16_parser (en_parser env)" and ctl: "ctl_ok env" and cl: "channel_log env received"
    and new: "worker_inv (worker_new p c shared_default)" "received w = []"
    and run: "run_worker env p c shared_default w = Some (Some (k, w'))"
  shows "all_captured (wc_record_output c, wc_output_cap_bytes c) k (received w')"
proof -
  let ?cfg = "(wc_record_output c, wc_output_cap_bytes c)"
  have "complete_inv received ?cfg (worker_new p c shared_default) w"
    using new by (simp add: complete_inv_def all_captured_now captured_by_def worker_new_def)
  moreover have "\<exists>x k' w'. r = Some (x, k', w') \<and> complete_inv received ?cfg k' w' \<and> (x \<longrightarrow> True)"
    if I: "complete_inv received ?cfg k w" and t: "worker_tick env k w = Some r" for k w r
  proof -
    from I have "worker_inv k" by (simp add: complete_inv_def)
    from worker_tick_safe [OF u ctl this t] obtain x k' w' where "r = Some (x, k', w')" by blast
    with worker_tick_complete [OF u ctl cl I] t show ?thesis by blast
  qed
  ultimately show ?thesis
    using worker_loop_rule [where I = "complete_inv received ?cfg" and Q = "\<lambda>_. True", OF _ run [unfolded run_worker_def]]
    by (auto simp: complete_inv_def)
qed

lemma clean_end_last:
  assumes "ms @ late @ rest = init @ [StreamEnd e]" "StreamEnd e' \<in> set ms" "\<forall>m \<in> set init. \<exists>bs. m = Bytes bs"
  shows "ms = init @ [StreamEnd e] \<and> late = [] \<and> rest = []"
proof -
  from assms(2) obtain i where i: "i < length ms" "ms ! i = StreamEnd e'" by (auto simp: in_set_conv_nth)
  have "\<not> i < length init"
  proof
    assume "i < length init"
    then have "(ms @ late @ rest) ! i = init ! i" using assms(1) by (simp add: nth_append)
    with i have "StreamEnd e' = init ! i" using \<open>i < length init\<close> by (simp add: nth_append)
    with assms(3) nth_mem [OF \<open>i < length init\<close>] show False by auto
  qed
  with i arg_cong [OF assms(1), of length] have "late = []" "rest = []" by (auto simp flip: length_0_conv)
  with assms(1) show ?thesis by simp
qed

text \<open>
  C33: a clean end of the stream proves that the capture is complete. When a worker that started on an untouched
  channel ends with the outcome \<open>CleanEof\<close>, every message that the reader sent (batches, then one stream end) was
  taken, the bytes pumped are all the bytes sent, and the log, when the session records, is the beginning of exactly
  those bytes, cut only at its cap.
\<close>

theorem capture_complete:
  assumes "u16_parser (en_parser env)" "ctl_ok env" "sh_inv (wc_killer c)"
    and "1 \<le> wc_rows c" "wc_rows c \<le> u16_max" "1 \<le> wc_cols c" "wc_cols c \<le> MAX_COLS"
    and "channel_log env received" "received w = []"
    and "run_worker env p c shared_default w = Some (Some (k, w'))"
    and "sd_outcome (wk_shared k) = Some oc" "oc_stream oc = CleanEof"
    and "\<forall>m \<in> set batches. \<exists>bs. m = Bytes bs" "received w' @ queued = batches @ [StreamEnd e]"
  shows "e = EndCleanEof \<and> queued = [] \<and> oc_bytes_pumped oc = length (msg_bytes batches)
    \<and> wk_output_log k = (if wc_record_output c then take (wc_output_cap_bytes c) (msg_bytes batches) else [])"
proof -
  let ?cfg = "(wc_record_output c, wc_output_cap_bytes c)"
  have new: "worker_inv (worker_new p c shared_default)" using assms(3-7) by (intro worker_new_inv)
  from run_worker_end [OF assms(1-7,10)] assms(11) have
    oc: "oc_bytes_pumped oc = wk_bytes_pumped k" "wk_final_stream k = Some (oc_stream oc)" by auto
  from run_worker_complete [OF assms(1,2,8) new assms(9,10)] obtain ms late where
    ms: "received w' = ms @ late" "captured_by ?cfg k ms late" by (auto simp: all_captured_def)
  then have clean: "StreamEnd EndCleanEof \<in> set ms" using oc(2) assms(12) by (simp add: captured_by_def)
  have all: "ms = batches @ [StreamEnd e]" "queued = []"
    using clean_end_last [of ms late queued batches e EndCleanEof] ms(1) clean assms(13,14) by simp_all
  moreover have "e = EndCleanEof" using clean all(1) assms(13) by auto
  ultimately show ?thesis using ms(2) oc(1) by (simp add: captured_by_def)
qed

text \<open>An example: the child has printed \<open>hi\<close> and is gone when the session is shut down.\<close>

record logged =
  lg_clock :: nat
  lg_queue :: "data_msg list"
  lg_taken :: "data_msg list"

definition logged_recv :: "logged \<Rightarrow> recv \<times> logged" where
  "logged_recv w = (case lg_queue w of
       [] \<Rightarrow> (RecvEmpty, w)
     | m # ms \<Rightarrow> (Received m, w\<lparr>lg_queue := ms, lg_taken := lg_taken w @ [m]\<rparr>))"

definition logged_backend :: "(unit, logged) pty_backend" where
  "logged_backend = \<lparr>pb_from_argv = (\<lambda>_. ()), pb_env_clear = id, pb_env_remove = (\<lambda>_. id), pb_env = (\<lambda>_ _. id), pb_cwd = (\<lambda>_. id),
     pb_openpty = (\<lambda>_ _. io_ret (1, 2)), pb_spawn_command = (\<lambda>_ _. io_ret 3), pb_drop_slave = (\<lambda>_. id),
     pb_clone_reader = (\<lambda>_. io_ret 4), pb_take_writer = (\<lambda>_. io_ret 5), pb_resize = (\<lambda>_ _ _. io_ret ()),
     pb_get_size = (\<lambda>_. io_ret (3, 4)), pb_process_id = (\<lambda>_. Some 77), pb_try_wait = (\<lambda>_. io_ret (Some (0, None))),
     pb_wait = (\<lambda>_. io_ret (0, None)), pb_kill = (\<lambda>_. io_ret ())\<rparr>"

definition logged_env :: "(unit, unit, logged) session_env" where
  "logged_env = \<lparr>en_width = example_width, en_parser = print_all, en_backend = logged_backend,
     en_kernel = \<lparr>k_kill = (\<lambda>_ _. io_ret ()), k_waitpid = (\<lambda>_ _. io_ret StillAlive), k_std_kill = (\<lambda>_. io_ret ()),
       k_std_waitpid = (\<lambda>_ _. io_ret None), k_getpgid = (\<lambda>p. io_ret p), k_getsid = (\<lambda>p. io_ret p)\<rparr>,
     en_signals = (\<lambda>_. None), en_try_recv = logged_recv, en_inflight_sub = id, en_inflight = (\<lambda>w. (0, w)),
     en_shutdown = (\<lambda>w. (True, w)), en_now = (\<lambda>w. (lg_clock w, w\<lparr>lg_clock := lg_clock w + 1\<rparr>)),
     en_sleep = (\<lambda>ms w. w\<lparr>lg_clock := lg_clock w + ms\<rparr>), en_write_all = (\<lambda>_ _. io_ret ()), en_drop_writer = (\<lambda>_. id),
     en_ctl_recv = (\<lambda>w. (CtlTimeout, w)), en_reply = (\<lambda>_. id)\<rparr>"

lemma logged_env_ok: "u16_parser (en_parser logged_env)" "ctl_ok logged_env" "ticking logged_env" "channel_log logged_env lg_taken"
proof -
  show "u16_parser (en_parser logged_env)" by (simp add: u16_parser_def logged_env_def print_all_def u16_call_def list_all_iff)
  show "ctl_ok logged_env" by (simp add: ctl_ok_def logged_env_def)
  show "ticking logged_env" by (simp add: ticking_def logged_env_def logged_backend_def io_ret_def)
  show "channel_log logged_env lg_taken"
    by (auto simp: channel_log_def logged_env_def logged_backend_def logged_recv_def io_ret_def split: list.split)
qed

lemma finish_shutdown_stream:
  assumes "finish_shutdown env k w = Some (k', w')" "\<not> wk_finalized k"
  shows "wk_final_stream k' = Some (final_stream Aborted k)"
  using assms by (auto simp: finish_shutdown_def bind_eq_Some_conv Let_def declare_outcome_def final_stream_def split_beta split: if_splits)

lemma capture_complete_witness:
  "\<exists>k w oc. run_worker logged_env () demo_config shared_default
      \<lparr>lg_clock = 0, lg_queue = [Bytes (bytes ''hi''), Bytes (bytes ''ho''), StreamEnd EndCleanEof], lg_taken = []\<rparr> = Some (Some (k, w))
    \<and> sd_outcome (wk_shared k) = Some oc \<and> oc_stream oc = CleanEof \<and> oc_bytes_pumped oc = 4 \<and> wk_output_log k = bytes ''hih''"
proof -
  let ?bs = "[Bytes (bytes ''hi''), Bytes (bytes ''ho'')]" and ?k = "worker_new () demo_config shared_default"
  let ?w = "\<lambda>q t. \<lparr>lg_clock = 0, lg_queue = q, lg_taken = t\<rparr>" and ?e = "StreamEnd EndCleanEof"
  have recv: "en_try_recv logged_env (?w (m # q) t) = (Received m, ?w q (t @ [m]))" "en_try_recv logged_env (?w [] t) = (RecvEmpty, ?w [] t)"
    "en_inflight_sub logged_env w = w" for m q t w by (simp_all add: logged_env_def logged_recv_def)
  have step: "\<exists>k1. feed logged_env bs (k, w) = Some (k1, w) \<and> worker_inv k1 \<and> \<not> wk_finalized k1 \<and> wk_stream_end k1 = wk_stream_end k"
    if k: "worker_inv k" "\<not> wk_finalized k" for k bs w
  proof -
    from feed_ok [OF logged_env_ok(1) k(1), of bs w] obtain k1 w1 where f: "feed logged_env bs (k, w) = Some (k1, w1)"
      by (auto simp: ok_iff_ex)
    from feed_keeps [of id, OF _ _ f] have "w1 = w" by (simp add: logged_env_def io_ret_def)
    with f feed_fields [OF logged_env_ok(1) k f] show ?thesis by auto
  qed
  have "\<not> wk_finalized ?k" "wk_stream_end ?k = None" by (simp_all add: worker_new_def)
  with step [OF demo_worker_inv] obtain k1 where k1: "feed logged_env (bytes ''hi'') (?k, ?w [Bytes (bytes ''ho''), ?e] [Bytes (bytes ''hi'')])
      = Some (k1, ?w [Bytes (bytes ''ho''), ?e] [Bytes (bytes ''hi'')])" "worker_inv k1" "\<not> wk_finalized k1" "wk_stream_end k1 = None"
    by metis
  with step obtain k2 where k2: "feed logged_env (bytes ''ho'') (k1, ?w [?e] ?bs) = Some (k2, ?w [?e] ?bs)"
      "worker_inv k2" "\<not> wk_finalized k2" "wk_stream_end k2 = None"
    by metis
  let ?k3 = "note_stream_end EndCleanEof k2" and ?v = "?w [] (?bs @ [?e])"
  have drain: "drain_data logged_env ?k (?w (?bs @ [?e]) []) = Some (Some (?k3, ?v))"
    using k1 k2 by (simp add: drain_data_def drain_loop.simps [of logged_env] recv FEED_BUDGET_PER_TICK_def)
  have inv3: "\<not> wk_finalized ?k3" "final_stream Aborted ?k3 = CleanEof"
    using k2 by (simp_all add: note_stream_end_def final_stream_def)
  obtain k w where fin: "finish_shutdown logged_env ?k3 ?v = Some (k, w)"
    using finish_shutdown_returns [OF logged_env_ok(3), of ?k3 ?v] by auto
  have sd: "en_shutdown logged_env v = (True, v)" for v by (simp add: logged_env_def)
  have "shutdown_and_exit logged_env ?k (?w (?bs @ [?e]) []) = Some (Some (k, w))"
    using drain fin \<open>\<not> wk_finalized ?k\<close> by (simp add: shutdown_and_exit_def)
  then have run: "run_worker logged_env () demo_config shared_default (?w (?bs @ [?e]) []) = Some (Some (k, w))"
    unfolding run_worker_def by (rule worker_loop_stop [OF sd])
  have cfg: "sh_inv (wc_killer demo_config)" "1 \<le> wc_rows demo_config" "wc_rows demo_config \<le> u16_max"
    "1 \<le> wc_cols demo_config" "wc_cols demo_config \<le> MAX_COLS" "wc_record_output demo_config" "wc_output_cap_bytes demo_config = 3"
    by (simp_all add: demo_config_def demo_child_def u16_max_def MAX_COLS_def)
  from run_worker_end [OF logged_env_ok(1,2) cfg(1-5) run] obtain oc where
    oc: "sd_outcome (wk_shared k) = Some oc" "wk_final_stream k = Some (oc_stream oc)" by auto
  with finish_shutdown_stream [OF fin inv3(1)] inv3(2) have clean: "oc_stream oc = CleanEof" by simp
  have taken: "lg_taken w = ?bs @ [?e]"
    using received_finish [OF logged_env_ok(4) fin] by simp
  from capture_complete [OF logged_env_ok(1,2) cfg(1-5) logged_env_ok(4) _ run oc(1) clean, of ?bs "[]"] taken cfg
  have "oc_bytes_pumped oc = length (msg_bytes ?bs) \<and> wk_output_log k = take 3 (msg_bytes ?bs)" by auto
  then have "oc_bytes_pumped oc = 4 \<and> wk_output_log k = bytes ''hih''" by (simp add: msg_bytes_def bytes_def byte_def)
  with run oc(1) clean show ?thesis by auto
qed

end
