(* ===== verification/Pipeline.thy ===== *)
theory Pipeline
  imports Worker
begin

text \<open>
  The reader thread of a session (\<open>run_reader\<close> in \<open>src/src/session_worker.rs\<close>) and the bounded queue between it
  and the worker. \<open>reader_env\<close> holds the calls of the reader: the blocking read of at most \<open>READ_BATCH\<close> bytes, the
  send on the bounded channel, which blocks while the queue is full and answers whether the worker still receives,
  and the increment of the shared depth counter.
\<close>

section \<open>The reader thread\<close>

record 'w reader_env =
  rd_read :: "('w, io_error, u8 list) io"
  rd_send :: "data_msg \<Rightarrow> 'w \<Rightarrow> bool \<times> 'w"
  rd_inflight_add :: "'w \<Rightarrow> 'w"

definition is_qualified_eof :: "io_error \<Rightarrow> bool" where
  "is_qualified_eof err \<longleftrightarrow> io_os err = Some 5"

definition send_counted :: "'w reader_env \<Rightarrow> data_msg \<Rightarrow> 'w \<Rightarrow> bool \<times> 'w" where
  "send_counted env m w = (case rd_send env m w of
       (True, w) \<Rightarrow> (True, rd_inflight_add env w)
     | (False, w) \<Rightarrow> (False, w))"

text \<open>One turn of the loop: whether the reader goes on.\<close>

definition reader_turn :: "'w reader_env \<Rightarrow> 'w \<Rightarrow> bool \<times> 'w" where
  "reader_turn env w = (case rd_read env w of
       (Inr bs, w) \<Rightarrow>
         if bs = [] then (False, snd (send_counted env (StreamEnd EndCleanEof) w))
         else send_counted env (Bytes bs) w
     | (Inl err, w) \<Rightarrow>
         if io_kind err = Interrupted then (True, w)
         else if is_qualified_eof err then (False, snd (send_counted env (StreamEnd EndCleanEof) w))
         else (False, snd (send_counted env (StreamEnd (EndReadFailed (''pty read failed: '' @ io_text err))) w)))"

partial_function (option) run_reader :: "'w reader_env \<Rightarrow> 'w \<Rightarrow> 'w option" where
  "run_reader env w = (case reader_turn env w of (again, w) \<Rightarrow> if again then run_reader env w else Some w)"

section \<open>What the reader forwards\<close>

text \<open>The message that an answer of \<open>read\<close> stands for; an interrupted read stands for none.\<close>

definition read_msg :: "io_error + u8 list \<Rightarrow> data_msg option" where
  "read_msg r = (case r of
       Inr bs \<Rightarrow> Some (if bs = [] then StreamEnd EndCleanEof else Bytes bs)
     | Inl err \<Rightarrow>
         if io_kind err = Interrupted then None
         else if is_qualified_eof err then Some (StreamEnd EndCleanEof)
         else Some (StreamEnd (EndReadFailed (''pty read failed: '' @ io_text err))))"

definition ends_stream :: "io_error + u8 list \<Rightarrow> bool" where
  "ends_stream r \<longleftrightarrow> (\<exists>e. read_msg r = Some (StreamEnd e))"

text \<open>\<open>got\<close> are the answers of \<open>read\<close> so far, \<open>sent\<close> the messages the channel has taken.\<close>

definition reader_log :: "'w reader_env \<Rightarrow> ('w \<Rightarrow> (io_error + u8 list) list) \<Rightarrow> ('w \<Rightarrow> data_msg list) \<Rightarrow> bool" where
  "reader_log env got sent \<longleftrightarrow>
     (\<forall>w r w'. rd_read env w = (r, w') \<longrightarrow> got w' = got w @ [r] \<and> sent w' = sent w)
     \<and> (\<forall>m w b w'. rd_send env m w = (b, w') \<longrightarrow> got w' = got w \<and> sent w' = sent w @ (if b then [m] else []))
     \<and> (\<forall>w. got (rd_inflight_add env w) = got w \<and> sent (rd_inflight_add env w) = sent w)"

lemma send_counted_log:
  assumes "reader_log env got sent" "send_counted env m w = (b, w')"
  shows "got w' = got w \<and> sent w' = sent w @ (if b then [m] else [])"
proof -
  obtain b1 w1 where s: "rd_send env m w = (b1, w1)" by fastforce
  with assms(1) have "got w1 = got w" "sent w1 = sent w @ (if b1 then [m] else [])"
    by (simp_all add: reader_log_def)
  with assms s show ?thesis by (cases b1) (auto simp: send_counted_def reader_log_def)
qed

text \<open>One turn: an interrupted read, a batch that is taken, or the last message.\<close>

lemma reader_turn_log:
  assumes "reader_log env got sent" "reader_turn env w = (again, w')"
  obtains r b where "got w' = got w @ [r]"
    "sent w' = sent w @ (case read_msg r of None \<Rightarrow> [] | Some m \<Rightarrow> if b then [m] else [])"
    "again \<longleftrightarrow> \<not> ends_stream r \<and> (read_msg r = None \<or> b)"
proof -
  obtain r w1 where r: "rd_read env w = (r, w1)" by fastforce
  with assms(1) have log: "got w1 = got w @ [r]" "sent w1 = sent w" by (auto simp: reader_log_def)
  show ?thesis
  proof (cases "read_msg r")
    case None
    then have "w' = w1" "again" using assms(2) r by (auto simp: reader_turn_def read_msg_def split: sum.splits if_splits)
    with None log that [of r] show ?thesis by (simp add: ends_stream_def)
  next
    case (Some m)
    obtain b w2 where s: "send_counted env m w1 = (b, w2)" by fastforce
    from send_counted_log [OF assms(1) s] log have log2: "got w2 = got w @ [r]" "sent w2 = sent w @ (if b then [m] else [])"
      by auto
    have "w' = w2 \<and> again = (b \<and> \<not> ends_stream r)" using assms(2) r Some s
      by (auto simp: reader_turn_def ends_stream_def read_msg_def split: sum.splits if_splits)
    with log2 Some that [of r b] show ?thesis by auto
  qed
qed

text \<open>The messages of a sequence of answers.\<close>

definition read_msgs :: "(io_error + u8 list) list \<Rightarrow> data_msg list" where
  "read_msgs rs = List.map_filter read_msg rs"

lemma read_msgs_simps [simp]:
  "read_msgs [] = []"
  "read_msgs (r # rs) = (case read_msg r of None \<Rightarrow> [] | Some m \<Rightarrow> [m]) @ read_msgs rs"
  by (simp_all add: read_msgs_def map_filter_simps split: option.split)

definition reader_done :: "(io_error + u8 list) list \<Rightarrow> data_msg list \<Rightarrow> bool" where
  "reader_done rs ms \<longleftrightarrow> rs \<noteq> [] \<and> (\<forall>r \<in> set (butlast rs). \<not> ends_stream r)
     \<and> (ms = read_msgs rs \<and> ends_stream (last rs) \<or> ms = read_msgs (butlast rs) \<and> read_msg (last rs) \<noteq> None)"

lemma reader_done_again:
  assumes "reader_done rs ms" "\<not> ends_stream r"
  shows "reader_done (r # rs) ((case read_msg r of None \<Rightarrow> [] | Some m \<Rightarrow> [m]) @ ms)"
  using assms by (auto simp: reader_done_def)

lemma reader_done_last:
  assumes "read_msg r = Some m" "b \<longrightarrow> ends_stream r"
  shows "reader_done [r] (if b then [m] else [])"
  using assms by (simp add: reader_done_def)

definition forwarded :: "('w \<Rightarrow> (io_error + u8 list) list) \<Rightarrow> ('w \<Rightarrow> data_msg list) \<Rightarrow> 'w \<Rightarrow> 'w \<Rightarrow> bool" where
  "forwarded got sent w w' \<longleftrightarrow> (\<exists>rs ms. got w' = got w @ rs \<and> sent w' = sent w @ ms \<and> reader_done rs ms)"

lemma forwarded_turn:
  assumes "reader_log env got sent" "reader_turn env w = (again, v)"
    and "if again then forwarded got sent v w' else w' = v"
  shows "forwarded got sent w w'"
proof -
  from reader_turn_log [OF assms(1,2)] obtain r b where r: "got v = got w @ [r]"
    "sent v = sent w @ (case read_msg r of None \<Rightarrow> [] | Some m \<Rightarrow> if b then [m] else [])"
    "again \<longleftrightarrow> \<not> ends_stream r \<and> (read_msg r = None \<or> b)" .
  show ?thesis
  proof (cases again)
    case True
    with assms(3) obtain rs ms where rest: "got w' = got v @ rs" "sent w' = sent v @ ms" "reader_done rs ms"
      by (auto simp: forwarded_def)
    let ?ms = "(case read_msg r of None \<Rightarrow> [] | Some m \<Rightarrow> [m]) @ ms"
    have "got w' = got w @ r # rs" "sent w' = sent w @ ?ms" using r rest True by (auto split: option.splits)
    moreover have "reader_done (r # rs) ?ms" using r(3) True by (intro reader_done_again rest(3)) simp
    ultimately show ?thesis unfolding forwarded_def by blast
  next
    case False
    then obtain m where m: "read_msg r = Some m" using r(3) by (cases "read_msg r") (auto simp: ends_stream_def)
    have "reader_done [r] (if b then [m] else [])" using r(3) False m by (intro reader_done_last [OF m]) auto
    moreover have "got w' = got w @ [r]" "sent w' = sent w @ (if b then [m] else [])" using r(1,2) m False assms(3) by auto
    ultimately show ?thesis unfolding forwarded_def by blast
  qed
qed

lemma run_reader_forwards:
  fixes env :: "'w reader_env"
  assumes log: "reader_log env got sent" and run: "run_reader env w = Some w'"
  shows "forwarded got sent w w'"
proof -
  have "env = env \<longrightarrow> forwarded got sent w w'"
  proof (rule run_reader.raw_induct [OF _ run, of "\<lambda>e w w'. e = env \<longrightarrow> forwarded got sent w w'"])
    fix rd e w w'
    assume IH: "\<And>e w w'. rd e w = Some w' \<Longrightarrow> e = env \<longrightarrow> forwarded got sent w w'"
      and eq: "(case reader_turn e w of (again, w) \<Rightarrow> if again then rd e w else Some w) = Some w'"
    show "e = env \<longrightarrow> forwarded got sent w w'"
    proof
      assume e: "e = env"
      obtain again v where t: "reader_turn env w = (again, v)" by fastforce
      with eq IH [of env v w'] have "if again then forwarded got sent v w' else w' = v" by (auto simp: e split: if_splits)
      then show "forwarded got sent w w'" by (rule forwarded_turn [OF log t])
    qed
  qed
  then show ?thesis by simp
qed

text \<open>
  C34: the reader forwards the stream whole. When the reader thread returns, what it has sent is exactly what it read, in
  order, with nothing after the message that ends the stream: a clean end for end of file and for \<open>EIO\<close>, the error
  otherwise, and interrupted reads leave no trace. The one exception is a worker that is gone: then only the message
  it refused is missing.
\<close>

theorem reader_forwards_stream:
  assumes "reader_log env got sent" "run_reader env w = Some w'"
  shows "\<exists>rs ms. got w' = got w @ rs \<and> sent w' = sent w @ ms \<and> rs \<noteq> [] \<and> (\<forall>r \<in> set (butlast rs). \<not> ends_stream r)
    \<and> (ms = read_msgs rs \<and> ends_stream (last rs) \<or> ms = read_msgs (butlast rs) \<and> read_msg (last rs) \<noteq> None)"
  using run_reader_forwards [OF assms] by (simp add: forwarded_def reader_done_def)

text \<open>A scripted reader: the answers to come, those given, and the messages a worker takes that leaves after four.\<close>

type_synonym reader_script = "(io_error + u8 list) list \<times> (io_error + u8 list) list \<times> data_msg list"

definition script_reader :: "reader_script reader_env" where
  "script_reader = \<lparr>rd_read = (\<lambda>(rs, got, sent). case rs of [] \<Rightarrow> (Inr [], [], got @ [Inr []], sent) | r # rs \<Rightarrow> (r, rs, got @ [r], sent)),
     rd_send = (\<lambda>m (rs, got, sent). if length sent < 4 then (True, rs, got, sent @ [m]) else (False, rs, got, sent)),
     rd_inflight_add = id\<rparr>"

lemma script_reader_calls:
  "rd_read script_reader (r # rs, got, sent) = (r, rs, got @ [r], sent)"
  "rd_send script_reader m (rs, got, sent) = (if length sent < 4 then (True, rs, got, sent @ [m]) else (False, rs, got, sent))"
  "rd_inflight_add script_reader w = w"
  by (simp_all add: script_reader_def)

lemma script_reader_log: "reader_log script_reader (\<lambda>(rs, got, sent). got) (\<lambda>(rs, got, sent). sent)"
  by (auto simp: reader_log_def script_reader_def split: list.splits)

lemma reader_forwards_stream_witness:
  "\<exists>w'. run_reader script_reader ([Inr [104], Inl \<lparr>io_kind = Interrupted, io_os = Some 4, io_text = []\<rparr>, Inr [105],
        Inl \<lparr>io_kind = OtherKind, io_os = Some 5, io_text = []\<rparr>], [], []) = Some w'
    \<and> snd (snd w') = [Bytes [104], Bytes [105], StreamEnd EndCleanEof]
    \<and> (\<exists>rs. fst (snd w') = rs \<and> (snd (snd w') = read_msgs rs \<or> snd (snd w') = read_msgs (butlast rs)))"
proof -
  let ?rs = "[Inr [104], Inl \<lparr>io_kind = Interrupted, io_os = Some 4, io_text = []\<rparr>, Inr [105],
        Inl \<lparr>io_kind = OtherKind, io_os = Some 5, io_text = []\<rparr>]"
  have run: "run_reader script_reader (?rs, [], []) = Some ([], ?rs, [Bytes [104], Bytes [105], StreamEnd EndCleanEof])"
    by (simp add: run_reader.simps [of script_reader] reader_turn_def send_counted_def is_qualified_eof_def script_reader_calls)
  from reader_forwards_stream [OF script_reader_log run] run show ?thesis by auto
qed

section \<open>The bounded queue\<close>

text \<open>
  The two threads at the grain of their atomic actions. The reader puts a message into the queue and then counts it
  (\<open>send_counted\<close>); the worker takes one out and then uncounts it (\<open>drain_data\<close>). \<open>pl_uncounted\<close> and
  \<open>pl_taken\<close> say that a thread is between its two actions; \<open>pl_sent\<close> and \<open>pl_received\<close> record the messages.
\<close>

record pipe =
  pl_queue :: "data_msg list"
  pl_inflight :: "64 word"
  pl_uncounted :: bool
  pl_taken :: bool
  pl_sent :: "data_msg list"
  pl_received :: "data_msg list"

definition pipe_new :: pipe where
  "pipe_new = \<lparr>pl_queue = [], pl_inflight = 0, pl_uncounted = False, pl_taken = False, pl_sent = [], pl_received = []\<rparr>"

inductive pipe_step :: "pipe \<Rightarrow> pipe \<Rightarrow> bool" where
  put: "length (pl_queue s) < DATA_QUEUE_BATCHES \<Longrightarrow> \<not> pl_uncounted s \<Longrightarrow>
    pipe_step s (s\<lparr>pl_queue := pl_queue s @ [m], pl_uncounted := True, pl_sent := pl_sent s @ [m]\<rparr>)"
| count: "pl_uncounted s \<Longrightarrow> pipe_step s (s\<lparr>pl_inflight := pl_inflight s + 1, pl_uncounted := False\<rparr>)"
| take_msg: "pl_queue s = m # q \<Longrightarrow> \<not> pl_taken s \<Longrightarrow>
    pipe_step s (s\<lparr>pl_queue := q, pl_taken := True, pl_received := pl_received s @ [m]\<rparr>)"
| uncount: "pl_taken s \<Longrightarrow> pipe_step s (s\<lparr>pl_inflight := pl_inflight s - 1, pl_taken := False\<rparr>)"

inductive_cases pipe_stepE: "pipe_step s s'"

definition pipe_inv :: "pipe \<Rightarrow> bool" where
  "pipe_inv s \<longleftrightarrow> pl_sent s = pl_received s @ pl_queue s \<and> length (pl_queue s) \<le> DATA_QUEUE_BATCHES
     \<and> pl_inflight s + of_bool (pl_uncounted s) = of_nat (length (pl_queue s)) + of_bool (pl_taken s)"

lemma pipe_new_inv: "pipe_inv pipe_new"
  by (simp add: pipe_inv_def pipe_new_def)

lemma pipe_step_inv: "pipe_step s s' \<Longrightarrow> pipe_inv s \<Longrightarrow> pipe_inv s'"
  by (elim pipe_stepE) (auto simp: pipe_inv_def algebra_simps)


lemma pipe_one: "pipe_step\<^sup>*\<^sup>* pipe_new (pipe_new\<lparr>pl_queue := [m], pl_inflight := 1, pl_sent := [m]\<rparr>)"
proof -
  have "pipe_step pipe_new (pipe_new\<lparr>pl_queue := [m], pl_uncounted := True, pl_sent := [m]\<rparr>)"
    using pipe_step.put [of pipe_new m] by (simp add: pipe_new_def DATA_QUEUE_BATCHES_def)
  moreover have "pipe_step (pipe_new\<lparr>pl_queue := [m], pl_uncounted := True, pl_sent := [m]\<rparr>)
      (pipe_new\<lparr>pl_queue := [m], pl_inflight := 1, pl_sent := [m]\<rparr>)"
    using pipe_step.count [of "pipe_new\<lparr>pl_queue := [m], pl_uncounted := True, pl_sent := [m]\<rparr>"] by (simp add: pipe_new_def)
  ultimately show ?thesis by (meson r_into_rtranclp rtranclp_trans)
qed


text \<open>
  Between the actions the counter is not the depth: when the worker takes and uncounts a message before the reader
  has counted it, an empty queue shows a depth of \<open>2\<^sup>6\<^sup>4 - 1\<close>.
\<close>

lemma pipe_depth_wraps: "\<exists>s. pipe_step\<^sup>*\<^sup>* pipe_new s \<and> pl_queue s = [] \<and> \<not> pl_taken s \<and> pl_inflight s = - 1"
proof -
  let ?m = "StreamEnd EndCleanEof"
  let ?s1 = "pipe_new\<lparr>pl_queue := [?m], pl_uncounted := True, pl_sent := [?m]\<rparr>"
  let ?s2 = "pipe_new\<lparr>pl_uncounted := True, pl_sent := [?m], pl_taken := True, pl_received := [?m]\<rparr>"
  let ?s3 = "pipe_new\<lparr>pl_uncounted := True, pl_sent := [?m], pl_received := [?m], pl_inflight := - 1\<rparr>"
  have "pipe_step pipe_new ?s1" using pipe_step.put [of pipe_new ?m] by (simp add: pipe_new_def DATA_QUEUE_BATCHES_def)
  moreover have "pipe_step ?s1 ?s2" using pipe_step.take_msg [of ?s1 ?m "[]"] by (simp add: pipe_new_def)
  moreover have "pipe_step ?s2 ?s3" using pipe_step.uncount [of ?s2] by (simp add: pipe_new_def)
  ultimately have "pipe_step\<^sup>*\<^sup>* pipe_new ?s3" by (meson r_into_rtranclp rtranclp_trans)
  then show ?thesis by (intro exI [of _ ?s3]) (simp add: pipe_new_def)
qed

end
