(* ===== verification/Session.thy ===== *)
theory Session
  imports Worker_Capture
begin

text \<open>
  The handle of a session (\<open>src/src/session.rs\<close>) with the guard that rolls back a failed start (\<open>StartupGuard\<close> in
  \<open>src/src/session_worker.rs\<close>): spawn, the operations that are sent to the worker, the waits, and the teardown.

  \<open>handle_env\<close> holds everything outside: the PTY backend and the kernel, the shared child and the rendezvous, which
  the worker thread changes too and which are therefore parts of the system state \<open>'w\<close>, the shutdown flag, the
  clock, the condition variable, the channels and the threads. A receive answers \<open>None\<close> when it times out or the
  worker has dropped the reply channel. A lock that is held over a call is one critical section.
\<close>

section \<open>Limits, errors and signals\<close>

definition MIN_COLS :: u16 where
  "MIN_COLS = 1"

definition MIN_ROWS :: u16 where
  "MIN_ROWS = 1"

definition SESSION_MAX_COLS :: u16 where
  "SESSION_MAX_COLS = 1000"

definition SESSION_MAX_ROWS :: u16 where
  "SESSION_MAX_ROWS = 1000"

definition process_error_text :: "process_error \<Rightarrow> string" where
  "process_error_text e = (case e of
       PeSpawn m \<Rightarrow> ''spawn failed: '' @ m
     | PeInvalidInput m \<Rightarrow> ''invalid input: '' @ m
     | PeIo m \<Rightarrow> ''pty io: '' @ m
     | PeTimeout m \<Rightarrow> ''timeout: '' @ m
     | PeChildExited m \<Rightarrow> ''child exited: '' @ m
     | PeClosed m \<Rightarrow> ''session closed: '' @ m
     | PeTeardown m \<Rightarrow> ''teardown failed: '' @ m
     | PeSignal m \<Rightarrow> ''signal failed: '' @ m)"

datatype posix_signal = SigInt | SigTerm | SigKill | SigQuit | SigHup

definition signal_number :: "posix_signal \<Rightarrow> int" where
  "signal_number s = (case s of SigInt \<Rightarrow> SIGINT | SigTerm \<Rightarrow> SIGTERM | SigKill \<Rightarrow> SIGKILL | SigQuit \<Rightarrow> SIGQUIT
     | SigHup \<Rightarrow> SIGHUP)"

text \<open>\<open>SignalError\<close> as it is shown; the description of an \<open>errno\<close> is the system's.\<close>

definition signal_error_text :: "(errno \<Rightarrow> string) \<Rightarrow> signal_error \<Rightarrow> string" where
  "signal_error_text describe e = (case e of
       SigNotFound pid \<Rightarrow> ''no such process: '' @ show_nat pid
     | SigUnknownPid \<Rightarrow> ''child pid unknown''
     | SigInvalid signo \<Rightarrow> ''invalid signal number: '' @ show_int signo
     | SigFailed pid signo errno \<Rightarrow> ''failed to signal process '' @ show_nat pid @ '': ''
         @ ''failed to deliver signal '' @ show_int signo @ '': '' @ describe errno)"

section \<open>Options\<close>

record session_options =
  so_cols :: u16
  so_rows :: u16
  so_term :: string
  so_colorterm :: string
  so_scrollback :: usize
  so_record_output :: bool
  so_event_cap :: usize
  so_output_cap_bytes :: usize

definition session_options_default :: session_options where
  "session_options_default = \<lparr>so_cols = 80, so_rows = 24, so_term = pr_agent_term profile_default,
     so_colorterm = pr_agent_colorterm profile_default, so_scrollback = 1000, so_record_output = False,
     so_event_cap = DEFAULT_EVENT_CAP, so_output_cap_bytes = DEFAULT_OUTPUT_CAP_BYTES\<rparr>"

text \<open>The characters of an ASCII name are its bytes.\<close>

definition overrides_key :: "spawn_params \<Rightarrow> string \<Rightarrow> bool" where
  "overrides_key p key \<longleftrightarrow> list_ex (\<lambda>(k, _). from_utf8 k = Some (map of_char key)) (sp_env_overrides p)"

definition effective_params :: "spawn_params \<Rightarrow> session_options \<Rightarrow> spawn_params" where
  "effective_params p opts =
     (let e = p;
          e = (if \<not> overrides_key p ''TERM'' then sp_env (bytes ''TERM'') (bytes (so_term opts)) e else e);
          e = (if \<not> overrides_key p ''COLORTERM'' then sp_env (bytes ''COLORTERM'') (bytes (so_colorterm opts)) e else e)
      in e)"

definition geometry_text :: "string \<Rightarrow> nat \<Rightarrow> nat \<Rightarrow> nat \<Rightarrow> string" where
  "geometry_text what n lo hi =
     what @ '' '' @ show_nat n @ '' outside backend range '' @ show_nat lo @ ''..='' @ show_nat hi"

definition check_geometry :: "u16 \<Rightarrow> u16 \<Rightarrow> string + unit" where
  "check_geometry cols rows =
     (if \<not> (MIN_COLS \<le> cols \<and> cols \<le> SESSION_MAX_COLS) then Inl (geometry_text ''cols'' cols MIN_COLS SESSION_MAX_COLS)
      else if \<not> (MIN_ROWS \<le> rows \<and> rows \<le> SESSION_MAX_ROWS) then Inl (geometry_text ''rows'' rows MIN_ROWS SESSION_MAX_ROWS)
      else Inr ())"

section \<open>The system around the handle\<close>

type_synonym thread = nat

record ('b, 'w) handle_env =
  hs_backend :: "('b, 'w) pty_backend"
  hs_kernel :: "'w kernel"
  hs_signals :: signal_table
  hs_describe :: "errno \<Rightarrow> string"
  hs_child :: "'w \<Rightarrow> shared_child"
  hs_set_child :: "shared_child \<Rightarrow> 'w \<Rightarrow> 'w"
  hs_shared :: "'w \<Rightarrow> shared"
  hs_set_shared :: "shared \<Rightarrow> 'w \<Rightarrow> 'w"
  hs_set_shutdown :: "'w \<Rightarrow> 'w"
  hs_now :: "'w \<Rightarrow> nat \<times> 'w"
  hs_wait_changed :: "nat \<Rightarrow> 'w \<Rightarrow> 'w"
  hs_send :: "ctl_op \<Rightarrow> 'w \<Rightarrow> bool \<times> 'w"
  hs_recv_snapshot :: "'w \<Rightarrow> grid_snapshot option \<times> 'w"
  hs_recv_observation :: "'w \<Rightarrow> observation option \<times> 'w"
  hs_recv_bytes :: "'w \<Rightarrow> u8 list option \<times> 'w"
  hs_recv_spans :: "'w \<Rightarrow> dirty_spans option \<times> 'w"
  hs_recv_events :: "'w \<Rightarrow> passthrough_event list option \<times> 'w"
  hs_recv_result :: "'w \<Rightarrow> (process_error + unit) option \<times> 'w"
  hs_start_worker :: "worker_config \<Rightarrow> ('w, io_error, thread) io"
  hs_start_reader :: "handle \<Rightarrow> ('w, io_error, thread) io"
  hs_join :: "thread \<Rightarrow> 'w \<Rightarrow> bool \<times> 'w"

text \<open>The calls on the shared child, under its lock, and on the rendezvous, under its lock.\<close>

definition child_poll :: "('b, 'w) handle_env \<Rightarrow> ('w, io_error, exit_status option) io" where
  "child_poll env w = (case sh_poll (hs_backend env) (hs_child env w) w of (r, s, w) \<Rightarrow> (r, hs_set_child env s w))"

definition child_kill :: "('b, 'w) handle_env \<Rightarrow> ('w, io_error, unit) io" where
  "child_kill env w = kill_locked (hs_backend env) (hs_child env w) w"

definition child_wait :: "('b, 'w) handle_env \<Rightarrow> ('w, io_error, exit_status) io" where
  "child_wait env w = (case wait_locked (hs_backend env) (hs_child env w) w of (r, s, w) \<Rightarrow> (r, hs_set_child env s w))"

definition child_signal :: "('b, 'w) handle_env \<Rightarrow> int \<Rightarrow> ('w, signal_error, unit) io" where
  "child_signal env n w = signal_locked (hs_kernel env) (hs_signals env) (hs_child env w) n w"

definition on_shared :: "('b, 'w) handle_env \<Rightarrow> (shared \<Rightarrow> shared) \<Rightarrow> 'w \<Rightarrow> 'w" where
  "on_shared env f w = hs_set_shared env (f (hs_shared env w)) w"

section \<open>Waiting on the rendezvous\<close>

partial_function (option) wait_outcome_changed :: "('b, 'w) handle_env \<Rightarrow> nat \<Rightarrow> 'w \<Rightarrow> 'w option" where
  "wait_outcome_changed env deadline w =
     (if sd_outcome (hs_shared env w) = None \<and> \<not> sd_closed (hs_shared env w)
      then (case hs_now env w of (now, w) \<Rightarrow>
              if deadline \<le> now then Some w
              else wait_outcome_changed env deadline (hs_wait_changed env (deadline - now) w))
      else Some w)"

partial_function (option) shared_wait_revision :: "('b, 'w) handle_env \<Rightarrow> nat \<Rightarrow> nat \<Rightarrow> 'w \<Rightarrow> (nat option \<times> 'w) option" where
  "shared_wait_revision env target deadline w =
     (if target \<le> sd_revision (hs_shared env w) then Some (Some (sd_revision (hs_shared env w)), w)
      else if sd_closed (hs_shared env w) then Some (None, w)
      else (case hs_now env w of (now, w) \<Rightarrow>
              if deadline \<le> now then Some (None, w)
              else shared_wait_revision env target deadline (hs_wait_changed env (deadline - now) w)))"

partial_function (option) wait_frames_above :: "('b, 'w) handle_env \<Rightarrow> nat \<Rightarrow> nat \<Rightarrow> 'w \<Rightarrow> (nat option \<times> 'w) option" where
  "wait_frames_above env baseline deadline w =
     (if baseline < sd_frames (hs_shared env w) then Some (Some (sd_frames (hs_shared env w)), w)
      else if sd_closed (hs_shared env w) then Some (None, w)
      else (case hs_now env w of (now, w) \<Rightarrow>
              if deadline \<le> now then Some (None, w)
              else wait_frames_above env baseline deadline (hs_wait_changed env (deadline - now) w)))"

definition wait_revision ::
    "('b, 'w) handle_env \<Rightarrow> nat \<Rightarrow> nat \<Rightarrow> 'w \<Rightarrow> ((process_error + nat) \<times> 'w) option" where
  "wait_revision env target deadline w = map_option (\<lambda>(r, w). (case r of
       Some revision \<Rightarrow> Inr revision
     | None \<Rightarrow>
         if sd_closed (hs_shared env w) then Inl (PeClosed ''session closed before revision {target}'')
         else Inl (PeTimeout (''revision '' @ show_nat target @ '' not reached'')), w))
     (shared_wait_revision env target deadline w)"

definition wait_frame :: "('b, 'w) handle_env \<Rightarrow> nat \<Rightarrow> 'w \<Rightarrow> ((process_error + nat) \<times> 'w) option" where
  "wait_frame env deadline w =
     (let baseline = sd_frames (hs_shared env w) in map_option (\<lambda>(r, w). (case r of
       Some frames \<Rightarrow> Inr frames
     | None \<Rightarrow>
         if sd_closed (hs_shared env w) then Inl (PeClosed ''session closed before synced frame'')
         else Inl (PeTimeout ''no synchronized-update frame completed''), w))
     (wait_frames_above env baseline deadline w))"

partial_function (option) wait_outcome ::
    "('b, 'w) handle_env \<Rightarrow> nat \<Rightarrow> 'w \<Rightarrow> ((process_error + capture_outcome) \<times> 'w) option" where
  "wait_outcome env deadline w = (case sd_outcome (hs_shared env w) of
       Some outcome \<Rightarrow> Some (Inr outcome, w)
     | None \<Rightarrow>
         if sd_closed (hs_shared env w) then Some (Inl (PeClosed ''session closed before child exit''), w)
         else (case hs_now env w of (now, w) \<Rightarrow>
                 if deadline \<le> now then Some (Inl (PeTimeout ''child still alive''), w)
                 else Option.bind (wait_outcome_changed env deadline w) (wait_outcome env deadline)))"

definition wait_exit :: "('b, 'w) handle_env \<Rightarrow> nat \<Rightarrow> 'w \<Rightarrow> ((process_error + exit_status) \<times> 'w) option" where
  "wait_exit env deadline w =
     map_option (\<lambda>(r, w). (case r of Inl e \<Rightarrow> Inl e | Inr outcome \<Rightarrow> Inr (oc_exit outcome), w)) (wait_outcome env deadline w)"

section \<open>The session and its operations\<close>

text \<open>\<open>ss_ctl\<close> says that the handle still holds the sender of the control channel.\<close>

record pty_session =
  ss_ctl :: bool
  ss_worker :: "thread option"
  ss_reader :: "thread option"
  ss_closed :: bool
  ss_pid :: "nat option"

definition session_send :: "('b, 'w) handle_env \<Rightarrow> ctl_op \<Rightarrow> pty_session \<Rightarrow> ('w, process_error, unit) io" where
  "session_send env op s w =
     (if ss_closed s then (Inl (PeClosed ''session is closed''), w)
      else if ss_ctl s
           then (case hs_send env op w of (sent, w) \<Rightarrow> (if sent then Inr () else Inl (PeClosed ''worker is gone''), w))
           else (Inl (PeClosed ''session is closed''), w))"

definition recv_value :: "('w \<Rightarrow> 'a option \<times> 'w) \<Rightarrow> string \<Rightarrow> ('w, process_error, 'a) io" where
  "recv_value recv what w = (case recv w of (r, w) \<Rightarrow> (case r of
       Some v \<Rightarrow> Inr v
     | None \<Rightarrow> if what = ''snapshot'' then Inl (PeClosed ''worker is gone'')
               else Inl (PeTimeout (what @ '': worker unresponsive'')), w))"

definition recv_reply :: "('b, 'w) handle_env \<Rightarrow> string \<Rightarrow> ('w, process_error, unit) io" where
  "recv_reply env what w = (case hs_recv_result env w of (r, w) \<Rightarrow> (case r of
       Some result \<Rightarrow> result
     | None \<Rightarrow> Inl (PeTimeout (what @ '': worker unresponsive'')), w))"

definition session_is_closed :: "('b, 'w) handle_env \<Rightarrow> pty_session \<Rightarrow> 'w \<Rightarrow> bool" where
  "session_is_closed env s w \<longleftrightarrow> ss_closed s \<or> sd_closed (hs_shared env w)"

definition session_snapshot :: "('b, 'w) handle_env \<Rightarrow> pty_session \<Rightarrow> ('w, process_error, grid_snapshot) io" where
  "session_snapshot env s =
     io_bind (session_send env CtlSnapshot s) (\<lambda>_. recv_value (hs_recv_snapshot env) ''snapshot'')"

definition session_size :: "('b, 'w) handle_env \<Rightarrow> pty_session \<Rightarrow> ('w, process_error, u16 \<times> u16) io" where
  "session_size env s = io_bind (session_snapshot env s) (\<lambda>snapshot. io_ret (sn_cols snapshot, sn_rows snapshot))"

definition session_observe :: "('b, 'w) handle_env \<Rightarrow> pty_session \<Rightarrow> ('w, process_error, observation) io" where
  "session_observe env s =
     io_bind (session_send env CtlObserve s) (\<lambda>_. recv_value (hs_recv_observation env) ''observation'')"

definition session_state_formatted :: "('b, 'w) handle_env \<Rightarrow> pty_session \<Rightarrow> ('w, process_error, u8 list) io" where
  "session_state_formatted env s =
     io_bind (session_send env CtlStateBytes s) (\<lambda>_. recv_value (hs_recv_bytes env) ''state snapshot'')"

definition session_dirty_spans :: "('b, 'w) handle_env \<Rightarrow> pty_session \<Rightarrow> ('w, process_error, dirty_spans) io" where
  "session_dirty_spans env s =
     io_bind (session_send env CtlDirtySpans s) (\<lambda>_. recv_value (hs_recv_spans env) ''dirty spans'')"

definition session_drain_events :: "('b, 'w) handle_env \<Rightarrow> pty_session \<Rightarrow> ('w, process_error, passthrough_event list) io" where
  "session_drain_events env s =
     io_bind (session_send env CtlEvents s) (\<lambda>_. recv_value (hs_recv_events env) ''events'')"

definition session_output_log :: "('b, 'w) handle_env \<Rightarrow> pty_session \<Rightarrow> ('w, process_error, u8 list) io" where
  "session_output_log env s =
     io_bind (session_send env CtlOutputLog s) (\<lambda>_. recv_value (hs_recv_bytes env) ''output log'')"

definition write_stdin :: "('b, 'w) handle_env \<Rightarrow> u8 list \<Rightarrow> pty_session \<Rightarrow> ('w, process_error, unit) io" where
  "write_stdin env bs s =
     (if bs = [] then io_lift (Inl (PeInvalidInput ''empty stdin write''))
      else io_bind (session_send env (CtlWrite bs) s) (\<lambda>_. recv_reply env ''stdin write''))"

definition session_resize :: "('b, 'w) handle_env \<Rightarrow> u16 \<Rightarrow> u16 \<Rightarrow> pty_session \<Rightarrow> ('w, process_error, unit) io" where
  "session_resize env cols rows s = (case check_geometry cols rows of
       Inl m \<Rightarrow> io_lift (Inl (PeInvalidInput m))
     | Inr _ \<Rightarrow> io_bind (session_send env (CtlResize cols rows) s) (\<lambda>_. recv_reply env ''resize''))"

definition session_set_colors ::
    "('b, 'w) handle_env \<Rightarrow> rgb option \<Rightarrow> rgb option \<Rightarrow> pty_session \<Rightarrow> ('w, process_error, unit) io" where
  "session_set_colors env fg bg s =
     io_bind (session_send env (CtlSetColors fg bg) s) (\<lambda>_. recv_reply env ''set reported colors'')"

definition session_signal :: "('b, 'w) handle_env \<Rightarrow> posix_signal \<Rightarrow> pty_session \<Rightarrow> ('w, process_error, unit) io" where
  "session_signal env sig s w =
     (if sd_exit (hs_shared env w) \<noteq> None then (Inl (PeChildExited ''child already exited''), w)
      else let pid = show_nat (case ss_pid s of Some pid \<Rightarrow> pid | None \<Rightarrow> 0)
           in case child_signal env (signal_number sig) w of (r, w) \<Rightarrow> (case r of
                Inr _ \<Rightarrow> Inr ()
              | Inl (SigNotFound _) \<Rightarrow> Inl (PeChildExited (''child '' @ pid @ '' no longer exists''))
              | Inl SigUnknownPid \<Rightarrow> Inl (PeSignal ''child PID unknown'')
              | Inl err \<Rightarrow> Inl (PeSignal (''kill('' @ pid @ '') failed: '' @ signal_error_text (hs_describe env) err)), w))"

definition session_close_input :: "('b, 'w) handle_env \<Rightarrow> pty_session \<Rightarrow> ('w, process_error, unit) io" where
  "session_close_input env s = io_bind (session_send env CtlCloseInput s) (\<lambda>_. recv_reply env ''close stdin'')"

definition poll_exit :: "('b, 'w) handle_env \<Rightarrow> 'w \<Rightarrow> exit_status option" where
  "poll_exit env w = sd_exit (hs_shared env w)"

definition poll_outcome :: "('b, 'w) handle_env \<Rightarrow> 'w \<Rightarrow> capture_outcome option" where
  "poll_outcome env w = sd_outcome (hs_shared env w)"

section \<open>Teardown\<close>

definition join_thread :: "('b, 'w) handle_env \<Rightarrow> string \<Rightarrow> thread option \<Rightarrow> 'w \<Rightarrow> 'w" where
  "join_thread env panicked t w = (case t of
       None \<Rightarrow> w
     | Some t \<Rightarrow> (case hs_join env t w of (ended, w) \<Rightarrow> if ended then w else on_shared env (record_teardown panicked) w))"

definition join_threads :: "('b, 'w) handle_env \<Rightarrow> pty_session \<times> 'w \<Rightarrow> pty_session \<times> 'w" where
  "join_threads env sw = (case sw of (s, w) \<Rightarrow>
     (let w = join_thread env ''worker thread panicked'' (ss_worker s) w;
          w = join_thread env ''reader thread panicked'' (ss_reader s) w
      in (s\<lparr>ss_worker := None, ss_reader := None\<rparr>, on_shared env mark_closed w)))"

definition record_failure :: "('b, 'w) handle_env \<Rightarrow> string \<Rightarrow> ('w, io_error, 'a) io \<Rightarrow> 'w \<Rightarrow> 'w" where
  "record_failure env msg call w = (case call w of
       (Inl e, w) \<Rightarrow> on_shared env (record_teardown (msg @ io_text e)) w
     | (Inr _, w) \<Rightarrow> w)"

definition teardown :: "('b, 'w) handle_env \<Rightarrow> pty_session \<times> 'w \<Rightarrow> pty_session \<times> 'w" where
  "teardown env sw = (case sw of (s, w) \<Rightarrow>
     if ss_closed s then join_threads env (s, w)
     else let s = s\<lparr>ss_closed := True\<rparr>;
              w = hs_set_shutdown env w;
              w = record_failure env ''child kill during teardown failed: '' (child_kill env) w;
              w = (if ss_ctl s then snd (hs_send env CtlShutdown w) else w);
              (s, w) = join_threads env (s\<lparr>ss_ctl := False\<rparr>, w)
          in (s, record_failure env ''child reap during teardown failed: '' (child_wait env) w))"

definition session_close :: "('b, 'w) handle_env \<Rightarrow> pty_session \<Rightarrow> 'w \<Rightarrow> (process_error + unit) \<times> pty_session \<times> 'w" where
  "session_close env s w = (case teardown env (s, w) of (s, w) \<Rightarrow>
     (case sd_teardown_error (hs_shared env w) of Some msg \<Rightarrow> Inl (PeTeardown msg) | None \<Rightarrow> Inr (), s, w))"

definition session_drop :: "('b, 'w) handle_env \<Rightarrow> pty_session \<Rightarrow> 'w \<Rightarrow> 'w" where
  "session_drop env s w = snd (teardown env (s, w))"

text \<open>\<open>finish\<close> owns the session, which is dropped when it returns.\<close>

definition finish_wait ::
    "('b, 'w) handle_env \<Rightarrow> nat \<Rightarrow> pty_session \<Rightarrow> 'w \<Rightarrow> ((process_error + exit_status) \<times> pty_session \<times> 'w) option" where
  "finish_wait env deadline s w = map_option (\<lambda>(r, w). (case r of
       Inr status \<Rightarrow> (case session_close env s w of (r, s, w) \<Rightarrow> (case r of Inl e \<Rightarrow> Inl e | Inr _ \<Rightarrow> Inr status, s, w))
     | Inl e \<Rightarrow> (case session_close env s w of (_, s, w) \<Rightarrow> (Inl (case e of
            PeTimeout _ \<Rightarrow> PeTimeout (''finish: '' @ process_error_text e @ ''; child killed during teardown'')
          | _ \<Rightarrow> e), s, w))))
     (wait_exit env deadline w)"

definition session_finish ::
    "('b, 'w) handle_env \<Rightarrow> nat \<Rightarrow> pty_session \<Rightarrow> 'w \<Rightarrow> ((process_error + exit_status) \<times> 'w) option" where
  "session_finish env deadline s w = map_option (\<lambda>(r, s, w). (r, session_drop env s w))
     (case session_close_input env s w of (r, w) \<Rightarrow> (case r of
        Inr _ \<Rightarrow> finish_wait env deadline s w
      | Inl (PeChildExited _) \<Rightarrow> finish_wait env deadline s w
      | Inl e \<Rightarrow> Some (Inl e, s, w)))"

section \<open>Starting a session\<close>

record startup_faults =
  sf_reader :: bool
  sf_writer :: bool
  sf_poll :: bool
  sf_worker_thread :: bool
  sf_reader_thread :: bool
  sf_setup :: bool

definition no_faults :: startup_faults where
  "no_faults = \<lparr>sf_reader = False, sf_writer = False, sf_poll = False, sf_worker_thread = False, sf_reader_thread = False,
     sf_setup = False\<rparr>"

record startup_guard =
  sg_ctl :: bool
  sg_worker :: "thread option"
  sg_defused :: bool

definition guard_armed :: startup_guard where
  "guard_armed = \<lparr>sg_ctl = False, sg_worker = None, sg_defused = False\<rparr>"

definition guard_set_worker :: "thread \<Rightarrow> startup_guard \<Rightarrow> startup_guard" where
  "guard_set_worker t g = g\<lparr>sg_ctl := True, sg_worker := Some t\<rparr>"

definition guard_take_worker :: "startup_guard \<Rightarrow> thread option \<times> startup_guard" where
  "guard_take_worker g = (sg_worker g, g\<lparr>sg_worker := None\<rparr>)"

definition guard_defuse :: "startup_guard \<Rightarrow> startup_guard" where
  "guard_defuse g = g\<lparr>sg_defused := True\<rparr>"

definition guard_drop :: "('b, 'w) handle_env \<Rightarrow> startup_guard \<Rightarrow> 'w \<Rightarrow> 'w" where
  "guard_drop env g w =
     (if sg_defused g then w
      else let w = hs_set_shutdown env w;
               w = snd (child_kill env w);
               w = (if sg_ctl g then snd (hs_send env CtlShutdown w) else w);
               w = (case sg_worker g of Some t \<Rightarrow> snd (hs_join env t w) | None \<Rightarrow> w)
           in snd (child_wait env w))"

text \<open>The reader and the writer are taken and the child is polled before a thread runs.\<close>

definition fail_if :: "bool \<Rightarrow> string \<Rightarrow> ('w, string, unit) io" where
  "fail_if fault m = io_lift (if fault then Inl m else Inr ())"

definition startup_io ::
    "('b, 'w) handle_env \<Rightarrow> startup_faults \<Rightarrow> handle \<Rightarrow> ('w, string, handle \<times> handle) io" where
  "startup_io env faults master =
     io_bind (fail_if (sf_reader faults) ''injected reader failure'') (\<lambda>_.
     io_bind (io_err (\<lambda>e. ''pty reader failed: '' @ pty_error_text e) (try_clone_reader (hs_backend env) master)) (\<lambda>reader.
     io_bind (fail_if (sf_writer faults) ''injected writer failure'') (\<lambda>_.
     io_bind (io_err (\<lambda>e. ''pty writer failed: '' @ pty_error_text e) (take_writer (hs_backend env) master)) (\<lambda>writer.
     io_bind (fail_if (sf_poll faults) ''injected child-poll failure'') (\<lambda>_.
     io_bind (io_err (\<lambda>e. ''child poll failed: '' @ io_text e) (child_poll env)) (\<lambda>_.
     io_ret (reader, writer)))))))"

definition session_config :: "session_options \<Rightarrow> handle \<Rightarrow> shared_child \<Rightarrow> handle \<Rightarrow> worker_config" where
  "session_config opts master killer writer = \<lparr>wc_master = master, wc_killer = killer, wc_writer = writer,
     wc_cols = so_cols opts, wc_rows = so_rows opts, wc_scrollback = so_scrollback opts,
     wc_record_output = so_record_output opts, wc_event_cap = so_event_cap opts,
     wc_output_cap_bytes = so_output_cap_bytes opts\<rparr>"

definition start_worker ::
    "('b, 'w) handle_env \<Rightarrow> session_options \<Rightarrow> startup_faults \<Rightarrow> handle \<Rightarrow> handle \<Rightarrow> ('w, string, thread) io" where
  "start_worker env opts faults master writer =
     io_bind (fail_if (sf_worker_thread faults) ''injected worker-thread failure'') (\<lambda>_ w.
     io_err (\<lambda>e. ''worker spawn failed: '' @ io_text e)
       (hs_start_worker env (session_config opts master (hs_child env w) writer)) w)"

definition start_reader :: "('b, 'w) handle_env \<Rightarrow> startup_faults \<Rightarrow> handle \<Rightarrow> ('w, string, thread) io" where
  "start_reader env faults reader =
     io_bind (fail_if (sf_reader_thread faults) ''injected reader-thread failure'') (\<lambda>_.
     io_err (\<lambda>e. ''reader spawn failed: '' @ io_text e) (hs_start_reader env reader))"

text \<open>The last stage: both threads run, and the worker must answer a snapshot.\<close>

definition handshake ::
    "('b, 'w) handle_env \<Rightarrow> startup_faults \<Rightarrow> pty_session \<Rightarrow> 'w \<Rightarrow> (process_error + pty_session) \<times> 'w" where
  "handshake env faults s w =
     (if sf_setup faults
      then (case session_close env (s\<lparr>ss_ctl := False\<rparr>) w of (_, s, w) \<Rightarrow>
              (Inl (PeSpawn ''injected setup failure: worker did not answer''), session_drop env s w))
      else (case session_snapshot env s w of
              (Inl e, w) \<Rightarrow> (case session_close env s w of (_, s, w) \<Rightarrow>
                 (Inl (PeSpawn (''worker did not answer: '' @ process_error_text e)), session_drop env s w))
            | (Inr _, w) \<Rightarrow> (Inr s, w)))"

definition session_start ::
    "('b, 'w) handle_env \<Rightarrow> session_options \<Rightarrow> startup_faults \<Rightarrow> handle \<Rightarrow> 'w \<Rightarrow> (process_error + pty_session) \<times> 'w" where
  "session_start env opts faults master w =
     (let guard = guard_armed in
      case startup_io env faults master w of
        (Inl m, w) \<Rightarrow> (Inl (PeSpawn m), guard_drop env guard w)
      | (Inr (reader, writer), w) \<Rightarrow>
          let pid = sh_pid (hs_child env w) in
          (case start_worker env opts faults master writer w of
             (Inl m, w) \<Rightarrow> (Inl (PeSpawn m), guard_drop env guard w)
           | (Inr worker, w) \<Rightarrow>
               let guard = guard_set_worker worker guard in
               (case start_reader env faults reader w of
                  (Inl m, w) \<Rightarrow> (Inl (PeSpawn m), guard_drop env guard w)
                | (Inr reader_thread, w) \<Rightarrow>
                    (case guard_take_worker guard of (worker, guard) \<Rightarrow>
                       (case handshake env faults \<lparr>ss_ctl = True, ss_worker = worker, ss_reader = Some reader_thread,
                            ss_closed = False, ss_pid = pid\<rparr> w of
                          (r, w) \<Rightarrow> (r, guard_drop env (guard_defuse guard) w))))))"

text \<open>The result carries the pid that \<open>spawned_pid\<close> receives.\<close>

definition spawn_with_faults ::
    "('b, 'w) handle_env \<Rightarrow> spawn_params \<Rightarrow> session_options \<Rightarrow> startup_faults \<Rightarrow> 'w
      \<Rightarrow> (process_error + pty_session) \<times> nat option \<times> 'w" where
  "spawn_with_faults env p opts faults w =
     (case check_geometry (so_cols opts) (so_rows opts) of
        Inl m \<Rightarrow> (Inl (PeSpawn m), None, w)
      | Inr _ \<Rightarrow>
          if sp_argv p = [] then (Inl (PeSpawn ''empty argv''), None, w)
          else (case spawn_pty (hs_backend env) (effective_params p opts) (so_cols opts) (so_rows opts) w of
                  (Inl e, w) \<Rightarrow> (Inl (PeSpawn (''pty spawn failed: '' @ pty_error_text e)), None, w)
                | (Inr (master, child), w) \<Rightarrow>
                    let killer = sh_new (hs_backend env) child;
                        (r, w) = session_start env opts faults master (hs_set_child env killer w)
                    in (r, sh_pid killer, w)))"

definition session_spawn ::
    "('b, 'w) handle_env \<Rightarrow> spawn_params \<Rightarrow> session_options \<Rightarrow> 'w \<Rightarrow> (process_error + pty_session) \<times> 'w" where
  "session_spawn env p opts w = (case spawn_with_faults env p opts no_faults w of (r, _, w) \<Rightarrow> (r, w))"

end
