(* ===== verification/Session_Safety.thy ===== *)
theory Session_Safety
  imports Session
begin

text \<open>
  What the session handle promises: a failed start leaves neither a child nor a thread behind, closing is final,
  every wait returns by its deadline, and \<open>finish\<close> always ends with everything cleaned up.
\<close>

section \<open>The host of a session\<close>

text \<open>
  What a call that neither starts nor joins a thread may change: it keeps the threads (\<open>threads w\<close> are those that
  were started and not joined), other threads may reap the shared child but not forget that, and nobody opens a
  closed rendezvous.
\<close>

definition child_kept :: "shared_child \<Rightarrow> shared_child \<Rightarrow> bool" where
  "child_kept c c' \<longleftrightarrow> (sh_inv c \<longrightarrow> sh_inv c' \<and> (sh_reaped c \<longrightarrow> sh_reaped c'))"

definition others_kept :: "('b, 'w) handle_env \<Rightarrow> 'w \<Rightarrow> 'w \<Rightarrow> bool" where
  "others_kept env w w' \<longleftrightarrow> child_kept (hs_child env w) (hs_child env w')
     \<and> (sd_closed (hs_shared env w) \<longrightarrow> sd_closed (hs_shared env w'))"

definition kept :: "('b, 'w) handle_env \<Rightarrow> ('w \<Rightarrow> thread set) \<Rightarrow> 'w \<Rightarrow> 'w \<Rightarrow> bool" where
  "kept env threads w w' \<longleftrightarrow> threads w' = threads w \<and> others_kept env w w'"

definition started :: "('b, 'w) handle_env \<Rightarrow> ('w \<Rightarrow> thread set) \<Rightarrow> 'w \<Rightarrow> ('e + thread) \<times> 'w \<Rightarrow> bool" where
  "started env threads w x \<longleftrightarrow> (case x of (r, w') \<Rightarrow> case r of
       Inl _ \<Rightarrow> kept env threads w w'
     | Inr t \<Rightarrow> t \<notin> threads w \<and> threads w' = insert t (threads w) \<and> others_kept env w w')"

definition host_ok :: "('b, 'w) handle_env \<Rightarrow> ('w \<Rightarrow> thread set) \<Rightarrow> bool" where
  "host_ok env threads \<longleftrightarrow>
     (\<forall>c w. hs_child env (hs_set_child env c w) = c \<and> hs_shared env (hs_set_child env c w) = hs_shared env w
        \<and> threads (hs_set_child env c w) = threads w)
   \<and> (\<forall>s w. hs_shared env (hs_set_shared env s w) = s \<and> hs_child env (hs_set_shared env s w) = hs_child env w
        \<and> threads (hs_set_shared env s w) = threads w)
   \<and> (\<forall>w. kept env threads w (hs_set_shutdown env w))
   \<and> (\<forall>w. kept env threads w (snd (hs_now env w)))
   \<and> (\<forall>n w. kept env threads w (hs_wait_changed env n w))
   \<and> (\<forall>op w. kept env threads w (snd (hs_send env op w)))
   \<and> (\<forall>w. kept env threads w (snd (hs_recv_snapshot env w)))
   \<and> (\<forall>w. kept env threads w (snd (hs_recv_result env w)))
   \<and> (\<forall>h w. kept env threads w (snd (pb_clone_reader (hs_backend env) h w)))
   \<and> (\<forall>h w. kept env threads w (snd (pb_take_writer (hs_backend env) h w)))
   \<and> (\<forall>h w. kept env threads w (snd (pb_try_wait (hs_backend env) h w)))
   \<and> (\<forall>h w. kept env threads w (snd (pb_kill (hs_backend env) h w)))
   \<and> (\<forall>h w. kept env threads w (snd (pb_wait (hs_backend env) h w)) \<and> (\<exists>s. fst (pb_wait (hs_backend env) h w) = Inr s))
   \<and> (\<forall>c w. started env threads w (hs_start_worker env c w))
   \<and> (\<forall>h w. started env threads w (hs_start_reader env h w))
   \<and> (\<forall>t w. threads (snd (hs_join env t w)) = threads w - {t} \<and> others_kept env w (snd (hs_join env t w)))"

lemma child_kept_refl [simp]: "child_kept c c"
  by (simp add: child_kept_def)

lemma child_kept_trans: "child_kept a b \<Longrightarrow> child_kept b c \<Longrightarrow> child_kept a c"
  by (auto simp: child_kept_def)

lemma others_kept_refl [simp]: "others_kept env w w"
  by (simp add: others_kept_def)

lemma others_kept_trans: "others_kept env a b \<Longrightarrow> others_kept env b c \<Longrightarrow> others_kept env a c"
  by (auto simp: others_kept_def intro: child_kept_trans)

lemma kept_refl [simp]: "kept env threads w w"
  by (simp add: kept_def)

lemma kept_trans: "kept env threads a b \<Longrightarrow> kept env threads b c \<Longrightarrow> kept env threads a c"
  by (auto simp: kept_def intro: others_kept_trans)

lemma host_calls:
  assumes "host_ok env threads"
  shows "kept env threads w (hs_set_shutdown env w)" "kept env threads w (snd (hs_now env w))"
    "kept env threads w (hs_wait_changed env n w)" "kept env threads w (snd (hs_send env op w))"
    "kept env threads w (snd (hs_recv_snapshot env w))" "kept env threads w (snd (hs_recv_result env w))"
    "kept env threads w (snd (pb_clone_reader (hs_backend env) h w))" "kept env threads w (snd (pb_take_writer (hs_backend env) h w))"
    "kept env threads w (snd (pb_try_wait (hs_backend env) h w))" "kept env threads w (snd (pb_kill (hs_backend env) h w))"
    "kept env threads w (snd (pb_wait (hs_backend env) h w))" "others_kept env w (snd (hs_join env t w))"
    "threads (snd (hs_join env t w)) = threads w - {t}"
  using assms by (auto simp: host_ok_def)

lemma host_child:
  assumes "host_ok env threads" "kept env threads w v" "child_kept (hs_child env w) c"
  shows "kept env threads w (hs_set_child env c v)"
  using assms by (simp add: host_ok_def kept_def others_kept_def)

lemma kept_on_shared:
  assumes "host_ok env threads" "\<And>s. sd_closed s \<Longrightarrow> sd_closed (f s)"
  shows "kept env threads w (on_shared env f w)"
  using assms by (simp add: host_ok_def on_shared_def kept_def others_kept_def)

lemma kept_record_teardown: "host_ok env threads \<Longrightarrow> kept env threads w (on_shared env (record_teardown m) w)"
  by (rule kept_on_shared) (simp_all add: record_teardown_def)

lemma kept_record:
  assumes "host_ok env threads" "kept env threads w (snd (call w))"
  shows "kept env threads w (record_failure env m call w)"
  using assms(2) kept_trans [OF assms(2) kept_record_teardown [OF assms(1)]]
  by (cases "call w") (auto simp: record_failure_def split: sum.split)

lemma kept_poll:
  assumes "host_ok env threads"
  shows "kept env threads w (snd (child_poll env w))"
proof -
  obtain r c v where p: "sh_poll (hs_backend env) (hs_child env w) w = (r, c, v)" by (metis prod_cases3)
  have "child_kept (hs_child env w) c"
    using sh_poll_spec [OF _ p] by (auto simp: child_kept_def sh_inv_def)
  moreover have "kept env threads w v"
  proof (cases "sh_reaped (hs_child env w)")
    case False
    obtain x u where x: "pb_try_wait (hs_backend env) (pt_inner (sh_child (hs_child env w))) w = (x, u)" by fastforce
    then have "v = u" using p False by (cases x) (auto simp: sh_poll_def pt_try_wait_def Let_def split: option.splits)
    with host_calls(9) [OF assms] x show ?thesis by (metis snd_conv)
  qed (use p in \<open>simp add: sh_poll_def\<close>)
  ultimately show ?thesis using host_child [OF assms] p by (simp add: child_poll_def)
qed

lemma kept_kill: "host_ok env threads \<Longrightarrow> kept env threads w (snd (child_kill env w))"
  by (simp add: child_kill_def kill_locked_def pt_kill_def host_calls)

lemma wait_reaps:
  assumes "host_ok env threads" "sh_inv (hs_child env w)"
  shows "\<exists>s w'. child_wait env w = (Inr s, w') \<and> kept env threads w w' \<and> sh_inv (hs_child env w') \<and> sh_reaped (hs_child env w')"
proof -
  let ?c = "hs_child env w"
  obtain r c v where p: "wait_locked (hs_backend env) ?c w = (r, c, v)" by (metis prod_cases3)
  obtain x u where x: "pb_wait (hs_backend env) (pt_inner (sh_child ?c)) w = (x, u)" by fastforce
  then obtain st where st: "x = Inr st" "kept env threads w u" using assms(1) by (auto simp: host_ok_def) (metis fst_conv snd_conv)+
  have "(\<exists>s. r = Inr s) \<and> kept env threads w v"
    using p x st by (cases "sh_status ?c") (auto simp: wait_locked_def pt_wait_def)
  moreover note spec = sh_wait_spec [OF assms(2) p]
  moreover have "child_kept ?c c" using spec calculation(1) by (auto simp: child_kept_def sh_inv_def)
  ultimately show ?thesis using host_child [OF assms(1), of w v c] assms(1) p
    by (auto simp: child_wait_def sh_inv_def host_ok_def)
qed

lemma kept_record_kill: "host_ok env threads \<Longrightarrow> kept env threads w (record_failure env m (child_kill env) w)"
  by (rule kept_record [OF _ kept_kill])

section \<open>Cleaning up\<close>

text \<open>The threads in \<open>ts\<close> have been joined and the child has been reaped.\<close>

definition cleaned :: "('b, 'w) handle_env \<Rightarrow> ('w \<Rightarrow> thread set) \<Rightarrow> thread set \<Rightarrow> 'w \<Rightarrow> 'w \<Rightarrow> bool" where
  "cleaned env threads ts w w' \<longleftrightarrow> threads w' = threads w - ts \<and> others_kept env w w'
     \<and> sh_inv (hs_child env w') \<and> sh_reaped (hs_child env w')"

lemma kept_inv: "kept env threads w w' \<Longrightarrow> sh_inv (hs_child env w) \<Longrightarrow> sh_inv (hs_child env w')"
  by (simp add: kept_def others_kept_def child_kept_def)

lemma others_inv: "others_kept env w w' \<Longrightarrow> sh_inv (hs_child env w) \<Longrightarrow> sh_inv (hs_child env w')"
  by (simp add: others_kept_def child_kept_def)

lemma join_kept:
  assumes "host_ok env threads"
  shows "others_kept env w (join_thread env m t w) \<and> threads (join_thread env m t w) = threads w - set_option t"
proof (cases t)
  case (Some x)
  obtain ended v where v: "hs_join env x w = (ended, v)" by fastforce
  have "others_kept env w v" "threads v = threads w - {x}" using host_calls(12,13) [OF assms, where w = w and t = x] v by simp_all
  moreover have "kept env threads v (on_shared env (record_teardown m) v)" by (rule kept_record_teardown [OF assms])
  ultimately show ?thesis using Some v by (auto simp: join_thread_def kept_def intro: others_kept_trans)
qed (simp add: join_thread_def)

lemma join_threads_kept:
  assumes "host_ok env threads" "join_threads env (s, w) = (s', w')"
  shows "s' = s\<lparr>ss_worker := None, ss_reader := None\<rparr> \<and> others_kept env w w' \<and> sd_closed (hs_shared env w')
    \<and> threads w' = threads w - (set_option (ss_worker s) \<union> set_option (ss_reader s))"
proof -
  let ?v = "join_thread env ''worker thread panicked'' (ss_worker s) w"
  let ?u = "join_thread env ''reader thread panicked'' (ss_reader s) ?v"
  have w': "w' = on_shared env mark_closed ?u" "s' = s\<lparr>ss_worker := None, ss_reader := None\<rparr>"
    using assms(2) by (simp_all add: join_threads_def)
  have "kept env threads ?u w'" unfolding w' by (rule kept_on_shared [OF assms(1)]) (simp add: mark_closed_def)
  moreover have "sd_closed (hs_shared env w')" using assms(1) by (simp add: w' on_shared_def host_ok_def mark_closed_def)
  ultimately show ?thesis
    using join_kept [OF assms(1), of w "''worker thread panicked''" "ss_worker s"]
      join_kept [OF assms(1), of ?v "''reader thread panicked''" "ss_reader s"] w'(2)
    by (auto simp: kept_def intro: others_kept_trans)
qed

lemma guard_drop_cleans:
  assumes host: "host_ok env threads" and "sh_inv (hs_child env w)" "\<not> sg_defused g"
  shows "cleaned env threads (set_option (sg_worker g)) w (guard_drop env g w)"
proof -
  let ?w1 = "hs_set_shutdown env w"
  let ?w2 = "snd (child_kill env ?w1)"
  let ?w3 = "if sg_ctl g then snd (hs_send env CtlShutdown ?w2) else ?w2"
  let ?w4 = "case sg_worker g of Some t \<Rightarrow> snd (hs_join env t ?w3) | None \<Rightarrow> ?w3"
  have "kept env threads w ?w1" "kept env threads ?w1 ?w2" "kept env threads ?w2 ?w3"
    using host_calls(1,4) [OF host] kept_kill [OF host] by simp_all
  then have w3: "kept env threads w ?w3" by (blast intro: kept_trans)
  have "others_kept env ?w3 ?w4" "threads ?w4 = threads ?w3 - set_option (sg_worker g)"
    using host_calls(12,13) [OF host] by (simp_all split: option.split)
  then have w4: "others_kept env w ?w4" "threads ?w4 = threads w - set_option (sg_worker g)"
    using w3 by (auto simp: kept_def intro: others_kept_trans)
  from wait_reaps [OF host others_inv [OF w4(1) assms(2)]] obtain s v where
    v: "child_wait env ?w4 = (Inr s, v)" "kept env threads ?w4 v" "sh_inv (hs_child env v)" "sh_reaped (hs_child env v)" by blast
  then show ?thesis using w4 assms(3) by (auto simp: cleaned_def kept_def guard_drop_def Let_def intro: others_kept_trans)
qed

lemma teardown_cleans:
  assumes host: "host_ok env threads" and inv: "sh_inv (hs_child env w)" and "\<not> ss_closed s" "teardown env (s, w) = (s', w')"
  shows "cleaned env threads (set_option (ss_worker s) \<union> set_option (ss_reader s)) w w' \<and> sd_closed (hs_shared env w')
    \<and> ss_closed s' \<and> \<not> ss_ctl s' \<and> ss_worker s' = None \<and> ss_reader s' = None"
proof -
  let ?w1 = "hs_set_shutdown env w"
  let ?w2 = "record_failure env ''child kill during teardown failed: '' (child_kill env) ?w1"
  let ?w3 = "if ss_ctl s then snd (hs_send env CtlShutdown ?w2) else ?w2"
  have "kept env threads w ?w1" "kept env threads ?w1 ?w2" "kept env threads ?w2 ?w3"
    using host_calls(1,4) [OF host] kept_record_kill [OF host] by simp_all
  then have w3: "kept env threads w ?w3" by (blast intro: kept_trans)
  obtain s4 w4 where j: "join_threads env (s\<lparr>ss_closed := True, ss_ctl := False\<rparr>, ?w3) = (s4, w4)" by fastforce
  from join_threads_kept [OF host j] have w4: "others_kept env ?w3 w4" "sd_closed (hs_shared env w4)"
    "threads w4 = threads ?w3 - (set_option (ss_worker s) \<union> set_option (ss_reader s))"
    and s4: "s4 = s\<lparr>ss_closed := True, ss_ctl := False, ss_worker := None, ss_reader := None\<rparr>" by simp_all
  have "others_kept env w w4" using w3 w4(1) by (auto simp: kept_def intro: others_kept_trans)
  from wait_reaps [OF host others_inv [OF this inv]] obtain st v where
    v: "child_wait env w4 = (Inr st, v)" "kept env threads w4 v" "sh_inv (hs_child env v)" "sh_reaped (hs_child env v)" by blast
  have "s' = s4" "w' = record_failure env ''child reap during teardown failed: '' (child_wait env) w4"
    using assms(3,4) j by (simp_all add: teardown_def Let_def)
  moreover have "record_failure env m (child_wait env) w4 = v" for m using v(1) by (simp add: record_failure_def)
  ultimately have "s' = s4" "w' = v" by simp_all
  then show ?thesis using v w3 w4 s4 \<open>others_kept env w w4\<close>
    by (auto simp: cleaned_def kept_def others_kept_def intro: child_kept_trans)
qed

lemma teardown_again:
  assumes "host_ok env threads" "ss_closed s" "ss_worker s = None" "ss_reader s = None"
  shows "teardown env (s, w) = (s, on_shared env mark_closed w)"
  using assms(2-) by (simp add: teardown_def join_threads_def join_thread_def)

lemma closed_again:
  assumes "host_ok env threads" "cleaned env threads ts w v" "sd_closed (hs_shared env v)"
  shows "cleaned env threads ts w (on_shared env mark_closed v)"
  using assms by (simp add: host_ok_def on_shared_def cleaned_def others_kept_def mark_closed_def)

text \<open>Closing and then dropping.\<close>

lemma close_drop_cleans:
  assumes host: "host_ok env threads" and "sh_inv (hs_child env w)" "\<not> ss_closed s" "session_close env s w = (r, s', w')"
  shows "cleaned env threads (set_option (ss_worker s) \<union> set_option (ss_reader s)) w (session_drop env s' w')"
    "sd_closed (hs_shared env (session_drop env s' w'))"
proof -
  have t: "teardown env (s, w) = (s', w')" using assms(4) by (simp add: session_close_def split_beta prod_eq_iff)
  note c = teardown_cleans [OF host assms(2,3) t]
  then have "session_drop env s' w' = on_shared env mark_closed w'" using teardown_again [OF host] by (simp add: session_drop_def)
  with c closed_again [OF host] host
  show "cleaned env threads (set_option (ss_worker s) \<union> set_option (ss_reader s)) w (session_drop env s' w')"
    "sd_closed (hs_shared env (session_drop env s' w'))" by (auto simp: host_ok_def on_shared_def mark_closed_def)
qed

section \<open>The environment of the child\<close>

lemma utf8_ascii: "list_all (\<lambda>c. of_char c < (0x80::nat)) s \<Longrightarrow> utf8 (map of_char s) = bytes s"
  by (induction s) (auto simp: utf8_def utf8_enc_def bytes_def byte_def of_nat_of_char)

lemma ascii_key:
  assumes "list_all (\<lambda>c. of_char c < (0x80::nat)) key"
  shows "from_utf8 k = Some (map of_char key) \<longleftrightarrow> k = bytes key"
proof -
  have "is_scalar (of_char c)" if "c \<in> set key" for c
    using assms that by (fastforce simp: list_all_iff is_scalar_def)
  then show ?thesis using utf8_ascii [OF assms] by (auto simp: from_utf8_iff)
qed

lemma overrides_key_iff:
  assumes "list_all (\<lambda>c. of_char c < (0x80::nat)) key"
  shows "overrides_key p key \<longleftrightarrow> map_of (rev (sp_env_overrides p)) (bytes key) \<noteq> None"
proof -
  have "overrides_key p key \<longleftrightarrow> bytes key \<in> fst ` set (sp_env_overrides p)"
    by (force simp: overrides_key_def list_ex_iff ascii_key [OF assms])
  then show ?thesis by (simp add: map_of_eq_None_iff)
qed

text \<open>
  The last override of a variable counts: \<open>TERM\<close> and \<open>COLORTERM\<close> come from the options only if the parameters do
  not set them, and no other variable is touched.
\<close>

lemma effective_overrides:
  "map_of (rev (sp_env_overrides (effective_params p opts))) k = (case map_of (rev (sp_env_overrides p)) k of
      Some v \<Rightarrow> Some v
    | None \<Rightarrow> if k = bytes ''TERM'' then Some (bytes (so_term opts))
              else if k = bytes ''COLORTERM'' then Some (bytes (so_colorterm opts)) else None)"
proof -
  have keys: "list_all (\<lambda>c. of_char c < (0x80::nat)) ''TERM''" "list_all (\<lambda>c. of_char c < (0x80::nat)) ''COLORTERM''" by simp_all
  show ?thesis unfolding effective_params_def Let_def overrides_key_iff [OF keys(1)] overrides_key_iff [OF keys(2)]
    by (auto simp: sp_env_def split: option.splits)
qed

section \<open>A failed start leaves nothing behind\<close>

lemma fail_if_world: "fail_if b m w = (r, w') \<Longrightarrow> w' = w"
  by (simp add: fail_if_def io_lift_def)

lemma io_bind_kept:
  assumes "kept env threads w (snd (m w))" "\<And>x v. m w = (Inr x, v) \<Longrightarrow> kept env threads v (snd (f x v))"
  shows "kept env threads w (snd (io_bind m f w))"
  using assms kept_trans by (cases "m w") (fastforce simp: io_bind_def split: sum.split)

lemma io_err_kept: "kept env threads w (snd (m w)) \<Longrightarrow> kept env threads w (snd (io_err g m w))"
  by (cases "m w") (auto simp: io_err_def split: sum.split)

lemma io_lift_kept: "kept env threads w (snd (io_lift r w))" "kept env threads w (snd (io_ret x w))"
  by (simp_all add: io_lift_def io_ret_def)

lemma startup_io_kept: "host_ok env threads \<Longrightarrow> kept env threads w (snd (startup_io env faults master w))"
  unfolding startup_io_def fail_if_def try_clone_reader_def take_writer_def
  by (intro io_bind_kept io_err_kept io_lift_kept kept_poll host_calls)

lemma started_bind:
  assumes "started env threads w (call w)"
  shows "started env threads w (io_bind (fail_if b m) (\<lambda>_. io_err g call) w)"
  using assms by (cases "call w") (simp add: started_def io_bind_def fail_if_def io_lift_def io_err_def split: sum.splits)

lemma start_worker_started:
  assumes "host_ok env threads"
  shows "started env threads w (start_worker env opts faults master writer w)"
proof -
  have "start_worker env opts faults master writer w
      = io_bind (fail_if (sf_worker_thread faults) ''injected worker-thread failure'')
          (\<lambda>_. io_err (\<lambda>e. ''worker spawn failed: '' @ io_text e)
            (hs_start_worker env (session_config opts master (hs_child env w) writer))) w"
    by (simp add: start_worker_def io_bind_def fail_if_def io_lift_def)
  also have "started env threads w \<dots>" by (rule started_bind) (use assms in \<open>simp add: host_ok_def\<close>)
  finally show ?thesis .
qed

lemma start_reader_started:
  assumes "host_ok env threads"
  shows "started env threads w (start_reader env faults reader w)"
  unfolding start_reader_def by (rule started_bind) (use assms in \<open>simp add: host_ok_def\<close>)

lemma send_kept:
  assumes "host_ok env threads"
  shows "kept env threads w (snd (session_send env op s w))"
  using host_calls(4) [OF assms, where w = w and op = op] by (simp add: session_send_def split_beta)

lemma snapshot_kept: "host_ok env threads \<Longrightarrow> kept env threads w (snd (session_snapshot env s w))"
  unfolding session_snapshot_def
proof (rule io_bind_kept)
  fix v
  assume "host_ok env threads"
  then show "kept env threads v (snd (recv_value (hs_recv_snapshot env) ''snapshot'' v))"
    using host_calls(5) [of env threads v] by (cases "hs_recv_snapshot env v") (simp add: recv_value_def)
qed (rule send_kept)

lemma handshake_cleans:
  assumes host: "host_ok env threads" and inv: "sh_inv (hs_child env w)" and "\<not> ss_closed s" "handshake env faults s w = (r, w')"
  shows "case r of Inl _ \<Rightarrow> cleaned env threads (set_option (ss_worker s) \<union> set_option (ss_reader s)) w w'
    | Inr s' \<Rightarrow> s' = s \<and> kept env threads w w'"
proof (cases "sf_setup faults")
  case True
  obtain r1 s1 w1 where c: "session_close env (s\<lparr>ss_ctl := False\<rparr>) w = (r1, s1, w1)" by (metis prod_cases3)
  from close_drop_cleans(1) [OF host inv _ this] assms(3,4) True c show ?thesis by (auto simp: handshake_def)
next
  case False
  obtain x v where x: "session_snapshot env s w = (x, v)" by fastforce
  have v: "kept env threads w v" using snapshot_kept [OF host, of w s] x by simp
  show ?thesis
  proof (cases x)
    case (Inl e)
    obtain r1 s1 w1 where c: "session_close env s v = (r1, s1, w1)" by (metis prod_cases3)
    from close_drop_cleans(1) [OF host kept_inv [OF v inv] assms(3) c] v assms(4) False x Inl c show ?thesis
      by (auto simp: handshake_def cleaned_def kept_def intro: others_kept_trans)
  next
    case (Inr y)
    with assms(4) False x v show ?thesis by (auto simp: handshake_def)
  qed
qed

lemma session_start_cleans:
  assumes host: "host_ok env threads" and inv: "sh_inv (hs_child env w)" and run: "session_start env opts faults master w = (r, w')"
  shows "case r of Inl _ \<Rightarrow> cleaned env threads {} w w'
    | Inr s \<Rightarrow> (\<exists>t u. ss_worker s = Some t \<and> ss_reader s = Some u \<and> t \<notin> threads w \<and> u \<notin> threads w \<and> t \<noteq> u
        \<and> threads w' = {t, u} \<union> threads w) \<and> ss_ctl s \<and> \<not> ss_closed s \<and> others_kept env w w'"
proof -
  obtain x w1 where 1: "startup_io env faults master w = (x, w1)" by fastforce
  have k1: "kept env threads w w1" using startup_io_kept [OF host, of w faults master] 1 by simp
  note inv1 = kept_inv [OF k1 inv]
  show ?thesis
  proof (cases x)
    case (Inl m)
    with run 1 guard_drop_cleans [OF host inv1, of guard_armed] k1 show ?thesis
      by (auto simp: session_start_def guard_armed_def cleaned_def kept_def intro: others_kept_trans)
  next
    case (Inr rw)
    then obtain reader writer where rw: "x = Inr (reader, writer)" by (cases rw) auto
    obtain y w2 where 2: "start_worker env opts faults master writer w1 = (y, w2)" by fastforce
    note st = start_worker_started [OF host, of w1 opts faults master writer, unfolded 2 started_def prod.case]
    show ?thesis
    proof (cases y)
      case (Inl m)
      with st have k2: "kept env threads w w2" using k1 by (auto intro: kept_trans)
      from guard_drop_cleans [OF host kept_inv [OF k2 inv], of guard_armed] run 1 rw 2 Inl k2 show ?thesis
        by (auto simp: session_start_def guard_armed_def cleaned_def kept_def intro: others_kept_trans)
    next
      case (Inr t)
      with st k1 have t: "t \<notin> threads w" "threads w2 = insert t (threads w)" "others_kept env w w2"
        by (auto simp: kept_def intro: others_kept_trans)
      note inv2 = others_inv [OF t(3) inv]
      obtain z w3 where 3: "start_reader env faults reader w2 = (z, w3)" by fastforce
      note sr = start_reader_started [OF host, of w2 faults reader, unfolded 3 started_def prod.case]
      show ?thesis
      proof (cases z)
        case (Inl m)
        with sr have k3: "kept env threads w2 w3" by simp
        moreover from this have "others_kept env w w3" using t(3) by (auto simp: kept_def intro: others_kept_trans)
        moreover note guard_drop_cleans [OF host kept_inv [OF k3 inv2], of "guard_set_worker t guard_armed"]
        ultimately show ?thesis using run 1 rw 2 3 Inl Inr t
          by (auto simp: session_start_def guard_armed_def guard_set_worker_def cleaned_def kept_def intro: others_kept_trans)
      next
        case (Inr u)
        with sr t have u: "u \<notin> threads w" "u \<noteq> t" "threads w3 = {t, u} \<union> threads w" "others_kept env w w3"
          by (auto intro: others_kept_trans)
        let ?s = "\<lparr>ss_ctl = True, ss_worker = Some t, ss_reader = Some u, ss_closed = False, ss_pid = sh_pid (hs_child env w1)\<rparr>"
        obtain q w4 where h: "handshake env faults ?s w3 = (q, w4)" by fastforce
        have "r = q" "w' = w4" using run 1 rw 2 3 Inr \<open>y = Inr t\<close> h
          by (simp_all add: session_start_def guard_set_worker_def guard_take_worker_def guard_defuse_def guard_drop_def guard_armed_def)
        with handshake_cleans [OF host others_inv [OF u(4) inv] _ h] u t show ?thesis
          by (auto simp: cleaned_def kept_def intro: others_kept_trans split: sum.splits)
      qed
    qed
  qed
qed


section \<open>Closing is final\<close>

text \<open>
  Closing is final and idempotent. After \<open>close\<close> every operation of the handle is refused without a call on the
  system, and a second \<open>close\<close> neither kills, sends, joins nor waits: it marks the session closed again and gives
  the same answer.
\<close>

lemma close_final:
  assumes "host_ok env threads" "\<not> ss_closed s" "session_close env s w = (r, s', w')"
  shows "session_send env op s' v = (Inl (PeClosed ''session is closed''), v)
    \<and> session_close env s' w' = (r, s', on_shared env mark_closed w')"
proof -
  have t: "teardown env (s, w) = (s', w')" using assms(3) by (simp add: session_close_def split_beta prod_eq_iff)
  have s': "ss_closed s'" "ss_worker s' = None" "ss_reader s' = None"
    using t assms(2) by (auto simp: teardown_def join_threads_def Let_def)
  have "session_close env s' w' = (r, s', on_shared env mark_closed w')"
    using assms(1,3) t teardown_again [OF assms(1) s']
    by (auto simp: session_close_def host_ok_def on_shared_def mark_closed_def split: option.splits)
  with s' show ?thesis by (simp add: session_send_def)
qed

section \<open>Waiting\<close>

text \<open>The clock does not run backwards, a wait takes time, and reading the clock leaves the rendezvous alone.\<close>

definition clock :: "('b, 'w) handle_env \<Rightarrow> 'w \<Rightarrow> nat" where
  "clock env w = fst (hs_now env w)"

definition clock_ok :: "('b, 'w) handle_env \<Rightarrow> bool" where
  "clock_ok env \<longleftrightarrow> (\<forall>w. clock env w \<le> clock env (snd (hs_now env w)) \<and> hs_shared env (snd (hs_now env w)) = hs_shared env w)
     \<and> (\<forall>n w. 0 < n \<longrightarrow> clock env w < clock env (hs_wait_changed env n w))"

lemma wait_changed_returns:
  assumes "clock_ok env"
  shows "\<exists>w'. wait_outcome_changed env dl w = Some w' \<and> clock env w \<le> clock env w'
    \<and> (sd_outcome (hs_shared env w') = None \<and> \<not> sd_closed (hs_shared env w') \<longrightarrow> dl \<le> clock env w')"
proof (induction "dl - clock env w" arbitrary: w rule: less_induct)
  case less
  obtain now v where n: "hs_now env w = (now, v)" by fastforce
  then have now: "now = clock env w" "clock env w \<le> clock env v" "hs_shared env v = hs_shared env w"
    using assms by (auto simp: clock_ok_def clock_def) (metis fst_conv snd_conv)+
  let ?stay = "sd_outcome (hs_shared env w) = None \<and> \<not> sd_closed (hs_shared env w)"
  show ?case
  proof (cases "?stay \<and> now < dl")
    case True
    let ?u = "hs_wait_changed env (dl - now) v"
    have "clock env v < clock env ?u" using assms True by (simp add: clock_ok_def)
    then have "dl - clock env ?u < dl - clock env w" using True now by linarith
    from less [OF this] obtain w' where "wait_outcome_changed env dl ?u = Some w'" "clock env ?u \<le> clock env w'"
      "sd_outcome (hs_shared env w') = None \<and> \<not> sd_closed (hs_shared env w') \<longrightarrow> dl \<le> clock env w'" by blast
    with True n now \<open>clock env v < clock env ?u\<close> show ?thesis by (simp add: wait_outcome_changed.simps [of env dl w])
  next
    case False
    with n now show ?thesis by (auto simp: wait_outcome_changed.simps [of env dl w])
  qed
qed

definition wait_answer :: "('b, 'w) handle_env \<Rightarrow> nat \<Rightarrow> process_error + capture_outcome \<Rightarrow> 'w \<Rightarrow> bool" where
  "wait_answer env dl r w \<longleftrightarrow> (case r of
       Inr outcome \<Rightarrow> sd_outcome (hs_shared env w) = Some outcome
     | Inl (PeClosed _) \<Rightarrow> sd_outcome (hs_shared env w) = None \<and> sd_closed (hs_shared env w)
     | Inl (PeTimeout _) \<Rightarrow> sd_outcome (hs_shared env w) = None \<and> \<not> sd_closed (hs_shared env w) \<and> dl \<le> clock env w
     | Inl _ \<Rightarrow> False)"

lemma wait_outcome_answers:
  assumes "clock_ok env"
  shows "\<exists>r w'. wait_outcome env dl w = Some (r, w') \<and> wait_answer env dl r w'"
proof (induction "dl - clock env w" arbitrary: w rule: less_induct)
  case less
  obtain now v where n: "hs_now env w = (now, v)" by fastforce
  then have now: "now = clock env w" "clock env w \<le> clock env v" "hs_shared env v = hs_shared env w"
    using assms by (auto simp: clock_ok_def clock_def) (metis fst_conv snd_conv)+
  show ?case
  proof (cases "sd_outcome (hs_shared env w) = None \<and> \<not> sd_closed (hs_shared env w) \<and> now < dl")
    case True
    from wait_changed_returns [OF assms, of dl v] obtain u where u: "wait_outcome_changed env dl v = Some u" "clock env v \<le> clock env u"
      "sd_outcome (hs_shared env u) = None \<and> \<not> sd_closed (hs_shared env u) \<longrightarrow> dl \<le> clock env u" by blast
    have step: "wait_outcome env dl w = wait_outcome env dl u" using True n u by (simp add: wait_outcome.simps [of env dl w])
    show ?thesis
    proof (cases "dl \<le> clock env u")
      case True2: True
      then have "dl - clock env u < dl - clock env w" using True now by linarith
      from less [OF this] step show ?thesis by simp
    next
      case False
      with u(3) show ?thesis unfolding step
        by (auto simp: wait_outcome.simps [of env dl u] wait_answer_def split: option.split)
    qed
  next
    case False
    with n now show ?thesis
      by (auto simp: wait_outcome.simps [of env dl w] wait_answer_def split: option.split)
  qed
qed

text \<open>
  C31: a wait for the outcome ends by its deadline. With a clock that advances while the condition variable waits,
  \<open>wait_outcome\<close> always returns: with the declared outcome, or \<open>Closed\<close> when the session shut down without one, or
  \<open>Timeout\<close>, and that only when the deadline has passed and there is still no outcome.
\<close>

theorem wait_outcome_returns:
  assumes "clock_ok env"
  shows "\<exists>r w'. wait_outcome env deadline w = Some (r, w') \<and> (case r of
       Inr outcome \<Rightarrow> sd_outcome (hs_shared env w') = Some outcome
     | Inl (PeClosed _) \<Rightarrow> sd_outcome (hs_shared env w') = None \<and> sd_closed (hs_shared env w')
     | Inl (PeTimeout _) \<Rightarrow> sd_outcome (hs_shared env w') = None \<and> \<not> sd_closed (hs_shared env w') \<and> deadline \<le> clock env w'
     | Inl _ \<Rightarrow> False)"
  using wait_outcome_answers [OF assms] unfolding wait_answer_def .

lemma wait_changed_kept:
  fixes env :: "('b, 'w) handle_env"
  assumes host: "host_ok env threads" and run: "wait_outcome_changed env dl w = Some w'"
  shows "kept env threads w w'"
proof -
  have "env = env \<longrightarrow> kept env threads w w'"
  proof (rule wait_outcome_changed.raw_induct [OF _ run, of "\<lambda>e _ w w'. e = env \<longrightarrow> kept env threads w w'"])
    fix rec e and dl :: nat and w w'
    assume IH: "\<And>e dl w w'. rec e dl w = Some w' \<Longrightarrow> e = env \<longrightarrow> kept env threads w w'"
      and eq: "(if sd_outcome (hs_shared e w) = None \<and> \<not> sd_closed (hs_shared e w)
        then case hs_now e w of (now, w) \<Rightarrow> if dl \<le> now then Some w else rec e dl (hs_wait_changed e (dl - now) w)
        else Some w) = Some w'"
    obtain now v where n: "hs_now env w = (now, v)" by fastforce
    have v: "kept env threads w v" "kept env threads v (hs_wait_changed env (dl - now) v)"
      using host_calls(2,3) [OF host] n by (metis snd_conv)+
    show "e = env \<longrightarrow> kept env threads w w'"
    proof
      assume e: "e = env"
      with eq n have "w' = w \<or> w' = v \<or> rec env dl (hs_wait_changed env (dl - now) v) = Some w'" by (auto split: if_splits)
      then show "kept env threads w w'"
        using v IH [of env dl "hs_wait_changed env (dl - now) v" w'] kept_trans kept_refl by metis
    qed
  qed
  then show ?thesis by simp
qed

lemma wait_outcome_kept:
  fixes env :: "('b, 'w) handle_env"
  assumes host: "host_ok env threads" and run: "wait_outcome env dl w = Some x"
  shows "kept env threads w (snd x)"
proof -
  have "env = env \<longrightarrow> kept env threads w (snd x)"
  proof (rule wait_outcome.raw_induct [OF _ run, of "\<lambda>e _ w x. e = env \<longrightarrow> kept env threads w (snd x)"])
    fix rec e and dl :: nat and w x
    assume IH: "\<And>e dl w x. rec e dl w = Some x \<Longrightarrow> e = env \<longrightarrow> kept env threads w (snd x)"
      and eq: "(case sd_outcome (hs_shared e w) of
         None \<Rightarrow> if sd_closed (hs_shared e w) then Some (Inl (PeClosed ''session closed before child exit''), w)
           else case hs_now e w of (now, w) \<Rightarrow>
             if dl \<le> now then Some (Inl (PeTimeout ''child still alive''), w)
             else Option.bind (wait_outcome_changed e dl w) (rec e dl)
       | Some outcome \<Rightarrow> Some (Inr outcome, w)) = Some x"
    obtain now v where n: "hs_now env w = (now, v)" by fastforce
    have v: "kept env threads w v" using host_calls(2) [OF host] n by (metis snd_conv)
    show "e = env \<longrightarrow> kept env threads w (snd x)"
    proof
      assume e: "e = env"
      with eq n have "snd x = w \<or> snd x = v \<or> (\<exists>u. wait_outcome_changed env dl v = Some u \<and> rec env dl u = Some x)"
        by (auto simp: bind_eq_Some_conv split: option.splits if_splits)
      then show "kept env threads w (snd x)"
        using v IH wait_changed_kept [OF host] kept_trans kept_refl by metis
    qed
  qed
  then show ?thesis by simp
qed

section \<open>Finishing\<close>

lemma recv_reply_kept: "host_ok env threads \<Longrightarrow> kept env threads w (snd (recv_reply env what w))"
  using host_calls(6) [of env threads w] by (simp add: recv_reply_def split_beta)

lemma close_input_kept: "host_ok env threads \<Longrightarrow> kept env threads w (snd (session_close_input env s w))"
  unfolding session_close_input_def by (rule io_bind_kept [OF send_kept recv_reply_kept])

lemma finish_wait_cleans:
  assumes host: "host_ok env threads" and "clock_ok env" and inv: "sh_inv (hs_child env w)" and "\<not> ss_closed s"
  shows "\<exists>r s' w'. finish_wait env dl s w = Some (r, s', w')
    \<and> cleaned env threads (set_option (ss_worker s) \<union> set_option (ss_reader s)) w (session_drop env s' w')
    \<and> sd_closed (hs_shared env (session_drop env s' w'))"
proof -
  from wait_outcome_answers [OF assms(2)] obtain r v where r: "wait_outcome env dl w = Some (r, v)" by blast
  have v: "kept env threads w v" using wait_outcome_kept [OF host r] by simp
  obtain q s' w' where c: "session_close env s v = (q, s', w')" by (metis prod_cases3)
  note close_drop_cleans [OF host kept_inv [OF v inv] assms(4) c]
  then have "cleaned env threads (set_option (ss_worker s) \<union> set_option (ss_reader s)) w (session_drop env s' w')"
    "sd_closed (hs_shared env (session_drop env s' w'))"
    using v by (auto simp: cleaned_def kept_def intro: others_kept_trans)
  then show ?thesis using r c by (auto simp: finish_wait_def wait_exit_def split: sum.split)
qed


section \<open>The worker's side\<close>

text \<open>
  The sizes that \<open>spawn\<close> and \<open>resize\<close> let through are within the widths of the grid, so the worker starts in its
  invariant and every operation it receives fits.
\<close>

lemma geometry_bounds:
  "check_geometry cols rows = Inr () \<Longrightarrow> 1 \<le> cols \<and> cols \<le> MAX_COLS \<and> 1 \<le> rows \<and> rows \<le> u16_max"
  by (auto simp: check_geometry_def MIN_COLS_def MIN_ROWS_def SESSION_MAX_COLS_def SESSION_MAX_ROWS_def MAX_COLS_def u16_max_def
      split: if_splits)

lemma spawned_worker_inv:
  assumes "check_geometry (so_cols opts) (so_rows opts) = Inr ()" "sh_inv killer"
  shows "worker_inv (worker_new p (session_config opts master killer writer) shared_default)"
  using geometry_bounds [OF assms(1)] assms(2) by (intro worker_new_inv) (simp_all add: session_config_def)

lemma resize_fits:
  assumes "session_resize env cols rows s w = (r, w')"
  shows "ctl_fits (CtlResize cols rows) \<or> w' = w \<and> (\<exists>m. r = Inl (PeInvalidInput m))"
proof (cases "check_geometry cols rows")
  case (Inl m)
  with assms show ?thesis by (auto simp: session_resize_def io_lift_def)
next
  case (Inr u)
  with geometry_bounds [of cols rows] show ?thesis by simp
qed

section \<open>A host for examples\<close>

text \<open>
  One session whose worker never answers: sends are accepted, receives time out, a kill makes the child report its
  status, and the clock advances by what is waited.
\<close>

record host =
  ho_child :: shared_child
  ho_shared :: shared
  ho_threads :: "thread list"
  ho_clock :: nat

definition host_backend :: "(unit, host) pty_backend" where
  "host_backend = \<lparr>pb_from_argv = (\<lambda>_. ()), pb_env_clear = id, pb_env_remove = (\<lambda>_. id), pb_env = (\<lambda>_ _. id), pb_cwd = (\<lambda>_. id),
     pb_openpty = (\<lambda>_ _. io_ret (1, 2)), pb_spawn_command = (\<lambda>_ _. io_ret 3), pb_drop_slave = (\<lambda>_. id),
     pb_clone_reader = (\<lambda>_. io_ret 4), pb_take_writer = (\<lambda>_. io_ret 5), pb_resize = (\<lambda>_ _ _. io_ret ()),
     pb_get_size = (\<lambda>_. io_ret (24, 80)), pb_process_id = (\<lambda>_. Some 77), pb_try_wait = (\<lambda>_. io_ret None),
     pb_wait = (\<lambda>_. io_ret (1, Some ''Killed'')), pb_kill = (\<lambda>_. io_ret ())\<rparr>"

definition host_start :: "host \<Rightarrow> (io_error + thread) \<times> host" where
  "host_start w = (let t = Suc (foldr max (ho_threads w) 0) in (Inr t, w\<lparr>ho_threads := t # ho_threads w\<rparr>))"

definition host_env :: "(unit, host) handle_env" where
  "host_env = \<lparr>hs_backend = host_backend,
     hs_kernel = \<lparr>k_kill = (\<lambda>_ _. io_ret ()), k_waitpid = (\<lambda>_ _. io_ret StillAlive), k_std_kill = (\<lambda>_. io_ret ()),
       k_std_waitpid = (\<lambda>_ _. io_ret None), k_getpgid = (\<lambda>p. io_ret p), k_getsid = (\<lambda>p. io_ret p)\<rparr>,
     hs_signals = (\<lambda>_. None), hs_describe = (\<lambda>_. []),
     hs_child = ho_child, hs_set_child = (\<lambda>c. ho_child_update (\<lambda>_. c)),
     hs_shared = ho_shared, hs_set_shared = (\<lambda>s. ho_shared_update (\<lambda>_. s)),
     hs_set_shutdown = id, hs_now = (\<lambda>w. (ho_clock w, w)), hs_wait_changed = (\<lambda>n. ho_clock_update (\<lambda>t. t + n)),
     hs_send = (\<lambda>_ w. (True, w)), hs_recv_snapshot = Pair None, hs_recv_observation = Pair None, hs_recv_bytes = Pair None,
     hs_recv_spans = Pair None, hs_recv_events = Pair None, hs_recv_result = Pair None,
     hs_start_worker = (\<lambda>_. host_start), hs_start_reader = (\<lambda>_. host_start),
     hs_join = (\<lambda>t w. (True, w\<lparr>ho_threads := filter (\<lambda>u. u \<noteq> t) (ho_threads w)\<rparr>))\<rparr>"

abbreviation host_threads :: "host \<Rightarrow> thread set" where
  "host_threads w \<equiv> set (ho_threads w)"

lemma foldr_max_le: "x \<in> set xs \<Longrightarrow> x \<le> foldr max xs (0::nat)"
  by (induction xs) auto

lemma host_start_started: "started host_env host_threads w (host_start w)"
proof -
  have "Suc (foldr max (ho_threads w) 0) \<notin> set (ho_threads w)" using foldr_max_le by fastforce
  then show ?thesis by (simp add: started_def host_start_def Let_def others_kept_def host_env_def)
qed

lemma host_env_ok: "host_ok host_env host_threads"
  using host_start_started
  by (auto simp: host_ok_def host_env_def host_backend_def io_ret_def kept_def others_kept_def)

lemma host_env_clock: "clock_ok host_env"
  by (simp add: clock_ok_def clock_def host_env_def)

definition host_world :: host where
  "host_world = \<lparr>ho_child = sh_new host_backend \<lparr>pt_inner = 3, pt_reaped = False\<rparr>, ho_shared = shared_default, ho_threads = [],
     ho_clock = 0\<rparr>"

lemma effective_argv: "sp_argv (effective_params p opts) = sp_argv p"
  by (simp add: effective_params_def sp_env_def Let_def)

lemma host_sel: "hs_shared host_env w = ho_shared w" "hs_now host_env w = (ho_clock w, w)"
  "hs_wait_changed host_env n w = w\<lparr>ho_clock := ho_clock w + n\<rparr>" "ho_shared host_world = shared_default" "ho_clock host_world = 0"
  "sd_outcome shared_default = None" "\<not> sd_closed shared_default"
  by (simp_all add: host_env_def host_world_def shared_default_def)


definition host_session :: pty_session where
  "host_session = \<lparr>ss_ctl = True, ss_worker = Some 1, ss_reader = Some 2, ss_closed = False, ss_pid = Some 77\<rparr>"

lemma close_final_witness:
  "\<exists>s w. session_close host_env host_session host_world = (Inr (), s, w)
    \<and> session_send host_env CtlSnapshot s w = (Inl (PeClosed ''session is closed''), w)
    \<and> fst (session_close host_env s w) = Inr ()"
proof -
  obtain s w where c: "session_close host_env host_session host_world = (Inr (), s, w)"
    by (simp add: session_close_def teardown_def join_threads_def join_thread_def record_failure_def on_shared_def mark_closed_def
        host_session_def Let_def child_kill_def child_wait_def kill_locked_def wait_locked_def pt_kill_def pt_wait_def sh_new_def
        host_env_def host_world_def host_backend_def shared_default_def)
  have "\<not> ss_closed host_session" by (simp add: host_session_def)
  from close_final [OF host_env_ok this c, of CtlSnapshot w] c show ?thesis by auto
qed

lemma wait_outcome_returns_witness:
  "\<exists>w. wait_outcome host_env 10 host_world = Some (Inl (PeTimeout ''child still alive''), w) \<and> 10 \<le> clock host_env w"
proof -
  let ?w = "host_world\<lparr>ho_clock := 10\<rparr>"
  have "wait_outcome_changed host_env 10 host_world = Some ?w"
    by (simp add: wait_outcome_changed.simps [of host_env] host_sel)
  then have "wait_outcome host_env 10 host_world = Some (Inl (PeTimeout ''child still alive''), ?w)"
    by (simp add: wait_outcome.simps [of host_env] host_sel)
  with wait_outcome_returns [OF host_env_clock, of 10 host_world] show ?thesis by auto
qed


end
