(* ===== verification/Spec2Isabelle.thy ===== *)
theory Spec2Isabelle
  imports Feed Snapshot Replay Pty Worker_Complete Pipeline Session_Safety
begin

text \<open>
  \<^bold>\<open>termpane: the terminal grid, its observation and its replay.\<close>

  \<^bold>\<open>The program.\<close> \<open>termpane\<close> keeps the screen of a child program in memory. Bytes from the child go to
  \<open>DamageGrid::process\<close> (\<open>src/src/grid.rs\<close>), which holds back an unfinished UTF-8 sequence and gives the
  rest to the \<open>vte\<close> parser. The parser calls the \<open>Perform\<close> methods (\<open>src/src/grid/perform.rs\<close>), which edit
  the rows of the active screen, the scrollback, the modes and the pen, and record what changed in a
  damage tracker (\<open>src/src/damage.rs\<close>). A consumer reads the grid through snapshots, borrowed views and
  dirty patches (\<open>src/src/snapshot.rs\<close>). A session runs the child on a pseudo-terminal or on pipes
  (\<open>src/src/pty.rs\<close>, \<open>src/src/process.rs\<close>) and gives the grid to a worker thread
  (\<open>src/src/session_worker.rs\<close>), which feeds it the child's output and answers control operations.

  \<^bold>\<open>The theories\<close>, in the order they build on each other:
  \<^item> \<open>Termpane_Prelude\<close>: integers with their widths, panics as \<open>option\<close>, the predicate \<open>ok\<close> (total
    correctness) with its rules, and the parts of the Rust standard library the code uses.
  \<^item> \<open>Utf8\<close>: characters, strings and \<open>from_utf8\<close>.
  \<^item> \<open>Cells\<close> (\<open>cell.rs\<close>), \<open>Widths\<close> (\<open>width.rs\<close>), \<open>Passthrough\<close> (\<open>passthrough.rs\<close>), \<open>Midseq\<close>
    (\<open>grid/midseq.rs\<close>) and \<open>Sgr\<close> (\<open>grid/parse.rs\<close> and \<open>apply_sgr\<close>).
  \<^item> \<open>Damage\<close> (\<open>damage.rs\<close>): the tracker. Its meaning is \<open>covers\<close>; the locale \<open>damage_sink\<close> is the
    contract the grid uses.
  \<^item> \<open>Rows\<close> (\<open>grid/write.rs\<close>, \<open>RowStore\<close> and \<open>RowArena\<close> of \<open>grid.rs\<close>): rows with the invariant \<open>row_ok\<close>
    (wide leads and continuations are paired), the shared arena with the locale \<open>row_allocator\<close>.
  \<^item> \<open>Grid_State\<close>: the record \<open>grid\<close> for \<open>DamageGrid\<close>, its invariant \<open>grid_inv\<close>, construction, resizing,
    modes and reports. \<open>Scrolling\<close>, \<open>Printing\<close>, \<open>Erasing\<close>, \<open>Osc_Strings\<close>: the cell operations of
    \<open>grid.rs\<close>. \<open>step_ok\<close> is what each of them guarantees.
  \<^item> \<open>Perform\<close> (\<open>grid/perform.rs\<close>): every arm of \<open>execute\<close>, \<open>csi_dispatch\<close> and \<open>esc_dispatch\<close>.
  \<^item> \<open>Feed\<close>: \<open>process\<close>, the pending UTF-8 tail and the reachable states of the public interface.
  \<^item> \<open>Snapshot\<close> (\<open>snapshot.rs\<close> and the dumps of \<open>grid.rs\<close>): snapshots, views and patches.
  \<^item> \<open>Serialize\<close> (\<open>grid/serialize.rs\<close>): the writers of the replay bytes, full and as a diff, and \<open>state_eq\<close>.
    \<open>Replay_Calls\<close>: the calls these bytes are read as (\<open>wire\<close>) and their effect on a grid (\<open>sends\<close>);
    \<open>Replay_Paint\<close> and \<open>Replay_Diff\<close>: the full and the differential painters, step by step, over the locale
    \<open>row_painter\<close>, the contract of a painter of one row; \<open>Replay_Modes\<close>: the mode bytes; \<open>Replay\<close>: the contracts of
    the full replay and of the differential one, and a stream of differences.
  \<^item> \<open>Process\<close> (\<open>process.rs\<close>): spawn parameters, the child environment, the program search, the two spawn paths
    and the handle of a piped child; the system is the records \<open>fs\<close>, \<open>kernel\<close> and \<open>spawn_os\<close> of calls. The locale
    \<open>reaping\<close> is the contract of a handle that must not touch a reaped child. \<open>Pty\<close> (\<open>pty.rs\<close>): the same
    over the backend \<open>pty_backend\<close>.
  \<^item> \<open>Observe\<close> (\<open>session_observe.rs\<close>): what an observation holds. \<open>Worker\<close> (\<open>session_worker.rs\<close>): the session
    worker over a \<open>session_env\<close> (the channels, the clock, the writer, the shutdown flag), one function per method,
    \<open>worker_tick\<close> for one turn of its loop and \<open>run_worker\<close> for the thread. \<open>Sync_Frame\<close>: which parser calls
    can change the synchronized-update mode and the cursor style. \<open>Worker_Safety\<close>: the invariant \<open>worker_inv\<close> and
    its preservation. \<open>Worker_Capture\<close>: what the worker promises of the captured output, and that it ends.
    \<open>Worker_Output\<close>: frames, the output log and writes. \<open>Worker_Complete\<close>: a clean end of the stream means a complete
    capture. \<open>Pipeline\<close>: the reader thread over a \<open>reader_env\<close> and the
    bounded queue as a step relation of the two threads' atomic actions (\<open>pipe_step\<close>).
  \<^item> \<open>Session\<close> (\<open>session.rs\<close>, with \<open>StartupGuard\<close> and the waits of \<open>Shared\<close> from \<open>session_worker.rs\<close>): the handle
    over a \<open>handle_env\<close>, one function per method. \<open>Session_Safety\<close>: \<open>host_ok\<close>, what other threads may do
    meanwhile, and the theorems on start, waits and teardown.
  \<^item> This theory: the properties that span the stream and its observation.

  \<^bold>\<open>State.\<close> Every struct is a record whose fields carry a short prefix (\<open>g_\<close> for the grid, \<open>rs_\<close> for
  a row store, \<open>at_\<close> for attributes); every method that takes \<open>&mut self\<close> is a function that returns the
  new record. A method that can panic returns an \<open>option\<close>, \<open>None\<close> being the panic. Loops are structural
  recursion, or \<open>function\<close> with a measure; the loops of the worker and of the blocking waits, which the system may
  keep going for ever, are \<open>partial_function (option)\<close>, whose outer \<open>None\<close> is not returning. No definition uses fuel.

  \<^bold>\<open>Parameters.\<close> The \<open>vte\<close> parser is the argument \<open>adv\<close> of \<open>process\<close>; the tables of \<open>unicode_width\<close> are the
  argument \<open>uw\<close>. No fact about either is assumed, except where a theorem says \<open>stream_parser adv\<close> (the
  parser keeps its state between slices).

  \<^bold>\<open>What is shown.\<close> No public call on a grid of at most \<open>MAX_COLS\<close> columns can panic, and the invariant
  holds in every reachable state (\<open>reachable_total\<close>); the result does not depend on how the bytes are cut
  into chunks (\<open>chunks_irrelevant\<close>); a consumer that repaints the rows of the dirty patches has the
  current screen (\<open>stream_repaint\<close>); the borrowed view and the owned snapshot agree
  (\<open>view_matches_snapshot\<close>); each editing operation does what its escape sequence is meant to do, cell by
  cell, and a wide character is never left half overwritten. The width bound \<open>MAX_COLS\<close> is the largest
  width at which the tab-stop computation does not overflow; \<open>tab_overflows\<close> shows it is sharp.
  The serializer returns on every pair of well-formed grids (\<open>serialize_total\<close>), the pen changes it
  writes are undone exactly by \<open>apply_sgr\<close> (\<open>attrs_diff_roundtrip\<close>), and the comparison of its contract
  is an equivalence (\<open>state_eq_equivalence\<close>). Its full output, performed on a fresh grid, restores the
  state (\<open>replay_contract\<close>), a difference takes any replica of the previous state to the new one (\<open>diff_contract\<close>),
  and a stream of differences keeps a replica in step (\<open>replica_follows\<close>); this is shown for screens of blanks and
  single printable characters (\<open>plain_row\<close>), so grapheme clusters of several characters are not covered by it, and
  for differences between grids of one size.
  A worker never panics and ends with an outcome (\<open>run_worker_safe\<close>); the outcome freezes the capture
  (\<open>outcome_immutable\<close>); a drain is bounded (\<open>drain_bounded\<close>) and a shutdown always ends
  (\<open>shutdown_ends\<close>), the latter two for a reader that sends bounded batches and a clock that advances. A reaped
  child is never addressed again (\<open>reaped_child_untouched\<close>, \<open>session_child_untouched\<close>), a blocking wait returns
  with the first answer that is an end (\<open>detached_wait_returns\<close>), and a child gets the environment, the program
  and the streams that were asked for (\<open>child_environment\<close>, \<open>program_search\<close>, \<open>wired_streams\<close>).
  The output reaches the worker whole and in order (\<open>reader_forwards_stream\<close>, \<open>pipe_exact\<close>), a clean
  end proves the capture complete (\<open>capture_complete\<close>), the frames counted do not depend on the batches
  (\<open>frames_batch_independent\<close>, for a parser that opens sequences by \<open>ESC\<close> only), and a write leaves a prefix in the
  child's input (\<open>write_prefix\<close>). A session that fails to start leaves nothing behind (\<open>spawn_rolls_back\<close>), a wait
  ends by its deadline (\<open>wait_outcome_returns\<close>), and \<open>finish\<close> always cleans up (\<open>finish_cleans_up\<close>).

  \<^bold>\<open>Not modelled.\<close> Locks are not modelled: each operation on the arena, on the shared child and on the rendezvous is one
  critical section, and a spawn is one sequence of calls. Of the system calls, the PTY backend, the channels and the
  threads only the answers enter the model; what other threads do meanwhile is in the system state \<open>'w\<close>, limited by
  named hypotheses (\<open>bounded_reader\<close>, \<open>ticking\<close>, \<open>host_ok\<close>, \<open>clock_ok\<close>). The \<open>Debug\<close> output of the handles, the
  examples and the benchmarks are left out.
\<close>

section \<open>The screen a consumer repaints\<close>

text \<open>
  C2: the damage protocol is complete for a whole stream: when a consumer holds the screen of the last
  drain and \<open>process\<close> runs any bytes whose actions contain no DCH, overwriting the rows of the next
  dirty patch gives exactly the current screen.
\<close>

theorem stream_repaint:
  assumes inv: "grid_inv (dg_grid d)" and run: "process uw adv bs d = Some d'"
    and dch: "\<not> list_ex is_dch (snd (adv (dg_parser d) (fed_prefix (dg_pending_utf8 d @ bs))))"
  shows "apply_rows (changed_rows (fst (dump_dirty_patch (dg_grid d')))) (rs_rows (active_grid (dg_grid d)))
    = rs_rows (active_grid (dg_grid d'))"
proof -
  have "action_ok False (dg_grid d) (dg_grid d')"
    using process_action [OF inv, of uw adv bs] run dch by simp
  then show ?thesis by (intro patch_repaints [OF inv]) (simp_all add: action_ok_def)
qed

lemma stream_repaint_witness:
  "\<exists>d'. process example_width print_all (bytes ''hi'') (damage_grid_new () 3 4 2 []) = Some d'
     \<and> apply_rows (changed_rows (fst (dump_dirty_patch (dg_grid d')))) (replicate 3 (blank_row 4)) = rs_rows (active_grid (dg_grid d'))"
proof -
  let ?d = "damage_grid_new () 3 4 2 []"
  have inv: "grid_inv (dg_grid ?d)"
    by (simp add: damage_grid_new_def with_row_arena_inv u16_max_def MAX_COLS_def arena_inv_def)
  from process_ok [OF this, of example_width print_all "bytes ''hi''"] obtain d'
    where d': "process example_width print_all (bytes ''hi'') ?d = Some d'" by (auto simp: ok_iff_ex)
  have "rs_rows (active_grid (dg_grid ?d)) = replicate 3 (blank_row 4)"
    by (simp add: damage_grid_new_def with_row_arena_def make_blank_grid_def rs_blank_def active_grid_def has_flag_def
        split_beta Let_def pool.alloc_rows_blank)
  moreover have "\<not> list_ex is_dch (snd (print_all p cs))" for p cs by (simp add: print_all_def is_dch_def list_ex_iff)
  ultimately show ?thesis using stream_repaint [OF inv d'] d' by simp
qed

end
